(* ===== verification/Prelude.thy ===== *)
theory Prelude
  imports Main "HOL-Library.Monad_Syntax" "HOL-Library.Word"
begin

unbundle bit_operations_syntax

text \<open>
  Prelude of the development: the names shared by every theory (pointer-sized words,
  the error values of the modelled code), the interface of a comparator
  (\<open>strict_weak\<close>), and generic lemmas on the option monad, on lists and on words.

  Conventions.  A computation that can have undefined behaviour, fail a
  \<open>QASSERT\<close>, or not return is a value of \<open>'a option\<close>; \<^const>\<open>None\<close>
  stands for all three, so an equation \<open>f x = Some y\<close> says that the code
  returns and that every pointer it follows is live.  A C++ exception is a value
  \<open>Inl\<close> of a sum, returned together with the state the handler sees.
\<close>

section \<open>Machine types\<close>

type_synonym u8 = "8 word"
type_synonym u16 = "16 word"
type_synonym u32 = "32 word"
type_synonym u64 = "64 word"

text \<open>A pointer is a 64-bit word; \<open>nullptr\<close> is 0.\<close>

type_synonym addr = "64 word"

abbreviation nullptr :: addr where "nullptr \<equiv> 0"

text \<open>An address of the analysed program: \<open>ea_t\<close> of 64-bit IDA.\<close>

type_synonym ea = u64

abbreviation BADADDR :: ea where "BADADDR \<equiv> - 1"

section \<open>Exceptions\<close>

datatype exn =
    Bad_alloc          \<comment> \<open>\<open>std::bad_alloc\<close>, from \<open>qallocator::allocate\<close>\<close>
  | Value_throw        \<comment> \<open>an exception of a constructor of the payload type\<close>
  | Out_of_range       \<comment> \<open>\<open>std::out_of_range\<close>, from \<open>qmap::at\<close>\<close>

section \<open>Automation collections\<close>

named_theorems heap_simps "reading and writing one field of one heap cell"
named_theorems frame_simps "heap predicates under updates outside their footprint"
named_theorems run_simps "unfolding equations of the modelled loops"

section \<open>The option monad\<close>

definition guard :: "bool \<Rightarrow> unit option" where
  "guard b = (if b then Some () else None)"

lemma guard_simps [simp]:
  "guard True = Some ()"
  "guard False = None"
  by (simp_all add: guard_def)

lemma guard_eq_Some [simp]: "guard b = Some u \<longleftrightarrow> b"
  by (simp add: guard_def)

lemma bind_split_asm_Some:
  "Option.bind x f = Some y \<longleftrightarrow> (\<exists>a. x = Some a \<and> f a = Some y)"
  by (cases x) auto

text \<open>
  Evaluating a program stepwise: with this congruence the simplifier reduces the first
  action of a \<open>do\<close> block before it looks at the rest, so the unfolding equation of a
  loop is only used where the loop is reached.
\<close>

lemma bind_first_cong: "x = y \<Longrightarrow> Option.bind x f = Option.bind y f"
  by simp

section \<open>Comparators\<close>

text \<open>
  The containers take a comparator as a template parameter and require a strict weak
  ordering, as \<open>std::map\<close> does.  \<open>equiv x y\<close> is the equivalence the
  containers identify keys by: neither key is less than the other.
\<close>

locale strict_weak =
  fixes lt :: "'k \<Rightarrow> 'k \<Rightarrow> bool"
  assumes irrefl: "\<not> lt x x"
    and trans: "lt x y \<Longrightarrow> lt y z \<Longrightarrow> lt x z"
    and incomp_trans: "\<not> lt x y \<Longrightarrow> \<not> lt y x \<Longrightarrow> \<not> lt y z \<Longrightarrow> \<not> lt z y \<Longrightarrow> \<not> lt x z \<and> \<not> lt z x"
begin

lemma asym: "lt x y \<Longrightarrow> \<not> lt y x"
  using irrefl trans by blast

lemma not_lt_trans: "\<not> lt x y \<Longrightarrow> \<not> lt y z \<Longrightarrow> \<not> lt x z"
  by (meson incomp_trans trans)

lemma lt_not_lt_trans: "lt x y \<Longrightarrow> \<not> lt z y \<Longrightarrow> lt x z"
  using not_lt_trans by blast

lemma not_lt_lt_trans: "\<not> lt y x \<Longrightarrow> lt y z \<Longrightarrow> lt x z"
  using not_lt_trans by blast

text \<open>A sorted list is split by a key into the smaller, the equivalent and the greater.\<close>

lemma sorted_wrt_before:
  assumes "sorted_wrt lt (xs @ y # ys)" "x \<in> set xs" "\<not> lt k y"
  shows "lt x k"
proof -
  have "lt x y" using assms(1,2) by (simp add: sorted_wrt_append)
  then show ?thesis using assms(3) by (rule lt_not_lt_trans)
qed

lemma sorted_wrt_after:
  assumes "sorted_wrt lt (xs @ y # ys)" "z \<in> set ys" "\<not> lt y k"
  shows "lt k z"
proof -
  have "lt y z" using assms(1,2) by (simp add: sorted_wrt_append)
  with assms(3) show ?thesis by (rule not_lt_lt_trans)
qed

lemma sorted_wrt_insert:
  assumes "sorted_wrt lt (xs @ ys)" "\<forall>x\<in>set xs. lt x k" "\<forall>y\<in>set ys. lt k y"
  shows "sorted_wrt lt (xs @ k # ys)"
proof -
  have "lt x y" if "x \<in> set xs" "y \<in> set ys" for x y
    using assms(2,3) that trans by blast
  then show ?thesis using assms by (simp add: sorted_wrt_append)
qed

lemma sorted_wrt_delete:
  assumes "sorted_wrt lt (xs @ y # ys)"
  shows "sorted_wrt lt (xs @ ys)"
  using assms by (auto simp: sorted_wrt_append)

lemma sorted_wrt_distinct: "sorted_wrt lt xs \<Longrightarrow> distinct xs"
  by (induction xs) (auto simp: irrefl)

end

text \<open>\<open>std::less\<close> on the unsigned and signed integers the modelled code keys its maps by.\<close>

lemma strict_weak_linorder: "strict_weak ((<) :: 'a::linorder \<Rightarrow> 'a \<Rightarrow> bool)"
  by unfold_locales auto

interpretation ea_less: strict_weak "(<) :: u64 \<Rightarrow> u64 \<Rightarrow> bool"
  by (rule strict_weak_linorder)

section \<open>Words\<close>

lemma unat_and_mask: "unat ((x :: 'a::len word) AND mask k) = unat x mod 2 ^ k"
proof -
  have "unat (x AND mask k) = take_bit k (unat x)" by (simp only: take_bit_eq_mask [symmetric] unsigned_take_bit_eq)
  then show ?thesis by (simp add: take_bit_eq_mod)
qed

lemma and_add_and_not: "(a AND m) + (a AND NOT m) = (a :: 'a::len word)"
proof -
  have "(a AND m) AND (a AND NOT m) = 0" "(a AND m) OR (a AND NOT m) = a"
    by (auto intro!: bit_word_eqI simp: bit_simps)
  then show ?thesis using word_plus_and_or [of "a AND m" "a AND NOT m"] by simp
qed

end
