(* ===== verification/QNode.thy ===== *)
theory QNode
  imports Prelude
begin

text \<open>
  Nodes of the red-black tree of \<open>src/src/include/qtree.hpp\<close>: the heap the
  nodes live in, the field accessors, and the two memory layouts of a node
  (\<open>qtree_node_unpacked\<close> and \<open>qtree_node_packed\<close>), with the interface
  \<open>node_layout\<close> that the tree algorithms rely on.
\<close>

section \<open>Nodes and the heap\<close>

datatype color = Red | Black

lemma not_Black [simp]: "c \<noteq> Black \<longleftrightarrow> c = Red"
  by (cases c) auto

lemma not_Red [simp]: "c \<noteq> Red \<longleftrightarrow> c = Black"
  by (cases c) auto

text \<open>
  The fields of a node.  The payload is raw storage in the code: \<^const>\<open>None\<close> is
  storage in which no \<open>Value\<close> has been constructed.
\<close>

record 'v qnode =
  n_parent :: addr
  n_left :: addr
  n_right :: addr
  n_color :: color
  n_nil :: bool
  n_val :: "'v option"

text \<open>Default member initialisers of a node.\<close>

definition blank_node :: "'v qnode" where
  "blank_node = \<lparr>n_parent = nullptr, n_left = nullptr, n_right = nullptr,
     n_color = Black, n_nil = True, n_val = None\<rparr>"

text \<open>The heap: a live node at each allocated address.  Nothing lives at \<open>nullptr\<close>.\<close>

type_synonym 'v heap = "addr \<Rightarrow> 'v qnode option"

subsection \<open>Field access\<close>

text \<open>Reading or writing through a pointer that is not live is \<^const>\<open>None\<close>.\<close>

definition left :: "'v heap \<Rightarrow> addr \<Rightarrow> addr option" where
  "left h p = map_option n_left (h p)"

definition right :: "'v heap \<Rightarrow> addr \<Rightarrow> addr option" where
  "right h p = map_option n_right (h p)"

definition parent :: "'v heap \<Rightarrow> addr \<Rightarrow> addr option" where
  "parent h p = map_option n_parent (h p)"

definition color :: "'v heap \<Rightarrow> addr \<Rightarrow> color option" where
  "color h p = map_option n_color (h p)"

definition is_nil :: "'v heap \<Rightarrow> addr \<Rightarrow> bool option" where
  "is_nil h p = map_option n_nil (h p)"

text \<open>\<open>value_ptr\<close> launders the storage: reading storage with no \<open>Value\<close> is undefined.\<close>

definition node_val :: "'v heap \<Rightarrow> addr \<Rightarrow> 'v option" where
  "node_val h p = Option.bind (h p) n_val"

definition upd_node :: "'v heap \<Rightarrow> addr \<Rightarrow> ('v qnode \<Rightarrow> 'v qnode) \<Rightarrow> 'v heap option" where
  "upd_node h p f = map_option (\<lambda>n. h(p \<mapsto> f n)) (h p)"

definition set_left :: "'v heap \<Rightarrow> addr \<Rightarrow> addr \<Rightarrow> 'v heap option" where
  "set_left h p x = upd_node h p (n_left_update (\<lambda>_. x))"

definition set_right :: "'v heap \<Rightarrow> addr \<Rightarrow> addr \<Rightarrow> 'v heap option" where
  "set_right h p x = upd_node h p (n_right_update (\<lambda>_. x))"

definition set_parent :: "'v heap \<Rightarrow> addr \<Rightarrow> addr \<Rightarrow> 'v heap option" where
  "set_parent h p x = upd_node h p (n_parent_update (\<lambda>_. x))"

definition set_color :: "'v heap \<Rightarrow> addr \<Rightarrow> color \<Rightarrow> 'v heap option" where
  "set_color h p c = upd_node h p (n_color_update (\<lambda>_. c))"

definition set_is_nil :: "'v heap \<Rightarrow> addr \<Rightarrow> bool \<Rightarrow> 'v heap option" where
  "set_is_nil h p b = upd_node h p (n_nil_update (\<lambda>_. b))"

definition set_val :: "'v heap \<Rightarrow> addr \<Rightarrow> 'v option \<Rightarrow> 'v heap option" where
  "set_val h p v = upd_node h p (n_val_update (\<lambda>_. v))"

lemma read_simps [heap_simps]:
  "h p = Some n \<Longrightarrow> left h p = Some (n_left n)"
  "h p = Some n \<Longrightarrow> right h p = Some (n_right n)"
  "h p = Some n \<Longrightarrow> parent h p = Some (n_parent n)"
  "h p = Some n \<Longrightarrow> color h p = Some (n_color n)"
  "h p = Some n \<Longrightarrow> is_nil h p = Some (n_nil n)"
  "h p = Some n \<Longrightarrow> node_val h p = n_val n"
  by (simp_all add: left_def right_def parent_def color_def is_nil_def node_val_def)

lemma write_simps [heap_simps]:
  "h p = Some n \<Longrightarrow> set_left h p x = Some (h(p \<mapsto> n\<lparr>n_left := x\<rparr>))"
  "h p = Some n \<Longrightarrow> set_right h p x = Some (h(p \<mapsto> n\<lparr>n_right := x\<rparr>))"
  "h p = Some n \<Longrightarrow> set_parent h p x = Some (h(p \<mapsto> n\<lparr>n_parent := x\<rparr>))"
  "h p = Some n \<Longrightarrow> set_color h p c = Some (h(p \<mapsto> n\<lparr>n_color := c\<rparr>))"
  "h p = Some n \<Longrightarrow> set_is_nil h p b = Some (h(p \<mapsto> n\<lparr>n_nil := b\<rparr>))"
  "h p = Some n \<Longrightarrow> set_val h p v = Some (h(p \<mapsto> n\<lparr>n_val := v\<rparr>))"
  by (simp_all add: set_left_def set_right_def set_parent_def set_color_def
      set_is_nil_def set_val_def upd_node_def)

text \<open>A nil pointer counts as black, and its children are never looked at.\<close>

definition node_color :: "'v heap \<Rightarrow> addr \<Rightarrow> color option" where
  "node_color h p = do { b \<leftarrow> is_nil h p; if b then Some Black else color h p }"

definition left_color :: "'v heap \<Rightarrow> addr \<Rightarrow> color option" where
  "left_color h p = do { b \<leftarrow> is_nil h p; if b then Some Black else do { l \<leftarrow> left h p; node_color h l } }"

definition right_color :: "'v heap \<Rightarrow> addr \<Rightarrow> color option" where
  "right_color h p = do { b \<leftarrow> is_nil h p; if b then Some Black else do { r \<leftarrow> right h p; node_color h r } }"

end
