(* ===== verification/QTree.thy ===== *)
theory QTree
  imports QNode
begin

text \<open>
  The red-black tree \<open>qtree\<close> of \<open>src/src/include/qtree.hpp\<close>, member function
  by member function, over the pointer heap of \<open>QNode\<close>.  The tree owns a header
  node (the shared nil sentinel, which also caches root, minimum and maximum) and a
  node count; both are the record \<open>qtree\<close>.

  Parameters that stand for code outside the container: \<open>lt\<close> and \<open>ks\<close> are the
  template arguments \<open>Compare\<close> and \<open>KeySelector\<close>; \<open>alloc\<close> is the allocation policy
  (the address it hands out in the current heap, or \<^const>\<open>None\<close> when it is out of
  memory); a \<open>builder\<close> is the payload the placement-new constructs, \<^const>\<open>None\<close> when
  that constructor throws; \<open>cp\<close> is the copy constructor of the payload.
\<close>

record qtree =
  t_header :: addr
  t_count :: nat

definition qtree_empty :: qtree where
  "qtree_empty = \<lparr>t_header = nullptr, t_count = 0\<rparr>"

type_synonym 'v allocator = "'v heap \<Rightarrow> addr option"

section \<open>Allocation\<close>

definition node_new :: "'v allocator \<Rightarrow> 'v heap \<Rightarrow> exn + (addr \<times> 'v heap)" where
  "node_new alloc h = (case alloc h of None \<Rightarrow> Inl Bad_alloc | Some a \<Rightarrow> Inr (a, h(a \<mapsto> blank_node)))"

definition node_delete :: "'v heap \<Rightarrow> addr \<Rightarrow> 'v heap option" where
  "node_delete h p = (if p = nullptr then Some h
     else case h p of None \<Rightarrow> None | Some _ \<Rightarrow> Some (h(p := None)))"

definition destroy_value :: "'v heap \<Rightarrow> addr \<Rightarrow> 'v heap option" where
  "destroy_value h p = do {
     b \<leftarrow> is_nil h p;
     if \<not> b then do {
       v \<leftarrow> node_val h p;
       h \<leftarrow> set_val h p None;
       set_is_nil h p True }
     else Some h }"

definition init_header :: "'v heap \<Rightarrow> addr \<Rightarrow> 'v heap option" where
  "init_header h hdr = do {
     h \<leftarrow> set_parent h hdr hdr;
     h \<leftarrow> set_left h hdr hdr;
     h \<leftarrow> set_right h hdr hdr;
     h \<leftarrow> set_color h hdr Black;
     set_is_nil h hdr True }"

definition allocate_header :: "'v allocator \<Rightarrow> 'v heap \<Rightarrow> (exn + (addr \<times> 'v heap)) option" where
  "allocate_header alloc h = (case node_new alloc h of
     Inl e \<Rightarrow> Some (Inl e)
   | Inr (a, h) \<Rightarrow> do {
       h \<leftarrow> set_parent h a a;
       h \<leftarrow> set_left h a a;
       h \<leftarrow> set_right h a a;
       h \<leftarrow> set_color h a Black;
       h \<leftarrow> set_is_nil h a True;
       Some (Inr (a, h)) })"

definition ensure_header :: "'v allocator \<Rightarrow> 'v heap \<Rightarrow> qtree \<Rightarrow> ((exn + unit) \<times> 'v heap \<times> qtree) option" where
  "ensure_header alloc h T =
     (if t_header T = nullptr then do {
        r \<leftarrow> allocate_header alloc h;
        case r of
          Inl e \<Rightarrow> Some (Inl e, h, T)
        | Inr (a, h) \<Rightarrow> do {
            h \<leftarrow> init_header h a;
            Some (Inr (), h, T\<lparr>t_header := a\<rparr>) } }
      else Some (Inr (), h, T))"

section \<open>Walking the tree\<close>

definition root :: "'v heap \<Rightarrow> qtree \<Rightarrow> addr option" where
  "root h T = (if t_header T = nullptr then Some nullptr else parent h (t_header T))"

partial_function (option) minimum_loop :: "'v heap \<Rightarrow> addr \<Rightarrow> addr option" where
  "minimum_loop h node = do {
     l \<leftarrow> left h node;
     b \<leftarrow> is_nil h l;
     if \<not> b then minimum_loop h l else Some node }"

definition minimum :: "'v heap \<Rightarrow> addr \<Rightarrow> addr option" where
  "minimum h node = do { b \<leftarrow> is_nil h node; guard (\<not> b); minimum_loop h node }"

partial_function (option) maximum_loop :: "'v heap \<Rightarrow> addr \<Rightarrow> addr option" where
  "maximum_loop h node = do {
     r \<leftarrow> right h node;
     b \<leftarrow> is_nil h r;
     if \<not> b then maximum_loop h r else Some node }"

definition maximum :: "'v heap \<Rightarrow> addr \<Rightarrow> addr option" where
  "maximum h node = do { b \<leftarrow> is_nil h node; guard (\<not> b); maximum_loop h node }"

partial_function (option) successor_climb :: "'v heap \<Rightarrow> addr \<Rightarrow> addr \<Rightarrow> addr option" where
  "successor_climb h node parent_node = do {
     b \<leftarrow> is_nil h parent_node;
     if b then Some parent_node
     else do {
       r \<leftarrow> right h parent_node;
       if node = r then do { pp \<leftarrow> parent h parent_node; successor_climb h parent_node pp }
       else Some parent_node } }"

definition successor :: "'v heap \<Rightarrow> addr \<Rightarrow> addr option" where
  "successor h node = do {
     b \<leftarrow> is_nil h node;
     if b then Some node
     else do {
       r \<leftarrow> right h node;
       rb \<leftarrow> is_nil h r;
       if \<not> rb then minimum h r
       else do { p \<leftarrow> parent h node; successor_climb h node p } } }"

partial_function (option) predecessor_climb :: "'v heap \<Rightarrow> addr \<Rightarrow> addr \<Rightarrow> addr option" where
  "predecessor_climb h node parent_node = do {
     b \<leftarrow> is_nil h parent_node;
     if b then Some parent_node
     else do {
       l \<leftarrow> left h parent_node;
       if node = l then do { pp \<leftarrow> parent h parent_node; predecessor_climb h parent_node pp }
       else Some parent_node } }"

definition predecessor :: "'v heap \<Rightarrow> addr \<Rightarrow> addr option" where
  "predecessor h node = do {
     b \<leftarrow> is_nil h node;
     if b then Some node
     else do {
       l \<leftarrow> left h node;
       lb \<leftarrow> is_nil h l;
       if \<not> lb then maximum h l
       else do { p \<leftarrow> parent h node; predecessor_climb h node p } } }"

definition prev_including_header :: "'v heap \<Rightarrow> addr \<Rightarrow> addr option" where
  "prev_including_header h node = do {
     b \<leftarrow> is_nil h node;
     if b then right h node else predecessor h node }"

subsection \<open>Iterators\<close>

text \<open>An iterator is the pointer to its node; the header is \<open>end()\<close>.\<close>

definition begin_iter :: "'v heap \<Rightarrow> qtree \<Rightarrow> addr option" where
  "begin_iter h T = (if t_header T = nullptr \<or> t_count T = 0 then Some (t_header T)
     else left h (t_header T))"

definition end_iter :: "qtree \<Rightarrow> addr" where
  "end_iter T = t_header T"

definition iter_next :: "'v heap \<Rightarrow> addr \<Rightarrow> addr option" where
  "iter_next h it = successor h it"

definition iter_prev :: "'v heap \<Rightarrow> addr \<Rightarrow> addr option" where
  "iter_prev h it = prev_including_header h it"

definition reverse_deref :: "'v heap \<Rightarrow> addr \<Rightarrow> 'v option" where
  "reverse_deref h it = do { tmp \<leftarrow> iter_prev h it; node_val h tmp }"

section \<open>Rotations\<close>

definition rotate_left :: "'v heap \<Rightarrow> addr \<Rightarrow> addr \<Rightarrow> 'v heap option" where
  "rotate_left h hdr node = do {
     right_node \<leftarrow> right h node;
     nb \<leftarrow> is_nil h right_node;
     guard (\<not> nb);
     rl \<leftarrow> left h right_node;
     h \<leftarrow> set_right h node rl;
     rl \<leftarrow> left h right_node;
     rlb \<leftarrow> is_nil h rl;
     h \<leftarrow> (if \<not> rlb then set_parent h rl node else Some h);
     p \<leftarrow> parent h node;
     h \<leftarrow> set_parent h right_node p;
     p \<leftarrow> parent h node;
     h \<leftarrow> (if p = hdr then set_parent h hdr right_node
          else do {
            pl \<leftarrow> left h p;
            if node = pl then set_left h p right_node else set_right h p right_node });
     h \<leftarrow> set_left h right_node node;
     set_parent h node right_node }"

definition rotate_right :: "'v heap \<Rightarrow> addr \<Rightarrow> addr \<Rightarrow> 'v heap option" where
  "rotate_right h hdr node = do {
     left_node \<leftarrow> left h node;
     nb \<leftarrow> is_nil h left_node;
     guard (\<not> nb);
     lr \<leftarrow> right h left_node;
     h \<leftarrow> set_left h node lr;
     lr \<leftarrow> right h left_node;
     lrb \<leftarrow> is_nil h lr;
     h \<leftarrow> (if \<not> lrb then set_parent h lr node else Some h);
     p \<leftarrow> parent h node;
     h \<leftarrow> set_parent h left_node p;
     p \<leftarrow> parent h node;
     h \<leftarrow> (if p = hdr then set_parent h hdr left_node
          else do {
            pr \<leftarrow> right h p;
            if node = pr then set_right h p left_node else set_left h p left_node });
     h \<leftarrow> set_right h left_node node;
     set_parent h node left_node }"

section \<open>Lookup\<close>

partial_function (option) find_loop ::
  "('k \<Rightarrow> 'k \<Rightarrow> bool) \<Rightarrow> ('v \<Rightarrow> 'k) \<Rightarrow> 'v heap \<Rightarrow> addr \<Rightarrow> 'k \<Rightarrow> addr \<Rightarrow> addr option" where
  "find_loop lt ks h hdr key node = do {
     b \<leftarrow> is_nil h node;
     if b then Some hdr
     else do {
       v \<leftarrow> node_val h node;
       if lt key (ks v) then do { l \<leftarrow> left h node; find_loop lt ks h hdr key l }
       else if lt (ks v) key then do { r \<leftarrow> right h node; find_loop lt ks h hdr key r }
       else Some node } }"

definition find_node ::
  "('k \<Rightarrow> 'k \<Rightarrow> bool) \<Rightarrow> ('v \<Rightarrow> 'k) \<Rightarrow> 'v heap \<Rightarrow> qtree \<Rightarrow> 'k \<Rightarrow> addr option" where
  "find_node lt ks h T key = do {
     node \<leftarrow> root h T;
     if node = nullptr then Some node
     else find_loop lt ks h (t_header T) key node }"

partial_function (option) lower_bound_loop ::
  "('k \<Rightarrow> 'k \<Rightarrow> bool) \<Rightarrow> ('v \<Rightarrow> 'k) \<Rightarrow> 'v heap \<Rightarrow> 'k \<Rightarrow> addr \<Rightarrow> addr \<Rightarrow> addr option" where
  "lower_bound_loop lt ks h key result node = do {
     b \<leftarrow> is_nil h node;
     if b then Some result
     else do {
       v \<leftarrow> node_val h node;
       if \<not> lt (ks v) key then do { l \<leftarrow> left h node; lower_bound_loop lt ks h key node l }
       else do { r \<leftarrow> right h node; lower_bound_loop lt ks h key result r } } }"

definition lower_bound_node ::
  "('k \<Rightarrow> 'k \<Rightarrow> bool) \<Rightarrow> ('v \<Rightarrow> 'k) \<Rightarrow> 'v heap \<Rightarrow> qtree \<Rightarrow> 'k \<Rightarrow> addr option" where
  "lower_bound_node lt ks h T key = do {
     node \<leftarrow> root h T;
     if node = nullptr then Some node
     else lower_bound_loop lt ks h key (t_header T) node }"

partial_function (option) upper_bound_loop ::
  "('k \<Rightarrow> 'k \<Rightarrow> bool) \<Rightarrow> ('v \<Rightarrow> 'k) \<Rightarrow> 'v heap \<Rightarrow> 'k \<Rightarrow> addr \<Rightarrow> addr \<Rightarrow> addr option" where
  "upper_bound_loop lt ks h key result node = do {
     b \<leftarrow> is_nil h node;
     if b then Some result
     else do {
       v \<leftarrow> node_val h node;
       if lt key (ks v) then do { l \<leftarrow> left h node; upper_bound_loop lt ks h key node l }
       else do { r \<leftarrow> right h node; upper_bound_loop lt ks h key result r } } }"

definition upper_bound_node ::
  "('k \<Rightarrow> 'k \<Rightarrow> bool) \<Rightarrow> ('v \<Rightarrow> 'k) \<Rightarrow> 'v heap \<Rightarrow> qtree \<Rightarrow> 'k \<Rightarrow> addr option" where
  "upper_bound_node lt ks h T key = do {
     node \<leftarrow> root h T;
     if node = nullptr then Some node
     else upper_bound_loop lt ks h key (t_header T) node }"

definition find_iter ::
  "('k \<Rightarrow> 'k \<Rightarrow> bool) \<Rightarrow> ('v \<Rightarrow> 'k) \<Rightarrow> 'v heap \<Rightarrow> qtree \<Rightarrow> 'k \<Rightarrow> addr option" where
  "find_iter lt ks h T key = find_node lt ks h T key"

definition contains ::
  "('k \<Rightarrow> 'k \<Rightarrow> bool) \<Rightarrow> ('v \<Rightarrow> 'k) \<Rightarrow> 'v heap \<Rightarrow> qtree \<Rightarrow> 'k \<Rightarrow> bool option" where
  "contains lt ks h T key = do { n \<leftarrow> find_node lt ks h T key; Some (n \<noteq> t_header T) }"

definition count ::
  "('k \<Rightarrow> 'k \<Rightarrow> bool) \<Rightarrow> ('v \<Rightarrow> 'k) \<Rightarrow> 'v heap \<Rightarrow> qtree \<Rightarrow> 'k \<Rightarrow> nat option" where
  "count lt ks h T key = do { b \<leftarrow> contains lt ks h T key; Some (if b then 1 else 0) }"

definition equal_range ::
  "('k \<Rightarrow> 'k \<Rightarrow> bool) \<Rightarrow> ('v \<Rightarrow> 'k) \<Rightarrow> 'v heap \<Rightarrow> qtree \<Rightarrow> 'k \<Rightarrow> (addr \<times> addr) option" where
  "equal_range lt ks h T key = do {
     l \<leftarrow> lower_bound_node lt ks h T key;
     u \<leftarrow> upper_bound_node lt ks h T key;
     Some (l, u) }"

section \<open>Insertion\<close>

definition keys_equal :: "('k \<Rightarrow> 'k \<Rightarrow> bool) \<Rightarrow> 'k \<Rightarrow> 'k \<Rightarrow> bool" where
  "keys_equal lt l r \<longleftrightarrow> \<not> lt l r \<and> \<not> lt r l"

text \<open>
  \<open>find_insert_position\<close> returns the existing node (or \<open>nullptr\<close>) and sets its two
  reference arguments; the result is the triple (existing, parent, go-left).
\<close>

partial_function (option) find_insert_loop ::
  "('k \<Rightarrow> 'k \<Rightarrow> bool) \<Rightarrow> ('v \<Rightarrow> 'k) \<Rightarrow> 'v heap \<Rightarrow> 'k \<Rightarrow> addr \<Rightarrow> addr \<Rightarrow> bool \<Rightarrow> (addr \<times> addr \<times> bool) option" where
  "find_insert_loop lt ks h key node parent_node go_left = do {
     b \<leftarrow> is_nil h node;
     if b then Some (nullptr, parent_node, go_left)
     else do {
       v \<leftarrow> node_val h node;
       if lt key (ks v) then do { l \<leftarrow> left h node; find_insert_loop lt ks h key l node True }
       else if lt (ks v) key then do { r \<leftarrow> right h node; find_insert_loop lt ks h key r node False }
       else Some (node, node, go_left) } }"

definition find_insert_position ::
  "('k \<Rightarrow> 'k \<Rightarrow> bool) \<Rightarrow> ('v \<Rightarrow> 'k) \<Rightarrow> 'v heap \<Rightarrow> qtree \<Rightarrow> 'k \<Rightarrow> (addr \<times> addr \<times> bool) option" where
  "find_insert_position lt ks h T key = do {
     node \<leftarrow> root h T;
     find_insert_loop lt ks h key node (t_header T) True }"

text \<open>
  \<open>try_hint_insert\<close> returns whether the hint was usable, with its three reference
  arguments (parent, go-left, existing).
\<close>

definition try_hint_insert ::
  "('k \<Rightarrow> 'k \<Rightarrow> bool) \<Rightarrow> ('v \<Rightarrow> 'k) \<Rightarrow> 'v heap \<Rightarrow> qtree \<Rightarrow> 'k \<Rightarrow> addr \<Rightarrow> (bool \<times> addr \<times> bool \<times> addr) option" where
  "try_hint_insert lt ks h T key hint_node = (let hdr = t_header T in
     if hint_node = nullptr then Some (False, hdr, True, nullptr)
     else if t_count T = 0 then Some (True, hdr, True, nullptr)
     else if hint_node = hdr then do {
       max_node \<leftarrow> right h hdr;
       mb \<leftarrow> is_nil h max_node;
       if mb then Some (True, hdr, True, nullptr)
       else do {
         v \<leftarrow> node_val h max_node;
         if lt (ks v) key then Some (True, max_node, False, nullptr)
         else if keys_equal lt (ks v) key then Some (True, hdr, True, max_node)
         else Some (False, hdr, True, nullptr) } }
     else do {
       v \<leftarrow> node_val h hint_node;
       if keys_equal lt (ks v) key then Some (True, hdr, True, hint_node)
       else if lt key (ks v) then do {
         prev \<leftarrow> predecessor h hint_node;
         ok \<leftarrow> (if prev = hdr then Some True else do { pv \<leftarrow> node_val h prev; Some (lt (ks pv) key) });
         if ok then do {
           hl \<leftarrow> left h hint_node;
           hlb \<leftarrow> is_nil h hl;
           if hlb then Some (True, hint_node, True, nullptr)
           else do {
             attach \<leftarrow> (if prev \<noteq> hdr then do { pr \<leftarrow> right h prev; is_nil h pr } else Some False);
             if attach then Some (True, prev, False, nullptr) else Some (False, hdr, True, nullptr) } }
         else Some (False, hdr, True, nullptr) }
       else do {
         nxt \<leftarrow> successor h hint_node;
         ok \<leftarrow> (if nxt = hdr then Some True else do { nv \<leftarrow> node_val h nxt; Some (lt key (ks nv)) });
         if ok then do {
           hr \<leftarrow> right h hint_node;
           hrb \<leftarrow> is_nil h hr;
           if hrb then Some (True, hint_node, False, nullptr)
           else do {
             attach \<leftarrow> (if nxt \<noteq> hdr then do { nl \<leftarrow> left h nxt; is_nil h nl } else Some False);
             if attach then Some (True, nxt, True, nullptr) else Some (False, hdr, True, nullptr) } }
         else Some (False, hdr, True, nullptr) } })"

end
