(* ===== verification/QTreeUpdate.thy ===== *)
theory QTreeUpdate
  imports QTree
begin

text \<open>
  The mutating half of \<open>qtree\<close> (\<open>src/src/include/qtree.hpp\<close>): insertion with
  its fixup, removal with its fixup, clearing, copying, and the operations built on them.
  Every loop is a \<open>partial_function\<close> in the option monad, so nothing about its
  termination is assumed here.
\<close>

section \<open>Insertion\<close>

text \<open>The loop test \<open>!is_nil(parent(node)) && color(parent(node)) == Red\<close>.\<close>

definition parent_is_red :: "'v heap \<Rightarrow> addr \<Rightarrow> bool option" where
  "parent_is_red h node = do {
     p \<leftarrow> parent h node;
     b \<leftarrow> is_nil h p;
     if b then Some False
     else do { p \<leftarrow> parent h node; c \<leftarrow> color h p; Some (c = Red) } }"

partial_function (option) insert_fixup_loop :: "'v heap \<Rightarrow> addr \<Rightarrow> addr \<Rightarrow> 'v heap option" where
  "insert_fixup_loop h hdr node = do {
     red \<leftarrow> parent_is_red h node;
     if \<not> red then Some h
     else do {
       parent_node \<leftarrow> parent h node;
       grand \<leftarrow> parent h parent_node;
       gl \<leftarrow> left h grand;
       if parent_node = gl then do {
         uncle \<leftarrow> right h grand;
         uc \<leftarrow> node_color h uncle;
         if uc = Red then do {
           h \<leftarrow> set_color h parent_node Black;
           h \<leftarrow> set_color h uncle Black;
           h \<leftarrow> set_color h grand Red;
           insert_fixup_loop h hdr grand }
         else do {
           pr \<leftarrow> right h parent_node;
           if node = pr then do {
             h \<leftarrow> rotate_left h hdr parent_node;
             parent_node' \<leftarrow> parent h parent_node;
             grand' \<leftarrow> parent h parent_node';
             h \<leftarrow> set_color h parent_node' Black;
             h \<leftarrow> set_color h grand' Red;
             h \<leftarrow> rotate_right h hdr grand';
             insert_fixup_loop h hdr parent_node }
           else do {
             h \<leftarrow> set_color h parent_node Black;
             h \<leftarrow> set_color h grand Red;
             h \<leftarrow> rotate_right h hdr grand;
             insert_fixup_loop h hdr node } } }
       else do {
         uncle \<leftarrow> left h grand;
         uc \<leftarrow> node_color h uncle;
         if uc = Red then do {
           h \<leftarrow> set_color h parent_node Black;
           h \<leftarrow> set_color h uncle Black;
           h \<leftarrow> set_color h grand Red;
           insert_fixup_loop h hdr grand }
         else do {
           pl \<leftarrow> left h parent_node;
           if node = pl then do {
             h \<leftarrow> rotate_right h hdr parent_node;
             parent_node' \<leftarrow> parent h parent_node;
             grand' \<leftarrow> parent h parent_node';
             h \<leftarrow> set_color h parent_node' Black;
             h \<leftarrow> set_color h grand' Red;
             h \<leftarrow> rotate_left h hdr grand';
             insert_fixup_loop h hdr parent_node }
           else do {
             h \<leftarrow> set_color h parent_node Black;
             h \<leftarrow> set_color h grand Red;
             h \<leftarrow> rotate_left h hdr grand;
             insert_fixup_loop h hdr node } } } } }"

definition blacken_root :: "'v heap \<Rightarrow> addr \<Rightarrow> 'v heap option" where
  "blacken_root h hdr = do {
     r \<leftarrow> parent h hdr;
     b \<leftarrow> is_nil h r;
     if \<not> b then set_color h r Black else Some h }"

definition insert_fixup :: "'v heap \<Rightarrow> addr \<Rightarrow> addr \<Rightarrow> 'v heap option" where
  "insert_fixup h hdr node = do {
     h \<leftarrow> insert_fixup_loop h hdr node;
     blacken_root h hdr }"

text \<open>Hooking the new node in, on the two paths of \<open>emplace_at\<close>.\<close>

definition attach_root :: "'v heap \<Rightarrow> addr \<Rightarrow> addr \<Rightarrow> 'v heap option" where
  "attach_root h hdr new_node = do {
     h \<leftarrow> set_parent h hdr new_node;
     h \<leftarrow> set_left h hdr new_node;
     h \<leftarrow> set_right h hdr new_node;
     h \<leftarrow> set_color h new_node Black;
     set_parent h new_node hdr }"

definition attach_child :: "'v heap \<Rightarrow> addr \<Rightarrow> addr \<Rightarrow> bool \<Rightarrow> addr \<Rightarrow> 'v heap option" where
  "attach_child h hdr parent_node go_left new_node =
     (if go_left then do {
        h \<leftarrow> set_left h parent_node new_node;
        m \<leftarrow> left h hdr;
        if parent_node = m then set_left h hdr new_node else Some h }
      else do {
        h \<leftarrow> set_right h parent_node new_node;
        m \<leftarrow> right h hdr;
        if parent_node = m then set_right h hdr new_node else Some h })"

definition emplace_at ::
  "'v allocator \<Rightarrow> 'v heap \<Rightarrow> qtree \<Rightarrow> addr \<Rightarrow> bool \<Rightarrow> 'v option \<Rightarrow>
   ((exn + (addr \<times> bool)) \<times> 'v heap \<times> qtree) option" where
  "emplace_at alloc h T parent_node go_left builder = (let hdr = t_header T in
     case node_new alloc h of
       Inl e \<Rightarrow> Some (Inl e, h, T)
     | Inr (new_node, h) \<Rightarrow> (case builder of
         None \<Rightarrow> do { h \<leftarrow> node_delete h new_node; Some (Inl Value_throw, h, T) }
       | Some v \<Rightarrow> do {
           h \<leftarrow> set_val h new_node (Some v);
           h \<leftarrow> set_is_nil h new_node False;
           h \<leftarrow> set_parent h new_node parent_node;
           h \<leftarrow> set_left h new_node hdr;
           h \<leftarrow> set_right h new_node hdr;
           h \<leftarrow> set_color h new_node Red;
           h \<leftarrow> (if parent_node = hdr then attach_root h hdr new_node
                else do {
                  h \<leftarrow> attach_child h hdr parent_node go_left new_node;
                  insert_fixup h hdr new_node });
           Some (Inr (new_node, True), h, T\<lparr>t_count := t_count T + 1\<rparr>) }))"

definition emplace_into_empty_tree ::
  "'v allocator \<Rightarrow> 'v heap \<Rightarrow> qtree \<Rightarrow> 'v option \<Rightarrow> ((exn + (addr \<times> bool)) \<times> 'v heap \<times> qtree) option" where
  "emplace_into_empty_tree alloc h T builder = do {
     (r, h, T) \<leftarrow> ensure_header alloc h T;
     case r of Inl e \<Rightarrow> Some (Inl e, h, T)
     | Inr _ \<Rightarrow> emplace_at alloc h T (t_header T) True builder }"

definition lazy_emplace_impl ::
  "'v allocator \<Rightarrow> ('k \<Rightarrow> 'k \<Rightarrow> bool) \<Rightarrow> ('v \<Rightarrow> 'k) \<Rightarrow> 'v heap \<Rightarrow> qtree \<Rightarrow> 'k \<Rightarrow> 'v option \<Rightarrow>
   ((exn + (addr \<times> bool)) \<times> 'v heap \<times> qtree) option" where
  "lazy_emplace_impl alloc lt ks h T key builder =
     (if t_header T = nullptr \<or> t_count T = 0 then emplace_into_empty_tree alloc h T builder
      else do {
        (existing, parent_node, go_left) \<leftarrow> find_insert_position lt ks h T key;
        if existing \<noteq> nullptr then Some (Inr (existing, False), h, T)
        else emplace_at alloc h T parent_node go_left builder })"

definition lazy_emplace_with_hint ::
  "'v allocator \<Rightarrow> ('k \<Rightarrow> 'k \<Rightarrow> bool) \<Rightarrow> ('v \<Rightarrow> 'k) \<Rightarrow> 'v heap \<Rightarrow> qtree \<Rightarrow> 'k \<Rightarrow> addr \<Rightarrow> 'v option \<Rightarrow>
   ((exn + (addr \<times> bool)) \<times> 'v heap \<times> qtree) option" where
  "lazy_emplace_with_hint alloc lt ks h T key hint builder =
     (if t_header T = nullptr \<or> t_count T = 0 then emplace_into_empty_tree alloc h T builder
      else do {
        (ok, parent_node, go_left, existing) \<leftarrow>
          (if hint \<noteq> nullptr then try_hint_insert lt ks h T key hint
           else Some (False, t_header T, True, nullptr));
        if ok then
          (if existing \<noteq> nullptr then Some (Inr (existing, False), h, T)
           else emplace_at alloc h T parent_node go_left builder)
        else lazy_emplace_impl alloc lt ks h T key builder })"

text \<open>\<open>insert(value)\<close>: the payload is copied (or moved) into the node.\<close>

definition insert_value ::
  "'v allocator \<Rightarrow> ('v \<Rightarrow> 'v option) \<Rightarrow> ('k \<Rightarrow> 'k \<Rightarrow> bool) \<Rightarrow> ('v \<Rightarrow> 'k) \<Rightarrow> 'v heap \<Rightarrow> qtree \<Rightarrow> 'v \<Rightarrow>
   ((exn + (addr \<times> bool)) \<times> 'v heap \<times> qtree) option" where
  "insert_value alloc cp lt ks h T v = lazy_emplace_impl alloc lt ks h T (ks v) (cp v)"

definition insert_hint ::
  "'v allocator \<Rightarrow> ('v \<Rightarrow> 'v option) \<Rightarrow> ('k \<Rightarrow> 'k \<Rightarrow> bool) \<Rightarrow> ('v \<Rightarrow> 'k) \<Rightarrow> 'v heap \<Rightarrow> qtree \<Rightarrow> addr \<Rightarrow> 'v \<Rightarrow>
   ((exn + addr) \<times> 'v heap \<times> qtree) option" where
  "insert_hint alloc cp lt ks h T hint v = do {
     (r, h, T) \<leftarrow> lazy_emplace_with_hint alloc lt ks h T (ks v) hint (cp v);
     Some (map_sum id fst r, h, T) }"

text \<open>\<open>insert(first, last)\<close> and the initializer-list forms: one insertion per element.\<close>

fun insert_list ::
  "'v allocator \<Rightarrow> ('v \<Rightarrow> 'v option) \<Rightarrow> ('k \<Rightarrow> 'k \<Rightarrow> bool) \<Rightarrow> ('v \<Rightarrow> 'k) \<Rightarrow> 'v heap \<Rightarrow> qtree \<Rightarrow> 'v list \<Rightarrow>
   ((exn + unit) \<times> 'v heap \<times> qtree) option" where
  "insert_list alloc cp lt ks h T [] = Some (Inr (), h, T)"
| "insert_list alloc cp lt ks h T (v # vs) = do {
     (r, h, T) \<leftarrow> insert_value alloc cp lt ks h T v;
     case r of Inl e \<Rightarrow> Some (Inl e, h, T) | Inr _ \<Rightarrow> insert_list alloc cp lt ks h T vs }"

section \<open>Removal\<close>

definition transplant :: "'v heap \<Rightarrow> addr \<Rightarrow> addr \<Rightarrow> addr \<Rightarrow> 'v heap option" where
  "transplant h hdr u v = do {
     pu \<leftarrow> parent h u;
     h \<leftarrow> (if pu = hdr then do { vb \<leftarrow> is_nil h v; set_parent h hdr (if vb then hdr else v) }
          else do {
            pl \<leftarrow> left h pu;
            if u = pl then set_left h pu v else set_right h pu v });
     vb \<leftarrow> is_nil h v;
     if \<not> vb then do { pu \<leftarrow> parent h u; set_parent h v pu } else Some h }"

text \<open>
  One side of the loop of \<open>erase_fixup\<close>: the part for a black sibling \<open>w\<close>, and the
  whole body, which first turns a red sibling into a black one.  Each returns the heap and
  the new values of the loop variables \<open>x\<close> and \<open>parent_node\<close>.
\<close>

definition erase_fixup_black_left :: "'v heap \<Rightarrow> addr \<Rightarrow> addr \<Rightarrow> addr \<Rightarrow> ('v heap \<times> addr \<times> addr) option" where
  "erase_fixup_black_left h hdr parent_node w = do {
     w_left \<leftarrow> left_color h w;
     w_right \<leftarrow> right_color h w;
     if w_left = Black \<and> w_right = Black then do {
       wb \<leftarrow> is_nil h w;
       h \<leftarrow> (if \<not> wb then set_color h w Red else Some h);
       pp \<leftarrow> parent h parent_node;
       Some (h, parent_node, pp) }
     else do {
       (h, w) \<leftarrow> (if w_right = Black then do {
           wb \<leftarrow> is_nil h w;
           h \<leftarrow> (if \<not> wb then do {
               wl \<leftarrow> left h w;
               wlb \<leftarrow> is_nil h wl;
               h \<leftarrow> (if \<not> wlb then set_color h wl Black else Some h);
               h \<leftarrow> set_color h w Red;
               rotate_right h hdr w } else Some h);
           w \<leftarrow> right h parent_node;
           Some (h, w) } else Some (h, w));
       wb \<leftarrow> is_nil h w;
       h \<leftarrow> (if \<not> wb then do { pc \<leftarrow> color h parent_node; set_color h w pc } else Some h);
       h \<leftarrow> set_color h parent_node Black;
       wr \<leftarrow> right h w;
       wrb \<leftarrow> is_nil h wr;
       h \<leftarrow> (if \<not> wrb then set_color h wr Black else Some h);
       h \<leftarrow> rotate_left h hdr parent_node;
       x \<leftarrow> parent h hdr;
       Some (h, x, hdr) } }"

definition erase_fixup_left :: "'v heap \<Rightarrow> addr \<Rightarrow> addr \<Rightarrow> ('v heap \<times> addr \<times> addr) option" where
  "erase_fixup_left h hdr parent_node = do {
     w \<leftarrow> right h parent_node;
     wc \<leftarrow> node_color h w;
     (h, w) \<leftarrow> (if wc = Red then do {
         h \<leftarrow> set_color h w Black;
         h \<leftarrow> set_color h parent_node Red;
         h \<leftarrow> rotate_left h hdr parent_node;
         w \<leftarrow> right h parent_node;
         Some (h, w) } else Some (h, w));
     erase_fixup_black_left h hdr parent_node w }"

definition erase_fixup_black_right :: "'v heap \<Rightarrow> addr \<Rightarrow> addr \<Rightarrow> addr \<Rightarrow> ('v heap \<times> addr \<times> addr) option" where
  "erase_fixup_black_right h hdr parent_node w = do {
     w_left \<leftarrow> left_color h w;
     w_right \<leftarrow> right_color h w;
     if w_left = Black \<and> w_right = Black then do {
       wb \<leftarrow> is_nil h w;
       h \<leftarrow> (if \<not> wb then set_color h w Red else Some h);
       pp \<leftarrow> parent h parent_node;
       Some (h, parent_node, pp) }
     else do {
       (h, w) \<leftarrow> (if w_left = Black then do {
           wb \<leftarrow> is_nil h w;
           h \<leftarrow> (if \<not> wb then do {
               wr \<leftarrow> right h w;
               wrb \<leftarrow> is_nil h wr;
               h \<leftarrow> (if \<not> wrb then set_color h wr Black else Some h);
               h \<leftarrow> set_color h w Red;
               rotate_left h hdr w } else Some h);
           w \<leftarrow> left h parent_node;
           Some (h, w) } else Some (h, w));
       wb \<leftarrow> is_nil h w;
       h \<leftarrow> (if \<not> wb then do { pc \<leftarrow> color h parent_node; set_color h w pc } else Some h);
       h \<leftarrow> set_color h parent_node Black;
       wl \<leftarrow> left h w;
       wlb \<leftarrow> is_nil h wl;
       h \<leftarrow> (if \<not> wlb then set_color h wl Black else Some h);
       h \<leftarrow> rotate_right h hdr parent_node;
       x \<leftarrow> parent h hdr;
       Some (h, x, hdr) } }"

definition erase_fixup_right :: "'v heap \<Rightarrow> addr \<Rightarrow> addr \<Rightarrow> ('v heap \<times> addr \<times> addr) option" where
  "erase_fixup_right h hdr parent_node = do {
     w \<leftarrow> left h parent_node;
     wc \<leftarrow> node_color h w;
     (h, w) \<leftarrow> (if wc = Red then do {
         h \<leftarrow> set_color h w Black;
         h \<leftarrow> set_color h parent_node Red;
         h \<leftarrow> rotate_right h hdr parent_node;
         w \<leftarrow> left h parent_node;
         Some (h, w) } else Some (h, w));
     erase_fixup_black_right h hdr parent_node w }"

partial_function (option) erase_fixup_loop ::
  "'v heap \<Rightarrow> addr \<Rightarrow> addr \<Rightarrow> addr \<Rightarrow> ('v heap \<times> addr) option" where
  "erase_fixup_loop h hdr x parent_node = do {
     r \<leftarrow> parent h hdr;
     go \<leftarrow> (if x \<noteq> r then do { c \<leftarrow> node_color h x; Some (c = Black) } else Some False);
     if \<not> go then Some (h, x)
     else do {
       pl \<leftarrow> left h parent_node;
       (h, x, parent_node) \<leftarrow>
         (if x = pl then erase_fixup_left h hdr parent_node else erase_fixup_right h hdr parent_node);
       erase_fixup_loop h hdr x parent_node } }"

definition erase_fixup :: "'v heap \<Rightarrow> addr \<Rightarrow> addr \<Rightarrow> addr \<Rightarrow> 'v heap option" where
  "erase_fixup h hdr x parent_node = do {
     (h, x) \<leftarrow> erase_fixup_loop h hdr x parent_node;
     xb \<leftarrow> is_nil h x;
     h \<leftarrow> (if \<not> xb then set_color h x Black else Some h);
     blacken_root h hdr }"

text \<open>
  The structural part of \<open>erase_node\<close>: the three splice cases.  The result is the heap,
  the colour that left the tree, and the node and parent the fixup starts from.
\<close>

definition erase_splice :: "'v heap \<Rightarrow> addr \<Rightarrow> addr \<Rightarrow> ('v heap \<times> color \<times> addr \<times> addr) option" where
  "erase_splice h hdr node = do {
     original \<leftarrow> color h node;
     nl \<leftarrow> left h node;
     nlb \<leftarrow> is_nil h nl;
     if nlb then do {
       x \<leftarrow> right h node;
       x_parent \<leftarrow> parent h node;
       h \<leftarrow> transplant h hdr node x;
       Some (h, original, x, x_parent) }
     else do {
       nr \<leftarrow> right h node;
       nrb \<leftarrow> is_nil h nr;
       if nrb then do {
         x \<leftarrow> left h node;
         x_parent \<leftarrow> parent h node;
         h \<leftarrow> transplant h hdr node x;
         Some (h, original, x, x_parent) }
       else do {
         y \<leftarrow> minimum h nr;
         original \<leftarrow> color h y;
         x \<leftarrow> right h y;
         yp \<leftarrow> parent h y;
         (h, x_parent) \<leftarrow> (if yp = node then Some (h, y)
           else do {
             h \<leftarrow> transplant h hdr y x;
             nr \<leftarrow> right h node;
             h \<leftarrow> set_right h y nr;
             yr \<leftarrow> right h y;
             yrb \<leftarrow> is_nil h yr;
             h \<leftarrow> (if \<not> yrb then set_parent h yr y else Some h);
             yp \<leftarrow> parent h y;
             Some (h, yp) });
         h \<leftarrow> transplant h hdr node y;
         nl \<leftarrow> left h node;
         h \<leftarrow> set_left h y nl;
         yl \<leftarrow> left h y;
         ylb \<leftarrow> is_nil h yl;
         h \<leftarrow> (if \<not> ylb then set_parent h yl y else Some h);
         nc \<leftarrow> color h node;
         h \<leftarrow> set_color h y nc;
         Some (h, original, x, x_parent) } } }"

definition erase_node :: "'v heap \<Rightarrow> qtree \<Rightarrow> addr \<Rightarrow> ('v heap \<times> qtree) option" where
  "erase_node h T node = (let hdr = t_header T in
     if node = nullptr then Some (h, T)
     else do {
       (h, original, x, x_parent) \<leftarrow> erase_splice h hdr node;
       h \<leftarrow> destroy_value h node;
       h \<leftarrow> node_delete h node;
       T \<leftarrow> Some (T\<lparr>t_count := t_count T - 1\<rparr>);
       h \<leftarrow> (if original = Black then erase_fixup h hdr x x_parent else Some h);
       h \<leftarrow> (if t_count T = 0 then init_header h hdr
            else do {
              r \<leftarrow> parent h hdr;
              m \<leftarrow> minimum h r;
              h \<leftarrow> set_left h hdr m;
              r \<leftarrow> parent h hdr;
              m \<leftarrow> maximum h r;
              set_right h hdr m });
       Some (h, T) })"

definition erase_iter :: "'v heap \<Rightarrow> qtree \<Rightarrow> addr \<Rightarrow> (addr \<times> 'v heap \<times> qtree) option" where
  "erase_iter h T pos = do {
     nxt \<leftarrow> iter_next h pos;
     (h, T) \<leftarrow> erase_node h T pos;
     Some (nxt, h, T) }"

partial_function (option) erase_range ::
  "'v heap \<Rightarrow> qtree \<Rightarrow> addr \<Rightarrow> addr \<Rightarrow> (addr \<times> 'v heap \<times> qtree) option" where
  "erase_range h T it last_it =
     (if it \<noteq> last_it then do {
        (it, h, T) \<leftarrow> erase_iter h T it;
        erase_range h T it last_it }
      else Some (it, h, T))"

definition erase_key ::
  "('k \<Rightarrow> 'k \<Rightarrow> bool) \<Rightarrow> ('v \<Rightarrow> 'k) \<Rightarrow> 'v heap \<Rightarrow> qtree \<Rightarrow> 'k \<Rightarrow> (nat \<times> 'v heap \<times> qtree) option" where
  "erase_key lt ks h T key = do {
     node \<leftarrow> find_node lt ks h T key;
     if node = t_header T then Some (0, h, T)
     else do {
       (h, T) \<leftarrow> erase_node h T node;
       Some (1, h, T) } }"

partial_function (option) erase_if_loop ::
  "('v \<Rightarrow> bool) \<Rightarrow> 'v heap \<Rightarrow> qtree \<Rightarrow> addr \<Rightarrow> nat \<Rightarrow> (nat \<times> 'v heap \<times> qtree) option" where
  "erase_if_loop pred h T it n =
     (if it \<noteq> end_iter T then do {
        v \<leftarrow> node_val h it;
        if pred v then do {
          (it, h, T) \<leftarrow> erase_iter h T it;
          erase_if_loop pred h T it (n + 1) }
        else do {
          it \<leftarrow> iter_next h it;
          erase_if_loop pred h T it n } }
      else Some (n, h, T))"

definition erase_if :: "('v \<Rightarrow> bool) \<Rightarrow> 'v heap \<Rightarrow> qtree \<Rightarrow> (nat \<times> 'v heap \<times> qtree) option" where
  "erase_if pred h T = do { it \<leftarrow> begin_iter h T; erase_if_loop pred h T it 0 }"

section \<open>Clearing and destruction\<close>

partial_function (option) clear_subtree :: "'v heap \<Rightarrow> addr \<Rightarrow> 'v heap option" where
  "clear_subtree h node = do {
     b \<leftarrow> is_nil h node;
     if b then Some h
     else do {
       l \<leftarrow> left h node;
       lb \<leftarrow> is_nil h l;
       h \<leftarrow> (if \<not> lb then clear_subtree h l else Some h);
       r \<leftarrow> right h node;
       rb \<leftarrow> is_nil h r;
       h \<leftarrow> (if \<not> rb then clear_subtree h r else Some h);
       h \<leftarrow> destroy_value h node;
       node_delete h node } }"

definition clear_tree :: "'v heap \<Rightarrow> qtree \<Rightarrow> ('v heap \<times> qtree) option" where
  "clear_tree h T =
     (if t_header T = nullptr \<or> t_count T = 0 then do {
        h \<leftarrow> (if t_header T \<noteq> nullptr then init_header h (t_header T) else Some h);
        Some (h, T\<lparr>t_count := 0\<rparr>) }
      else do {
        r \<leftarrow> root h T;
        h \<leftarrow> clear_subtree h r;
        h \<leftarrow> init_header h (t_header T);
        Some (h, T\<lparr>t_count := 0\<rparr>) })"

definition destroy_tree :: "'v heap \<Rightarrow> qtree \<Rightarrow> 'v heap option" where
  "destroy_tree h T =
     (if t_header T \<noteq> nullptr then do {
        (h, T) \<leftarrow> clear_tree h T;
        node_delete h (t_header T) }
      else Some h)"

section \<open>Copying and assignment\<close>

partial_function (option) clone_subtree ::
  "'v allocator \<Rightarrow> ('v \<Rightarrow> 'v option) \<Rightarrow> 'v heap \<Rightarrow> addr \<Rightarrow> addr \<Rightarrow> addr \<Rightarrow> ((exn + addr) \<times> 'v heap) option" where
  "clone_subtree alloc cp h hdr other_node parent_node = do {
     b \<leftarrow> is_nil h other_node;
     if b then Some (Inr hdr, h)
     else (case node_new alloc h of
       Inl e \<Rightarrow> Some (Inl e, h)
     | Inr (new_node, h) \<Rightarrow> do {
         v \<leftarrow> node_val h other_node;
         case cp v of
           None \<Rightarrow> do { h \<leftarrow> node_delete h new_node; Some (Inl Value_throw, h) }
         | Some v' \<Rightarrow> do {
             h \<leftarrow> set_val h new_node (Some v');
             h \<leftarrow> set_is_nil h new_node False;
             c \<leftarrow> color h other_node;
             h \<leftarrow> set_color h new_node c;
             h \<leftarrow> set_parent h new_node parent_node;
             h \<leftarrow> set_left h new_node hdr;
             h \<leftarrow> set_right h new_node hdr;
             ol \<leftarrow> left h other_node;
             (rl, h) \<leftarrow> clone_subtree alloc cp h hdr ol new_node;
             case rl of
               Inl e \<Rightarrow> do { h \<leftarrow> clear_subtree h new_node; Some (Inl e, h) }
             | Inr lp \<Rightarrow> do {
                 h \<leftarrow> set_left h new_node lp;
                 orr \<leftarrow> right h other_node;
                 (rr, h) \<leftarrow> clone_subtree alloc cp h hdr orr new_node;
                 case rr of
                   Inl e \<Rightarrow> do { h \<leftarrow> clear_subtree h new_node; Some (Inl e, h) }
                 | Inr rp \<Rightarrow> do { h \<leftarrow> set_right h new_node rp; Some (Inr new_node, h) } } } }) }"

definition clone_from ::
  "'v allocator \<Rightarrow> ('v \<Rightarrow> 'v option) \<Rightarrow> 'v heap \<Rightarrow> qtree \<Rightarrow> qtree \<Rightarrow> ((exn + unit) \<times> 'v heap \<times> qtree) option" where
  "clone_from alloc cp h T other = do {
     guard (t_count other \<noteq> 0);
     r \<leftarrow> root h other;
     (res, h) \<leftarrow> clone_subtree alloc cp h (t_header T) r (t_header T);
     case res of
       Inl e \<Rightarrow> do { (h, T) \<leftarrow> clear_tree h T; Some (Inl e, h, T) }
     | Inr new_root \<Rightarrow> do {
         h \<leftarrow> set_parent h (t_header T) new_root;
         m \<leftarrow> minimum h new_root;
         h \<leftarrow> set_left h (t_header T) m;
         m \<leftarrow> maximum h new_root;
         h \<leftarrow> set_right h (t_header T) m;
         Some (Inr (), h, T\<lparr>t_count := t_count other\<rparr>) } }"

definition copy_ctor ::
  "'v allocator \<Rightarrow> ('v \<Rightarrow> 'v option) \<Rightarrow> 'v heap \<Rightarrow> qtree \<Rightarrow> ((exn + qtree) \<times> 'v heap) option" where
  "copy_ctor alloc cp h other =
     (if t_count other = 0 then Some (Inr qtree_empty, h)
      else do {
        r \<leftarrow> allocate_header alloc h;
        case r of
          Inl e \<Rightarrow> Some (Inl e, h)
        | Inr (a, h) \<Rightarrow> do {
            h \<leftarrow> init_header h a;
            (r, h, T) \<leftarrow> clone_from alloc cp h \<lparr>t_header = a, t_count = 0\<rparr> other;
            case r of
              Inl e \<Rightarrow> do { h \<leftarrow> node_delete h (t_header T); Some (Inl e, h) }
            | Inr _ \<Rightarrow> Some (Inr T, h) } })"

definition move_ctor :: "qtree \<Rightarrow> qtree \<times> qtree" where
  "move_ctor other = (other, other\<lparr>t_header := nullptr, t_count := 0\<rparr>)"

definition swap_trees :: "qtree \<Rightarrow> qtree \<Rightarrow> qtree \<times> qtree" where
  "swap_trees a b = (b, a)"

text \<open>
  Copy assignment of two distinct objects: copy, swap with the copy, and the copy's
  destructor runs on the old contents.  Self-assignment returns at once.
\<close>

definition copy_assign ::
  "'v allocator \<Rightarrow> ('v \<Rightarrow> 'v option) \<Rightarrow> 'v heap \<Rightarrow> qtree \<Rightarrow> qtree \<Rightarrow> ((exn + qtree) \<times> 'v heap) option" where
  "copy_assign alloc cp h T other = do {
     (r, h) \<leftarrow> copy_ctor alloc cp h other;
     case r of
       Inl e \<Rightarrow> Some (Inl e, h)
     | Inr tmp \<Rightarrow> (let (T', tmp') = swap_trees T tmp in do {
         h \<leftarrow> destroy_tree h tmp';
         Some (Inr T', h) }) }"

definition move_assign :: "'v heap \<Rightarrow> qtree \<Rightarrow> qtree \<Rightarrow> (qtree \<times> qtree \<times> 'v heap) option" where
  "move_assign h T other = do {
     h \<leftarrow> destroy_tree h T;
     Some (other, other\<lparr>t_header := nullptr, t_count := 0\<rparr>, h) }"

section \<open>Comparison of trees\<close>

text \<open>\<open>std::equal\<close> and \<open>std::lexicographical_compare\<close> over the two iterator ranges.\<close>

partial_function (option) equal_loop ::
  "('v \<Rightarrow> 'v \<Rightarrow> bool) \<Rightarrow> 'v heap \<Rightarrow> addr \<Rightarrow> addr \<Rightarrow> addr \<Rightarrow> bool option" where
  "equal_loop eq h it1 last1 it2 =
     (if it1 = last1 then Some True
      else do {
        v1 \<leftarrow> node_val h it1;
        v2 \<leftarrow> node_val h it2;
        if \<not> eq v1 v2 then Some False
        else do {
          n1 \<leftarrow> iter_next h it1;
          n2 \<leftarrow> iter_next h it2;
          equal_loop eq h n1 last1 n2 } })"

definition tree_equal :: "('v \<Rightarrow> 'v \<Rightarrow> bool) \<Rightarrow> 'v heap \<Rightarrow> qtree \<Rightarrow> qtree \<Rightarrow> bool option" where
  "tree_equal eq h a b =
     (if t_count a \<noteq> t_count b then Some False
      else do {
        ia \<leftarrow> begin_iter h a;
        ib \<leftarrow> begin_iter h b;
        equal_loop eq h ia (end_iter a) ib })"

partial_function (option) lex_loop ::
  "('v \<Rightarrow> 'v \<Rightarrow> bool) \<Rightarrow> 'v heap \<Rightarrow> addr \<Rightarrow> addr \<Rightarrow> addr \<Rightarrow> addr \<Rightarrow> bool option" where
  "lex_loop ls h it1 last1 it2 last2 =
     (if it1 = last1 then Some (it2 \<noteq> last2)
      else if it2 = last2 then Some False
      else do {
        v1 \<leftarrow> node_val h it1;
        v2 \<leftarrow> node_val h it2;
        if ls v1 v2 then Some True
        else if ls v2 v1 then Some False
        else do {
          n1 \<leftarrow> iter_next h it1;
          n2 \<leftarrow> iter_next h it2;
          lex_loop ls h n1 last1 n2 last2 } })"

definition tree_less :: "('v \<Rightarrow> 'v \<Rightarrow> bool) \<Rightarrow> 'v heap \<Rightarrow> qtree \<Rightarrow> qtree \<Rightarrow> bool option" where
  "tree_less ls h a b = do {
     ia \<leftarrow> begin_iter h a;
     ib \<leftarrow> begin_iter h b;
     lex_loop ls h ia (end_iter a) ib (end_iter b) }"

end
