(* ===== verification/QTreeShape.thy ===== *)
theory QTreeShape
  imports QTreeUpdate
begin

text \<open>
  The abstract side of the tree: a tree with the address of every node (\<open>ptree\<close>), a
  zipper into it (a path of \<open>frame\<close>s and a focus), the predicates that say when a heap
  represents a tree or a zipper, and the red-black invariants on both.
\<close>

section \<open>Trees with addresses and zippers\<close>

datatype 'v ptree = Tip | Bin "'v ptree" addr color 'v "'v ptree"

datatype 'v frame =
    LF addr color 'v "'v ptree"      \<comment> \<open>the focus is the left child of this node\<close>
  | RF "'v ptree" addr color 'v      \<comment> \<open>the focus is the right child of this node\<close>

type_synonym 'v path = "'v frame list"

fun ptr :: "addr \<Rightarrow> 'v ptree \<Rightarrow> addr" where
  "ptr hdr Tip = hdr"
| "ptr hdr (Bin l a c v r) = a"

fun tcol :: "'v ptree \<Rightarrow> color" where
  "tcol Tip = Black"
| "tcol (Bin l a c v r) = c"

fun paint :: "color \<Rightarrow> 'v ptree \<Rightarrow> 'v ptree" where
  "paint c Tip = Tip"
| "paint c (Bin l a c' v r) = Bin l a c v r"

fun items :: "'v ptree \<Rightarrow> (addr \<times> 'v) list" where
  "items Tip = []"
| "items (Bin l a c v r) = items l @ (a, v) # items r"

fun addrs :: "'v ptree \<Rightarrow> addr list" where
  "addrs Tip = []"
| "addrs (Bin l a c v r) = addrs l @ a # addrs r"

lemma addrs_items: "addrs t = map fst (items t)"
  by (induction t) auto

fun faddr :: "'v frame \<Rightarrow> addr" where
  "faddr (LF a c v r) = a"
| "faddr (RF l a c v) = a"

fun fcol :: "'v frame \<Rightarrow> color" where
  "fcol (LF a c v r) = c"
| "fcol (RF l a c v) = c"

fun fplug :: "'v frame \<Rightarrow> 'v ptree \<Rightarrow> 'v ptree" where
  "fplug (LF a c v r) t = Bin t a c v r"
| "fplug (RF l a c v) t = Bin l a c v t"

fun plug :: "'v path \<Rightarrow> 'v ptree \<Rightarrow> 'v ptree" where
  "plug [] t = t"
| "plug (f # ctx) t = plug ctx (fplug f t)"

fun litems :: "'v path \<Rightarrow> (addr \<times> 'v) list" where
  "litems [] = []"
| "litems (LF a c v r # ctx) = litems ctx"
| "litems (RF l a c v # ctx) = litems ctx @ items l @ [(a, v)]"

fun ritems :: "'v path \<Rightarrow> (addr \<times> 'v) list" where
  "ritems [] = []"
| "ritems (LF a c v r # ctx) = (a, v) # items r @ ritems ctx"
| "ritems (RF l a c v # ctx) = ritems ctx"

lemma items_plug [simp]: "items (plug ctx t) = litems ctx @ items t @ ritems ctx"
proof (induction ctx arbitrary: t)
  case (Cons f ctx)
  then show ?case by (cases f) simp_all
qed simp

lemma plug_append [simp]: "plug (ctx1 @ ctx2) t = plug ctx2 (plug ctx1 t)"
  by (induction ctx1 arbitrary: t) auto

lemma items_paint [simp]: "items (paint c t) = items t"
  by (cases t) auto

lemma ptr_paint [simp]: "ptr hdr (paint c t) = ptr hdr t"
  by (cases t) auto

lemma tcol_paint_Black [simp]: "tcol (paint Black t) = Black"
  by (cases t) auto

lemma paint_same [simp]: "tcol t = c \<Longrightarrow> paint c t = t"
  by (cases t) auto

section \<open>Representation in the heap\<close>

abbreviation mk :: "addr \<Rightarrow> addr \<Rightarrow> addr \<Rightarrow> color \<Rightarrow> 'v \<Rightarrow> 'v qnode" where
  "mk p l r c v \<equiv> \<lparr>n_parent = p, n_left = l, n_right = r, n_color = c, n_nil = False, n_val = Some v\<rparr>"

abbreviation hnode :: "addr \<Rightarrow> addr \<Rightarrow> addr \<Rightarrow> 'v qnode" where
  "hnode p mn mx \<equiv> \<lparr>n_parent = p, n_left = mn, n_right = mx, n_color = Black, n_nil = True, n_val = None\<rparr>"

fun rep :: "'v heap \<Rightarrow> addr \<Rightarrow> addr \<Rightarrow> 'v ptree \<Rightarrow> bool" where
  "rep h hdr p Tip \<longleftrightarrow> True"
| "rep h hdr p (Bin l a c v r) \<longleftrightarrow>
     h a = Some (mk p (ptr hdr l) (ptr hdr r) c v) \<and> rep h hdr a l \<and> rep h hdr a r"

fun cpar :: "addr \<Rightarrow> 'v path \<Rightarrow> addr" where
  "cpar hdr [] = hdr"
| "cpar hdr (f # ctx) = faddr f"

fun crep :: "'v heap \<Rightarrow> addr \<Rightarrow> addr \<Rightarrow> addr \<Rightarrow> 'v path \<Rightarrow> addr \<Rightarrow> bool" where
  "crep h hdr mn mx [] p \<longleftrightarrow> h hdr = Some (hnode p mn mx)"
| "crep h hdr mn mx (LF a c v r # ctx) p \<longleftrightarrow>
     h a = Some (mk (cpar hdr ctx) p (ptr hdr r) c v) \<and> rep h hdr a r \<and> crep h hdr mn mx ctx a"
| "crep h hdr mn mx (RF l a c v # ctx) p \<longleftrightarrow>
     h a = Some (mk (cpar hdr ctx) (ptr hdr l) p c v) \<and> rep h hdr a l \<and> crep h hdr mn mx ctx a"

fun caddrs :: "'v path \<Rightarrow> addr list" where
  "caddrs [] = []"
| "caddrs (LF a c v r # ctx) = a # addrs r @ caddrs ctx"
| "caddrs (RF l a c v # ctx) = a # addrs l @ caddrs ctx"

text \<open>A heap represents a zipper under a header node.\<close>

definition zrep :: "'v heap \<Rightarrow> addr \<Rightarrow> addr \<Rightarrow> addr \<Rightarrow> 'v path \<Rightarrow> 'v ptree \<Rightarrow> bool" where
  "zrep h hdr mn mx ctx t \<longleftrightarrow>
     distinct (hdr # caddrs ctx @ addrs t) \<and>
     crep h hdr mn mx ctx (ptr hdr t) \<and> rep h hdr (cpar hdr ctx) t"

text \<open>Two heaps agree outside a set of addresses.\<close>

definition same_off :: "addr set \<Rightarrow> 'v heap \<Rightarrow> 'v heap \<Rightarrow> bool" where
  "same_off A h h' \<longleftrightarrow> (\<forall>x. x \<notin> A \<longrightarrow> h' x = h x)"

lemma same_off_refl [simp, intro]: "same_off A h h"
  by (simp add: same_off_def)

lemma same_off_trans [trans]: "same_off A h h' \<Longrightarrow> same_off A h' h'' \<Longrightarrow> same_off A h h''"
  by (simp add: same_off_def)

lemma same_off_mono: "same_off A h h' \<Longrightarrow> A \<subseteq> B \<Longrightarrow> same_off B h h'"
  by (auto simp: same_off_def)

lemma same_off_upd [simp]: "x \<in> A \<Longrightarrow> same_off A h (h'(x := n)) = same_off A h h'"
  by (auto simp: same_off_def)

subsection \<open>Frame rules\<close>

lemma rep_cong:
  "(\<And>x. x \<in> set (addrs t) \<Longrightarrow> h' x = h x) \<Longrightarrow> rep h' hdr p t = rep h hdr p t"
proof (induction t arbitrary: p)
  case (Bin l a c v r)
  have "rep h' hdr a l = rep h hdr a l" by (rule Bin.IH(1)) (auto simp: Bin.prems)
  moreover have "rep h' hdr a r = rep h hdr a r" by (rule Bin.IH(2)) (auto simp: Bin.prems)
  moreover have "h' a = h a" by (rule Bin.prems) simp
  ultimately show ?case by simp
qed simp

lemma rep_upd [simp, frame_simps]:
  "a \<notin> set (addrs t) \<Longrightarrow> rep (h(a := n)) hdr p t = rep h hdr p t"
  by (rule rep_cong) auto

lemma crep_cong:
  "(\<And>x. x \<in> set (caddrs ctx) \<Longrightarrow> h' x = h x) \<Longrightarrow> h' hdr = h hdr \<Longrightarrow>
   crep h' hdr mn mx ctx p = crep h hdr mn mx ctx p"
proof (induction ctx arbitrary: p)
  case (Cons f ctx)
  have IH: "crep h' hdr mn mx ctx q = crep h hdr mn mx ctx q" for q
    by (rule Cons.IH) (cases f; auto simp: Cons.prems)+
  show ?case
  proof (cases f)
    case (LF a c v r)
    have "rep h' hdr a r = rep h hdr a r" by (rule rep_cong) (auto simp: Cons.prems LF)
    moreover have "h' a = h a" by (rule Cons.prems) (simp add: LF)
    ultimately show ?thesis by (simp add: LF IH)
  next
    case (RF l a c v)
    have "rep h' hdr a l = rep h hdr a l" by (rule rep_cong) (auto simp: Cons.prems RF)
    moreover have "h' a = h a" by (rule Cons.prems) (simp add: RF)
    ultimately show ?thesis by (simp add: RF IH)
  qed
qed simp

lemma crep_upd [simp, frame_simps]:
  "a \<notin> set (caddrs ctx) \<Longrightarrow> a \<noteq> hdr \<Longrightarrow> crep (h(a := n)) hdr mn mx ctx p = crep h hdr mn mx ctx p"
  by (rule crep_cong) auto

lemma addrs_paint [simp]: "addrs (paint c t) = addrs t"
  by (cases t) auto

lemma rep_live: "rep h hdr p t \<Longrightarrow> a \<in> set (addrs t) \<Longrightarrow> \<exists>n. h a = Some n \<and> \<not> n_nil n"
  by (induction t arbitrary: p) auto

lemma crep_header: "crep h hdr mn mx ctx p \<Longrightarrow> \<exists>q. h hdr = Some (hnode q mn mx)"
  by (induction ctx arbitrary: p rule: litems.induct) auto

lemma ptr_in: "ptr hdr t \<in> insert hdr (set (addrs t))"
  by (cases t) auto

lemma ptr_neq [simp]:
  "a \<notin> set (addrs t) \<Longrightarrow> a \<noteq> hdr \<Longrightarrow> ptr hdr t \<noteq> a"
  "a \<notin> set (addrs t) \<Longrightarrow> a \<noteq> hdr \<Longrightarrow> a \<noteq> ptr hdr t"
  using ptr_in [of hdr t] by auto

text \<open>Reading the colour and the nil flag through a child pointer.\<close>

lemma rep_is_nil:
  assumes "rep h hdr p t" "h hdr = Some (hnode q mn mx)"
  shows "is_nil h (ptr hdr t) = Some (t = Tip)"
  using assms by (cases t) (auto simp: heap_simps)

lemma rep_node_color:
  assumes "rep h hdr p t" "h hdr = Some (hnode q mn mx)"
  shows "node_color h (ptr hdr t) = Some (tcol t)"
  using assms by (cases t) (auto simp: heap_simps node_color_def)

end
