(* ===== verification/QTreeRotate.thy ===== *)
theory QTreeRotate
  imports QTreeShape
begin

text \<open>
  Whole trees in the heap (\<open>trep\<close>), the in-place changes of a tree (\<open>reshapes\<close>),
  and the effect of the primitive pointer updates of \<open>qtree\<close> on them: recolouring,
  \<open>rotate_left\<close> and \<open>rotate_right\<close>, at any place of the tree.
\<close>

section \<open>Trees under a header\<close>

definition trep :: "'v heap \<Rightarrow> addr \<Rightarrow> addr \<Rightarrow> addr \<Rightarrow> 'v ptree \<Rightarrow> bool" where
  "trep h hdr mn mx T \<longleftrightarrow>
     distinct (hdr # addrs T) \<and> h hdr = Some (hnode (ptr hdr T) mn mx) \<and> rep h hdr hdr T"

lemma zrep_fplug: "zrep h hdr mn mx (f # ctx) t \<longleftrightarrow> zrep h hdr mn mx ctx (fplug f t)"
  by (cases f) (auto simp: zrep_def)

lemma zrep_plug: "zrep h hdr mn mx ctx t \<longleftrightarrow> trep h hdr mn mx (plug ctx t)"
proof (induction ctx arbitrary: t)
  case Nil
  show ?case by (simp add: zrep_def trep_def)
next
  case (Cons f ctx)
  then show ?case by (simp add: zrep_fplug)
qed

lemma set_addrs_plug: "set (addrs (plug ctx t)) = set (caddrs ctx) \<union> set (addrs t)"
proof (induction ctx arbitrary: t)
  case (Cons f ctx)
  then show ?case by (cases f) auto
qed simp

text \<open>The cell of the node in focus, and of the header.\<close>

lemma trep_cell:
  "trep h hdr mn mx (plug ctx (Bin l a c v r)) \<Longrightarrow>
   h a = Some (mk (cpar hdr ctx) (ptr hdr l) (ptr hdr r) c v)"
  unfolding zrep_plug [symmetric] by (simp add: zrep_def)

lemma trep_cell_LF:
  "trep h hdr mn mx (plug ctx (Bin t a c v r)) \<Longrightarrow> t = Bin s1 b d w s2 \<Longrightarrow>
   h b = Some (mk a (ptr hdr s1) (ptr hdr s2) d w)"
  using trep_cell [of h hdr mn mx "LF a c v r # ctx" s1 b d w s2] by simp

lemma trep_cell_RF:
  "trep h hdr mn mx (plug ctx (Bin l a c v t)) \<Longrightarrow> t = Bin s1 b d w s2 \<Longrightarrow>
   h b = Some (mk a (ptr hdr s1) (ptr hdr s2) d w)"
  using trep_cell [of h hdr mn mx "RF l a c v # ctx" s1 b d w s2] by simp

lemma trep_header: "trep h hdr mn mx T \<Longrightarrow> h hdr = Some (hnode (ptr hdr T) mn mx)"
  by (simp add: trep_def)

lemma trep_distinct: "trep h hdr mn mx T \<Longrightarrow> distinct (hdr # addrs T)"
  by (simp add: trep_def)

lemma trep_sub: "trep h hdr mn mx (plug ctx t) \<Longrightarrow> rep h hdr (cpar hdr ctx) t"
  unfolding zrep_plug [symmetric] by (simp add: zrep_def)

lemma trep_is_nil:
  "trep h hdr mn mx (plug ctx t) \<Longrightarrow> is_nil h (ptr hdr t) = Some (t = Tip)"
  using rep_is_nil [OF trep_sub] trep_header by metis

lemma trep_node_color:
  "trep h hdr mn mx (plug ctx t) \<Longrightarrow> node_color h (ptr hdr t) = Some (tcol t)"
  using rep_node_color [OF trep_sub] trep_header by metis

lemma trep_is_nil_hdr: "trep h hdr mn mx T \<Longrightarrow> is_nil h hdr = Some True"
  by (simp add: trep_def heap_simps)

section \<open>In-place changes\<close>

definition reshapes :: "addr \<Rightarrow> addr \<Rightarrow> addr \<Rightarrow> 'v heap \<Rightarrow> 'v ptree \<Rightarrow> 'v heap \<Rightarrow> 'v ptree \<Rightarrow> bool" where
  "reshapes hdr mn mx h T h' T' \<longleftrightarrow>
     trep h' hdr mn mx T' \<and> set (addrs T') = set (addrs T) \<and>
     same_off (insert hdr (set (addrs T))) h h'"

lemma reshapes_refl: "trep h hdr mn mx T \<Longrightarrow> reshapes hdr mn mx h T h T"
  by (simp add: reshapes_def)

lemma reshapes_trans [trans]:
  "reshapes hdr mn mx h T h' T' \<Longrightarrow> reshapes hdr mn mx h' T' h'' T'' \<Longrightarrow> reshapes hdr mn mx h T h'' T''"
  by (auto simp: reshapes_def same_off_def)

lemma reshapes_trep: "reshapes hdr mn mx h T h' T' \<Longrightarrow> trep h' hdr mn mx T'"
  by (simp add: reshapes_def)

lemmas node_defs = left_def right_def parent_def color_def is_nil_def node_val_def
  set_left_def set_right_def set_parent_def set_color_def set_is_nil_def set_val_def upd_node_def

subsection \<open>Recolouring\<close>

lemma set_color_reshapes:
  assumes "trep h hdr mn mx (plug ctx (Bin l a c v r))"
  shows "\<exists>h'. set_color h a c' = Some h' \<and>
    reshapes hdr mn mx h (plug ctx (Bin l a c v r)) h' (plug ctx (Bin l a c' v r))"
proof -
  from assms have z: "zrep h hdr mn mx ctx (Bin l a c v r)" by (simp add: zrep_plug)
  let ?h = "h(a \<mapsto> mk (cpar hdr ctx) (ptr hdr l) (ptr hdr r) c' v)"
  have "set_color h a c' = Some ?h"
    using trep_cell [OF assms] by (simp add: heap_simps)
  moreover have "zrep ?h hdr mn mx ctx (Bin l a c' v r)"
    using z by (clarsimp simp: zrep_def)
  then have "trep ?h hdr mn mx (plug ctx (Bin l a c' v r))" by (simp add: zrep_plug)
  ultimately show ?thesis by (auto simp: reshapes_def set_addrs_plug)
qed

subsection \<open>Rotations\<close>

lemma rotate_left_zrep:
  assumes z: "zrep h hdr mn mx ctx (Bin A x cx vx (Bin B y cy vy C))"
  shows "\<exists>h'. rotate_left h hdr x = Some h' \<and>
     zrep h' hdr mn mx ctx (Bin (Bin A x cx vx B) y cy vy C) \<and>
     same_off (insert hdr (set (caddrs ctx @ addrs (Bin A x cx vx (Bin B y cy vy C))))) h h'"
proof -
  from z obtain q where q: "h hdr = Some (hnode q mn mx)"
    using crep_header unfolding zrep_def by metis
  show ?thesis
  proof (cases ctx)
    case Nil
    with z q show ?thesis
      by (cases B; clarsimp simp: zrep_def rotate_left_def node_defs Int_Un_distrib Int_Un_distrib2
          cong: bind_first_cong)
  next
    case (Cons f ctx')
    show ?thesis
    proof (cases f)
      case (LF p cp vp S)
      with Cons z q show ?thesis
        by (cases B; clarsimp simp: zrep_def rotate_left_def node_defs Int_Un_distrib Int_Un_distrib2
            cong: bind_first_cong)
    next
      case (RF S p cp vp)
      with Cons z q show ?thesis
        by (cases B; clarsimp simp: zrep_def rotate_left_def node_defs Int_Un_distrib Int_Un_distrib2
            cong: bind_first_cong)
    qed
  qed
qed

lemma rotate_right_zrep:
  assumes z: "zrep h hdr mn mx ctx (Bin (Bin A x cx vx B) y cy vy C)"
  shows "\<exists>h'. rotate_right h hdr y = Some h' \<and>
     zrep h' hdr mn mx ctx (Bin A x cx vx (Bin B y cy vy C)) \<and>
     same_off (insert hdr (set (caddrs ctx @ addrs (Bin (Bin A x cx vx B) y cy vy C)))) h h'"
proof -
  from z obtain q where q: "h hdr = Some (hnode q mn mx)"
    using crep_header unfolding zrep_def by metis
  show ?thesis
  proof (cases ctx)
    case Nil
    with z q show ?thesis
      by (cases B; clarsimp simp: zrep_def rotate_right_def node_defs Int_Un_distrib Int_Un_distrib2
          cong: bind_first_cong)
  next
    case (Cons f ctx')
    show ?thesis
    proof (cases f)
      case (LF p cp vp S)
      with Cons z q show ?thesis
        by (cases B; clarsimp simp: zrep_def rotate_right_def node_defs Int_Un_distrib Int_Un_distrib2
            cong: bind_first_cong)
    next
      case (RF S p cp vp)
      with Cons z q show ?thesis
        by (cases B; clarsimp simp: zrep_def rotate_right_def node_defs Int_Un_distrib Int_Un_distrib2
            cong: bind_first_cong)
    qed
  qed
qed

lemma rotate_left_reshapes:
  assumes "trep h hdr mn mx (plug ctx (Bin A x cx vx (Bin B y cy vy C)))"
  shows "\<exists>h'. rotate_left h hdr x = Some h' \<and>
    reshapes hdr mn mx h (plug ctx (Bin A x cx vx (Bin B y cy vy C)))
      h' (plug ctx (Bin (Bin A x cx vx B) y cy vy C))"
  using rotate_left_zrep [OF assms [folded zrep_plug]]
  by (simp add: reshapes_def zrep_plug set_addrs_plug ac_simps insert_commute)

lemma rotate_right_reshapes:
  assumes "trep h hdr mn mx (plug ctx (Bin (Bin A x cx vx B) y cy vy C))"
  shows "\<exists>h'. rotate_right h hdr y = Some h' \<and>
    reshapes hdr mn mx h (plug ctx (Bin (Bin A x cx vx B) y cy vy C))
      h' (plug ctx (Bin A x cx vx (Bin B y cy vy C)))"
  using rotate_right_zrep [OF assms [folded zrep_plug]]
  by (simp add: reshapes_def zrep_plug set_addrs_plug ac_simps insert_commute)

end
