(* ===== verification/QTreeRB.thy ===== *)
theory QTreeRB
  imports QTreeRotate
begin

text \<open>
  The red-black invariants on trees and on zippers, and the two fixups of \<open>qtree\<close> as
  pure functions on a zipper.  The next theories show that the pointer code computes
  these functions; here they are shown to keep the elements and to restore the
  invariants.
\<close>

section \<open>Invariants\<close>

fun bh :: "'v ptree \<Rightarrow> nat" where
  "bh Tip = 0"
| "bh (Bin l a c v r) = (if c = Black then Suc (bh l) else bh l)"

fun invc :: "'v ptree \<Rightarrow> bool" where
  "invc Tip \<longleftrightarrow> True"
| "invc (Bin l a c v r) \<longleftrightarrow> (c = Red \<longrightarrow> tcol l = Black \<and> tcol r = Black) \<and> invc l \<and> invc r"

fun invh :: "'v ptree \<Rightarrow> bool" where
  "invh Tip \<longleftrightarrow> True"
| "invh (Bin l a c v r) \<longleftrightarrow> bh l = bh r \<and> invh l \<and> invh r"

definition rb :: "'v ptree \<Rightarrow> bool" where
  "rb t \<longleftrightarrow> invc t \<and> invh t \<and> tcol t = Black"

text \<open>\<open>ccol\<close> is the colour above the hole; the header above the root is black.\<close>

fun ccol :: "'v path \<Rightarrow> color" where
  "ccol [] = Black"
| "ccol (f # ctx) = fcol f"

text \<open>
  \<open>cinv ctx b\<close>: a tree of black height \<open>b\<close> (of a colour that does not clash) can be put
  into the hole.  A red node of the path is never the root.
\<close>

fun cinv :: "'v path \<Rightarrow> nat \<Rightarrow> bool" where
  "cinv [] b \<longleftrightarrow> True"
| "cinv (LF a c v r # ctx) b \<longleftrightarrow>
     invc r \<and> invh r \<and> bh r = b \<and>
     (c = Red \<longrightarrow> tcol r = Black \<and> ctx \<noteq> [] \<and> ccol ctx = Black) \<and>
     cinv ctx (if c = Black then Suc b else b)"
| "cinv (RF l a c v # ctx) b \<longleftrightarrow>
     invc l \<and> invh l \<and> bh l = b \<and>
     (c = Red \<longrightarrow> tcol l = Black \<and> ctx \<noteq> [] \<and> ccol ctx = Black) \<and>
     cinv ctx (if c = Black then Suc b else b)"

lemma plug_inv:
  "cinv ctx (bh t) \<Longrightarrow> invc t \<Longrightarrow> invh t \<Longrightarrow> tcol t = Black \<or> ccol ctx = Black \<Longrightarrow>
   invc (plug ctx t) \<and> invh (plug ctx t)"
proof (induction ctx arbitrary: t)
  case (Cons f ctx)
  show ?case
  proof (cases f)
    case (LF a c v r)
    then have "invc (plug ctx (Bin t a c v r)) \<and> invh (plug ctx (Bin t a c v r))"
      using Cons.prems by (intro Cons.IH) auto
    then show ?thesis by (simp add: LF)
  next
    case (RF l a c v)
    then have "invc (plug ctx (Bin l a c v t)) \<and> invh (plug ctx (Bin l a c v t))"
      using Cons.prems by (intro Cons.IH) auto
    then show ?thesis by (simp add: RF)
  qed
qed simp

lemmas plug_invc = plug_inv [THEN conjunct1]
lemmas plug_invh = plug_inv [THEN conjunct2]

lemma plug_cinv:
  "invc (plug ctx t) \<Longrightarrow> invh (plug ctx t) \<Longrightarrow> tcol (plug ctx t) = Black \<Longrightarrow>
   cinv ctx (bh t) \<and> invc t \<and> invh t \<and> (tcol t = Red \<longrightarrow> ctx \<noteq> [] \<and> ccol ctx = Black)"
proof (induction ctx arbitrary: t)
  case (Cons f ctx)
  show ?case
  proof (cases f)
    case (LF a c v r)
    then show ?thesis using Cons.IH [of "Bin t a c v r"] Cons.prems by auto
  next
    case (RF l a c v)
    then show ?thesis using Cons.IH [of "Bin l a c v t"] Cons.prems by auto
  qed
qed simp

lemma tcol_plug: "ctx \<noteq> [] \<Longrightarrow> cinv ctx b \<Longrightarrow> tcol (plug ctx t) = Black"
proof (induction ctx arbitrary: t b rule: litems.induct)
  case (2 a c v r ctx)
  then show ?case by (cases "ctx = []") auto
next
  case (3 l a c v ctx)
  then show ?case by (cases "ctx = []") auto
qed simp

lemma cinv_root [dest]: "cinv [f] b \<Longrightarrow> fcol f = Black"
  by (cases f) auto

lemma invc_paint_Black [simp]: "invc t \<Longrightarrow> invc (paint Black t)"
  by (cases t) auto

lemma invh_paint [simp]: "invh (paint c t) = invh t"
  by (cases t) auto

lemma bh_paint_Black: "bh (paint Black t) = (if tcol t = Red then Suc (bh t) else bh t)"
  by (cases t) auto

lemma bh_zero: "bh t = 0 \<Longrightarrow> invc t \<Longrightarrow> invh t \<Longrightarrow> tcol t = Black \<Longrightarrow> t = Tip"
  by (cases t) auto

section \<open>The fixup of an insertion\<close>

text \<open>
  \<open>ins_fix ctx t\<close> is the tree when the loop of \<open>insert_fixup\<close> stops, started at the red
  root of \<open>t\<close> under \<open>ctx\<close>.
\<close>

fun ins_fix :: "'v path \<Rightarrow> 'v ptree \<Rightarrow> 'v ptree" where
  "ins_fix (LF p Red vp sib # LF g cg vg unc # ctx) (Bin n1 n cn vn n2) =
     (if tcol unc = Red
      then ins_fix ctx (Bin (Bin (Bin n1 n cn vn n2) p Black vp sib) g Red vg (paint Black unc))
      else plug ctx (Bin (Bin n1 n cn vn n2) p Black vp (Bin sib g Red vg unc)))"
| "ins_fix (RF sib p Red vp # LF g cg vg unc # ctx) (Bin n1 n cn vn n2) =
     (if tcol unc = Red
      then ins_fix ctx (Bin (Bin sib p Black vp (Bin n1 n cn vn n2)) g Red vg (paint Black unc))
      else plug ctx (Bin (Bin sib p Red vp n1) n Black vn (Bin n2 g Red vg unc)))"
| "ins_fix (LF p Red vp sib # RF unc g cg vg # ctx) (Bin n1 n cn vn n2) =
     (if tcol unc = Red
      then ins_fix ctx (Bin (paint Black unc) g Red vg (Bin (Bin n1 n cn vn n2) p Black vp sib))
      else plug ctx (Bin (Bin unc g Red vg n1) n Black vn (Bin n2 p Red vp sib)))"
| "ins_fix (RF sib p Red vp # RF unc g cg vg # ctx) (Bin n1 n cn vn n2) =
     (if tcol unc = Red
      then ins_fix ctx (Bin (paint Black unc) g Red vg (Bin sib p Black vp (Bin n1 n cn vn n2)))
      else plug ctx (Bin (Bin unc g Red vg sib) p Black vp (Bin n1 n cn vn n2)))"
| "ins_fix ctx t = plug ctx t"

lemma items_ins_fix: "items (ins_fix ctx t) = litems ctx @ items t @ ritems ctx"
  by (induction ctx t rule: ins_fix.induct) (auto simp del: plug.simps)

lemma ins_fix_inv:
  "cinv ctx (bh t) \<Longrightarrow> invc t \<Longrightarrow> invh t \<Longrightarrow> tcol t = Red \<Longrightarrow>
   invc (ins_fix ctx t) \<and> invh (ins_fix ctx t)"
proof (induction ctx t rule: ins_fix.induct)
  case (1 p vp sib g cg vg unc ctx n1 n cn vn n2)
  then show ?case
    by (cases "tcol unc = Red") (auto simp: bh_paint_Black intro!: plug_invc plug_invh split: if_splits)
next
  case (2 sib p vp g cg vg unc ctx n1 n cn vn n2)
  then show ?case
    by (cases "tcol unc = Red") (auto simp: bh_paint_Black intro!: plug_invc plug_invh split: if_splits)
next
  case (3 p vp sib unc g cg vg ctx n1 n cn vn n2)
  then show ?case
    by (cases "tcol unc = Red") (auto simp: bh_paint_Black intro!: plug_invc plug_invh split: if_splits)
next
  case (4 sib p vp unc g cg vg ctx n1 n cn vn n2)
  then show ?case
    by (cases "tcol unc = Red") (auto simp: bh_paint_Black intro!: plug_invc plug_invh split: if_splits)
qed (auto simp del: plug.simps intro!: plug_invc plug_invh)

section \<open>The fixup of a removal\<close>

text \<open>
  \<open>del_turn_left t a c v w\<close>: cases 3 and 4 of \<open>erase_fixup\<close> for a node \<open>a\<close> of colour
  \<open>c\<close> with the short subtree \<open>t\<close> on the left and the black sibling \<open>w\<close>.
\<close>

fun del_turn_left :: "'v ptree \<Rightarrow> addr \<Rightarrow> color \<Rightarrow> 'v \<Rightarrow> 'v ptree \<Rightarrow> 'v ptree" where
  "del_turn_left t a c v (Bin w1 w cw vw w2) =
     (if tcol w2 = Black
      then (case w1 of
              Bin b1 b cb vb b2 \<Rightarrow> Bin (Bin t a Black v b1) b c vb (Bin b2 w Black vw w2)
            | Tip \<Rightarrow> Bin (Bin t a c v Tip) w cw vw w2)
      else Bin (Bin t a Black v w1) w c vw (paint Black w2))"
| "del_turn_left t a c v Tip = Bin t a c v Tip"

fun del_turn_right :: "'v ptree \<Rightarrow> addr \<Rightarrow> color \<Rightarrow> 'v \<Rightarrow> 'v ptree \<Rightarrow> 'v ptree" where
  "del_turn_right (Bin w1 w cw vw w2) a c v t =
     (if tcol w1 = Black
      then (case w2 of
              Bin b1 b cb vb b2 \<Rightarrow> Bin (Bin w1 w Black vw b1) b c vb (Bin b2 a Black v t)
            | Tip \<Rightarrow> Bin w1 w cw vw (Bin Tip a c v t))
      else Bin (paint Black w1) w c vw (Bin w2 a Black v t))"
| "del_turn_right Tip a c v t = Bin Tip a c v t"

fun tleft :: "'v ptree \<Rightarrow> 'v ptree" where
  "tleft Tip = Tip"
| "tleft (Bin l a c v r) = l"

fun tright :: "'v ptree \<Rightarrow> 'v ptree" where
  "tright Tip = Tip"
| "tright (Bin l a c v r) = r"

text \<open>\<open>del_fix ctx t\<close> is the tree after \<open>erase_fixup\<close>, started at \<open>t\<close> under \<open>ctx\<close>.\<close>

fun del_fix :: "'v path \<Rightarrow> 'v ptree \<Rightarrow> 'v ptree" where
  "del_fix [] t = paint Black t"
| "del_fix (LF a c v s # ctx) t =
     (if tcol t = Red then plug (LF a c v s # ctx) (paint Black t)
      else case s of
        Tip \<Rightarrow> plug (LF a c v s # ctx) t
      | Bin s1 sa Red vs s2 \<Rightarrow>
          (if tcol (tleft s1) = Black \<and> tcol (tright s1) = Black
           then plug (LF sa Black vs s2 # ctx) (Bin t a Black v (paint Red s1))
           else plug (LF sa Black vs s2 # ctx) (del_turn_left t a Red v s1))
      | Bin s1 sa Black vs s2 \<Rightarrow>
          (if tcol s1 = Black \<and> tcol s2 = Black
           then del_fix ctx (Bin t a c v (Bin s1 sa Red vs s2))
           else plug ctx (del_turn_left t a c v s)))"
| "del_fix (RF s a c v # ctx) t =
     (if tcol t = Red then plug (RF s a c v # ctx) (paint Black t)
      else case s of
        Tip \<Rightarrow> plug (RF s a c v # ctx) t
      | Bin s1 sa Red vs s2 \<Rightarrow>
          (if tcol (tleft s2) = Black \<and> tcol (tright s2) = Black
           then plug (RF s1 sa Black vs # ctx) (Bin (paint Red s2) a Black v t)
           else plug (RF s1 sa Black vs # ctx) (del_turn_right s2 a Red v t))
      | Bin s1 sa Black vs s2 \<Rightarrow>
          (if tcol s1 = Black \<and> tcol s2 = Black
           then del_fix ctx (Bin (Bin s1 sa Red vs s2) a c v t)
           else plug ctx (del_turn_right s a c v t)))"

lemma items_del_turn [simp]:
  "items (del_turn_left t a c v w) = items t @ (a, v) # items w"
  "items (del_turn_right w a c v t) = items w @ (a, v) # items t"
  by (cases w; auto split: ptree.splits)+

lemma items_del_fix: "items (del_fix ctx t) = litems ctx @ items t @ ritems ctx"
  by (induction ctx t rule: del_fix.induct) (auto simp del: plug.simps split: ptree.splits color.splits)

text \<open>The turn restores the black height the removal took away, whatever the colour of the node.\<close>

lemma del_turn_left_inv:
  assumes "invc t" "invh t" "invc w" "invh w" "tcol w = Black" "bh w = Suc (bh t)"
    "\<not> (tcol (tleft w) = Black \<and> tcol (tright w) = Black)"
    "c = Red \<Longrightarrow> ctx \<noteq> [] \<and> ccol ctx = Black" "cinv ctx (if c = Black then Suc (bh w) else bh w)"
    "tcol t = Black"
  shows "invc (plug ctx (del_turn_left t a c v w)) \<and> invh (plug ctx (del_turn_left t a c v w))"
proof (rule plug_inv)
  let ?u = "del_turn_left t a c v w"
  show "invc ?u" "invh ?u" "cinv ctx (bh ?u)" "tcol ?u = Black \<or> ccol ctx = Black"
    using assms by (cases w; auto simp: bh_paint_Black split: ptree.splits if_splits)+
qed

lemma del_turn_right_inv:
  assumes "invc t" "invh t" "invc w" "invh w" "tcol w = Black" "bh w = Suc (bh t)"
    "\<not> (tcol (tleft w) = Black \<and> tcol (tright w) = Black)"
    "c = Red \<Longrightarrow> ctx \<noteq> [] \<and> ccol ctx = Black" "cinv ctx (if c = Black then Suc (bh w) else bh w)"
    "tcol t = Black"
  shows "invc (plug ctx (del_turn_right w a c v t)) \<and> invh (plug ctx (del_turn_right w a c v t))"
proof (rule plug_inv)
  let ?u = "del_turn_right w a c v t"
  show "invc ?u" "invh ?u" "cinv ctx (bh ?u)" "tcol ?u = Black \<or> ccol ctx = Black"
    using assms by (cases w; auto simp: bh_paint_Black split: ptree.splits if_splits)+
qed

lemma del_fix_inv:
  "cinv ctx (Suc (bh t)) \<Longrightarrow> invc (paint Black t) \<Longrightarrow> invh t \<Longrightarrow> invc (del_fix ctx t) \<and> invh (del_fix ctx t)"
proof (induction ctx t rule: del_fix.induct)
  case (1 t)
  then show ?case by simp
next
  case (2 a c v s ctx t)
  show ?case
  proof (cases "tcol t = Red")
    case True
    with "2.prems" have "invc (plug (LF a c v s # ctx) (paint Black t)) \<and> invh (plug (LF a c v s # ctx) (paint Black t))"
      by (intro plug_inv) (auto simp: bh_paint_Black)
    with True show ?thesis by simp
  next
    case t: False
    with "2.prems" obtain s1 sa cs vs s2 where s: "s = Bin s1 sa cs vs s2"
      by (cases s) auto
    show ?thesis
    proof (cases cs)
      case Red
      then obtain w1 w cw vw w2 where w: "s1 = Bin w1 w cw vw w2" "cw = Black"
        using "2.prems" s by (cases s1) (auto split: if_splits)
      let ?ctx = "LF sa Black vs s2 # ctx"
      have c: "c = Black" using "2.prems" s Red by auto
      show ?thesis
      proof (cases "tcol w1 = Black \<and> tcol w2 = Black")
        case True
        then have "invc (plug ?ctx (Bin t a Black v (paint Red s1))) \<and> invh (plug ?ctx (Bin t a Black v (paint Red s1)))"
          using "2.prems" s Red w c t by (intro plug_inv) auto
        with True t s Red w show ?thesis by (simp del: plug.simps)
      next
        case False
        then have "invc (plug ?ctx (del_turn_left t a Red v s1)) \<and> invh (plug ?ctx (del_turn_left t a Red v s1))"
          using "2.prems" s Red w c t by (intro del_turn_left_inv) auto
        with False t s Red w show ?thesis
          by (auto simp del: plug.simps del_turn_left.simps del_turn_right.simps)
      qed
    next
      case Black
      show ?thesis
      proof (cases "tcol s1 = Black \<and> tcol s2 = Black")
        case True
        then show ?thesis using "2.prems" "2.IH" [OF _ s Black True] t s Black
          by (auto split: if_splits)
      next
        case False
        then have "invc (plug ctx (del_turn_left t a c v s)) \<and> invh (plug ctx (del_turn_left t a c v s))"
          using "2.prems" s Black t by (intro del_turn_left_inv) auto
        with False t s Black show ?thesis
          by (auto simp del: plug.simps del_turn_left.simps del_turn_right.simps)
      qed
    qed
  qed
next
  case (3 s a c v ctx t)
  show ?case
  proof (cases "tcol t = Red")
    case True
    with "3.prems" have "invc (plug (RF s a c v # ctx) (paint Black t)) \<and> invh (plug (RF s a c v # ctx) (paint Black t))"
      by (intro plug_inv) (auto simp: bh_paint_Black)
    with True show ?thesis by simp
  next
    case t: False
    with "3.prems" obtain s1 sa cs vs s2 where s: "s = Bin s1 sa cs vs s2"
      by (cases s) auto
    show ?thesis
    proof (cases cs)
      case Red
      then obtain w1 w cw vw w2 where w: "s2 = Bin w1 w cw vw w2" "cw = Black"
        using "3.prems" s by (cases s2) (auto split: if_splits)
      let ?ctx = "RF s1 sa Black vs # ctx"
      have c: "c = Black" using "3.prems" s Red by auto
      show ?thesis
      proof (cases "tcol w1 = Black \<and> tcol w2 = Black")
        case True
        then have "invc (plug ?ctx (Bin (paint Red s2) a Black v t)) \<and> invh (plug ?ctx (Bin (paint Red s2) a Black v t))"
          using "3.prems" s Red w c t by (intro plug_inv) auto
        with True t s Red w show ?thesis by (simp del: plug.simps)
      next
        case False
        then have "invc (plug ?ctx (del_turn_right s2 a Red v t)) \<and> invh (plug ?ctx (del_turn_right s2 a Red v t))"
          using "3.prems" s Red w c t by (intro del_turn_right_inv) auto
        with False t s Red w show ?thesis
          by (auto simp del: plug.simps del_turn_left.simps del_turn_right.simps)
      qed
    next
      case Black
      show ?thesis
      proof (cases "tcol s1 = Black \<and> tcol s2 = Black")
        case True
        then show ?thesis using "3.prems" "3.IH" [OF _ s Black True] t s Black
          by (auto split: if_splits)
      next
        case False
        then have "invc (plug ctx (del_turn_right s a c v t)) \<and> invh (plug ctx (del_turn_right s a c v t))"
          using "3.prems" s Black t by (intro del_turn_right_inv) auto
        with False t s Black show ?thesis
          by (auto simp del: plug.simps del_turn_left.simps del_turn_right.simps)
      qed
    qed
  qed
qed

section \<open>Height\<close>

text \<open>The number of nodes a walk from the root can visit is logarithmic in the size.\<close>

fun ht :: "'v ptree \<Rightarrow> nat" where
  "ht Tip = 0"
| "ht (Bin l a c v r) = Suc (max (ht l) (ht r))"

lemma ht_bh: "invc t \<Longrightarrow> invh t \<Longrightarrow> ht t \<le> 2 * bh t + (if tcol t = Red then 1 else 0)"
  by (induction t) (auto split: if_splits)

lemma bh_size: "invh t \<Longrightarrow> 2 ^ bh t \<le> length (items t) + 1"
proof (induction t)
  case (Bin l a c v r)
  then have "2 ^ bh l \<le> length (items l) + 1" "2 ^ bh l \<le> length (items r) + 1" by auto
  then show ?case by (simp add: power_Suc)
qed simp

lemma rb_height:
  assumes "rb t"
  shows "2 ^ ((ht t + 1) div 2) \<le> length (items t) + 1"
proof -
  from assms have "(ht t + 1) div 2 \<le> bh t" using ht_bh [of t] by (simp add: rb_def)
  then have "(2::nat) ^ ((ht t + 1) div 2) \<le> 2 ^ bh t" by (rule power_increasing) simp
  also have "\<dots> \<le> length (items t) + 1" using assms bh_size [of t] by (simp add: rb_def)
  finally show ?thesis .
qed

end
