(* ===== verification/QTreeInv.thy ===== *)
theory QTreeInv
  imports QTreeRB
begin

text \<open>
  Reading the fields of a node through a zipper, the abstract view of a tree as the list
  of its elements in order, the invariant \<open>qtree_inv\<close> that ties a tree object to that
  list, and the walks over a tree: minimum, maximum, successor, predecessor.
\<close>

section \<open>Reading through a zipper\<close>

lemma trep_reads:
  assumes "trep h hdr mn mx (plug ctx (Bin l a c v r))"
  shows "parent h a = Some (cpar hdr ctx)" "left h a = Some (ptr hdr l)"
    "right h a = Some (ptr hdr r)" "color h a = Some c" "is_nil h a = Some False"
    "node_val h a = Some v" "node_color h a = Some c"
  using trep_cell [OF assms] by (simp_all add: heap_simps node_color_def)

lemma trep_header_reads:
  assumes "trep h hdr mn mx T"
  shows "parent h hdr = Some (ptr hdr T)" "left h hdr = Some mn" "right h hdr = Some mx"
    "color h hdr = Some Black" "is_nil h hdr = Some True" "node_color h hdr = Some Black"
  using trep_header [OF assms] by (simp_all add: heap_simps node_color_def)

lemma trep_child_nil:
  assumes "trep h hdr mn mx (plug ctx (Bin l a c v r))"
  shows "is_nil h (ptr hdr l) = Some (l = Tip)" "is_nil h (ptr hdr r) = Some (r = Tip)"
    "node_color h (ptr hdr l) = Some (tcol l)" "node_color h (ptr hdr r) = Some (tcol r)"
  using trep_is_nil [of h hdr mn mx "LF a c v r # ctx" l] trep_is_nil [of h hdr mn mx "RF l a c v # ctx" r]
    trep_node_color [of h hdr mn mx "LF a c v r # ctx" l]
    trep_node_color [of h hdr mn mx "RF l a c v # ctx" r] assms by simp_all

lemma trep_distinct_plug:
  "trep h hdr mn mx (plug ctx t) \<Longrightarrow> distinct (hdr # caddrs ctx @ addrs t)"
  unfolding zrep_plug [symmetric] by (simp add: zrep_def)

lemma trep_upd_extremes:
  assumes "trep h hdr mn mx T"
  shows "trep (h(hdr \<mapsto> hnode (ptr hdr T) mn' mx')) hdr mn' mx' T"
  using assms by (auto simp: trep_def)

section \<open>The elements of a tree\<close>

definition first_addr :: "addr \<Rightarrow> (addr \<times> 'v) list \<Rightarrow> addr" where
  "first_addr d xs = (case xs of [] \<Rightarrow> d | x # _ \<Rightarrow> fst x)"

definition last_addr :: "addr \<Rightarrow> (addr \<times> 'v) list \<Rightarrow> addr" where
  "last_addr d xs = (if xs = [] then d else fst (last xs))"

lemma first_addr_simps [simp]:
  "first_addr d [] = d"
  "first_addr d (x # xs) = fst x"
  "first_addr d (xs @ ys) = first_addr (first_addr d ys) xs"
  by (auto simp: first_addr_def split: list.splits)

lemma last_addr_simps [simp]:
  "last_addr d [] = d"
  "last_addr d (x # ys) = last_addr (fst x) ys"
  "last_addr d (xs @ ys) = last_addr (last_addr d xs) ys"
  by (auto simp: last_addr_def)

lemma first_addr_nonempty: "xs \<noteq> [] \<Longrightarrow> first_addr d xs = first_addr d' xs"
  by (cases xs) auto

lemma last_addr_nonempty: "xs \<noteq> [] \<Longrightarrow> last_addr d xs = last_addr d' xs"
  by (simp add: last_addr_def)

definition keys :: "('v \<Rightarrow> 'k) \<Rightarrow> (addr \<times> 'v) list \<Rightarrow> 'k list" where
  "keys ks xs = map (\<lambda>x. ks (snd x)) xs"

lemma keys_simps [simp]:
  "keys ks [] = []"
  "keys ks (x # xs) = ks (snd x) # keys ks xs"
  "keys ks (xs @ ys) = keys ks xs @ keys ks ys"
  "set (keys ks xs) = (\<lambda>x. ks (snd x)) ` set xs"
  "length (keys ks xs) = length xs"
  by (simp_all add: keys_def)

text \<open>
  The invariant of a tree object.  \<open>xs\<close> lists the elements in order, each with the
  address of its node (the element an iterator points to).  The header caches the first
  and the last node; the tree is a red-black tree; the count is right.
\<close>

definition qtree_inv ::
  "('k \<Rightarrow> 'k \<Rightarrow> bool) \<Rightarrow> ('v \<Rightarrow> 'k) \<Rightarrow> 'v heap \<Rightarrow> qtree \<Rightarrow> (addr \<times> 'v) list \<Rightarrow> bool" where
  "qtree_inv lt ks h T xs \<longleftrightarrow>
     h nullptr = None \<and> t_count T = length xs \<and> sorted_wrt lt (keys ks xs) \<and>
     (if t_header T = nullptr then xs = []
      else \<exists>t. trep h (t_header T) (first_addr (t_header T) xs) (last_addr (t_header T) xs) t \<and>
             items t = xs \<and> rb t)"

text \<open>The nodes the tree owns.\<close>

definition owned :: "qtree \<Rightarrow> (addr \<times> 'v) list \<Rightarrow> addr set" where
  "owned T xs = (if t_header T = nullptr then {} else insert (t_header T) (fst ` set xs))"

lemma set_addrs: "set (addrs t) = fst ` set (items t)"
  by (simp add: addrs_items)

lemma qtree_inv_empty: "h nullptr = None \<Longrightarrow> qtree_inv lt ks h qtree_empty []"
  by (simp add: qtree_inv_def qtree_empty_def)

lemma trep_dom: "trep h hdr mn mx T \<Longrightarrow> insert hdr (set (addrs T)) \<subseteq> dom h"
  using rep_live by (fastforce simp: trep_def)

lemma qtree_inv_header:
  "t_header T \<noteq> nullptr \<Longrightarrow> qtree_inv lt ks h T xs \<longleftrightarrow>
    h nullptr = None \<and> t_count T = length xs \<and> sorted_wrt lt (keys ks xs) \<and>
    (\<exists>t. trep h (t_header T) (first_addr (t_header T) xs) (last_addr (t_header T) xs) t \<and>
       items t = xs \<and> rb t)"
  by (simp add: qtree_inv_def)

lemma qtree_inv_obtain:
  assumes "qtree_inv lt ks h T xs" "t_header T \<noteq> nullptr"
  obtains t where "trep h (t_header T) (first_addr (t_header T) xs) (last_addr (t_header T) xs) t"
    "items t = xs" "rb t" "h nullptr = None" "t_count T = length xs" "sorted_wrt lt (keys ks xs)"
    "distinct (map fst xs)" "t_header T \<notin> fst ` set xs" "owned T xs = insert (t_header T) (fst ` set xs)"
proof -
  obtain t where t: "trep h (t_header T) (first_addr (t_header T) xs) (last_addr (t_header T) xs) t"
      "items t = xs" "rb t" "h nullptr = None" "t_count T = length xs" "sorted_wrt lt (keys ks xs)"
    using assms by (auto simp: qtree_inv_header)
  moreover have "distinct (map fst xs)" "t_header T \<notin> fst ` set xs"
    using trep_distinct [OF t(1)] t(2) by (auto simp: addrs_items)
  ultimately show ?thesis using that assms(2) by (simp add: owned_def)
qed

lemma qtree_inv_owned:
  assumes "qtree_inv lt ks h T xs"
  shows "owned T xs \<subseteq> dom h"
proof (cases "t_header T = nullptr")
  case False
  then show ?thesis using assms
    by (elim qtree_inv_obtain) (use trep_dom in \<open>fastforce simp: set_addrs\<close>)+
qed (simp add: owned_def)

lemma trep_cong:
  assumes "trep h hdr mn mx T" "\<And>x. x \<in> insert hdr (set (addrs T)) \<Longrightarrow> h' x = h x"
  shows "trep h' hdr mn mx T"
proof -
  have "rep h' hdr hdr T = rep h hdr hdr T" by (rule rep_cong) (simp add: assms(2))
  then show ?thesis using assms by (simp add: trep_def)
qed

text \<open>The invariant only depends on the nodes the tree owns: other objects do not disturb it.\<close>

lemma qtree_inv_frame:
  assumes "qtree_inv lt ks h T xs" "\<And>x. x \<in> owned T xs \<Longrightarrow> h' x = h x" "h' nullptr = None"
  shows "qtree_inv lt ks h' T xs"
proof (cases "t_header T = nullptr")
  case True
  then show ?thesis using assms by (simp add: qtree_inv_def)
next
  case False
  with assms(1) show ?thesis
  proof (rule qtree_inv_obtain)
    fix t assume t: "trep h (t_header T) (first_addr (t_header T) xs) (last_addr (t_header T) xs) t"
      "items t = xs" "rb t" "t_count T = length xs" "sorted_wrt lt (keys ks xs)"
      "owned T xs = insert (t_header T) (fst ` set xs)"
    have "trep h' (t_header T) (first_addr (t_header T) xs) (last_addr (t_header T) xs) t"
      by (rule trep_cong [OF t(1)], rule assms(2)) (simp add: t(6) set_addrs t(2))
    with t False assms(3) show ?thesis by (auto simp: qtree_inv_header)
  qed
qed

text \<open>
  What an operation may do to memory.  It takes the tree \<open>T\<close> with elements \<open>xs\<close> to
  \<open>T'\<close> with \<open>xs'\<close>: no cell outside the tree is touched, every node it gained was
  free before, every node it lost is free afterwards.
\<close>

definition evolves ::
  "('k \<Rightarrow> 'k \<Rightarrow> bool) \<Rightarrow> ('v \<Rightarrow> 'k) \<Rightarrow> 'v heap \<Rightarrow> qtree \<Rightarrow> (addr \<times> 'v) list \<Rightarrow>
   'v heap \<Rightarrow> qtree \<Rightarrow> (addr \<times> 'v) list \<Rightarrow> bool" where
  "evolves lt ks h T xs h' T' xs' \<longleftrightarrow>
     qtree_inv lt ks h' T' xs' \<and> same_off (owned T xs \<union> owned T' xs') h h' \<and>
     (\<forall>p\<in>owned T' xs' - owned T xs. h p = None) \<and> (\<forall>p\<in>owned T xs - owned T' xs'. h' p = None)"

lemma evolves_refl: "qtree_inv lt ks h T xs \<Longrightarrow> evolves lt ks h T xs h T xs"
  by (simp add: evolves_def)

lemma evolves_inv: "evolves lt ks h T xs h' T' xs' \<Longrightarrow> qtree_inv lt ks h' T' xs'"
  by (simp add: evolves_def)

lemma evolves_trans [trans]:
  assumes "evolves lt ks h T xs h' T' xs'" "evolves lt ks h' T' xs' h'' T'' xs''"
  shows "evolves lt ks h T xs h'' T'' xs''"
proof -
  have 1: "h' p = h p" if "p \<notin> owned T xs" "p \<notin> owned T' xs'" for p
    using assms(1) that by (simp add: evolves_def same_off_def)
  have 2: "h'' p = h' p" if "p \<notin> owned T' xs'" "p \<notin> owned T'' xs''" for p
    using assms(2) that by (simp add: evolves_def same_off_def)
  have 3: "h p = None" if "p \<in> owned T' xs'" "p \<notin> owned T xs" for p
    using assms(1) that by (simp add: evolves_def)
  have 4: "h' p = None" if "p \<in> owned T'' xs''" "p \<notin> owned T' xs'" for p
    using assms(2) that by (simp add: evolves_def)
  have 5: "h' p = None" if "p \<in> owned T xs" "p \<notin> owned T' xs'" for p
    using assms(1) that by (simp add: evolves_def)
  have 6: "h'' p = None" if "p \<in> owned T' xs'" "p \<notin> owned T'' xs''" for p
    using assms(2) that by (simp add: evolves_def)
  have "h'' p = h p" if "p \<notin> owned T xs" "p \<notin> owned T'' xs''" for p
    using 1 [of p] 2 [of p] 3 [of p] 6 [of p] that by (cases "p \<in> owned T' xs'") auto
  moreover have "h p = None" if "p \<in> owned T'' xs''" "p \<notin> owned T xs" for p
    using 1 [of p] 3 [of p] 4 [of p] that by (cases "p \<in> owned T' xs'") auto
  moreover have "h'' p = None" if "p \<in> owned T xs" "p \<notin> owned T'' xs''" for p
    using 2 [of p] 5 [of p] 6 [of p] that by (cases "p \<in> owned T' xs'") auto
  ultimately show ?thesis using assms(2) by (simp add: evolves_def same_off_def)
qed

text \<open>Memory is neither leaked nor taken from others.\<close>

lemma evolves_dom:
  assumes "qtree_inv lt ks h T xs" "evolves lt ks h T xs h' T' xs'"
  shows "dom h' - owned T' xs' = dom h - owned T xs"
proof -
  have "p \<in> dom h \<longleftrightarrow> p \<in> dom h'" if "p \<notin> owned T xs" "p \<notin> owned T' xs'" for p
    using assms(2) that by (auto simp: evolves_def same_off_def)
  moreover have "p \<notin> dom h" if "p \<in> owned T' xs'" "p \<notin> owned T xs" for p
    using assms(2) that by (auto simp: evolves_def)
  moreover have "p \<notin> dom h'" if "p \<notin> owned T' xs'" "p \<in> owned T xs" for p
    using assms(2) that by (auto simp: evolves_def)
  ultimately show ?thesis by blast
qed

lemma evolves_other:
  assumes "evolves lt ks h T xs h' T' xs'" "qtree_inv lt2 ks2 h U ys" "owned U ys \<inter> owned T xs = {}"
  shows "qtree_inv lt2 ks2 h' U ys" "owned U ys \<inter> owned T' xs' = {}"
proof -
  have d: "p \<notin> owned T' xs'" if "p \<in> owned U ys" for p
  proof
    assume "p \<in> owned T' xs'"
    then have "h p = None" using assms(1,3) that by (auto simp: evolves_def)
    then show False using qtree_inv_owned [OF assms(2)] that by auto
  qed
  then show "owned U ys \<inter> owned T' xs' = {}" by blast
  have "h' p = h p" if "p \<in> owned U ys" for p
    using assms(1,3) d that by (auto simp: evolves_def same_off_def)
  then show "qtree_inv lt2 ks2 h' U ys"
    using assms(1) by (intro qtree_inv_frame [OF assms(2)]) (auto simp: evolves_def qtree_inv_def)
qed

section \<open>Walks\<close>

lemma minimum_loop_sim:
  "trep h hdr mn mx (plug ctx t) \<Longrightarrow> t = Bin l a c v r \<Longrightarrow>
   minimum_loop h a = Some (first_addr hdr (items t))"
proof (induction t arbitrary: ctx l a c v r)
  case (Bin l' a' c' v' r')
  note T = trep_reads [OF Bin.prems(1)] trep_child_nil [OF Bin.prems(1)]
  show ?case
  proof (cases l')
    case Tip
    then show ?thesis using T Bin.prems by (subst minimum_loop.simps) simp
  next
    case (Bin l2 a2 c2 v2 r2)
    have "minimum_loop h a2 = Some (first_addr hdr (items l'))"
      using Bin.IH(1) [OF _ Bin] Bin.prems by (metis fplug.simps(1) plug.simps(2))
    then show ?thesis using T Bin Bin.prems by (subst minimum_loop.simps) auto
  qed
qed simp

lemma maximum_loop_sim:
  "trep h hdr mn mx (plug ctx t) \<Longrightarrow> t = Bin l a c v r \<Longrightarrow>
   maximum_loop h a = Some (last_addr hdr (items t))"
proof (induction t arbitrary: ctx l a c v r)
  case (Bin l' a' c' v' r')
  note T = trep_reads [OF Bin.prems(1)] trep_child_nil [OF Bin.prems(1)]
  show ?case
  proof (cases r')
    case Tip
    then show ?thesis using T Bin.prems by (subst maximum_loop.simps) simp
  next
    case (Bin l2 a2 c2 v2 r2)
    have "maximum_loop h a2 = Some (last_addr hdr (items r'))"
      using Bin.IH(2) [OF _ Bin] Bin.prems by (metis fplug.simps(2) plug.simps(2))
    then show ?thesis using T Bin Bin.prems by (subst maximum_loop.simps) auto
  qed
qed simp

lemma minimum_sim:
  assumes "trep h hdr mn mx (plug ctx t)" "t \<noteq> Tip"
  shows "minimum h (ptr hdr t) = Some (first_addr hdr (items t))"
  using assms minimum_loop_sim [OF assms(1)] trep_is_nil [OF assms(1)]
  by (cases t) (simp_all add: minimum_def)

lemma maximum_sim:
  assumes "trep h hdr mn mx (plug ctx t)" "t \<noteq> Tip"
  shows "maximum h (ptr hdr t) = Some (last_addr hdr (items t))"
  using assms maximum_loop_sim [OF assms(1)] trep_is_nil [OF assms(1)]
  by (cases t) (simp_all add: maximum_def)

lemma successor_climb_sim:
  "trep h hdr mn mx (plug ctx t) \<Longrightarrow> t \<noteq> Tip \<Longrightarrow>
   successor_climb h (ptr hdr t) (cpar hdr ctx) = Some (first_addr hdr (ritems ctx))"
proof (induction ctx arbitrary: t)
  case Nil
  then show ?case using trep_header_reads [OF Nil.prems(1)] by (subst successor_climb.simps) simp
next
  case (Cons f ctx)
  have T: "trep h hdr mn mx (plug ctx (fplug f t))" using Cons.prems by simp
  have IH: "successor_climb h (ptr hdr (fplug f t)) (cpar hdr ctx) = Some (first_addr hdr (ritems ctx))"
    by (rule Cons.IH [OF T]) (cases f; simp)
  show ?case
  proof (cases f)
    case (LF a c v r)
    have "ptr hdr t \<noteq> ptr hdr r"
      using trep_distinct_plug [OF Cons.prems(1)] Cons.prems(2) ptr_in [of hdr r] by (cases t) (auto simp: LF)
    then show ?thesis using trep_reads [of h hdr mn mx ctx t a c v r] T
      by (subst successor_climb.simps) (simp add: LF)
  next
    case (RF l a c v)
    then show ?thesis using trep_reads [of h hdr mn mx ctx l a c v t] T IH
      by (subst successor_climb.simps) simp
  qed
qed

lemma predecessor_climb_sim:
  "trep h hdr mn mx (plug ctx t) \<Longrightarrow> t \<noteq> Tip \<Longrightarrow>
   predecessor_climb h (ptr hdr t) (cpar hdr ctx) = Some (last_addr hdr (litems ctx))"
proof (induction ctx arbitrary: t)
  case Nil
  then show ?case using trep_header_reads [OF Nil.prems(1)] by (subst predecessor_climb.simps) simp
next
  case (Cons f ctx)
  have T: "trep h hdr mn mx (plug ctx (fplug f t))" using Cons.prems by simp
  have IH: "predecessor_climb h (ptr hdr (fplug f t)) (cpar hdr ctx) = Some (last_addr hdr (litems ctx))"
    by (rule Cons.IH [OF T]) (cases f; simp)
  show ?case
  proof (cases f)
    case (RF l a c v)
    have "ptr hdr t \<noteq> ptr hdr l"
      using trep_distinct_plug [OF Cons.prems(1)] Cons.prems(2) ptr_in [of hdr l] by (cases t) (auto simp: RF)
    then show ?thesis using trep_reads [of h hdr mn mx ctx l a c v t] T
      by (subst predecessor_climb.simps) (simp add: RF)
  next
    case (LF a c v r)
    then show ?thesis using trep_reads [of h hdr mn mx ctx t a c v r] T IH
      by (subst predecessor_climb.simps) simp
  qed
qed

lemma successor_sim:
  assumes "trep h hdr mn mx (plug ctx (Bin l a c v r))"
  shows "successor h a = Some (first_addr hdr (items r @ ritems ctx))"
proof (cases r)
  case Tip
  then show ?thesis
    using trep_reads [OF assms] trep_child_nil [OF assms] successor_climb_sim [OF assms]
    by (simp add: successor_def)
next
  case (Bin l2 a2 c2 v2 r2)
  then show ?thesis
    using trep_reads [OF assms] trep_child_nil [OF assms] minimum_sim [of h hdr mn mx "RF l a c v # ctx" r] assms
    by (simp add: successor_def)
qed

lemma predecessor_sim:
  assumes "trep h hdr mn mx (plug ctx (Bin l a c v r))"
  shows "predecessor h a = Some (last_addr hdr (litems ctx @ items l))"
proof (cases l)
  case Tip
  then show ?thesis
    using trep_reads [OF assms] trep_child_nil [OF assms] predecessor_climb_sim [OF assms]
    by (simp add: predecessor_def)
next
  case (Bin l2 a2 c2 v2 r2)
  then show ?thesis
    using trep_reads [OF assms] trep_child_nil [OF assms] maximum_sim [of h hdr mn mx "LF a c v r # ctx" l] assms
    by (simp add: predecessor_def)
qed

text \<open>Every element of the list has its place in the tree.\<close>

lemma items_zipper:
  "(a, v) \<in> set (items T) \<Longrightarrow> \<exists>ctx l c r. T = plug ctx (Bin l a c v r)"
proof (induction T)
  case (Bin l a' c' v' r)
  then consider "(a, v) \<in> set (items l)" | "a = a'" "v = v'" | "(a, v) \<in> set (items r)" by auto
  then show ?case
  proof cases
    case 1
    with Bin.IH(1) obtain ctx l2 c2 r2 where "l = plug ctx (Bin l2 a c2 v r2)" by blast
    then have "Bin l a' c' v' r = plug (ctx @ [LF a' c' v' r]) (Bin l2 a c2 v r2)" by simp
    then show ?thesis by blast
  next
    case 2
    then have "Bin l a' c' v' r = plug [] (Bin l a c' v r)" by simp
    then show ?thesis by blast
  next
    case 3
    with Bin.IH(2) obtain ctx l2 c2 r2 where "r = plug ctx (Bin l2 a c2 v r2)" by blast
    then have "Bin l a' c' v' r = plug (ctx @ [RF l a' c' v']) (Bin l2 a c2 v r2)" by simp
    then show ?thesis by blast
  qed
qed simp

lemma items_split:
  assumes "items T = xs @ (a, v) # ys" "distinct (addrs T)"
  shows "\<exists>ctx l c r. T = plug ctx (Bin l a c v r) \<and> xs = litems ctx @ items l \<and> ys = items r @ ritems ctx"
proof -
  from assms(1) have "(a, v) \<in> set (items T)" by simp
  from items_zipper [OF this] obtain ctx l c r where T: "T = plug ctx (Bin l a c v r)" by blast
  let ?xs = "litems ctx @ items l" and ?ys = "items r @ ritems ctx"
  from T assms(1) have e: "?xs @ (a, v) # ?ys = xs @ (a, v) # ys" by simp
  have "distinct (map fst (?xs @ (a, v) # ?ys))" using assms unfolding e by (simp add: addrs_items)
  then have "a \<notin> fst ` set ?xs" "a \<notin> fst ` set ?ys" by (simp_all add: image_Un)
  then have "(a, v) \<notin> set ?xs" "(a, v) \<notin> set ?ys" by (metis fst_conv imageI)+
  from append_Cons_eq_iff [OF this] e have "?xs = xs \<and> ?ys = ys" by blast
  with T show ?thesis by blast
qed

end
