(* ===== verification/QTreeLookup.thy ===== *)
theory QTreeLookup
  imports QTreeInv
begin

text \<open>
  Iteration and lookup.  Every walk and every search of \<open>qtree\<close> is described by the
  list of elements: the next element of an iterator, the first element not less than a key,
  and so on.
\<close>

section \<open>Iteration\<close>

lemma trep_root_not_null: "trep h hdr mn mx t \<Longrightarrow> h nullptr = None \<Longrightarrow> ptr hdr t \<noteq> nullptr"
  by (cases t) (auto simp: trep_def)

lemma begin_iter_sim:
  assumes "qtree_inv lt ks h T xs"
  shows "begin_iter h T = Some (first_addr (end_iter T) xs)"
proof (cases "t_header T = nullptr")
  case True
  then show ?thesis using assms by (simp add: begin_iter_def end_iter_def qtree_inv_def)
next
  case False
  with assms obtain t where "trep h (t_header T) (first_addr (t_header T) xs) (last_addr (t_header T) xs) t"
    "t_count T = length xs" by (rule qtree_inv_obtain)
  then show ?thesis using False trep_header_reads(2) by (fastforce simp: begin_iter_def end_iter_def)
qed

lemma iter_deref_sim:
  assumes "qtree_inv lt ks h T xs" "(a, v) \<in> set xs"
  shows "node_val h a = Some v" "is_nil h a = Some False" "a \<noteq> end_iter T" "a \<noteq> nullptr"
proof -
  have nz: "t_header T \<noteq> nullptr" using assms by (auto simp: qtree_inv_def)
  with assms(1) obtain t where t: "trep h (t_header T) (first_addr (t_header T) xs) (last_addr (t_header T) xs) t"
    "items t = xs" "h nullptr = None" "t_header T \<notin> fst ` set xs" by (rule qtree_inv_obtain)
  from items_zipper assms(2) t(2) obtain ctx l c r where "t = plug ctx (Bin l a c v r)" by metis
  note reads = trep_reads [OF t(1) [unfolded this]]
  then show "node_val h a = Some v" "is_nil h a = Some False" by auto
  show "a \<noteq> end_iter T" using t(4) assms(2) by (force simp: end_iter_def)
  show "a \<noteq> nullptr" using reads(5) t(3) by (auto simp: is_nil_def)
qed

lemma iter_next_sim:
  assumes "qtree_inv lt ks h T (xs @ (a, v) # ys)"
  shows "iter_next h a = Some (first_addr (end_iter T) ys)"
proof -
  let ?xs = "xs @ (a, v) # ys"
  have nz: "t_header T \<noteq> nullptr" using assms by (auto simp: qtree_inv_def)
  with assms obtain t where t: "trep h (t_header T) (first_addr (t_header T) ?xs) (last_addr (t_header T) ?xs) t"
    "items t = ?xs" by (rule qtree_inv_obtain)
  obtain ctx l c r where z: "t = plug ctx (Bin l a c v r)" "ys = items r @ ritems ctx"
    using items_split [OF t(2)] trep_distinct [OF t(1)] by auto
  show ?thesis using successor_sim [OF t(1) [unfolded z(1)]] z(2) by (simp add: iter_next_def end_iter_def)
qed

lemma iter_prev_sim:
  assumes "qtree_inv lt ks h T (xs @ (a, v) # ys)"
  shows "iter_prev h a = Some (last_addr (end_iter T) xs)"
proof -
  let ?xs = "xs @ (a, v) # ys"
  have nz: "t_header T \<noteq> nullptr" using assms by (auto simp: qtree_inv_def)
  with assms obtain t where t: "trep h (t_header T) (first_addr (t_header T) ?xs) (last_addr (t_header T) ?xs) t"
    "items t = ?xs" by (rule qtree_inv_obtain)
  obtain ctx l c r where z: "t = plug ctx (Bin l a c v r)" "xs = litems ctx @ items l"
    using items_split [OF t(2)] trep_distinct [OF t(1)] by auto
  show ?thesis using predecessor_sim [OF t(1) [unfolded z(1)]] trep_reads [OF t(1) [unfolded z(1)]] z(2)
    by (simp add: iter_prev_def prev_including_header_def end_iter_def)
qed

text \<open>Stepping back from \<open>end()\<close> reaches the last element; stepping on from it stays there.\<close>

lemma iter_prev_end:
  assumes "qtree_inv lt ks h T xs" "t_header T \<noteq> nullptr"
  shows "iter_prev h (end_iter T) = Some (last_addr (end_iter T) xs)"
    "iter_next h (end_iter T) = Some (end_iter T)"
proof -
  obtain t where t: "trep h (t_header T) (first_addr (t_header T) xs) (last_addr (t_header T) xs) t"
    using assms by (rule qtree_inv_obtain)
  show "iter_prev h (end_iter T) = Some (last_addr (end_iter T) xs)"
    "iter_next h (end_iter T) = Some (end_iter T)"
    using trep_header_reads [OF t]
    by (simp_all add: iter_prev_def prev_including_header_def end_iter_def iter_next_def successor_def)
qed

section \<open>Searching\<close>

definition first_where :: "addr \<Rightarrow> ('v \<Rightarrow> bool) \<Rightarrow> (addr \<times> 'v) list \<Rightarrow> addr" where
  "first_where d P xs = first_addr d (dropWhile (\<lambda>x. \<not> P (snd x)) xs)"

lemma first_where_simps [simp]:
  "first_where d P [] = d"
  "first_where d P ((a, v) # xs) = (if P v then a else first_where d P xs)"
  by (simp_all add: first_where_def)

lemma first_where_append:
  "first_where d P (xs @ ys) = first_where (first_where d P ys) P xs"
  by (induction xs) auto

lemma first_where_skip:
  "(\<And>x. x \<in> set xs \<Longrightarrow> \<not> P (snd x)) \<Longrightarrow> first_where d P xs = d"
  by (induction xs) (auto simp: first_where_def)

lemma sorted_keys_plug:
  "sorted_wrt lt (keys ks (items (plug ctx (Bin l a c v r)))) \<Longrightarrow>
   (\<forall>x\<in>set (litems ctx) \<union> set (items l). lt (ks (snd x)) (ks v)) \<and>
   (\<forall>x\<in>set (items r) \<union> set (ritems ctx). lt (ks v) (ks (snd x)))"
  by (auto simp: sorted_wrt_append)

text \<open>
  A binary search for a predicate that is monotone along the order: the loops of
  \<open>lower_bound_node\<close> and \<open>upper_bound_node\<close>, and \<open>find_node\<close>.
\<close>

context strict_weak
begin

lemma lower_bound_loop_sim:
  "trep h hdr mn mx (plug ctx t) \<Longrightarrow> sorted_wrt lt (keys ks (items (plug ctx t))) \<Longrightarrow>
   lower_bound_loop lt ks h key d (ptr hdr t) = Some (first_where d (\<lambda>v. \<not> lt (ks v) key) (items t))"
proof (induction t arbitrary: ctx d)
  case Tip
  then show ?case using trep_is_nil [OF Tip.prems(1)] by (subst lower_bound_loop.simps) simp
next
  case (Bin l a c v r)
  note reads = trep_reads [OF Bin.prems(1)] sorted_keys_plug [OF Bin.prems(2)]
  show ?case
  proof (cases "lt (ks v) key")
    case True
    then have "first_where d' (\<lambda>v. \<not> lt (ks v) key) (items l) = d'" for d'
      using reads trans by (intro first_where_skip) blast
    then show ?thesis
      using True reads Bin.IH(2) [of "RF l a c v # ctx" d] Bin.prems
      by (subst lower_bound_loop.simps) (simp add: first_where_append)
  next
    case False
    then show ?thesis
      using reads Bin.IH(1) [of "LF a c v r # ctx" a] Bin.prems
      by (subst lower_bound_loop.simps) (simp add: first_where_append)
  qed
qed

lemma upper_bound_loop_sim:
  "trep h hdr mn mx (plug ctx t) \<Longrightarrow> sorted_wrt lt (keys ks (items (plug ctx t))) \<Longrightarrow>
   upper_bound_loop lt ks h key d (ptr hdr t) = Some (first_where d (\<lambda>v. lt key (ks v)) (items t))"
proof (induction t arbitrary: ctx d)
  case Tip
  then show ?case using trep_is_nil [OF Tip.prems(1)] by (subst upper_bound_loop.simps) simp
next
  case (Bin l a c v r)
  note reads = trep_reads [OF Bin.prems(1)] sorted_keys_plug [OF Bin.prems(2)]
  show ?case
  proof (cases "lt key (ks v)")
    case False
    then have "first_where d' (\<lambda>v. lt key (ks v)) (items l) = d'" for d'
      using reads trans by (intro first_where_skip) blast
    then show ?thesis
      using False reads Bin.IH(2) [of "RF l a c v # ctx" d] Bin.prems
      by (subst upper_bound_loop.simps) (simp add: first_where_append)
  next
    case True
    then show ?thesis
      using reads Bin.IH(1) [of "LF a c v r # ctx" a] Bin.prems
      by (subst upper_bound_loop.simps) (simp add: first_where_append)
  qed
qed

lemma find_loop_sim:
  "trep h hdr mn mx (plug ctx t) \<Longrightarrow> sorted_wrt lt (keys ks (items (plug ctx t))) \<Longrightarrow>
   find_loop lt ks h hdr key (ptr hdr t) = Some (first_where hdr (\<lambda>v. keys_equal lt (ks v) key) (items t))"
proof (induction t arbitrary: ctx)
  case Tip
  then show ?case using trep_is_nil [OF Tip.prems(1)] by (subst find_loop.simps) simp
next
  case (Bin l a c v r)
  note reads = trep_reads [OF Bin.prems(1)] sorted_keys_plug [OF Bin.prems(2)]
  consider "lt key (ks v)" | "\<not> lt key (ks v)" "lt (ks v) key" | "\<not> lt key (ks v)" "\<not> lt (ks v) key" by blast
  then show ?case
  proof cases
    case 1
    then have "first_where hdr (\<lambda>v. keys_equal lt (ks v) key) (items r) = hdr"
      using reads trans by (intro first_where_skip) (auto simp: keys_equal_def)
    then show ?thesis
      using 1 reads Bin.IH(1) [of "LF a c v r # ctx"] Bin.prems
      by (subst find_loop.simps) (simp add: first_where_append keys_equal_def)
  next
    case 2
    then have "first_where d (\<lambda>v. keys_equal lt (ks v) key) (items l) = d" for d
      using reads trans by (intro first_where_skip) (auto simp: keys_equal_def)
    then show ?thesis
      using 2 reads Bin.IH(2) [of "RF l a c v # ctx"] Bin.prems
      by (subst find_loop.simps) (simp add: first_where_append keys_equal_def)
  next
    case 3
    then have "first_where d (\<lambda>v. keys_equal lt (ks v) key) (items l) = d" for d
      using reads(8) by (intro first_where_skip) (metis UnCI keys_equal_def lt_not_lt_trans)
    then show ?thesis
      using 3 reads by (subst find_loop.simps) (simp add: first_where_append keys_equal_def)
  qed
qed

lemma lower_bound_sim:
  assumes "qtree_inv lt ks h T xs"
  shows "lower_bound_node lt ks h T key = Some (first_where (end_iter T) (\<lambda>v. \<not> lt (ks v) key) xs)"
proof (cases "t_header T = nullptr")
  case True
  then show ?thesis using assms by (simp add: lower_bound_node_def root_def qtree_inv_def end_iter_def)
next
  case False
  with assms obtain t where t: "trep h (t_header T) (first_addr (t_header T) xs) (last_addr (t_header T) xs) t"
    "items t = xs" "h nullptr = None" "sorted_wrt lt (keys ks xs)" by (rule qtree_inv_obtain)
  have "ptr (t_header T) t \<noteq> nullptr"
    using t(1,3) by (rule trep_root_not_null)
  then show ?thesis
    using trep_header_reads [OF t(1)] lower_bound_loop_sim [of h _ _ _ "[]"] t False
    by (simp add: lower_bound_node_def root_def end_iter_def)
qed

lemma upper_bound_sim:
  assumes "qtree_inv lt ks h T xs"
  shows "upper_bound_node lt ks h T key = Some (first_where (end_iter T) (\<lambda>v. lt key (ks v)) xs)"
proof (cases "t_header T = nullptr")
  case True
  then show ?thesis using assms by (simp add: upper_bound_node_def root_def qtree_inv_def end_iter_def)
next
  case False
  with assms obtain t where t: "trep h (t_header T) (first_addr (t_header T) xs) (last_addr (t_header T) xs) t"
    "items t = xs" "h nullptr = None" "sorted_wrt lt (keys ks xs)" by (rule qtree_inv_obtain)
  have "ptr (t_header T) t \<noteq> nullptr"
    using t(1,3) by (rule trep_root_not_null)
  then show ?thesis
    using trep_header_reads [OF t(1)] upper_bound_loop_sim [of h _ _ _ "[]"] t False
    by (simp add: upper_bound_node_def root_def end_iter_def)
qed

lemma find_sim:
  assumes "qtree_inv lt ks h T xs"
  shows "find_node lt ks h T key = Some (first_where (end_iter T) (\<lambda>v. keys_equal lt (ks v) key) xs)"
proof (cases "t_header T = nullptr")
  case True
  then show ?thesis using assms by (simp add: find_node_def root_def qtree_inv_def end_iter_def)
next
  case False
  with assms obtain t where t: "trep h (t_header T) (first_addr (t_header T) xs) (last_addr (t_header T) xs) t"
    "items t = xs" "h nullptr = None" "sorted_wrt lt (keys ks xs)" by (rule qtree_inv_obtain)
  have "ptr (t_header T) t \<noteq> nullptr"
    using t(1,3) by (rule trep_root_not_null)
  then show ?thesis
    using trep_header_reads [OF t(1)] find_loop_sim [of h _ _ _ "[]"] t False
    by (simp add: find_node_def root_def end_iter_def)
qed

end

end
