(* ===== verification/QTreeInsert.thy ===== *)
theory QTreeInsert
  imports QTreeLookup
begin

text \<open>
  Insertion into the tree.  The loop of \<open>insert_fixup\<close> computes \<open>ins_fix\<close> and
  terminates; the descent of \<open>find_insert_position\<close> ends at the place the order of the
  keys dictates; \<open>emplace_at\<close> adds exactly the new element and keeps every invariant.
\<close>

text \<open>The colour seen at the parent of the focus.\<close>

lemma trep_parent_is_red:
  assumes "trep h hdr mn mx (plug ctx (Bin l a c v r))"
  shows "parent_is_red h a = Some (ccol ctx = Red)"
proof (cases ctx)
  case Nil
  then show ?thesis using trep_reads [OF assms] trep_header_reads [OF assms]
    by (simp add: parent_is_red_def)
next
  case (Cons f ctx')
  then show ?thesis
    using trep_reads [OF assms] assms
      trep_reads [of h hdr mn mx ctx' "Bin l a c v r" "faddr f" "fcol f"]
      trep_reads(4,5) [of h hdr mn mx ctx' _ "faddr f" "fcol f" _ "Bin l a c v r"]
    by (cases f) (simp_all add: parent_is_red_def)
qed

lemma insert_fixup_loop_stop:
  assumes "trep h hdr mn mx (plug ctx (Bin l a c v r))" "ccol ctx = Black"
  shows "insert_fixup_loop h hdr a = Some h"
  using trep_parent_is_red [OF assms(1)] assms(2) by (subst insert_fixup_loop.simps) simp

section \<open>The fixup loop\<close>

text \<open>The three blocks of the loop body: recolouring, and the outer rotation on each side.\<close>

lemma recolour_left:
  assumes "trep h hdr mn mx (plug ctx (Bin (Bin pl p cp vp pr) g cg vg (Bin ul u cu vu ur)))"
  shows "\<exists>h1 h2 h3. set_color h p Black = Some h1 \<and> set_color h1 u Black = Some h2 \<and>
    set_color h2 g Red = Some h3 \<and>
    reshapes hdr mn mx h (plug ctx (Bin (Bin pl p cp vp pr) g cg vg (Bin ul u cu vu ur)))
      h3 (plug ctx (Bin (Bin pl p Black vp pr) g Red vg (Bin ul u Black vu ur)))"
proof -
  let ?U = "Bin ul u cu vu ur"
  obtain h1 where 1: "set_color h p Black = Some h1"
      "reshapes hdr mn mx h (plug ctx (Bin (Bin pl p cp vp pr) g cg vg ?U))
         h1 (plug ctx (Bin (Bin pl p Black vp pr) g cg vg ?U))"
    using set_color_reshapes [of h hdr mn mx "LF g cg vg ?U # ctx" pl p cp vp pr Black] assms by auto
  obtain h2 where 2: "set_color h1 u Black = Some h2"
      "reshapes hdr mn mx h1 (plug ctx (Bin (Bin pl p Black vp pr) g cg vg ?U))
         h2 (plug ctx (Bin (Bin pl p Black vp pr) g cg vg (Bin ul u Black vu ur)))"
    using set_color_reshapes [of h1 hdr mn mx "RF (Bin pl p Black vp pr) g cg vg # ctx" ul u cu vu ur Black]
      reshapes_trep [OF 1(2)] by auto
  obtain h3 where 3: "set_color h2 g Red = Some h3"
      "reshapes hdr mn mx h2 (plug ctx (Bin (Bin pl p Black vp pr) g cg vg (Bin ul u Black vu ur)))
         h3 (plug ctx (Bin (Bin pl p Black vp pr) g Red vg (Bin ul u Black vu ur)))"
    using set_color_reshapes [of h2 hdr mn mx ctx "Bin pl p Black vp pr" g cg vg "Bin ul u Black vu ur" Red]
      reshapes_trep [OF 2(2)] by auto
  show ?thesis using 1(1) 2(1) 3(1) reshapes_trans [OF reshapes_trans [OF 1(2) 2(2)] 3(2)] by blast
qed

lemma recolour_right:
  assumes "trep h hdr mn mx (plug ctx (Bin (Bin ul u cu vu ur) g cg vg (Bin pl p cp vp pr)))"
  shows "\<exists>h1 h2 h3. set_color h p Black = Some h1 \<and> set_color h1 u Black = Some h2 \<and>
    set_color h2 g Red = Some h3 \<and>
    reshapes hdr mn mx h (plug ctx (Bin (Bin ul u cu vu ur) g cg vg (Bin pl p cp vp pr)))
      h3 (plug ctx (Bin (Bin ul u Black vu ur) g Red vg (Bin pl p Black vp pr)))"
proof -
  let ?U = "Bin ul u cu vu ur"
  obtain h1 where 1: "set_color h p Black = Some h1"
      "reshapes hdr mn mx h (plug ctx (Bin ?U g cg vg (Bin pl p cp vp pr)))
         h1 (plug ctx (Bin ?U g cg vg (Bin pl p Black vp pr)))"
    using set_color_reshapes [of h hdr mn mx "RF ?U g cg vg # ctx" pl p cp vp pr Black] assms by auto
  obtain h2 where 2: "set_color h1 u Black = Some h2"
      "reshapes hdr mn mx h1 (plug ctx (Bin ?U g cg vg (Bin pl p Black vp pr)))
         h2 (plug ctx (Bin (Bin ul u Black vu ur) g cg vg (Bin pl p Black vp pr)))"
    using set_color_reshapes [of h1 hdr mn mx "LF g cg vg (Bin pl p Black vp pr) # ctx" ul u cu vu ur Black]
      reshapes_trep [OF 1(2)] by auto
  obtain h3 where 3: "set_color h2 g Red = Some h3"
      "reshapes hdr mn mx h2 (plug ctx (Bin (Bin ul u Black vu ur) g cg vg (Bin pl p Black vp pr)))
         h3 (plug ctx (Bin (Bin ul u Black vu ur) g Red vg (Bin pl p Black vp pr)))"
    using set_color_reshapes [of h2 hdr mn mx ctx "Bin ul u Black vu ur" g cg vg "Bin pl p Black vp pr" Red]
      reshapes_trep [OF 2(2)] by auto
  show ?thesis using 1(1) 2(1) 3(1) reshapes_trans [OF reshapes_trans [OF 1(2) 2(2)] 3(2)] by blast
qed

lemma outer_right:
  assumes "trep h hdr mn mx (plug ctx (Bin (Bin A p cp vp B) g cg vg C))"
  shows "\<exists>h1 h2 h3. set_color h p Black = Some h1 \<and> set_color h1 g Red = Some h2 \<and>
    rotate_right h2 hdr g = Some h3 \<and>
    reshapes hdr mn mx h (plug ctx (Bin (Bin A p cp vp B) g cg vg C))
      h3 (plug ctx (Bin A p Black vp (Bin B g Red vg C)))"
proof -
  obtain h1 where 1: "set_color h p Black = Some h1"
      "reshapes hdr mn mx h (plug ctx (Bin (Bin A p cp vp B) g cg vg C))
         h1 (plug ctx (Bin (Bin A p Black vp B) g cg vg C))"
    using set_color_reshapes [of h hdr mn mx "LF g cg vg C # ctx" A p cp vp B Black] assms by auto
  obtain h2 where 2: "set_color h1 g Red = Some h2"
      "reshapes hdr mn mx h1 (plug ctx (Bin (Bin A p Black vp B) g cg vg C))
         h2 (plug ctx (Bin (Bin A p Black vp B) g Red vg C))"
    using set_color_reshapes [OF reshapes_trep [OF 1(2)]] by blast
  obtain h3 where 3: "rotate_right h2 hdr g = Some h3"
      "reshapes hdr mn mx h2 (plug ctx (Bin (Bin A p Black vp B) g Red vg C))
         h3 (plug ctx (Bin A p Black vp (Bin B g Red vg C)))"
    using rotate_right_reshapes [OF reshapes_trep [OF 2(2)]] by blast
  show ?thesis using 1(1) 2(1) 3(1) reshapes_trans [OF reshapes_trans [OF 1(2) 2(2)] 3(2)] by blast
qed

lemma outer_left:
  assumes "trep h hdr mn mx (plug ctx (Bin A g cg vg (Bin B p cp vp C)))"
  shows "\<exists>h1 h2 h3. set_color h p Black = Some h1 \<and> set_color h1 g Red = Some h2 \<and>
    rotate_left h2 hdr g = Some h3 \<and>
    reshapes hdr mn mx h (plug ctx (Bin A g cg vg (Bin B p cp vp C)))
      h3 (plug ctx (Bin (Bin A g Red vg B) p Black vp C))"
proof -
  obtain h1 where 1: "set_color h p Black = Some h1"
      "reshapes hdr mn mx h (plug ctx (Bin A g cg vg (Bin B p cp vp C)))
         h1 (plug ctx (Bin A g cg vg (Bin B p Black vp C)))"
    using set_color_reshapes [of h hdr mn mx "RF A g cg vg # ctx" B p cp vp C Black] assms by auto
  obtain h2 where 2: "set_color h1 g Red = Some h2"
      "reshapes hdr mn mx h1 (plug ctx (Bin A g cg vg (Bin B p Black vp C)))
         h2 (plug ctx (Bin A g Red vg (Bin B p Black vp C)))"
    using set_color_reshapes [OF reshapes_trep [OF 1(2)]] by blast
  obtain h3 where 3: "rotate_left h2 hdr g = Some h3"
      "reshapes hdr mn mx h2 (plug ctx (Bin A g Red vg (Bin B p Black vp C)))
         h3 (plug ctx (Bin (Bin A g Red vg B) p Black vp C))"
    using rotate_left_reshapes [OF reshapes_trep [OF 2(2)]] by blast
  show ?thesis using 1(1) 2(1) 3(1) reshapes_trans [OF reshapes_trans [OF 1(2) 2(2)] 3(2)] by blast
qed

lemma insert_fixup_loop_sim:
  "trep h hdr mn mx (plug ctx t) \<Longrightarrow> t = Bin n1 n Red vn n2 \<Longrightarrow> cinv ctx (bh t) \<Longrightarrow> invc t \<Longrightarrow> invh t \<Longrightarrow>
   \<exists>h'. insert_fixup_loop h hdr n = Some h' \<and> reshapes hdr mn mx h (plug ctx t) h' (ins_fix ctx t)"
proof (induction ctx t arbitrary: h n1 n vn n2 rule: ins_fix.induct)
  case (1 p vp sib g cg vg unc ctx m1 m cm vm m2)
  have [simp]: "m1 = n1" "m = n" "cm = Red" "vm = vn" "m2 = n2" using "1.prems"(2) by auto
  let ?G = "Bin (Bin (Bin n1 n Red vn n2) p Red vp sib) g cg vg unc"
  have T: "trep h hdr mn mx (plug ctx ?G)" using "1.prems"(1) by simp
  have go: "parent_is_red h n = Some True"
    using trep_parent_is_red [of h hdr mn mx "LF p Red vp sib # LF g cg vg unc # ctx" n1 n Red vn n2] T by simp
  note reads = go trep_child_nil [OF T] trep_reads [OF T]
    trep_reads [of h hdr mn mx "LF g cg vg unc # ctx" "Bin n1 n Red vn n2" p Red vp sib]
    trep_reads [of h hdr mn mx "LF p Red vp sib # LF g cg vg unc # ctx" n1 n Red vn n2]
  show ?case
  proof (cases "tcol unc = Red")
    case True
    then obtain ul u vu ur where unc: "unc = Bin ul u Red vu ur" by (cases unc) auto
    obtain h1 h2 h3 where w: "set_color h p Black = Some h1" "set_color h1 u Black = Some h2"
        "set_color h2 g Red = Some h3"
        "reshapes hdr mn mx h (plug ctx ?G) h3 (plug ctx (Bin (Bin (Bin n1 n Red vn n2) p Black vp sib) g Red vg (Bin ul u Black vu ur)))"
      using recolour_left [OF T [unfolded unc]] unc by blast
    have "\<exists>h'. insert_fixup_loop h3 hdr g = Some h' \<and>
        reshapes hdr mn mx h3 (plug ctx (Bin (Bin (Bin n1 n Red vn n2) p Black vp sib) g Red vg (Bin ul u Black vu ur))) h'
          (ins_fix ctx (Bin (Bin (Bin n1 n Red vn n2) p Black vp sib) g Red vg (Bin ul u Black vu ur)))"
      using "1.IH" [of h3] True reshapes_trep [OF w(4)] "1.prems"(3-5) unc
      by (auto split: if_splits)
    then obtain h' where h': "insert_fixup_loop h3 hdr g = Some h'"
        "reshapes hdr mn mx h3 (plug ctx (Bin (Bin (Bin n1 n Red vn n2) p Black vp sib) g Red vg (Bin ul u Black vu ur))) h'
          (ins_fix ctx (Bin (Bin (Bin n1 n Red vn n2) p Black vp sib) g Red vg (Bin ul u Black vu ur)))" by blast
    have "insert_fixup_loop h hdr n = Some h'"
      using reads w h'(1) T unc trep_distinct_plug [OF T] by (subst insert_fixup_loop.simps) auto
    then show ?thesis using reshapes_trans [OF w(4) h'(2)] True unc by simp
  next
    case False
    obtain h1 h2 h3 where w: "set_color h p Black = Some h1" "set_color h1 g Red = Some h2"
        "rotate_right h2 hdr g = Some h3"
        "reshapes hdr mn mx h (plug ctx ?G) h3 (plug ctx (Bin (Bin n1 n Red vn n2) p Black vp (Bin sib g Red vg unc)))"
      using outer_right [OF T] by blast
    have "insert_fixup_loop h3 hdr n = Some h3"
      using insert_fixup_loop_stop [of h3 hdr mn mx "LF p Black vp (Bin sib g Red vg unc) # ctx" n1 n Red vn n2]
        reshapes_trep [OF w(4)] by simp
    moreover have "n \<noteq> ptr hdr sib" using trep_distinct_plug [OF T] by (intro ptr_neq) auto
    ultimately have "insert_fixup_loop h hdr n = Some h3"
      using reads w T False by (subst insert_fixup_loop.simps) simp
    then show ?thesis using w(4) False by auto
  qed
next
  case (2 sib p vp g cg vg unc ctx m1 m cm vm m2)
  have [simp]: "m1 = n1" "m = n" "cm = Red" "vm = vn" "m2 = n2" using "2.prems"(2) by auto
  let ?G = "Bin (Bin sib p Red vp (Bin n1 n Red vn n2)) g cg vg unc"
  have T: "trep h hdr mn mx (plug ctx ?G)" using "2.prems"(1) by simp
  have go: "parent_is_red h n = Some True"
    using trep_parent_is_red [of h hdr mn mx "RF sib p Red vp # LF g cg vg unc # ctx" n1 n Red vn n2] T by simp
  note reads = go trep_child_nil [OF T] trep_reads [OF T]
    trep_reads [of h hdr mn mx "LF g cg vg unc # ctx" sib p Red vp "Bin n1 n Red vn n2"]
    trep_reads [of h hdr mn mx "RF sib p Red vp # LF g cg vg unc # ctx" n1 n Red vn n2]
  show ?case
  proof (cases "tcol unc = Red")
    case True
    then obtain ul u vu ur where unc: "unc = Bin ul u Red vu ur" by (cases unc) auto
    obtain h1 h2 h3 where w: "set_color h p Black = Some h1" "set_color h1 u Black = Some h2"
        "set_color h2 g Red = Some h3"
        "reshapes hdr mn mx h (plug ctx ?G) h3 (plug ctx (Bin (Bin sib p Black vp (Bin n1 n Red vn n2)) g Red vg (Bin ul u Black vu ur)))"
      using recolour_left [OF T [unfolded unc]] unc by blast
    have "\<exists>h'. insert_fixup_loop h3 hdr g = Some h' \<and>
        reshapes hdr mn mx h3 (plug ctx (Bin (Bin sib p Black vp (Bin n1 n Red vn n2)) g Red vg (Bin ul u Black vu ur))) h'
          (ins_fix ctx (Bin (Bin sib p Black vp (Bin n1 n Red vn n2)) g Red vg (Bin ul u Black vu ur)))"
      using "2.IH" [of h3] True reshapes_trep [OF w(4)] "2.prems"(3-5) unc
      by (auto split: if_splits)
    then obtain h' where h': "insert_fixup_loop h3 hdr g = Some h'"
        "reshapes hdr mn mx h3 (plug ctx (Bin (Bin sib p Black vp (Bin n1 n Red vn n2)) g Red vg (Bin ul u Black vu ur))) h'
          (ins_fix ctx (Bin (Bin sib p Black vp (Bin n1 n Red vn n2)) g Red vg (Bin ul u Black vu ur)))" by blast
    have "insert_fixup_loop h hdr n = Some h'"
      using reads w h'(1) T unc trep_distinct_plug [OF T] by (subst insert_fixup_loop.simps) auto
    then show ?thesis using reshapes_trans [OF w(4) h'(2)] True unc by simp
  next
    case False
    obtain h0 where r: "rotate_left h hdr p = Some h0"
        "reshapes hdr mn mx h (plug ctx ?G) h0 (plug ctx (Bin (Bin (Bin sib p Red vp n1) n Red vn n2) g cg vg unc))"
      using rotate_left_reshapes [of h hdr mn mx "LF g cg vg unc # ctx"] T by fastforce
    note T0 = reshapes_trep [OF r(2)]
    note reads0 = trep_reads [of h0 hdr mn mx "LF n Red vn n2 # LF g cg vg unc # ctx" sib p Red vp n1]
      trep_reads [of h0 hdr mn mx "LF g cg vg unc # ctx" "Bin sib p Red vp n1" n Red vn n2]
    obtain h1 h2 h3 where w: "set_color h0 n Black = Some h1" "set_color h1 g Red = Some h2"
        "rotate_right h2 hdr g = Some h3"
        "reshapes hdr mn mx h0 (plug ctx (Bin (Bin (Bin sib p Red vp n1) n Red vn n2) g cg vg unc)) h3 (plug ctx (Bin (Bin sib p Red vp n1) n Black vn (Bin n2 g Red vg unc)))"
      using outer_right [OF T0] by blast
    have "insert_fixup_loop h3 hdr p = Some h3"
      using insert_fixup_loop_stop [of h3 hdr mn mx "LF n Black vn (Bin n2 g Red vg unc) # ctx" sib p Red vp n1]
        reshapes_trep [OF w(4)] by simp
    then have "insert_fixup_loop h hdr n = Some h3"
      using reads r(1) reads0 T0 w T False trep_distinct_plug [OF T] by (subst insert_fixup_loop.simps) auto
    then show ?thesis using reshapes_trans [OF r(2) w(4)] False by auto
  qed
next
  case (3 p vp sib unc g cg vg ctx m1 m cm vm m2)
  have [simp]: "m1 = n1" "m = n" "cm = Red" "vm = vn" "m2 = n2" using "3.prems"(2) by auto
  let ?G = "Bin unc g cg vg (Bin (Bin n1 n Red vn n2) p Red vp sib)"
  have T: "trep h hdr mn mx (plug ctx ?G)" using "3.prems"(1) by simp
  have go: "parent_is_red h n = Some True"
    using trep_parent_is_red [of h hdr mn mx "LF p Red vp sib # RF unc g cg vg # ctx" n1 n Red vn n2] T by simp
  note reads = go trep_child_nil [OF T] trep_reads [OF T]
    trep_reads [of h hdr mn mx "RF unc g cg vg # ctx" "Bin n1 n Red vn n2" p Red vp sib]
    trep_reads [of h hdr mn mx "LF p Red vp sib # RF unc g cg vg # ctx" n1 n Red vn n2]
  show ?case
  proof (cases "tcol unc = Red")
    case True
    then obtain ul u vu ur where unc: "unc = Bin ul u Red vu ur" by (cases unc) auto
    obtain h1 h2 h3 where w: "set_color h p Black = Some h1" "set_color h1 u Black = Some h2"
        "set_color h2 g Red = Some h3"
        "reshapes hdr mn mx h (plug ctx ?G) h3 (plug ctx (Bin (Bin ul u Black vu ur) g Red vg (Bin (Bin n1 n Red vn n2) p Black vp sib)))"
      using recolour_right [OF T [unfolded unc]] unc by blast
    have "\<exists>h'. insert_fixup_loop h3 hdr g = Some h' \<and>
        reshapes hdr mn mx h3 (plug ctx (Bin (Bin ul u Black vu ur) g Red vg (Bin (Bin n1 n Red vn n2) p Black vp sib))) h'
          (ins_fix ctx (Bin (Bin ul u Black vu ur) g Red vg (Bin (Bin n1 n Red vn n2) p Black vp sib)))"
      using "3.IH" [of h3] True reshapes_trep [OF w(4)] "3.prems"(3-5) unc
      by (auto split: if_splits)
    then obtain h' where h': "insert_fixup_loop h3 hdr g = Some h'"
        "reshapes hdr mn mx h3 (plug ctx (Bin (Bin ul u Black vu ur) g Red vg (Bin (Bin n1 n Red vn n2) p Black vp sib))) h'
          (ins_fix ctx (Bin (Bin ul u Black vu ur) g Red vg (Bin (Bin n1 n Red vn n2) p Black vp sib)))" by blast
    have "insert_fixup_loop h hdr n = Some h'"
      using reads w h'(1) T unc trep_distinct_plug [OF T] by (subst insert_fixup_loop.simps) auto
    then show ?thesis using reshapes_trans [OF w(4) h'(2)] True unc by simp
  next
    case False
    obtain h0 where r: "rotate_right h hdr p = Some h0"
        "reshapes hdr mn mx h (plug ctx ?G) h0 (plug ctx (Bin unc g cg vg (Bin n1 n Red vn (Bin n2 p Red vp sib))))"
      using rotate_right_reshapes [of h hdr mn mx "RF unc g cg vg # ctx"] T by fastforce
    note T0 = reshapes_trep [OF r(2)]
    note reads0 = trep_reads [of h0 hdr mn mx "RF n1 n Red vn # RF unc g cg vg # ctx" n2 p Red vp sib]
      trep_reads [of h0 hdr mn mx "RF unc g cg vg # ctx" n1 n Red vn "Bin n2 p Red vp sib"]
    obtain h1 h2 h3 where w: "set_color h0 n Black = Some h1" "set_color h1 g Red = Some h2"
        "rotate_left h2 hdr g = Some h3"
        "reshapes hdr mn mx h0 (plug ctx (Bin unc g cg vg (Bin n1 n Red vn (Bin n2 p Red vp sib)))) h3 (plug ctx (Bin (Bin unc g Red vg n1) n Black vn (Bin n2 p Red vp sib)))"
      using outer_left [OF T0] by blast
    have "insert_fixup_loop h3 hdr p = Some h3"
      using insert_fixup_loop_stop [of h3 hdr mn mx "RF (Bin unc g Red vg n1) n Black vn # ctx" n2 p Red vp sib]
        reshapes_trep [OF w(4)] by simp
    then have "insert_fixup_loop h hdr n = Some h3"
      using reads r(1) reads0 T0 w T False trep_distinct_plug [OF T] by (subst insert_fixup_loop.simps) auto
    then show ?thesis using reshapes_trans [OF r(2) w(4)] False by auto
  qed
next
  case (4 sib p vp unc g cg vg ctx m1 m cm vm m2)
  have [simp]: "m1 = n1" "m = n" "cm = Red" "vm = vn" "m2 = n2" using "4.prems"(2) by auto
  let ?G = "Bin unc g cg vg (Bin sib p Red vp (Bin n1 n Red vn n2))"
  have T: "trep h hdr mn mx (plug ctx ?G)" using "4.prems"(1) by simp
  have go: "parent_is_red h n = Some True"
    using trep_parent_is_red [of h hdr mn mx "RF sib p Red vp # RF unc g cg vg # ctx" n1 n Red vn n2] T by simp
  note reads = go trep_child_nil [OF T] trep_reads [OF T]
    trep_reads [of h hdr mn mx "RF unc g cg vg # ctx" sib p Red vp "Bin n1 n Red vn n2"]
    trep_reads [of h hdr mn mx "RF sib p Red vp # RF unc g cg vg # ctx" n1 n Red vn n2]
  show ?case
  proof (cases "tcol unc = Red")
    case True
    then obtain ul u vu ur where unc: "unc = Bin ul u Red vu ur" by (cases unc) auto
    obtain h1 h2 h3 where w: "set_color h p Black = Some h1" "set_color h1 u Black = Some h2"
        "set_color h2 g Red = Some h3"
        "reshapes hdr mn mx h (plug ctx ?G) h3 (plug ctx (Bin (Bin ul u Black vu ur) g Red vg (Bin sib p Black vp (Bin n1 n Red vn n2))))"
      using recolour_right [OF T [unfolded unc]] unc by blast
    have "\<exists>h'. insert_fixup_loop h3 hdr g = Some h' \<and>
        reshapes hdr mn mx h3 (plug ctx (Bin (Bin ul u Black vu ur) g Red vg (Bin sib p Black vp (Bin n1 n Red vn n2)))) h'
          (ins_fix ctx (Bin (Bin ul u Black vu ur) g Red vg (Bin sib p Black vp (Bin n1 n Red vn n2))))"
      using "4.IH" [of h3] True reshapes_trep [OF w(4)] "4.prems"(3-5) unc
      by (auto split: if_splits)
    then obtain h' where h': "insert_fixup_loop h3 hdr g = Some h'"
        "reshapes hdr mn mx h3 (plug ctx (Bin (Bin ul u Black vu ur) g Red vg (Bin sib p Black vp (Bin n1 n Red vn n2)))) h'
          (ins_fix ctx (Bin (Bin ul u Black vu ur) g Red vg (Bin sib p Black vp (Bin n1 n Red vn n2))))" by blast
    have "insert_fixup_loop h hdr n = Some h'"
      using reads w h'(1) T unc trep_distinct_plug [OF T] by (subst insert_fixup_loop.simps) auto
    then show ?thesis using reshapes_trans [OF w(4) h'(2)] True unc by simp
  next
    case False
    obtain h1 h2 h3 where w: "set_color h p Black = Some h1" "set_color h1 g Red = Some h2"
        "rotate_left h2 hdr g = Some h3"
        "reshapes hdr mn mx h (plug ctx ?G) h3 (plug ctx (Bin (Bin unc g Red vg sib) p Black vp (Bin n1 n Red vn n2)))"
      using outer_left [OF T] by blast
    have "insert_fixup_loop h3 hdr n = Some h3"
      using insert_fixup_loop_stop [of h3 hdr mn mx "RF (Bin unc g Red vg sib) p Black vp # ctx" n1 n Red vn n2]
        reshapes_trep [OF w(4)] by simp
    moreover have "n \<noteq> ptr hdr sib" using trep_distinct_plug [OF T] by (intro ptr_neq) auto
    moreover have "p \<noteq> ptr hdr unc" using trep_distinct_plug [OF T] by (intro ptr_neq) auto
    ultimately have "insert_fixup_loop h hdr n = Some h3"
      using reads w T False by (subst insert_fixup_loop.simps) simp
    then show ?thesis using w(4) False by auto
  qed
qed (use insert_fixup_loop_stop reshapes_refl in \<open>fastforce simp del: plug.simps\<close>)+

lemma blacken_root_sim:
  assumes "trep h hdr mn mx T"
  shows "\<exists>h'. blacken_root h hdr = Some h' \<and> reshapes hdr mn mx h T h' (paint Black T)"
proof (cases T)
  case Tip
  then show ?thesis using assms trep_header_reads [OF assms] by (auto simp: blacken_root_def reshapes_refl)
next
  case (Bin l a c v r)
  then show ?thesis
    using assms trep_header_reads [OF assms] trep_reads [of h hdr mn mx "[]" l a c v r]
      set_color_reshapes [of h hdr mn mx "[]" l a c v r Black] by (auto simp: blacken_root_def)
qed

lemma insert_fixup_sim:
  assumes "trep h hdr mn mx (plug ctx (Bin n1 n Red vn n2))" "cinv ctx (bh n1)" "invc (Bin n1 n Red vn n2)"
    "invh (Bin n1 n Red vn n2)"
  shows "\<exists>h' T'. insert_fixup h hdr n = Some h' \<and>
    reshapes hdr mn mx h (plug ctx (Bin n1 n Red vn n2)) h' T' \<and>
    items T' = litems ctx @ items (Bin n1 n Red vn n2) @ ritems ctx \<and> rb T'"
proof -
  let ?t = "Bin n1 n Red vn n2"
  obtain h1 where 1: "insert_fixup_loop h hdr n = Some h1"
      "reshapes hdr mn mx h (plug ctx ?t) h1 (ins_fix ctx ?t)"
    using insert_fixup_loop_sim [OF assms(1) refl] assms(2-4) by auto
  obtain h2 where 2: "blacken_root h1 hdr = Some h2"
      "reshapes hdr mn mx h1 (ins_fix ctx ?t) h2 (paint Black (ins_fix ctx ?t))"
    using blacken_root_sim [OF reshapes_trep [OF 1(2)]] by blast
  have "invc (ins_fix ctx ?t) \<and> invh (ins_fix ctx ?t)"
    using assms(2-4) by (intro ins_fix_inv) auto
  then have "rb (paint Black (ins_fix ctx ?t))" by (simp add: rb_def)
  moreover have "insert_fixup h hdr n = Some h2" using 1 2 by (simp add: insert_fixup_def)
  moreover have "items (paint Black (ins_fix ctx ?t)) = litems ctx @ items ?t @ ritems ctx"
    by (simp only: items_paint items_ins_fix)
  ultimately show ?thesis using reshapes_trans [OF 1(2) 2(2)] by blast
qed

section \<open>The place of a key\<close>

text \<open>
  A place: a hole \<open>ctx\<close> of the tree with the smaller elements on its left and the greater
  on its right, and what \<open>find_insert_position\<close> reports for it.
\<close>

definition place :: "('k \<Rightarrow> 'k \<Rightarrow> bool) \<Rightarrow> ('v \<Rightarrow> 'k) \<Rightarrow> 'k \<Rightarrow> 'v path \<Rightarrow> bool" where
  "place lt ks key ctx \<longleftrightarrow>
     (\<forall>x\<in>set (litems ctx). lt (ks (snd x)) key) \<and> (\<forall>x\<in>set (ritems ctx). lt key (ks (snd x)))"

fun hole_side :: "bool \<Rightarrow> 'v path \<Rightarrow> bool" where
  "hole_side g [] = g"
| "hole_side g (LF a c v r # ctx) = True"
| "hole_side g (RF l a c v # ctx) = False"

context strict_weak
begin

lemma find_insert_loop_sim:
  "trep h hdr mn mx (plug ctx t) \<Longrightarrow> sorted_wrt lt (keys ks (items (plug ctx t))) \<Longrightarrow> place lt ks key ctx \<Longrightarrow>
   (\<exists>ctx'. plug ctx' Tip = plug ctx t \<and> place lt ks key ctx' \<and>
      find_insert_loop lt ks h key (ptr hdr t) (cpar hdr ctx) (hole_side g ctx) =
        Some (nullptr, cpar hdr ctx', hole_side g ctx')) \<or>
   (\<exists>a v gl. (a, v) \<in> set (items t) \<and> keys_equal lt (ks v) key \<and>
      find_insert_loop lt ks h key (ptr hdr t) (cpar hdr ctx) (hole_side g ctx) = Some (a, a, gl))"
proof (induction t arbitrary: ctx)
  case Tip
  then show ?case using trep_is_nil [OF Tip.prems(1)]
    by (intro disjI1 exI [of _ ctx]) (subst find_insert_loop.simps, simp)
next
  case (Bin l a c v r)
  note reads = trep_reads [OF Bin.prems(1)] sorted_keys_plug [OF Bin.prems(2)]
  consider "lt key (ks v)" | "\<not> lt key (ks v)" "lt (ks v) key" | "\<not> lt key (ks v)" "\<not> lt (ks v) key" by blast
  then show ?case
  proof cases
    case 1
    then have "place lt ks key (LF a c v r # ctx)"
      using Bin.prems(3) reads(8) trans by (auto simp: place_def)
    then show ?thesis
      using 1 reads Bin.IH(1) [of "LF a c v r # ctx"] Bin.prems
      by (subst (1 2) find_insert_loop.simps) auto
  next
    case 2
    then have "place lt ks key (RF l a c v # ctx)"
      using Bin.prems(3) reads(8) by (fastforce simp: place_def intro: trans [OF _ 2(2)])
    then show ?thesis
      using 2 reads Bin.IH(2) [of "RF l a c v # ctx"] Bin.prems
      by (subst (1 2) find_insert_loop.simps) auto
  next
    case 3
    then show ?thesis
      using reads by (intro disjI2 exI [of _ a] exI [of _ v]) (subst find_insert_loop.simps, simp add: keys_equal_def)
  qed
qed

end

section \<open>Hooking in a new node\<close>

lemma attach_link_left:
  assumes "trep h hdr mn mx (plug (LF p c w r # ctx) Tip)" "h a = None"
  shows "\<exists>h'. set_left (h(a \<mapsto> mk p hdr hdr Red v)) p a = Some h' \<and>
    trep h' hdr mn mx (plug (LF p c w r # ctx) (Bin Tip a Red v Tip)) \<and> same_off {a, p} h h'"
proof -
  have d: "a \<notin> insert hdr (set (addrs (plug (LF p c w r # ctx) Tip)))"
    using trep_dom [OF assms(1)] assms(2) by blast
  have z: "zrep h hdr mn mx (LF p c w r # ctx) Tip" using assms(1) by (simp only: zrep_plug)
  let ?h = "h(a \<mapsto> mk p hdr hdr Red v, p \<mapsto> mk (cpar hdr ctx) a (ptr hdr r) c w)"
  have "zrep ?h hdr mn mx (LF p c w r # ctx) (Bin Tip a Red v Tip)"
    using z d by (clarsimp simp: zrep_def set_addrs_plug)
  moreover have "set_left (h(a \<mapsto> mk p hdr hdr Red v)) p a = Some ?h"
    using z d by (clarsimp simp: zrep_def set_addrs_plug set_left_def upd_node_def)
  ultimately show ?thesis by (auto simp: zrep_plug)
qed

lemma attach_link_right:
  assumes "trep h hdr mn mx (plug (RF l p c w # ctx) Tip)" "h a = None"
  shows "\<exists>h'. set_right (h(a \<mapsto> mk p hdr hdr Red v)) p a = Some h' \<and>
    trep h' hdr mn mx (plug (RF l p c w # ctx) (Bin Tip a Red v Tip)) \<and> same_off {a, p} h h'"
proof -
  have d: "a \<notin> insert hdr (set (addrs (plug (RF l p c w # ctx) Tip)))"
    using trep_dom [OF assms(1)] assms(2) by blast
  have z: "zrep h hdr mn mx (RF l p c w # ctx) Tip" using assms(1) by (simp only: zrep_plug)
  let ?h = "h(a \<mapsto> mk p hdr hdr Red v, p \<mapsto> mk (cpar hdr ctx) (ptr hdr l) a c w)"
  have "zrep ?h hdr mn mx (RF l p c w # ctx) (Bin Tip a Red v Tip)"
    using z d by (clarsimp simp: zrep_def set_addrs_plug)
  moreover have "set_right (h(a \<mapsto> mk p hdr hdr Red v)) p a = Some ?h"
    using z d by (clarsimp simp: zrep_def set_addrs_plug set_right_def upd_node_def)
  ultimately show ?thesis by (auto simp: zrep_plug)
qed

text \<open>\<open>attach_child\<close> also keeps the cached minimum and maximum right.\<close>

lemma attach_child_left:
  assumes "trep h hdr mn mx (plug (LF p c w r # ctx) Tip)" "h a = None"
    "mn = first_addr hdr (items (plug (LF p c w r # ctx) Tip))"
  shows "\<exists>h'. attach_child (h(a \<mapsto> mk p hdr hdr Red v)) hdr p True a = Some h' \<and>
    trep h' hdr (first_addr hdr (litems ctx @ [(a, v)])) mx
      (plug (LF p c w r # ctx) (Bin Tip a Red v Tip)) \<and> same_off {a, p, hdr} h h'"
proof -
  let ?T = "plug (LF p c w r # ctx) (Bin Tip a Red v Tip)"
  obtain h1 where 1: "set_left (h(a \<mapsto> mk p hdr hdr Red v)) p a = Some h1"
      "trep h1 hdr mn mx ?T" "same_off {a, p} h h1"
    using attach_link_left [OF assms(1,2)] by blast
  have d: "p \<notin> fst ` set (litems ctx)"
    using trep_distinct [OF assms(1)] by (auto simp: addrs_items)
  have m: "left h1 hdr = Some mn" using trep_header_reads [OF 1(2)] by simp
  show ?thesis
  proof (cases "litems ctx = []")
    case True
    then have "p = mn" using assms(3) by simp
    moreover have "set_left h1 hdr a = Some (h1(hdr \<mapsto> hnode (ptr hdr ?T) a mx))"
      using trep_header [OF 1(2)] by (simp add: heap_simps)
    moreover have "trep (h1(hdr \<mapsto> hnode (ptr hdr ?T) a mx)) hdr a mx ?T"
      by (rule trep_upd_extremes [OF 1(2)])
    moreover have "same_off {a, p, hdr} h (h1(hdr \<mapsto> hnode (ptr hdr ?T) a mx))"
      using same_off_mono [OF 1(3)] by auto
    ultimately show ?thesis using 1 m True by (simp add: attach_child_def)
  next
    case False
    then have mn: "mn = first_addr hdr (litems ctx)" using assms(3) by (auto intro: first_addr_nonempty)
    with False d have "p \<noteq> mn" by (cases "litems ctx") auto
    moreover have "first_addr hdr (litems ctx @ [(a, v)]) = mn"
      using mn False first_addr_nonempty [OF False] by simp
    moreover have "same_off {a, p, hdr} h h1" using same_off_mono [OF 1(3)] by auto
    ultimately show ?thesis using 1 m by (simp add: attach_child_def del: first_addr_simps)
  qed
qed

lemma attach_child_right:
  assumes "trep h hdr mn mx (plug (RF l p c w # ctx) Tip)" "h a = None"
    "mx = last_addr hdr (items (plug (RF l p c w # ctx) Tip))"
  shows "\<exists>h'. attach_child (h(a \<mapsto> mk p hdr hdr Red v)) hdr p False a = Some h' \<and>
    trep h' hdr mn (last_addr hdr ((a, v) # ritems ctx))
      (plug (RF l p c w # ctx) (Bin Tip a Red v Tip)) \<and> same_off {a, p, hdr} h h'"
proof -
  let ?T = "plug (RF l p c w # ctx) (Bin Tip a Red v Tip)"
  obtain h1 where 1: "set_right (h(a \<mapsto> mk p hdr hdr Red v)) p a = Some h1"
      "trep h1 hdr mn mx ?T" "same_off {a, p} h h1"
    using attach_link_right [OF assms(1,2)] by blast
  have d: "p \<notin> fst ` set (ritems ctx)"
    using trep_distinct [OF assms(1)] by (auto simp: addrs_items)
  have m: "right h1 hdr = Some mx" using trep_header_reads [OF 1(2)] by simp
  show ?thesis
  proof (cases "ritems ctx = []")
    case True
    then have "p = mx" using assms(3) by simp
    moreover have "set_right h1 hdr a = Some (h1(hdr \<mapsto> hnode (ptr hdr ?T) mn a))"
      using trep_header [OF 1(2)] by (simp add: heap_simps)
    moreover have "trep (h1(hdr \<mapsto> hnode (ptr hdr ?T) mn a)) hdr mn a ?T"
      by (rule trep_upd_extremes [OF 1(2)])
    moreover have "same_off {a, p, hdr} h (h1(hdr \<mapsto> hnode (ptr hdr ?T) mn a))"
      using same_off_mono [OF 1(3)] by auto
    ultimately show ?thesis using 1 m True by (simp add: attach_child_def)
  next
    case False
    then have mx: "mx = last_addr hdr (ritems ctx)" using assms(3) last_addr_nonempty [OF False] by simp
    with False d have "p \<noteq> mx" by (auto simp: last_addr_def)
    moreover have "last_addr hdr ((a, v) # ritems ctx) = mx"
      using mx last_addr_nonempty [OF False] by simp
    moreover have "same_off {a, p, hdr} h h1" using same_off_mono [OF 1(3)] by auto
    ultimately show ?thesis using 1 m by (simp add: attach_child_def del: last_addr_simps)
  qed
qed

lemma attach_root_sim:
  assumes "trep h hdr mn mx Tip" "h a = None"
  shows "\<exists>h'. attach_root (h(a \<mapsto> mk hdr hdr hdr Red v)) hdr a = Some h' \<and>
    trep h' hdr a a (Bin Tip a Black v Tip) \<and> same_off {a, hdr} h h'"
proof -
  have ne: "a \<noteq> hdr" using trep_dom [OF assms(1)] assms(2) by blast
  have hdr: "h hdr = Some (hnode hdr mn mx)" using trep_header [OF assms(1)] by simp
  let ?h = "h(a \<mapsto> mk hdr hdr hdr Black v, hdr \<mapsto> hnode a a a)"
  have "attach_root (h(a \<mapsto> mk hdr hdr hdr Red v)) hdr a = Some ?h"
    using ne hdr by (simp add: attach_root_def heap_simps fun_upd_twist)
  moreover have "trep ?h hdr a a (Bin Tip a Black v Tip)" using ne by (simp add: trep_def)
  ultimately show ?thesis by auto
qed

section \<open>Emplacing\<close>

text \<open>What the containers rely on in an allocator: it hands out a fresh address, or fails.\<close>

definition alloc_ok :: "'v allocator \<Rightarrow> bool" where
  "alloc_ok alloc \<longleftrightarrow> (\<forall>h a. alloc h = Some a \<longrightarrow> h a = None \<and> a \<noteq> nullptr)"

lemma emplace_at_prefix:
  assumes "alloc h = Some a"
  shows "emplace_at alloc h T p g (Some v) = do {
    h \<leftarrow> (if p = t_header T then attach_root (h(a \<mapsto> mk p (t_header T) (t_header T) Red v)) (t_header T) a
      else do {
        h \<leftarrow> attach_child (h(a \<mapsto> mk p (t_header T) (t_header T) Red v)) (t_header T) p g a;
        insert_fixup h (t_header T) a });
    Some (Inr (a, True), h, T\<lparr>t_count := t_count T + 1\<rparr>) }"
  using assms by (simp add: emplace_at_def node_new_def Let_def node_defs blank_node_def)

text \<open>The tree after hooking in, before and after the fixup.\<close>

lemma hook_sim:
  assumes t: "trep h hdr (first_addr hdr (items t)) (last_addr hdr (items t)) t" "rb t" "t = plug ctx Tip"
    and a: "h a = None"
  shows "\<exists>h' t'. (if cpar hdr ctx = hdr then attach_root (h(a \<mapsto> mk (cpar hdr ctx) hdr hdr Red v)) hdr a
      else do {
        h \<leftarrow> attach_child (h(a \<mapsto> mk (cpar hdr ctx) hdr hdr Red v)) hdr (cpar hdr ctx) (hole_side g ctx) a;
        insert_fixup h hdr a }) = Some h' \<and>
    trep h' hdr (first_addr hdr (items t')) (last_addr hdr (items t')) t' \<and>
    items t' = litems ctx @ (a, v) # ritems ctx \<and> rb t' \<and>
    same_off (insert a (insert hdr (set (addrs t)))) h h'"
proof (cases ctx)
  case Nil
  with t have T: "trep h hdr hdr hdr Tip" by simp
  from attach_root_sim [OF T a] obtain h' where h': "attach_root (h(a \<mapsto> mk hdr hdr hdr Red v)) hdr a = Some h'"
    "trep h' hdr a a (Bin Tip a Black v Tip)" "same_off {a, hdr} h h'" by blast
  then show ?thesis using Nil t by (intro exI [of _ h'] exI [of _ "Bin Tip a Black v Tip"]) (simp add: rb_def)
next
  case (Cons f ctx')
  let ?u = "Bin Tip a Red v Tip" and ?x = "litems ctx @ (a, v) # ritems ctx"
  have "set (addrs t) = set (caddrs ctx)" unfolding t(3) set_addrs_plug by simp
  then have "faddr f \<in> set (addrs t)" by (cases f) (simp_all add: Cons)
  then have p: "cpar hdr ctx = faddr f" "faddr f \<noteq> hdr" "faddr f \<in> set (addrs t)"
    using trep_distinct [OF t(1)] by (auto simp: Cons)
  have "\<exists>h1. attach_child (h(a \<mapsto> mk (faddr f) hdr hdr Red v)) hdr (faddr f) (hole_side g ctx) a = Some h1 \<and>
      trep h1 hdr (first_addr hdr ?x) (last_addr hdr ?x) (plug ctx ?u) \<and> same_off {a, faddr f, hdr} h h1"
  proof (cases f)
    case (LF q c w r)
    then show ?thesis
      using attach_child_left [of h hdr _ _ q c w r ctx' a v] t a Cons by simp
  next
    case (RF l q c w)
    then show ?thesis
      using attach_child_right [of h hdr _ _ l q c w ctx' a v] t a Cons by simp
  qed
  then obtain h1 where 1: "attach_child (h(a \<mapsto> mk (faddr f) hdr hdr Red v)) hdr (faddr f) (hole_side g ctx) a = Some h1"
    "trep h1 hdr (first_addr hdr ?x) (last_addr hdr ?x) (plug ctx ?u)" "same_off {a, faddr f, hdr} h h1" by blast
  have ci: "cinv ctx 0" using plug_cinv [of ctx Tip] t(2,3) by (simp add: rb_def)
  obtain h2 t2 where 2: "insert_fixup h1 hdr a = Some h2"
      "reshapes hdr (first_addr hdr ?x) (last_addr hdr ?x) h1 (plug ctx ?u) h2 t2" "items t2 = ?x" "rb t2"
    using insert_fixup_sim [OF 1(2)] ci by auto
  have "same_off (insert a (insert hdr (set (addrs t)))) h h2"
  proof (rule same_off_trans)
    show "same_off (insert a (insert hdr (set (addrs t)))) h h1"
      using same_off_mono [OF 1(3)] p by auto
    have "same_off (insert hdr (set (addrs (plug ctx ?u)))) h1 h2" using 2(2) by (simp add: reshapes_def)
    then show "same_off (insert a (insert hdr (set (addrs t)))) h1 h2"
      by (rule same_off_mono) (auto simp: t(3) set_addrs_plug)
  qed
  then show ?thesis using 1 2 p reshapes_trep [OF 2(2)]
    by (intro exI [of _ h2] exI [of _ t2]) simp
qed

lemma alloc_okD: "alloc_ok alloc \<Longrightarrow> alloc h = Some a \<Longrightarrow> h a = None \<and> a \<noteq> nullptr"
  by (simp add: alloc_ok_def)

text \<open>Insertion into the ordered list of elements: the specification of an insertion.\<close>

definition insert_item ::
  "('k \<Rightarrow> 'k \<Rightarrow> bool) \<Rightarrow> ('v \<Rightarrow> 'k) \<Rightarrow> addr \<times> 'v \<Rightarrow> (addr \<times> 'v) list \<Rightarrow> (addr \<times> 'v) list" where
  "insert_item lt ks x xs = takeWhile (\<lambda>y. lt (ks (snd y)) (ks (snd x))) xs @
     x # dropWhile (\<lambda>y. lt (ks (snd y)) (ks (snd x))) xs"

definition has_key :: "('k \<Rightarrow> 'k \<Rightarrow> bool) \<Rightarrow> ('v \<Rightarrow> 'k) \<Rightarrow> 'k \<Rightarrow> (addr \<times> 'v) list \<Rightarrow> bool" where
  "has_key lt ks key xs \<longleftrightarrow> (\<exists>x\<in>set xs. keys_equal lt (ks (snd x)) key)"

lemma length_insert_item [simp]: "length (insert_item lt ks x xs) = Suc (length xs)"
  using arg_cong [OF takeWhile_dropWhile_id, of length "\<lambda>y. lt (ks (snd y)) (ks (snd x))" xs]
  by (simp add: insert_item_def del: takeWhile_dropWhile_id)

lemma set_insert_item [simp]: "set (insert_item lt ks x xs) = insert x (set xs)"
  using arg_cong [OF takeWhile_dropWhile_id, of set "\<lambda>y. lt (ks (snd y)) (ks (snd x))" xs]
  by (auto simp: insert_item_def simp del: takeWhile_dropWhile_id)

text \<open>
  The outcome of an emplacing operation on the tree with elements \<open>xs\<close>: nothing changed but
  the header when an exception leaves it, the existing element when the key is there,
  otherwise the new element, in order.
\<close>

definition out_of_memory :: "'v allocator \<Rightarrow> 'v heap \<Rightarrow> qtree \<Rightarrow> bool" where
  "out_of_memory alloc h T \<longleftrightarrow> alloc h = None \<or>
     t_header T = nullptr \<and> (\<exists>a. alloc h = Some a \<and> alloc (h(a \<mapsto> hnode a a a)) = None)"

definition emplaced ::
  "'v allocator \<Rightarrow> ('k \<Rightarrow> 'k \<Rightarrow> bool) \<Rightarrow> ('v \<Rightarrow> 'k) \<Rightarrow> 'v heap \<Rightarrow> qtree \<Rightarrow> (addr \<times> 'v) list \<Rightarrow> 'k \<Rightarrow> 'v option \<Rightarrow>
   exn + (addr \<times> bool) \<Rightarrow> 'v heap \<Rightarrow> qtree \<Rightarrow> bool" where
  "emplaced alloc lt ks h T xs key b r h' T' \<longleftrightarrow> (case r of
     Inl e \<Rightarrow> \<not> has_key lt ks key xs \<and> (e = Bad_alloc \<and> out_of_memory alloc h T \<or> e = Value_throw \<and> b = None) \<and>
              evolves lt ks h T xs h' T' xs \<and> (\<forall>p\<in>owned T xs. h' p = h p)
   | Inr (a, False) \<Rightarrow> h' = h \<and> T' = T \<and> (\<exists>v. (a, v) \<in> set xs \<and> keys_equal lt (ks v) key)
   | Inr (a, True) \<Rightarrow> \<not> has_key lt ks key xs \<and> h a = None \<and>
              (\<exists>v. b = Some v \<and> evolves lt ks h T xs h' T' (insert_item lt ks (a, v) xs)))"

context strict_weak
begin

lemma place_no_key:
  assumes "place lt ks key ctx"
  shows "\<not> has_key lt ks key (litems ctx @ ritems ctx)"
  using assms by (auto simp: place_def has_key_def keys_equal_def)

lemma insert_item_place:
  assumes "place lt ks (ks v) ctx"
  shows "insert_item lt ks (a, v) (litems ctx @ ritems ctx) = litems ctx @ (a, v) # ritems ctx"
proof -
  let ?P = "\<lambda>y. lt (ks (snd y)) (ks v)"
  have l: "\<forall>y\<in>set (litems ctx). ?P y" and r: "\<forall>y\<in>set (ritems ctx). \<not> ?P y"
    using assms asym by (auto simp: place_def)
  have "takeWhile ?P (litems ctx @ ritems ctx) = litems ctx @ takeWhile ?P (ritems ctx)"
    using l by (intro takeWhile_append2) blast
  moreover have "takeWhile ?P (ritems ctx) = []" "dropWhile ?P (ritems ctx) = ritems ctx"
    using r by (cases "ritems ctx"; simp)+
  moreover have "dropWhile ?P (litems ctx @ ritems ctx) = dropWhile ?P (ritems ctx)"
    using l by (intro dropWhile_append2) blast
  ultimately show ?thesis by (simp add: insert_item_def)
qed

lemma emplace_at_sim:
  assumes inv: "qtree_inv lt ks h T xs" and nz: "t_header T \<noteq> nullptr"
    and t: "trep h (t_header T) (first_addr (t_header T) xs) (last_addr (t_header T) xs) (plug ctx Tip)"
      "rb (plug ctx Tip)" "xs = litems ctx @ ritems ctx" "place lt ks key ctx"
    and al: "alloc_ok alloc" and b: "\<And>v. b = Some v \<Longrightarrow> ks v = key"
  shows "\<exists>r h' T'. emplace_at alloc h T (cpar (t_header T) ctx) (hole_side g ctx) b = Some (r, h', T') \<and>
    emplaced alloc lt ks h T xs key b r h' T'"
proof (cases "alloc h")
  case None
  then show ?thesis using inv place_no_key [OF t(4)] t(3)
    by (simp add: emplace_at_def node_new_def emplaced_def evolves_refl out_of_memory_def)
next
  case (Some a)
  with al have a: "h a = None" "a \<noteq> nullptr" by (auto dest: alloc_okD)
  show ?thesis
  proof (cases b)
    case None
    have "node_delete (h(a \<mapsto> blank_node)) a = Some h" using a by (simp add: node_delete_def fun_upd_idem)
    then show ?thesis using inv place_no_key [OF t(4)] t(3) None Some
      by (simp add: emplace_at_def node_new_def emplaced_def evolves_refl)
  next
    case b': (Some v)
    let ?hdr = "t_header T" and ?t = "plug ctx Tip"
    have it: "items ?t = xs" using t(3) by simp
    have tr: "trep h ?hdr (first_addr ?hdr (items ?t)) (last_addr ?hdr (items ?t)) ?t"
      using t(1) unfolding it .
    obtain h' t' where h': "(if cpar ?hdr ctx = ?hdr then attach_root (h(a \<mapsto> mk (cpar ?hdr ctx) ?hdr ?hdr Red v)) ?hdr a
        else do {
          h \<leftarrow> attach_child (h(a \<mapsto> mk (cpar ?hdr ctx) ?hdr ?hdr Red v)) ?hdr (cpar ?hdr ctx) (hole_side g ctx) a;
          insert_fixup h ?hdr a }) = Some h'"
      "trep h' ?hdr (first_addr ?hdr (items t')) (last_addr ?hdr (items t')) t'"
      "items t' = litems ctx @ (a, v) # ritems ctx" "rb t'"
      "same_off (insert a (insert ?hdr (set (addrs ?t)))) h h'"
      using hook_sim [OF tr t(2) refl a(1), of v g] by blast
    let ?T = "T\<lparr>t_count := t_count T + 1\<rparr>" and ?xs = "insert_item lt ks (a, v) xs"
    have xs': "?xs = items t'" using insert_item_place [of ks v ctx a] t(3,4) b [OF b'] h'(3) by simp
    have len: "length (items t') = Suc (length xs)" by (simp add: xs' [symmetric])
    have run: "emplace_at alloc h T (cpar ?hdr ctx) (hole_side g ctx) b = Some (Inr (a, True), h', ?T)"
      using h'(1) by (simp add: b' emplace_at_prefix [of alloc h a, OF Some])
    have old: "sorted_wrt lt (keys ks xs)" "t_count T = length xs" "h nullptr = None"
      using inv by (auto simp: qtree_inv_def)
    have ow: "owned T xs = insert ?hdr (set (addrs ?t))" using nz it by (simp add: owned_def set_addrs)
    have "nullptr \<notin> insert a (owned T xs)" using a old(3) qtree_inv_owned [OF inv] by auto
    then have "h' nullptr = None" using h'(5) old(3) unfolding ow by (simp add: same_off_def)
    moreover have "sorted_wrt lt (keys ks ?xs)"
      using old(1) t(3,4) b [OF b'] sorted_wrt_insert [of "keys ks (litems ctx)" "keys ks (ritems ctx)" key]
      unfolding xs' h'(3) by (simp add: place_def)
    ultimately have "qtree_inv lt ks h' ?T ?xs"
      using nz old(2) h'(2,4) xs' len by (auto simp: qtree_inv_header)
    moreover have "owned ?T ?xs = insert a (owned T xs)" using nz by (auto simp: owned_def)
    moreover have "same_off (insert a (owned T xs)) h h'" using h'(5) unfolding ow .
    ultimately have "evolves lt ks h T xs h' ?T ?xs"
      using a by (auto simp: evolves_def insert_absorb2 Un_commute)
    then show ?thesis using run b' a place_no_key [OF t(4)] t(3) by (simp add: emplaced_def)
  qed
qed

lemma ensure_header_sim:
  assumes "qtree_inv lt ks h T []" "alloc_ok alloc"
  shows "\<exists>r h' T'. ensure_header alloc h T = Some (r, h', T') \<and> evolves lt ks h T [] h' T' [] \<and>
    (case r of Inl e \<Rightarrow> e = Bad_alloc \<and> h' = h \<and> alloc h = None | Inr _ \<Rightarrow> t_header T' \<noteq> nullptr) \<and>
    (t_header T' \<noteq> nullptr \<longrightarrow> out_of_memory alloc h' T' \<longrightarrow> out_of_memory alloc h T) \<and>
    (\<forall>p. h' p = None \<longrightarrow> h p = None) \<and> (\<forall>p\<in>owned T []. h' p = h p)"
proof (cases "t_header T = nullptr")
  case False
  then show ?thesis using assms by (simp add: ensure_header_def evolves_refl)
next
  case True
  show ?thesis
  proof (cases "alloc h")
    case None
    then show ?thesis using assms True
      by (simp add: ensure_header_def allocate_header_def node_new_def evolves_refl)
  next
    case (Some a)
    with assms(2) have a: "h a = None" "a \<noteq> nullptr" by (auto dest: alloc_okD)
    let ?h = "h(a \<mapsto> hnode a a a)" and ?T = "T\<lparr>t_header := a\<rparr>"
    have "ensure_header alloc h T = Some (Inr (), ?h, ?T)"
      using True Some
      by (simp add: ensure_header_def allocate_header_def node_new_def init_header_def blank_node_def heap_simps)
    moreover have "trep ?h a a a Tip" by (simp add: trep_def)
    then have "qtree_inv lt ks ?h ?T []"
      using assms(1) a by (auto simp: qtree_inv_def rb_def intro!: exI [of _ Tip])
    then have "evolves lt ks h T [] ?h ?T []" using a True by (auto simp: evolves_def owned_def)
    ultimately show ?thesis using a True Some by (auto simp: owned_def out_of_memory_def)
  qed
qed

lemma emplaced_after:
  assumes "evolves lt ks h T xs h1 T1 xs" "\<And>p. h1 p = None \<Longrightarrow> h p = None"
    "\<And>p. p \<in> owned T xs \<Longrightarrow> h1 p = h p" "emplaced alloc lt ks h1 T1 xs key b r h' T'"
    "owned T xs \<subseteq> owned T1 xs" "xs = []"
    "out_of_memory alloc h1 T1 \<Longrightarrow> out_of_memory alloc h T"
  shows "emplaced alloc lt ks h T xs key b r h' T'"
proof (cases r)
  case (Inl e)
  have "h' p = h p" if "p \<in> owned T xs" for p
    using assms(3,4,5) Inl that by (auto simp: emplaced_def)
  then show ?thesis using assms(4,7) evolves_trans [OF assms(1)] Inl by (auto simp: emplaced_def)
next
  case (Inr ab)
  then show ?thesis using assms(2,4,6) evolves_trans [OF assms(1)]
    by (cases ab; cases "snd ab") (auto simp: emplaced_def)
qed

lemma emplace_into_empty_tree_sim:
  assumes inv: "qtree_inv lt ks h T xs" and e: "xs = []" and al: "alloc_ok alloc" and b: "\<And>v. b = Some v \<Longrightarrow> ks v = key"
  shows "\<exists>r h' T'. emplace_into_empty_tree alloc h T b = Some (r, h', T') \<and> emplaced alloc lt ks h T xs key b r h' T'"
proof -
  obtain r1 h1 T1 where 1: "ensure_header alloc h T = Some (r1, h1, T1)" "evolves lt ks h T xs h1 T1 xs"
      "case r1 of Inl e \<Rightarrow> e = Bad_alloc \<and> h1 = h \<and> alloc h = None | Inr _ \<Rightarrow> t_header T1 \<noteq> nullptr"
      "\<forall>p. h1 p = None \<longrightarrow> h p = None" "\<forall>p\<in>owned T xs. h1 p = h p"
      "t_header T1 \<noteq> nullptr \<longrightarrow> out_of_memory alloc h1 T1 \<longrightarrow> out_of_memory alloc h T"
    using ensure_header_sim [OF inv [unfolded e] al] e by blast
  show ?thesis
  proof (cases r1)
    case (Inl e)
    then show ?thesis using 1
      by (auto simp: emplace_into_empty_tree_def emplaced_def has_key_def e out_of_memory_def)
  next
    case (Inr u)
    with 1 have nz: "t_header T1 \<noteq> nullptr" by simp
    note inv1 = evolves_inv [OF 1(2)]
    obtain t where t: "trep h1 (t_header T1) (t_header T1) (t_header T1) t" "items t = []" "rb t"
      using inv1 nz e by (auto simp: qtree_inv_header)
    then have "t = Tip" by (cases t) auto
    with t obtain r h' T' where 2: "emplace_at alloc h1 T1 (t_header T1) True b = Some (r, h', T')"
        "emplaced alloc lt ks h1 T1 xs key b r h' T'"
      using emplace_at_sim [OF inv1 nz, of "[]" key alloc b True] al b e by (auto simp: place_def)
    have "owned T xs \<subseteq> owned T1 xs"
    proof
      fix p assume p: "p \<in> owned T xs"
      then have "h1 p \<noteq> None" using 1(5) qtree_inv_owned [OF inv] by (metis domIff subsetD)
      moreover have "\<forall>q\<in>owned T xs - owned T1 xs. h1 q = None" using 1(2) by (simp add: evolves_def)
      ultimately show "p \<in> owned T1 xs" using p by (metis DiffI)
    qed
    then have "emplaced alloc lt ks h T xs key b r h' T'" using emplaced_after [OF 1(2) _ _ 2(2) _ e] 1(4,5,6) nz by blast
    then show ?thesis using 1(1) 2(1) Inr by (simp add: emplace_into_empty_tree_def)
  qed
qed

lemma find_insert_position_sim:
  assumes inv: "qtree_inv lt ks h T xs" and nz: "t_header T \<noteq> nullptr"
    and t: "trep h (t_header T) mn mx t" "items t = xs"
  shows "(\<exists>ctx. plug ctx Tip = t \<and> place lt ks key ctx \<and>
      find_insert_position lt ks h T key = Some (nullptr, cpar (t_header T) ctx, hole_side True ctx)) \<or>
    (\<exists>a v gl. (a, v) \<in> set xs \<and> keys_equal lt (ks v) key \<and> find_insert_position lt ks h T key = Some (a, a, gl))"
proof -
  have "sorted_wrt lt (keys ks (items t))" using inv t(2) by (simp add: qtree_inv_def)
  then show ?thesis
    using find_insert_loop_sim [of h "t_header T" mn mx "[]" t ks key True] t nz trep_header_reads [OF t(1)]
    by (simp add: find_insert_position_def root_def place_def)
qed

theorem lazy_emplace_sim:
  assumes inv: "qtree_inv lt ks h T xs" and al: "alloc_ok alloc" and b: "\<And>v. b = Some v \<Longrightarrow> ks v = key"
  shows "\<exists>r h' T'. lazy_emplace_impl alloc lt ks h T key b = Some (r, h', T') \<and> emplaced alloc lt ks h T xs key b r h' T'"
proof (cases "t_header T = nullptr \<or> t_count T = 0")
  case True
  then have "xs = []" using inv by (auto simp: qtree_inv_def)
  then show ?thesis using emplace_into_empty_tree_sim [OF inv _ al, of b key] b True
    by (auto simp: lazy_emplace_impl_def)
next
  case False
  then have nz: "t_header T \<noteq> nullptr" by simp
  from inv nz obtain t where t: "trep h (t_header T) (first_addr (t_header T) xs) (last_addr (t_header T) xs) t"
    "items t = xs" "rb t" "h nullptr = None" by (rule qtree_inv_obtain)
  from find_insert_position_sim [OF inv nz t(1,2), of key] show ?thesis
  proof (elim disjE exE conjE)
    fix ctx assume c: "plug ctx Tip = t" "place lt ks key ctx"
      "find_insert_position lt ks h T key = Some (nullptr, cpar (t_header T) ctx, hole_side True ctx)"
    then have "xs = litems ctx @ ritems ctx" using t(2) by auto
    then show ?thesis using emplace_at_sim [OF inv nz, of ctx key alloc b True] t al b c False
      by (simp add: lazy_emplace_impl_def)
  next
    fix a v gl assume e: "(a, v) \<in> set xs" "keys_equal lt (ks v) key"
      "find_insert_position lt ks h T key = Some (a, a, gl)"
    then show ?thesis using False iter_deref_sim(4) [OF inv e(1)]
      by (auto simp: lazy_emplace_impl_def emplaced_def)
  qed
qed

end

end
