(* ===== verification/QTreeEraseFix.thy ===== *)
theory QTreeEraseFix
  imports QTreeInsert
begin

text \<open>
  The fixup of a removal.  \<open>erase_fixup\<close>, started at a subtree that is one black node
  short, computes \<open>del_fix\<close> in place and terminates.
\<close>

section \<open>The blocks of the loop body\<close>

lemma trep_nephews:
  assumes "trep h hdr mn mx (plug ctx (Bin l a c v r))"
  shows "left_color h a = Some (tcol l)" "right_color h a = Some (tcol r)"
  using trep_reads [OF assms] trep_child_nil [OF assms] by (simp_all add: left_color_def right_color_def)

lemma turn_left:
  assumes "trep h hdr mn mx (plug ctx (Bin t a c v (Bin w1 w cw vw (Bin u1 u cu vu u2))))"
  shows "\<exists>h1 h2 h3 h4. set_color h w c = Some h1 \<and> set_color h1 a Black = Some h2 \<and>
    set_color h2 u Black = Some h3 \<and> rotate_left h3 hdr a = Some h4 \<and>
    trep h2 hdr mn mx (plug ctx (Bin t a Black v (Bin w1 w c vw (Bin u1 u cu vu u2)))) \<and>
    reshapes hdr mn mx h (plug ctx (Bin t a c v (Bin w1 w cw vw (Bin u1 u cu vu u2))))
      h4 (plug ctx (Bin (Bin t a Black v w1) w c vw (Bin u1 u Black vu u2)))"
proof -
  obtain h1 where 1: "set_color h w c = Some h1"
      "reshapes hdr mn mx h (plug ctx (Bin t a c v (Bin w1 w cw vw (Bin u1 u cu vu u2))))
         h1 (plug ctx (Bin t a c v (Bin w1 w c vw (Bin u1 u cu vu u2))))"
    using set_color_reshapes [of h hdr mn mx "RF t a c v # ctx" w1 w cw vw "Bin u1 u cu vu u2" c] assms by auto
  obtain h2 where 2: "set_color h1 a Black = Some h2"
      "reshapes hdr mn mx h1 (plug ctx (Bin t a c v (Bin w1 w c vw (Bin u1 u cu vu u2))))
         h2 (plug ctx (Bin t a Black v (Bin w1 w c vw (Bin u1 u cu vu u2))))"
    using set_color_reshapes [OF reshapes_trep [OF 1(2)]] by blast
  obtain h3 where 3: "set_color h2 u Black = Some h3"
      "reshapes hdr mn mx h2 (plug ctx (Bin t a Black v (Bin w1 w c vw (Bin u1 u cu vu u2))))
         h3 (plug ctx (Bin t a Black v (Bin w1 w c vw (Bin u1 u Black vu u2))))"
    using set_color_reshapes [of h2 hdr mn mx "RF w1 w c vw # RF t a Black v # ctx" u1 u cu vu u2 Black]
      reshapes_trep [OF 2(2)] by auto
  obtain h4 where 4: "rotate_left h3 hdr a = Some h4"
      "reshapes hdr mn mx h3 (plug ctx (Bin t a Black v (Bin w1 w c vw (Bin u1 u Black vu u2))))
         h4 (plug ctx (Bin (Bin t a Black v w1) w c vw (Bin u1 u Black vu u2)))"
    using rotate_left_reshapes [OF reshapes_trep [OF 3(2)]] by blast
  show ?thesis
    using 1(1) 2(1) 3(1) 4(1) reshapes_trep [OF 2(2)]
      reshapes_trans [OF reshapes_trans [OF reshapes_trans [OF 1(2) 2(2)] 3(2)] 4(2)] by blast
qed

lemma fixup_recolour_left:
  assumes T: "trep h hdr mn mx (plug ctx (Bin t a c v (Bin w1 w Black vw w2)))"
    and black: "tcol w1 = Black" "tcol w2 = Black"
  shows "\<exists>h'. erase_fixup_black_left h hdr a w = Some (h', a, cpar hdr ctx) \<and>
    reshapes hdr mn mx h (plug ctx (Bin t a c v (Bin w1 w Black vw w2))) h' (plug ctx (Bin t a c v (Bin w1 w Red vw w2)))"
proof -
  have T': "trep h hdr mn mx (plug (RF t a c v # ctx) (Bin w1 w Black vw w2))" using T by simp
  obtain h' where h': "set_color h w Red = Some h'"
      "reshapes hdr mn mx h (plug ctx (Bin t a c v (Bin w1 w Black vw w2))) h' (plug ctx (Bin t a c v (Bin w1 w Red vw w2)))"
    using set_color_reshapes [OF T', of Red] by auto
  show ?thesis using trep_nephews [OF T'] trep_reads [OF T'] trep_reads [OF reshapes_trep [OF h'(2)]] h' black
    by (simp add: erase_fixup_black_left_def)
qed

lemma fixup_far_left:
  assumes T: "trep h hdr mn mx (plug ctx (Bin t a c v (Bin w1 w Black vw (Bin u1 u Red vu u2))))"
  shows "\<exists>h'. erase_fixup_black_left h hdr a w = Some (h', ptr hdr (plug ctx (Bin (Bin t a Black v w1) w c vw (Bin u1 u Black vu u2))), hdr) \<and>
    reshapes hdr mn mx h (plug ctx (Bin t a c v (Bin w1 w Black vw (Bin u1 u Red vu u2)))) h' (plug ctx (Bin (Bin t a Black v w1) w c vw (Bin u1 u Black vu u2)))"
proof -
  have T': "trep h hdr mn mx (plug (RF t a c v # ctx) (Bin w1 w Black vw (Bin u1 u Red vu u2)))" using T by simp
  obtain h1 h2 h3 h4 where w: "set_color h w c = Some h1" "set_color h1 a Black = Some h2"
      "set_color h2 u Black = Some h3" "rotate_left h3 hdr a = Some h4"
      "trep h2 hdr mn mx (plug ctx (Bin t a Black v (Bin w1 w c vw (Bin u1 u Red vu u2))))"
      "reshapes hdr mn mx h (plug ctx (Bin t a c v (Bin w1 w Black vw (Bin u1 u Red vu u2)))) h4 (plug ctx (Bin (Bin t a Black v w1) w c vw (Bin u1 u Black vu u2)))"
    using turn_left [OF T] by blast
  have T2: "trep h2 hdr mn mx (plug (RF t a Black v # ctx) (Bin w1 w c vw (Bin u1 u Red vu u2)))"
    using w(5) by simp
  show ?thesis
    using trep_nephews [OF T'] trep_reads [OF T'] trep_reads [OF T] trep_reads [OF T2] trep_child_nil [OF T2]
      trep_header_reads [OF reshapes_trep [OF w(6)]] w
    by (simp add: erase_fixup_black_left_def)
qed

lemma fixup_near_left:
  assumes T: "trep h hdr mn mx (plug ctx (Bin t a c v (Bin (Bin b1 b Red vb b2) w Black vw w2)))" and black: "tcol w2 = Black"
  shows "\<exists>h'. erase_fixup_black_left h hdr a w = Some (h', ptr hdr (plug ctx (Bin (Bin t a Black v b1) b c vb (Bin b2 w Black vw w2))), hdr) \<and>
    reshapes hdr mn mx h (plug ctx (Bin t a c v (Bin (Bin b1 b Red vb b2) w Black vw w2))) h' (plug ctx (Bin (Bin t a Black v b1) b c vb (Bin b2 w Black vw w2)))"
proof -
  have T': "trep h hdr mn mx (plug (RF t a c v # ctx) (Bin (Bin b1 b Red vb b2) w Black vw w2))" using T by simp
  obtain g1 g2 g3 where g: "set_color h b Black = Some g1" "set_color g1 w Red = Some g2"
      "rotate_right g2 hdr w = Some g3"
      "reshapes hdr mn mx h (plug ctx (Bin t a c v (Bin (Bin b1 b Red vb b2) w Black vw w2))) g3 (plug ctx (Bin t a c v (Bin b1 b Black vb (Bin b2 w Red vw w2))))"
    using outer_right [OF T'] by auto
  note T1 = reshapes_trep [OF g(4)]
  obtain h1 h2 h3 h4 where w: "set_color g3 b c = Some h1" "set_color h1 a Black = Some h2"
      "set_color h2 w Black = Some h3" "rotate_left h3 hdr a = Some h4"
      "trep h2 hdr mn mx (plug ctx (Bin t a Black v (Bin b1 b c vb (Bin b2 w Red vw w2))))"
      "reshapes hdr mn mx g3 (plug ctx (Bin t a c v (Bin b1 b Black vb (Bin b2 w Red vw w2)))) h4 (plug ctx (Bin (Bin t a Black v b1) b c vb (Bin b2 w Black vw w2)))"
    using turn_left [OF T1] by blast
  have T1': "trep g3 hdr mn mx (plug (RF t a c v # ctx) (Bin b1 b Black vb (Bin b2 w Red vw w2)))" using T1 by simp
  have T2: "trep h2 hdr mn mx (plug (RF t a Black v # ctx) (Bin b1 b c vb (Bin b2 w Red vw w2)))" using w(5) by simp
  show ?thesis
    using trep_nephews [OF T'] trep_reads [OF T'] trep_child_nil [OF T'] trep_reads [OF T1] trep_reads [OF T1']
      trep_reads [OF T2] trep_child_nil [OF T2] trep_header_reads [OF reshapes_trep [OF w(6)]]
      g(1-3) w(1-4) black reshapes_trans [OF g(4) w(6)]
    by (simp add: erase_fixup_black_left_def)
qed

lemma fixup_turn_left:
  assumes T: "trep h hdr mn mx (plug ctx (Bin t a c v (Bin w1 w Black vw w2)))" and "\<not> (tcol w1 = Black \<and> tcol w2 = Black)"
  shows "\<exists>h'. erase_fixup_black_left h hdr a w = Some (h', ptr hdr (plug ctx (del_turn_left t a c v (Bin w1 w Black vw w2))), hdr) \<and>
    reshapes hdr mn mx h (plug ctx (Bin t a c v (Bin w1 w Black vw w2))) h' (plug ctx (del_turn_left t a c v (Bin w1 w Black vw w2)))"
proof (cases "tcol w2")
  case Red
  then obtain u1 u vu u2 where "w2 = Bin u1 u Red vu u2" by (cases w2) auto
  then show ?thesis using fixup_far_left [of h hdr mn mx ctx] T by simp
next
  case Black
  with assms(2) obtain b1 b vb b2 where "w1 = Bin b1 b Red vb b2" by (cases w1) auto
  then show ?thesis using fixup_near_left [of h hdr mn mx ctx] T Black by simp
qed

lemma turn_right:
  assumes "trep h hdr mn mx (plug ctx (Bin (Bin (Bin u1 u cu vu u2) w cw vw w1) a c v t))"
  shows "\<exists>h1 h2 h3 h4. set_color h w c = Some h1 \<and> set_color h1 a Black = Some h2 \<and>
    set_color h2 u Black = Some h3 \<and> rotate_right h3 hdr a = Some h4 \<and>
    trep h2 hdr mn mx (plug ctx (Bin (Bin (Bin u1 u cu vu u2) w c vw w1) a Black v t)) \<and>
    reshapes hdr mn mx h (plug ctx (Bin (Bin (Bin u1 u cu vu u2) w cw vw w1) a c v t))
      h4 (plug ctx (Bin (Bin u1 u Black vu u2) w c vw (Bin w1 a Black v t)))"
proof -
  obtain h1 where 1: "set_color h w c = Some h1"
      "reshapes hdr mn mx h (plug ctx (Bin (Bin (Bin u1 u cu vu u2) w cw vw w1) a c v t))
         h1 (plug ctx (Bin (Bin (Bin u1 u cu vu u2) w c vw w1) a c v t))"
    using set_color_reshapes [of h hdr mn mx "LF a c v t # ctx" "Bin u1 u cu vu u2" w cw vw w1 c] assms by auto
  obtain h2 where 2: "set_color h1 a Black = Some h2"
      "reshapes hdr mn mx h1 (plug ctx (Bin (Bin (Bin u1 u cu vu u2) w c vw w1) a c v t))
         h2 (plug ctx (Bin (Bin (Bin u1 u cu vu u2) w c vw w1) a Black v t))"
    using set_color_reshapes [OF reshapes_trep [OF 1(2)]] by blast
  obtain h3 where 3: "set_color h2 u Black = Some h3"
      "reshapes hdr mn mx h2 (plug ctx (Bin (Bin (Bin u1 u cu vu u2) w c vw w1) a Black v t))
         h3 (plug ctx (Bin (Bin (Bin u1 u Black vu u2) w c vw w1) a Black v t))"
    using set_color_reshapes [of h2 hdr mn mx "LF w c vw w1 # LF a Black v t # ctx" u1 u cu vu u2 Black]
      reshapes_trep [OF 2(2)] by auto
  obtain h4 where 4: "rotate_right h3 hdr a = Some h4"
      "reshapes hdr mn mx h3 (plug ctx (Bin (Bin (Bin u1 u Black vu u2) w c vw w1) a Black v t))
         h4 (plug ctx (Bin (Bin u1 u Black vu u2) w c vw (Bin w1 a Black v t)))"
    using rotate_right_reshapes [OF reshapes_trep [OF 3(2)]] by blast
  show ?thesis
    using 1(1) 2(1) 3(1) 4(1) reshapes_trep [OF 2(2)]
      reshapes_trans [OF reshapes_trans [OF reshapes_trans [OF 1(2) 2(2)] 3(2)] 4(2)] by blast
qed

lemma fixup_recolour_right:
  assumes T: "trep h hdr mn mx (plug ctx (Bin (Bin w2 w Black vw w1) a c v t))"
    and black: "tcol w1 = Black" "tcol w2 = Black"
  shows "\<exists>h'. erase_fixup_black_right h hdr a w = Some (h', a, cpar hdr ctx) \<and>
    reshapes hdr mn mx h (plug ctx (Bin (Bin w2 w Black vw w1) a c v t)) h' (plug ctx (Bin (Bin w2 w Red vw w1) a c v t))"
proof -
  have T': "trep h hdr mn mx (plug (LF a c v t # ctx) (Bin w2 w Black vw w1))" using T by simp
  obtain h' where h': "set_color h w Red = Some h'"
      "reshapes hdr mn mx h (plug ctx (Bin (Bin w2 w Black vw w1) a c v t)) h' (plug ctx (Bin (Bin w2 w Red vw w1) a c v t))"
    using set_color_reshapes [OF T', of Red] by auto
  show ?thesis using trep_nephews [OF T'] trep_reads [OF T'] trep_reads [OF reshapes_trep [OF h'(2)]] h' black
    by (simp add: erase_fixup_black_right_def)
qed

lemma fixup_far_right:
  assumes T: "trep h hdr mn mx (plug ctx (Bin (Bin (Bin u1 u Red vu u2) w Black vw w1) a c v t))"
  shows "\<exists>h'. erase_fixup_black_right h hdr a w = Some (h', ptr hdr (plug ctx (Bin (Bin u1 u Black vu u2) w c vw (Bin w1 a Black v t))), hdr) \<and>
    reshapes hdr mn mx h (plug ctx (Bin (Bin (Bin u1 u Red vu u2) w Black vw w1) a c v t)) h' (plug ctx (Bin (Bin u1 u Black vu u2) w c vw (Bin w1 a Black v t)))"
proof -
  have T': "trep h hdr mn mx (plug (LF a c v t # ctx) (Bin (Bin u1 u Red vu u2) w Black vw w1))" using T by simp
  obtain h1 h2 h3 h4 where w: "set_color h w c = Some h1" "set_color h1 a Black = Some h2"
      "set_color h2 u Black = Some h3" "rotate_right h3 hdr a = Some h4"
      "trep h2 hdr mn mx (plug ctx (Bin (Bin (Bin u1 u Red vu u2) w c vw w1) a Black v t))"
      "reshapes hdr mn mx h (plug ctx (Bin (Bin (Bin u1 u Red vu u2) w Black vw w1) a c v t)) h4 (plug ctx (Bin (Bin u1 u Black vu u2) w c vw (Bin w1 a Black v t)))"
    using turn_right [OF T] by blast
  have T2: "trep h2 hdr mn mx (plug (LF a Black v t # ctx) (Bin (Bin u1 u Red vu u2) w c vw w1))"
    using w(5) by simp
  show ?thesis
    using trep_nephews [OF T'] trep_reads [OF T'] trep_reads [OF T] trep_reads [OF T2] trep_child_nil [OF T2]
      trep_header_reads [OF reshapes_trep [OF w(6)]] w
    by (simp add: erase_fixup_black_right_def)
qed

lemma fixup_near_right:
  assumes T: "trep h hdr mn mx (plug ctx (Bin (Bin w2 w Black vw (Bin b1 b Red vb b2)) a c v t))" and black: "tcol w2 = Black"
  shows "\<exists>h'. erase_fixup_black_right h hdr a w = Some (h', ptr hdr (plug ctx (Bin (Bin w2 w Black vw b1) b c vb (Bin b2 a Black v t))), hdr) \<and>
    reshapes hdr mn mx h (plug ctx (Bin (Bin w2 w Black vw (Bin b1 b Red vb b2)) a c v t)) h' (plug ctx (Bin (Bin w2 w Black vw b1) b c vb (Bin b2 a Black v t)))"
proof -
  have T': "trep h hdr mn mx (plug (LF a c v t # ctx) (Bin w2 w Black vw (Bin b1 b Red vb b2)))" using T by simp
  obtain g1 g2 g3 where g: "set_color h b Black = Some g1" "set_color g1 w Red = Some g2"
      "rotate_left g2 hdr w = Some g3"
      "reshapes hdr mn mx h (plug ctx (Bin (Bin w2 w Black vw (Bin b1 b Red vb b2)) a c v t)) g3 (plug ctx (Bin (Bin (Bin w2 w Red vw b1) b Black vb b2) a c v t))"
    using outer_left [OF T'] by auto
  note T1 = reshapes_trep [OF g(4)]
  obtain h1 h2 h3 h4 where w: "set_color g3 b c = Some h1" "set_color h1 a Black = Some h2"
      "set_color h2 w Black = Some h3" "rotate_right h3 hdr a = Some h4"
      "trep h2 hdr mn mx (plug ctx (Bin (Bin (Bin w2 w Red vw b1) b c vb b2) a Black v t))"
      "reshapes hdr mn mx g3 (plug ctx (Bin (Bin (Bin w2 w Red vw b1) b Black vb b2) a c v t)) h4 (plug ctx (Bin (Bin w2 w Black vw b1) b c vb (Bin b2 a Black v t)))"
    using turn_right [OF T1] by blast
  have T1': "trep g3 hdr mn mx (plug (LF a c v t # ctx) (Bin (Bin w2 w Red vw b1) b Black vb b2))" using T1 by simp
  have T2: "trep h2 hdr mn mx (plug (LF a Black v t # ctx) (Bin (Bin w2 w Red vw b1) b c vb b2))" using w(5) by simp
  show ?thesis
    using trep_nephews [OF T'] trep_reads [OF T'] trep_child_nil [OF T'] trep_reads [OF T1] trep_reads [OF T1']
      trep_reads [OF T2] trep_child_nil [OF T2] trep_header_reads [OF reshapes_trep [OF w(6)]]
      g(1-3) w(1-4) black reshapes_trans [OF g(4) w(6)]
    by (simp add: erase_fixup_black_right_def)
qed

lemma fixup_turn_right:
  assumes T: "trep h hdr mn mx (plug ctx (Bin (Bin w2 w Black vw w1) a c v t))" and "\<not> (tcol w1 = Black \<and> tcol w2 = Black)"
  shows "\<exists>h'. erase_fixup_black_right h hdr a w = Some (h', ptr hdr (plug ctx (del_turn_right (Bin w2 w Black vw w1) a c v t)), hdr) \<and>
    reshapes hdr mn mx h (plug ctx (Bin (Bin w2 w Black vw w1) a c v t)) h' (plug ctx (del_turn_right (Bin w2 w Black vw w1) a c v t))"
proof (cases "tcol w2")
  case Red
  then obtain u1 u vu u2 where "w2 = Bin u1 u Red vu u2" by (cases w2) auto
  then show ?thesis using fixup_far_right [of h hdr mn mx ctx] T by simp
next
  case Black
  with assms(2) obtain b1 b vb b2 where "w1 = Bin b1 b Red vb b2" by (cases w1) auto
  then show ?thesis using fixup_near_right [of h hdr mn mx ctx] T Black by simp
qed

lemma erase_fixup_left_red:
  assumes T: "trep h hdr mn mx (plug ctx (Bin t a c v (Bin s1 sa Red vs s2)))"
  shows "\<exists>h3. erase_fixup_left h hdr a = erase_fixup_black_left h3 hdr a (ptr hdr s1) \<and>
    reshapes hdr mn mx h (plug ctx (Bin t a c v (Bin s1 sa Red vs s2))) h3 (plug ctx (Bin (Bin t a Red v s1) sa Black vs s2))"
proof -
  obtain h1 h2 h3 where w: "set_color h sa Black = Some h1" "set_color h1 a Red = Some h2"
      "rotate_left h2 hdr a = Some h3"
      "reshapes hdr mn mx h (plug ctx (Bin t a c v (Bin s1 sa Red vs s2))) h3 (plug ctx (Bin (Bin t a Red v s1) sa Black vs s2))"
    using outer_left [OF T] by blast
  have T3: "trep h3 hdr mn mx (plug (LF sa Black vs s2 # ctx) (Bin t a Red v s1))" using reshapes_trep [OF w(4)] by simp
  show ?thesis using w trep_reads [OF T] trep_child_nil [OF T] trep_reads [OF T3]
    by (auto simp: erase_fixup_left_def)
qed

lemma erase_fixup_left_black:
  assumes T: "trep h hdr mn mx (plug ctx (Bin t a c v (Bin s1 sa Black vs s2)))"
  shows "erase_fixup_left h hdr a = erase_fixup_black_left h hdr a sa"
  using trep_reads [OF T] trep_child_nil [OF T] by (simp add: erase_fixup_left_def)

lemma erase_fixup_right_red:
  assumes T: "trep h hdr mn mx (plug ctx (Bin (Bin s1 sa Red vs s2) a c v t))"
  shows "\<exists>h3. erase_fixup_right h hdr a = erase_fixup_black_right h3 hdr a (ptr hdr s2) \<and>
    reshapes hdr mn mx h (plug ctx (Bin (Bin s1 sa Red vs s2) a c v t)) h3 (plug ctx (Bin s1 sa Black vs (Bin s2 a Red v t)))"
proof -
  obtain h1 h2 h3 where w: "set_color h sa Black = Some h1" "set_color h1 a Red = Some h2"
      "rotate_right h2 hdr a = Some h3"
      "reshapes hdr mn mx h (plug ctx (Bin (Bin s1 sa Red vs s2) a c v t)) h3 (plug ctx (Bin s1 sa Black vs (Bin s2 a Red v t)))"
    using outer_right [OF T] by blast
  have T3: "trep h3 hdr mn mx (plug (RF s1 sa Black vs # ctx) (Bin s2 a Red v t))" using reshapes_trep [OF w(4)] by simp
  show ?thesis using w trep_reads [OF T] trep_child_nil [OF T] trep_reads [OF T3]
    by (auto simp: erase_fixup_right_def)
qed

lemma erase_fixup_right_black:
  assumes T: "trep h hdr mn mx (plug ctx (Bin (Bin s1 sa Black vs s2) a c v t))"
  shows "erase_fixup_right h hdr a = erase_fixup_black_right h hdr a sa"
  using trep_reads [OF T] trep_child_nil [OF T] by (simp add: erase_fixup_right_def)

section \<open>The loop\<close>

lemma erase_fixup_loop_stop:
  assumes "trep h hdr mn mx (plug ctx t)" "ctx = [] \<or> tcol t = Red"
  shows "erase_fixup_loop h hdr (ptr hdr t) p = Some (h, ptr hdr t)"
  using trep_header_reads [OF assms(1)] trep_node_color [OF assms(1)] assms(2)
  by (subst erase_fixup_loop.simps) auto

lemma trep_focus_not_root:
  assumes "trep h hdr mn mx (plug (f # ctx) t)"
  shows "ptr hdr t \<noteq> ptr hdr (plug (f # ctx) t)"
proof -
  have "ptr hdr (plug (f # ctx) t) \<in> set (caddrs (f # ctx))"
  proof (induction ctx arbitrary: f t)
    case Nil
    show ?case by (cases f) auto
  next
    case (Cons g ctx)
    have "ptr hdr (plug (g # ctx) (fplug f t)) \<in> set (caddrs (g # ctx))" by (rule Cons.IH)
    then show ?case by (cases f) auto
  qed
  then show ?thesis using trep_distinct_plug [OF assms] ptr_in [of hdr t] by auto
qed

text \<open>One iteration at a black subtree below the root, on either side.\<close>

lemma erase_fixup_loop_step:
  assumes T: "trep h hdr mn mx (plug (f # ctx) t)" and "tcol t = Black"
    and s: "case f of LF _ _ _ _ \<Rightarrow> True | RF s _ _ _ \<Rightarrow> s \<noteq> Tip"
  shows "erase_fixup_loop h hdr (ptr hdr t) (faddr f) = do {
    (h, x, p) \<leftarrow> (case f of LF _ _ _ _ \<Rightarrow> erase_fixup_left h hdr (faddr f)
                    | RF _ _ _ _ \<Rightarrow> erase_fixup_right h hdr (faddr f));
    erase_fixup_loop h hdr x p }"
proof (cases f)
  case (LF a c v u)
  then show ?thesis
    using trep_header_reads [OF T] trep_node_color [OF T] trep_focus_not_root [OF T] assms(2)
      trep_reads [of h hdr mn mx ctx t a c v u] T
    by (subst erase_fixup_loop.simps) simp
next
  case (RF u a c v)
  then have "ptr hdr t \<noteq> ptr hdr u"
    using trep_distinct_plug [OF T] s by (cases u; cases t) auto
  with RF show ?thesis
    using trep_header_reads [OF T] trep_node_color [OF T] trep_focus_not_root [OF T] assms(2)
      trep_reads [of h hdr mn mx ctx u a c v t] T
    by (subst erase_fixup_loop.simps) simp
qed

text \<open>The rotations at a black sibling keep the colour of the root.\<close>

lemma turn_root_black_left:
  assumes "cinv ctx k" "c = Red \<Longrightarrow> ctx \<noteq> []"
  shows "tcol (plug ctx (del_turn_left t a c v (Bin s1 sa Black vs s2))) = Black"
proof (cases "ctx = []")
  case True
  then have "c = Black" using assms(2) by (cases c) auto
  with True show ?thesis by (auto split: ptree.split)
next
  case False
  then show ?thesis by (rule tcol_plug [OF _ assms(1)])
qed

lemma turn_root_black_right:
  assumes "cinv ctx k" "c = Red \<Longrightarrow> ctx \<noteq> []"
  shows "tcol (plug ctx (del_turn_right (Bin s1 sa Black vs s2) a c v t)) = Black"
proof (cases "ctx = []")
  case True
  then have "c = Black" using assms(2) by (cases c) auto
  with True show ?thesis by (auto split: ptree.split)
next
  case False
  then show ?thesis by (rule tcol_plug [OF _ assms(1)])
qed

lemma erase_fixup_loop_sim:
  "trep h hdr mn mx (plug ctx t) \<Longrightarrow> cinv ctx (Suc (bh t)) \<Longrightarrow> invc (paint Black t) \<Longrightarrow> invh t \<Longrightarrow>
   \<exists>h1 ctx1 t1. erase_fixup_loop h hdr (ptr hdr t) (cpar hdr ctx) = Some (h1, ptr hdr t1) \<and>
     reshapes hdr mn mx h (plug ctx t) h1 (plug ctx1 t1) \<and>
     plug ctx1 (paint Black t1) = del_fix ctx t \<and> tcol (del_fix ctx t) = Black"
proof (induction ctx t arbitrary: h rule: del_fix.induct)
  case (1 t)
  then show ?case using erase_fixup_loop_stop [OF "1.prems"(1)] reshapes_refl [OF "1.prems"(1)]
    by (intro exI [of _ h] exI [of _ "[]"] exI [of _ t]) simp
next
  case (2 a c v s ctx t)
  let ?f = "LF a c v s"
  have T: "trep h hdr mn mx (plug (?f # ctx) t)" by (rule "2.prems"(1))
  note inv = "2.prems"(2-4)
  show ?case
  proof (cases "tcol t = Red")
    case True
    have "cinv (?f # ctx) (Suc (bh t))" by (rule inv(1))
    then have "tcol (plug (?f # ctx) (paint Black t)) = Black" by (intro tcol_plug) auto
    then show ?thesis using erase_fixup_loop_stop [OF T disjI2 [OF True]] reshapes_refl [OF T] True
      by (intro exI [of _ h] exI [of _ "?f # ctx"] exI [of _ t]) (simp del: plug.simps)
  next
    case False
    then have t: "tcol t = Black" by simp
    with inv obtain s1 sa cs vs s2 where s: "s = Bin s1 sa cs vs s2" by (cases s) auto
    have step: "erase_fixup_loop h hdr (ptr hdr t) a = do {
        (h, x, p) \<leftarrow> erase_fixup_left h hdr a;
        erase_fixup_loop h hdr x p }"
      using erase_fixup_loop_step [OF T t] s by simp
    show ?thesis
    proof (cases cs)
      case Red
      then obtain w1 w vw w2 where w: "s1 = Bin w1 w Black vw w2" using inv s t by (cases s1) auto
      have c: "c = Black" using inv s Red by auto
      let ?ctx = "LF sa Black vs s2 # ctx"
      have Ts: "trep h hdr mn mx (plug ctx (Bin t a c v (Bin s1 sa Red vs s2)))" using T s Red by simp
      obtain h3 where h3: "erase_fixup_left h hdr a = erase_fixup_black_left h3 hdr a w"
          "reshapes hdr mn mx h (plug ctx (Bin t a c v (Bin s1 sa Red vs s2))) h3 (plug ?ctx (Bin t a Red v (Bin w1 w Black vw w2)))"
        using erase_fixup_left_red [OF Ts] w by auto
      have cc: "cinv ?ctx (bh s1)" "?ctx \<noteq> []" using inv s Red w c t by auto
      show ?thesis
      proof (cases "tcol w1 = Black \<and> tcol w2 = Black")
        case True
        let ?u = "Bin t a Red v (Bin w1 w Red vw w2)"
        obtain h4 where h4: "erase_fixup_black_left h3 hdr a w = Some (h4, a, sa)"
            "reshapes hdr mn mx h3 (plug ?ctx (Bin t a Red v (Bin w1 w Black vw w2))) h4 (plug ?ctx ?u)"
          using fixup_recolour_left [OF reshapes_trep [OF h3(2)]] True by auto
        have "erase_fixup_loop h4 hdr a sa = Some (h4, a)"
          using erase_fixup_loop_stop [OF reshapes_trep [OF h4(2)], of sa] by simp
        moreover have "del_fix (?f # ctx) t = plug ?ctx (paint Black ?u)" using t s Red w True by simp
        moreover have "tcol (plug ?ctx (paint Black ?u)) = Black" using cc by (intro tcol_plug) auto
        ultimately show ?thesis using reshapes_trans [OF h3(2) h4(2)] step h3(1) h4(1) s Red
          by (intro exI [of _ h4] exI [of _ ?ctx] exI [of _ ?u]) simp
      next
        case False
        let ?u = "plug ?ctx (del_turn_left t a Red v (Bin w1 w Black vw w2))"
        obtain h4 where h4: "erase_fixup_black_left h3 hdr a w = Some (h4, ptr hdr ?u, hdr)"
            "reshapes hdr mn mx h3 (plug ?ctx (Bin t a Red v (Bin w1 w Black vw w2))) h4 ?u"
          using fixup_turn_left [OF reshapes_trep [OF h3(2)]] False by blast
        have "erase_fixup_loop h4 hdr (ptr hdr ?u) hdr = Some (h4, ptr hdr ?u)"
          using erase_fixup_loop_stop [of h4 hdr mn mx "[]" ?u] reshapes_trep [OF h4(2)] by simp
        moreover have "del_fix (?f # ctx) t = ?u" using t s Red w False
          by (auto simp del: plug.simps del_turn_left.simps del_turn_right.simps)
        moreover have "tcol ?u = Black" by (rule tcol_plug [OF cc(2,1)])
        ultimately show ?thesis using reshapes_trans [OF h3(2) h4(2)] step h3(1) h4(1) s Red
          by (intro exI [of _ h4] exI [of _ "[]"] exI [of _ ?u])
            (simp del: del_turn_left.simps del_turn_right.simps del_fix.simps)
      qed
    next
      case Black
      have Ts: "trep h hdr mn mx (plug ctx (Bin t a c v (Bin s1 sa Black vs s2)))" using T s Black by simp
      have e: "erase_fixup_left h hdr a = erase_fixup_black_left h hdr a sa"
        by (rule erase_fixup_left_black [OF Ts])
      show ?thesis
      proof (cases "tcol s1 = Black \<and> tcol s2 = Black")
        case True
        let ?u = "Bin t a c v (Bin s1 sa Red vs s2)"
        obtain h4 where h4: "erase_fixup_black_left h hdr a sa = Some (h4, a, cpar hdr ctx)"
            "reshapes hdr mn mx h (plug ctx (Bin t a c v (Bin s1 sa Black vs s2))) h4 (plug ctx ?u)"
          using fixup_recolour_left [OF Ts] True by blast
        have "cinv ctx (Suc (bh ?u))" "invc (paint Black ?u)" "invh ?u" using inv s Black t True by (auto split: if_splits)
        then obtain h5 ctx1 t1 where h5: "erase_fixup_loop h4 hdr a (cpar hdr ctx) = Some (h5, ptr hdr t1)"
            "reshapes hdr mn mx h4 (plug ctx ?u) h5 (plug ctx1 t1)" "plug ctx1 (paint Black t1) = del_fix ctx ?u"
            "tcol (del_fix ctx ?u) = Black"
          using "2.IH" [OF _ s Black True, of h4] t reshapes_trep [OF h4(2)] by auto
        have "del_fix (?f # ctx) t = del_fix ctx ?u" using t s Black True by simp
        then show ?thesis using reshapes_trans [OF h4(2) h5(2)] h5(1,3,4) h4(1) step e s Black by auto
      next
        case False
        let ?u = "plug ctx (del_turn_left t a c v (Bin s1 sa Black vs s2))"
        obtain h4 where h4: "erase_fixup_black_left h hdr a sa = Some (h4, ptr hdr ?u, hdr)"
            "reshapes hdr mn mx h (plug ctx (Bin t a c v (Bin s1 sa Black vs s2))) h4 ?u"
          using fixup_turn_left [OF Ts] False by blast
        have "erase_fixup_loop h4 hdr (ptr hdr ?u) hdr = Some (h4, ptr hdr ?u)"
          using erase_fixup_loop_stop [of h4 hdr mn mx "[]" ?u] reshapes_trep [OF h4(2)] by simp
        moreover have "del_fix (?f # ctx) t = ?u" using t s Black False
          by (auto simp del: plug.simps del_turn_left.simps del_turn_right.simps)
        moreover have "tcol ?u = Black" using inv by (intro turn_root_black_left) auto
        ultimately show ?thesis using reshapes_refl [OF T] h4 step e s Black
          by (intro exI [of _ h4] exI [of _ "[]"] exI [of _ ?u])
            (simp del: del_turn_left.simps del_turn_right.simps del_fix.simps)
      qed
    qed
  qed
next
  case (3 s a c v ctx t)
  let ?f = "RF s a c v"
  have T: "trep h hdr mn mx (plug (?f # ctx) t)" by (rule "3.prems"(1))
  note inv = "3.prems"(2-4)
  show ?case
  proof (cases "tcol t = Red")
    case True
    have "cinv (?f # ctx) (Suc (bh t))" by (rule inv(1))
    then have "tcol (plug (?f # ctx) (paint Black t)) = Black" by (intro tcol_plug) auto
    then show ?thesis using erase_fixup_loop_stop [OF T disjI2 [OF True]] reshapes_refl [OF T] True
      by (intro exI [of _ h] exI [of _ "?f # ctx"] exI [of _ t]) (simp del: plug.simps)
  next
    case False
    then have t: "tcol t = Black" by simp
    with inv obtain s1 sa cs vs s2 where s: "s = Bin s1 sa cs vs s2" by (cases s) auto
    have step: "erase_fixup_loop h hdr (ptr hdr t) a = do {
        (h, x, p) \<leftarrow> erase_fixup_right h hdr a;
        erase_fixup_loop h hdr x p }"
      using erase_fixup_loop_step [OF T t] s by simp
    show ?thesis
    proof (cases cs)
      case Red
      then obtain w1 w vw w2 where w: "s2 = Bin w1 w Black vw w2" using inv s t by (cases s2) auto
      have c: "c = Black" using inv s Red by auto
      let ?ctx = "RF s1 sa Black vs # ctx"
      have Ts: "trep h hdr mn mx (plug ctx (Bin (Bin s1 sa Red vs s2) a c v t))" using T s Red by simp
      obtain h3 where h3: "erase_fixup_right h hdr a = erase_fixup_black_right h3 hdr a w"
          "reshapes hdr mn mx h (plug ctx (Bin (Bin s1 sa Red vs s2) a c v t)) h3 (plug ?ctx (Bin (Bin w1 w Black vw w2) a Red v t))"
        using erase_fixup_right_red [OF Ts] w by auto
      have cc: "cinv ?ctx (bh s2)" "?ctx \<noteq> []" using inv s Red w c t by auto
      show ?thesis
      proof (cases "tcol w1 = Black \<and> tcol w2 = Black")
        case True
        let ?u = "Bin (Bin w1 w Red vw w2) a Red v t"
        obtain h4 where h4: "erase_fixup_black_right h3 hdr a w = Some (h4, a, sa)"
            "reshapes hdr mn mx h3 (plug ?ctx (Bin (Bin w1 w Black vw w2) a Red v t)) h4 (plug ?ctx ?u)"
          using fixup_recolour_right [OF reshapes_trep [OF h3(2)]] True by auto
        have "erase_fixup_loop h4 hdr a sa = Some (h4, a)"
          using erase_fixup_loop_stop [OF reshapes_trep [OF h4(2)], of sa] by simp
        moreover have "del_fix (?f # ctx) t = plug ?ctx (paint Black ?u)" using t s Red w True by simp
        moreover have "tcol (plug ?ctx (paint Black ?u)) = Black" using cc by (intro tcol_plug) auto
        ultimately show ?thesis using reshapes_trans [OF h3(2) h4(2)] step h3(1) h4(1) s Red
          by (intro exI [of _ h4] exI [of _ ?ctx] exI [of _ ?u]) simp
      next
        case False
        let ?u = "plug ?ctx (del_turn_right (Bin w1 w Black vw w2) a Red v t)"
        obtain h4 where h4: "erase_fixup_black_right h3 hdr a w = Some (h4, ptr hdr ?u, hdr)"
            "reshapes hdr mn mx h3 (plug ?ctx (Bin (Bin w1 w Black vw w2) a Red v t)) h4 ?u"
          using fixup_turn_right [OF reshapes_trep [OF h3(2)]] False by blast
        have "erase_fixup_loop h4 hdr (ptr hdr ?u) hdr = Some (h4, ptr hdr ?u)"
          using erase_fixup_loop_stop [of h4 hdr mn mx "[]" ?u] reshapes_trep [OF h4(2)] by simp
        moreover have "del_fix (?f # ctx) t = ?u" using t s Red w False
          by (auto simp del: plug.simps del_turn_left.simps del_turn_right.simps)
        moreover have "tcol ?u = Black" by (rule tcol_plug [OF cc(2,1)])
        ultimately show ?thesis using reshapes_trans [OF h3(2) h4(2)] step h3(1) h4(1) s Red
          by (intro exI [of _ h4] exI [of _ "[]"] exI [of _ ?u])
            (simp del: del_turn_left.simps del_turn_right.simps del_fix.simps)
      qed
    next
      case Black
      have Ts: "trep h hdr mn mx (plug ctx (Bin (Bin s1 sa Black vs s2) a c v t))" using T s Black by simp
      have e: "erase_fixup_right h hdr a = erase_fixup_black_right h hdr a sa"
        by (rule erase_fixup_right_black [OF Ts])
      show ?thesis
      proof (cases "tcol s1 = Black \<and> tcol s2 = Black")
        case True
        let ?u = "Bin (Bin s1 sa Red vs s2) a c v t"
        obtain h4 where h4: "erase_fixup_black_right h hdr a sa = Some (h4, a, cpar hdr ctx)"
            "reshapes hdr mn mx h (plug ctx (Bin (Bin s1 sa Black vs s2) a c v t)) h4 (plug ctx ?u)"
          using fixup_recolour_right [OF Ts] True by blast
        have "cinv ctx (Suc (bh ?u))" "invc (paint Black ?u)" "invh ?u" using inv s Black t True by (auto split: if_splits)
        then obtain h5 ctx1 t1 where h5: "erase_fixup_loop h4 hdr a (cpar hdr ctx) = Some (h5, ptr hdr t1)"
            "reshapes hdr mn mx h4 (plug ctx ?u) h5 (plug ctx1 t1)" "plug ctx1 (paint Black t1) = del_fix ctx ?u"
            "tcol (del_fix ctx ?u) = Black"
          using "3.IH" [OF _ s Black True, of h4] t reshapes_trep [OF h4(2)] by auto
        have "del_fix (?f # ctx) t = del_fix ctx ?u" using t s Black True by simp
        then show ?thesis using reshapes_trans [OF h4(2) h5(2)] h5(1,3,4) h4(1) step e s Black by auto
      next
        case False
        let ?u = "plug ctx (del_turn_right (Bin s1 sa Black vs s2) a c v t)"
        obtain h4 where h4: "erase_fixup_black_right h hdr a sa = Some (h4, ptr hdr ?u, hdr)"
            "reshapes hdr mn mx h (plug ctx (Bin (Bin s1 sa Black vs s2) a c v t)) h4 ?u"
          using fixup_turn_right [OF Ts] False by blast
        have "erase_fixup_loop h4 hdr (ptr hdr ?u) hdr = Some (h4, ptr hdr ?u)"
          using erase_fixup_loop_stop [of h4 hdr mn mx "[]" ?u] reshapes_trep [OF h4(2)] by simp
        moreover have "del_fix (?f # ctx) t = ?u" using t s Black False
          by (auto simp del: plug.simps del_turn_left.simps del_turn_right.simps)
        moreover have "tcol ?u = Black" using inv by (intro turn_root_black_right) auto
        ultimately show ?thesis using reshapes_refl [OF T] h4 step e s Black
          by (intro exI [of _ h4] exI [of _ "[]"] exI [of _ ?u])
            (simp del: del_turn_left.simps del_turn_right.simps del_fix.simps)
      qed
    qed
  qed
qed

lemma erase_fixup_sim:
  assumes "trep h hdr mn mx (plug ctx t)" "cinv ctx (Suc (bh t))" "invc (paint Black t)" "invh t"
  shows "\<exists>h'. erase_fixup h hdr (ptr hdr t) (cpar hdr ctx) = Some h' \<and>
    reshapes hdr mn mx h (plug ctx t) h' (del_fix ctx t) \<and> rb (del_fix ctx t)"
proof -
  obtain h1 ctx1 t1 where 1: "erase_fixup_loop h hdr (ptr hdr t) (cpar hdr ctx) = Some (h1, ptr hdr t1)"
      "reshapes hdr mn mx h (plug ctx t) h1 (plug ctx1 t1)"
      "plug ctx1 (paint Black t1) = del_fix ctx t" "tcol (del_fix ctx t) = Black"
    using erase_fixup_loop_sim [OF assms] by blast
  note T1 = reshapes_trep [OF 1(2)]
  have "\<exists>h2. (if t1 \<noteq> Tip then set_color h1 (ptr hdr t1) Black else Some h1) = Some h2 \<and>
      reshapes hdr mn mx h1 (plug ctx1 t1) h2 (plug ctx1 (paint Black t1))"
    using set_color_reshapes [of h1 hdr mn mx ctx1] T1 reshapes_refl [OF T1] by (cases t1) auto
  then obtain h2 where 2: "(if t1 \<noteq> Tip then set_color h1 (ptr hdr t1) Black else Some h1) = Some h2"
      "reshapes hdr mn mx h1 (plug ctx1 t1) h2 (del_fix ctx t)" using 1(3) by auto
  obtain h3 where 3: "blacken_root h2 hdr = Some h3" "reshapes hdr mn mx h2 (del_fix ctx t) h3 (del_fix ctx t)"
    using blacken_root_sim [OF reshapes_trep [OF 2(2)]] 1(4) by auto
  have "erase_fixup h hdr (ptr hdr t) (cpar hdr ctx) = Some h3"
    using 1(1) 2(1) 3(1) trep_is_nil [OF T1] by (simp add: erase_fixup_def)
  moreover have "rb (del_fix ctx t)" using del_fix_inv [OF assms(2-4)] 1(4) by (simp add: rb_def)
  ultimately show ?thesis using reshapes_trans [OF reshapes_trans [OF 1(2) 2(2)] 3(2)] by blast
qed

end
