(* ===== verification/QTreeSplice.thy ===== *)
theory QTreeSplice
  imports QTreeEraseFix
begin

text \<open>
  The pointer surgery of \<open>erase_node\<close>: \<open>transplant\<close>, and putting the in-order
  successor in the place of the removed node.
\<close>

section \<open>Transplanting\<close>

lemma transplant_right_zrep:
  assumes z: "zrep h hdr mn mx ctx (Bin Tip a c v r)"
  shows "\<exists>h'. transplant h hdr a (ptr hdr r) = Some h' \<and> zrep h' hdr mn mx ctx r \<and> h' a = h a \<and>
     same_off (insert hdr (set (caddrs ctx @ addrs r))) h h'"
proof -
  from z obtain q where q: "h hdr = Some (hnode q mn mx)" using crep_header unfolding zrep_def by metis
  show ?thesis
  proof (cases ctx)
    case Nil
    with z q show ?thesis
      by (cases r; clarsimp simp: zrep_def transplant_def node_defs Int_Un_distrib Int_Un_distrib2
          cong: bind_first_cong)
  next
    case (Cons f ctx')
    with z q show ?thesis
      by (cases f; cases r; clarsimp simp: zrep_def transplant_def node_defs Int_Un_distrib Int_Un_distrib2
          cong: bind_first_cong)
  qed
qed

lemma transplant_left_zrep:
  assumes z: "zrep h hdr mn mx ctx (Bin l a c v Tip)"
  shows "\<exists>h'. transplant h hdr a (ptr hdr l) = Some h' \<and> zrep h' hdr mn mx ctx l \<and> h' a = h a \<and>
     same_off (insert hdr (set (caddrs ctx @ addrs l))) h h'"
proof -
  from z obtain q where q: "h hdr = Some (hnode q mn mx)" using crep_header unfolding zrep_def by metis
  show ?thesis
  proof (cases ctx)
    case Nil
    with z q show ?thesis
      by (cases l; clarsimp simp: zrep_def transplant_def node_defs Int_Un_distrib Int_Un_distrib2
          cong: bind_first_cong)
  next
    case (Cons f ctx')
    with z q show ?thesis
      by (cases f; cases l; clarsimp simp: zrep_def transplant_def node_defs Int_Un_distrib Int_Un_distrib2
          cong: bind_first_cong)
  qed
qed

text \<open>Putting the node \<open>y\<close>, which already heads the right subtree \<open>R\<close>, in the place of \<open>a\<close>.\<close>

definition replace_node :: "'v heap \<Rightarrow> addr \<Rightarrow> addr \<Rightarrow> addr \<Rightarrow> 'v heap option" where
  "replace_node h hdr node y = do {
     h \<leftarrow> transplant h hdr node y;
     nl \<leftarrow> left h node;
     h \<leftarrow> set_left h y nl;
     yl \<leftarrow> left h y;
     ylb \<leftarrow> is_nil h yl;
     h \<leftarrow> (if \<not> ylb then set_parent h yl y else Some h);
     nc \<leftarrow> color h node;
     set_color h y nc }"

lemma replace_node_zrep:
  assumes d: "distinct (hdr # caddrs ctx @ addrs l @ a # y # addrs R)"
    and c: "crep h hdr mn mx ctx a" "h a = Some (mk (cpar hdr ctx) (ptr hdr l) rr c v)" "rep h hdr a l"
    and y: "h y = Some (mk py ly (ptr hdr R) cy vy)" "rep h hdr y R" "l \<noteq> Tip"
  shows "\<exists>h'. replace_node h hdr a y = Some h' \<and> zrep h' hdr mn mx ctx (Bin l y c vy R) \<and> h' a = h a \<and>
     same_off (insert hdr (set (caddrs ctx @ addrs l @ [y]))) h h'"
proof -
  from c obtain q where q: "h hdr = Some (hnode q mn mx)" using crep_header by metis
  obtain l1 la lc lv l2 where l: "l = Bin l1 la lc lv l2" using y(3) by (cases l) auto
  show ?thesis
  proof (cases ctx)
    case Nil
    with assms q l show ?thesis
      by (clarsimp simp: zrep_def replace_node_def transplant_def node_defs Int_Un_distrib Int_Un_distrib2
          cong: bind_first_cong)
  next
    case (Cons f ctx')
    with assms q l show ?thesis
      by (cases f; clarsimp simp: zrep_def replace_node_def transplant_def node_defs Int_Un_distrib Int_Un_distrib2
          cong: bind_first_cong) auto
  qed
qed

end
