(* ===== verification/QTreeErase.thy ===== *)
theory QTreeErase
  imports QTreeSplice
begin

text \<open>
  Removal of a node.  The splice of \<open>erase_node\<close> takes exactly one node out of the tree,
  keeps every other node at its address, and \<open>erase_fixup\<close> restores the invariants.
\<close>

section \<open>The splice\<close>

text \<open>The leftmost node of a subtree, as a zipper into it.\<close>

lemma min_zipper:
  "r \<noteq> Tip \<Longrightarrow> \<exists>rctx y cy vy yr. r = plug rctx (Bin Tip y cy vy yr) \<and> litems rctx = []"
proof (induction r)
  case (Bin l a c v r)
  show ?case
  proof (cases "l = Tip")
    case True
    then have "Bin l a c v r = plug [] (Bin Tip a c v r) \<and> litems [] = []" by simp
    then show ?thesis by blast
  next
    case False
    with Bin.IH(1) obtain rctx y cy vy yr where y: "l = plug rctx (Bin Tip y cy vy yr)" "litems rctx = []" by blast
    have "litems (rctx @ [LF a c v r]) = []"
      using y(2) by (induction rctx rule: litems.induct) auto
    moreover have "Bin l a c v r = plug (rctx @ [LF a c v r]) (Bin Tip y cy vy yr)" using y(1) by simp
    ultimately show ?thesis by blast
  qed
qed simp

text \<open>
  \<open>spliced\<close>: the heap after the splice.  The node \<open>a\<close> is out of the tree, and its value
  \<open>v\<close> is still there; the hole \<open>ctx'\<close> with the subtree \<open>t'\<close> is where the fixup starts.
\<close>

definition spliced ::
  "'v heap \<Rightarrow> addr \<Rightarrow> addr \<Rightarrow> addr \<Rightarrow> addr \<Rightarrow> 'v \<Rightarrow> 'v ptree \<Rightarrow> 'v heap \<Rightarrow> 'v path \<Rightarrow> 'v ptree \<Rightarrow> bool" where
  "spliced h hdr mn mx a v T h' ctx' t' \<longleftrightarrow>
     trep h' hdr mn mx (plug ctx' t') \<and> is_nil h' a = Some False \<and> node_val h' a = Some v \<and>
     set (addrs T) = insert a (set (addrs (plug ctx' t'))) \<and> a \<notin> set (addrs (plug ctx' t')) \<and>
     same_off (insert hdr (set (addrs T))) h h'"

lemma caddrs_append [simp]: "set (caddrs (ctx1 @ ctx2)) = set (caddrs ctx1) \<union> set (caddrs ctx2)"
  by (induction ctx1 rule: litems.induct) auto

lemma plug_not_Tip: "ctx \<noteq> [] \<Longrightarrow> plug ctx t \<noteq> Tip"
proof (induction ctx arbitrary: t)
  case (Cons f ctx)
  then show ?case by (cases "ctx = []"; cases f) auto
qed simp

lemma splice_right:
  assumes T: "trep h hdr mn mx (plug ctx (Bin Tip a c v r))"
  shows "\<exists>h'. transplant h hdr a (ptr hdr r) = Some h' \<and> h' a = h a \<and>
    spliced h hdr mn mx a v (plug ctx (Bin Tip a c v r)) h' ctx r"
proof -
  obtain h' where h': "transplant h hdr a (ptr hdr r) = Some h'" "zrep h' hdr mn mx ctx r" "h' a = h a"
    "same_off (insert hdr (set (caddrs ctx @ addrs r))) h h'"
    using transplant_right_zrep [OF T [folded zrep_plug]] by blast
  moreover have "a \<notin> set (addrs (plug ctx r))"
    using trep_distinct_plug [OF T] by (auto simp: set_addrs_plug)
  moreover have "same_off (insert hdr (set (addrs (plug ctx (Bin Tip a c v r))))) h h'"
    using h'(4) by (rule same_off_mono) (auto simp: set_addrs_plug)
  ultimately show ?thesis using trep_cell [OF T]
    by (auto simp: spliced_def zrep_plug set_addrs_plug heap_simps)
qed

lemma splice_left:
  assumes T: "trep h hdr mn mx (plug ctx (Bin l a c v Tip))"
  shows "\<exists>h'. transplant h hdr a (ptr hdr l) = Some h' \<and>
    spliced h hdr mn mx a v (plug ctx (Bin l a c v Tip)) h' ctx l"
proof -
  obtain h' where h': "transplant h hdr a (ptr hdr l) = Some h'" "zrep h' hdr mn mx ctx l" "h' a = h a"
    "same_off (insert hdr (set (caddrs ctx @ addrs l))) h h'"
    using transplant_left_zrep [OF T [folded zrep_plug]] by blast
  moreover have "a \<notin> set (addrs (plug ctx l))"
    using trep_distinct_plug [OF T] by (auto simp: set_addrs_plug)
  moreover have "same_off (insert hdr (set (addrs (plug ctx (Bin l a c v Tip))))) h h'"
    using h'(4) by (rule same_off_mono) (auto simp: set_addrs_plug)
  ultimately show ?thesis using trep_cell [OF T]
    by (auto simp: spliced_def zrep_plug set_addrs_plug heap_simps)
qed

lemma splice_near:
  assumes T: "trep h hdr mn mx (plug ctx (Bin l a c v (Bin Tip y cy vy yr)))" and l: "l \<noteq> Tip"
  shows "\<exists>h'. replace_node h hdr a y = Some h' \<and>
    spliced h hdr mn mx a v (plug ctx (Bin l a c v (Bin Tip y cy vy yr))) h' (RF l y c vy # ctx) yr"
proof -
  have z: "zrep h hdr mn mx ctx (Bin l a c v (Bin Tip y cy vy yr))" using T by (simp add: zrep_plug)
  obtain h' where h': "replace_node h hdr a y = Some h'" "zrep h' hdr mn mx ctx (Bin l y c vy yr)" "h' a = h a"
    "same_off (insert hdr (set (caddrs ctx @ addrs l @ [y]))) h h'"
    using replace_node_zrep [of hdr ctx l a y yr h mn mx y c v a hdr cy vy] z l
    by (fastforce simp: zrep_def)
  moreover have "a \<notin> set (addrs (plug (RF l y c vy # ctx) yr))"
    using trep_distinct_plug [OF T] by (auto simp: set_addrs_plug)
  moreover have "same_off (insert hdr (set (addrs (plug ctx (Bin l a c v (Bin Tip y cy vy yr)))))) h h'"
    using h'(4) by (rule same_off_mono) (auto simp: set_addrs_plug)
  ultimately show ?thesis using trep_cell [OF T]
    by (auto simp: spliced_def zrep_plug set_addrs_plug heap_simps)
qed

lemma splice_far:
  assumes T: "trep h hdr mn mx (plug ctx (Bin l a c v (plug rctx (Bin Tip y cy vy yr))))"
    and l: "l \<noteq> Tip" and r: "rctx \<noteq> []"
  shows "\<exists>h1 h2 h3 h'. transplant h hdr y (ptr hdr yr) = Some h1 \<and>
    right h1 a = Some (ptr hdr (plug rctx yr)) \<and>
    set_right h1 y (ptr hdr (plug rctx yr)) = Some h2 \<and>
    is_nil h2 (ptr hdr (plug rctx yr)) = Some False \<and>
    set_parent h2 (ptr hdr (plug rctx yr)) y = Some h3 \<and> parent h3 y = Some (cpar hdr rctx) \<and>
    right h2 y = Some (ptr hdr (plug rctx yr)) \<and>
    replace_node h3 hdr a y = Some h' \<and>
    spliced h hdr mn mx a v (plug ctx (Bin l a c v (plug rctx (Bin Tip y cy vy yr)))) h'
      (rctx @ RF l y c vy # ctx) yr"
proof -
  let ?R = "plug rctx yr" and ?old = "rctx @ RF l a c v # ctx"
  let ?T = "plug ctx (Bin l a c v (plug rctx (Bin Tip y cy vy yr)))"
  have T': "trep h hdr mn mx (plug ?old (Bin Tip y cy vy yr))" using T by simp
  obtain h1 where h1: "transplant h hdr y (ptr hdr yr) = Some h1" "h1 y = h y"
      "spliced h hdr mn mx y vy (plug ?old (Bin Tip y cy vy yr)) h1 ?old yr"
    using splice_right [OF T'] by blast
  have T1: "trep h1 hdr mn mx (plug ctx (Bin l a c v ?R))" 
    and yn: "y \<notin> set (addrs (plug ctx (Bin l a c v ?R)))"
    and s1: "same_off (insert hdr (set (addrs ?T))) h h1"
    using h1(3) by (auto simp: spliced_def)
  have cy: "h1 y = Some (mk (cpar hdr rctx) hdr (ptr hdr yr) cy vy)"
    using trep_cell [OF T'] r h1(2) by (cases rctx) auto
  obtain R1 ra rc rv R2 where R: "?R = Bin R1 ra rc rv R2" using plug_not_Tip [OF r] by (cases ?R) auto
  have z: "zrep h1 hdr mn mx ctx (Bin l a c v (Bin R1 ra rc rv R2))" using T1 by (simp add: zrep_plug R)
  have yh: "y \<noteq> hdr" using trep_distinct_plug [OF T'] by auto
  have yn': "y \<notin> set (caddrs ctx)" "y \<notin> set (addrs l)" "y \<noteq> a" "y \<noteq> ra" "y \<notin> set (addrs R1)" "y \<notin> set (addrs R2)"
    using yn by (auto simp: set_addrs_plug R)
  have zn: "ra \<noteq> hdr" "ra \<noteq> a" "ra \<notin> set (addrs R1)" "ra \<notin> set (addrs R2)" "ra \<notin> set (addrs l)" "ra \<notin> set (caddrs ctx)"
    using z by (auto simp: zrep_def)
  let ?h2 = "h1(y \<mapsto> mk (cpar hdr rctx) hdr ra cy vy)"
  let ?h3 = "?h2(ra \<mapsto> mk y (ptr hdr R1) (ptr hdr R2) rc rv)"
  have ra: "h1 ra = Some (mk a (ptr hdr R1) (ptr hdr R2) rc rv)" using z by (simp add: zrep_def)
  have ha: "h1 a = Some (mk (cpar hdr ctx) (ptr hdr l) ra c v)" using z by (simp add: zrep_def)
  have 2: "set_right h1 y ra = Some ?h2" "is_nil ?h2 ra = Some False" "set_parent ?h2 ra y = Some ?h3"
    "parent ?h3 y = Some (cpar hdr rctx)" "right h1 a = Some ra" "right ?h2 y = Some ra"
    using cy ra yn' ha by (simp_all add: heap_simps)
  have reps: "crep h1 hdr mn mx ctx a" "rep h1 hdr a l" "rep h1 hdr ra R1" "rep h1 hdr ra R2"
    "distinct (hdr # caddrs ctx @ addrs l @ a # addrs (Bin R1 ra rc rv R2))"
    using z by (simp_all add: zrep_def)
  have "crep ?h3 hdr mn mx ctx a" "?h3 a = Some (mk (cpar hdr ctx) (ptr hdr l) ra c v)" "rep ?h3 hdr a l"
    "rep ?h3 hdr y (Bin R1 ra rc rv R2)" "?h3 y = Some (mk (cpar hdr rctx) hdr ra cy vy)"
    using reps(1-4) yn' yh zn ha by simp_all
  moreover have "distinct (hdr # caddrs ctx @ addrs l @ a # y # addrs (Bin R1 ra rc rv R2))"
    using reps(5) yn' yh by auto
  ultimately obtain h' where h': "replace_node ?h3 hdr a y = Some h'"
      "zrep h' hdr mn mx ctx (Bin l y c vy (Bin R1 ra rc rv R2))" "h' a = ?h3 a"
      "same_off (insert hdr (set (caddrs ctx @ addrs l @ [y]))) ?h3 h'"
    using replace_node_zrep [of hdr ctx l a y "Bin R1 ra rc rv R2" ?h3 mn mx ra c v "cpar hdr rctx" hdr cy vy] l
    by auto
  have "trep h' hdr mn mx (plug (rctx @ RF l y c vy # ctx) yr)" using h'(2) R by (simp add: zrep_plug)
  moreover have "is_nil h' a = Some False" "node_val h' a = Some v"
    using h'(3) ha yn' zn by (simp_all add: heap_simps)
  moreover have a: "a \<notin> set (addrs (plug (rctx @ RF l y c vy # ctx) yr))"
    "set (addrs ?T) = insert a (set (addrs (plug (rctx @ RF l y c vy # ctx) yr)))"
    using trep_distinct_plug [OF T'] trep_distinct_plug [OF T1] yn' by (auto simp: set_addrs_plug)
  moreover have "same_off (insert hdr (set (addrs ?T))) h h'"
  proof (rule same_off_trans [OF s1], rule same_off_trans)
    have "ra \<in> set (addrs ?R)" by (simp add: R)
    then have "y \<in> set (addrs ?T)" "ra \<in> set (addrs ?T)" by (auto simp: set_addrs_plug)
    then show "same_off (insert hdr (set (addrs ?T))) h1 ?h3" by simp
    show "same_off (insert hdr (set (addrs ?T))) ?h3 h'"
      using h'(4) by (rule same_off_mono) (auto simp: set_addrs_plug)
  qed
  ultimately have "spliced h hdr mn mx a v ?T h' (rctx @ RF l y c vy # ctx) yr" unfolding spliced_def by blast
  then show ?thesis using h1(1) 2 h'(1) R by (intro exI [of _ h1] exI [of _ ?h2] exI [of _ ?h3] exI [of _ h']) simp
qed

text \<open>The invariants at the hole, when the removed node had at most one child.\<close>

definition hole_inv :: "color \<Rightarrow> 'v path \<Rightarrow> 'v ptree \<Rightarrow> bool" where
  "hole_inv col ctx t \<longleftrightarrow> invc (paint Black t) \<and> invh t \<and>
     (if col = Black then cinv ctx (Suc (bh t)) else rb (plug ctx t))"

lemma hole_inv_removed:
  assumes "rb (plug ctx (Bin l a c v r))" "l = Tip \<and> t = r \<or> r = Tip \<and> t = l"
  shows "hole_inv c ctx t"
proof -
  have 1: "cinv ctx (bh (Bin l a c v r))" "invc (Bin l a c v r)" "invh (Bin l a c v r)"
    "c = Red \<longrightarrow> ctx \<noteq> [] \<and> ccol ctx = Black"
    using assms(1) plug_cinv [of ctx "Bin l a c v r"] by (auto simp: rb_def)
  then have t: "invc t" "invh t" "bh t = 0" "c = Red \<longrightarrow> tcol t = Black" using assms(2) by auto
  show ?thesis
  proof (cases c)
    case Red
    have "bh (Bin l a c v r) = 0" using assms(2) t(3) 1(3) Red by auto
    then have "cinv ctx (bh t)" using 1(1) t(3) by simp
    then have "invc (plug ctx t)" "invh (plug ctx t)" "tcol (plug ctx t) = Black"
      using t Red 1(4) plug_inv [of ctx t] tcol_plug by auto
    then show ?thesis using t Red by (simp add: hole_inv_def rb_def)
  next
    case Black
    then show ?thesis using 1(1,3) t assms(2) by (auto simp: hole_inv_def)
  qed
qed

lemma cinv_rename: "cinv (ctx1 @ RF l a c v # ctx) b = cinv (ctx1 @ RF l a' c v' # ctx) b"
proof (induction ctx1 arbitrary: b)
  case (Cons f ctx1)
  have "ccol (ctx1 @ RF l a c v # ctx) = ccol (ctx1 @ RF l a' c v' # ctx)" by (cases ctx1) auto
  then show ?case by (cases f) (simp_all only: append_Cons cinv.simps Cons.IH, simp_all)
qed simp

lemma rb_plug_cong:
  assumes "bh s = bh s'" "invc s = invc s'" "invh s = invh s'" "tcol s = tcol s'"
  shows "rb (plug ctx s) = rb (plug ctx s')"
proof -
  have "bh (plug ctx s) = bh (plug ctx s') \<and> invc (plug ctx s) = invc (plug ctx s') \<and>
      invh (plug ctx s) = invh (plug ctx s') \<and> tcol (plug ctx s) = tcol (plug ctx s')"
    using assms
  proof (induction ctx arbitrary: s s')
    case (Cons f ctx)
    show ?case unfolding plug.simps by (rule Cons.IH) (cases f; simp add: Cons.prems)+
  qed simp
  then show ?thesis by (simp add: rb_def)
qed

lemma rb_rename:
  "rb (plug (ctx1 @ RF l a c v # ctx) t) = rb (plug (ctx1 @ RF l a' c v' # ctx) t)"
  unfolding plug_append plug.simps by (rule rb_plug_cong) simp_all

lemma hole_inv_rename:
  "hole_inv col (ctx1 @ RF l a c v # ctx) t = hole_inv col (ctx1 @ RF l a' c v' # ctx) t"
  unfolding hole_inv_def using cinv_rename rb_rename by metis

lemma litems_append [simp]: "litems (ctx1 @ ctx2) = litems ctx2 @ litems ctx1"
  by (induction ctx1 rule: litems.induct) auto

lemma ritems_append [simp]: "ritems (ctx1 @ ctx2) = ritems ctx1 @ ritems ctx2"
  by (induction ctx1 rule: litems.induct) auto

lemma erase_splice_sim:
  assumes T: "trep h hdr mn mx (plug ctx (Bin l a c v r))" and rb: "rb (plug ctx (Bin l a c v r))"
  shows "\<exists>h' col ctx' t'. erase_splice h hdr a = Some (h', col, ptr hdr t', cpar hdr ctx') \<and>
    spliced h hdr mn mx a v (plug ctx (Bin l a c v r)) h' ctx' t' \<and>
    items (plug ctx' t') = litems ctx @ items l @ items r @ ritems ctx \<and> hole_inv col ctx' t'"
proof -
  note reads = trep_reads [OF T] trep_child_nil [OF T]
  consider "l = Tip" | "l \<noteq> Tip" "r = Tip" | "l \<noteq> Tip" "r \<noteq> Tip" by blast
  then show ?thesis
  proof cases
    case 1
    obtain h' where h': "transplant h hdr a (ptr hdr r) = Some h'"
      "spliced h hdr mn mx a v (plug ctx (Bin Tip a c v r)) h' ctx r"
      using splice_right [of h hdr mn mx ctx a c v r] T 1 by auto
    have "erase_splice h hdr a = Some (h', c, ptr hdr r, cpar hdr ctx)"
      using reads h'(1) 1 by (simp add: erase_splice_def)
    moreover have "hole_inv c ctx r" using hole_inv_removed [OF rb] 1 by simp
    ultimately show ?thesis using h'(2) 1
      by (intro exI [of _ h'] exI [of _ c] exI [of _ ctx] exI [of _ r]) simp
  next
    case 2
    obtain h' where h': "transplant h hdr a (ptr hdr l) = Some h'"
      "spliced h hdr mn mx a v (plug ctx (Bin l a c v Tip)) h' ctx l"
      using splice_left [of h hdr mn mx ctx l a c v] T 2 by auto
    have "erase_splice h hdr a = Some (h', c, ptr hdr l, cpar hdr ctx)"
      using reads h'(1) 2 by (simp add: erase_splice_def)
    moreover have "hole_inv c ctx l" using hole_inv_removed [OF rb] 2 by simp
    ultimately show ?thesis using h'(2) 2
      by (intro exI [of _ h'] exI [of _ c] exI [of _ ctx] exI [of _ l]) simp
  next
    case 3
    obtain rctx y cy vy yr where y: "r = plug rctx (Bin Tip y cy vy yr)" "litems rctx = []"
      using min_zipper [OF 3(2)] by blast
    let ?old = "rctx @ RF l a c v # ctx" and ?new = "rctx @ RF l y c vy # ctx"
    have Ty: "trep h hdr mn mx (plug ?old (Bin Tip y cy vy yr))" using T y by simp
    note readsy = trep_reads [OF Ty] trep_child_nil [OF Ty]
    have min: "minimum h (ptr hdr r) = Some y"
      using minimum_sim [of h hdr mn mx "RF l a c v # ctx" r] T 3(2) y by simp
    have "hole_inv cy ?old yr" using hole_inv_removed [of ?old Tip y cy vy yr yr] rb y by simp
    then have hi: "hole_inv cy ?new yr" by (simp only: hole_inv_rename [of cy rctx l y c vy ctx yr a v])
    have it: "items (plug ?new yr) = litems ctx @ items l @ items r @ ritems ctx" using y by simp
    show ?thesis
    proof (cases "rctx = []")
      case True
      obtain h' where h': "replace_node h hdr a y = Some h'"
        "spliced h hdr mn mx a v (plug ctx (Bin l a c v (Bin Tip y cy vy yr))) h' (RF l y c vy # ctx) yr"
        using splice_near [of h hdr mn mx ctx l a c v y cy vy yr] T 3(1) y True by auto
      have "erase_splice h hdr a = Some (h', cy, ptr hdr yr, y)"
        using reads readsy min h'(1) 3 y True
        by (simp add: erase_splice_def replace_node_def bind_split_asm_Some)
      then show ?thesis using h'(2) hi it True y
        by (intro exI [of _ h'] exI [of _ cy] exI [of _ ?new] exI [of _ yr]) simp
    next
      case False
      obtain h1 h2 h3 h' where h': "transplant h hdr y (ptr hdr yr) = Some h1"
        "right h1 a = Some (ptr hdr (plug rctx yr))"
        "set_right h1 y (ptr hdr (plug rctx yr)) = Some h2"
        "is_nil h2 (ptr hdr (plug rctx yr)) = Some False"
        "set_parent h2 (ptr hdr (plug rctx yr)) y = Some h3" "parent h3 y = Some (cpar hdr rctx)"
        "right h2 y = Some (ptr hdr (plug rctx yr))"
        "replace_node h3 hdr a y = Some h'"
        "spliced h hdr mn mx a v (plug ctx (Bin l a c v (plug rctx (Bin Tip y cy vy yr)))) h' ?new yr"
        using splice_far [of h hdr mn mx ctx l a c v rctx y cy vy yr] T 3(1) False y by auto
      have "cpar hdr rctx \<noteq> a"
        using trep_distinct_plug [OF Ty] False by (cases rctx; cases "hd rctx") auto
      then have "erase_splice h hdr a = Some (h', cy, ptr hdr yr, cpar hdr rctx)"
        using reads readsy min h'(1-8) 3 y False
        by (cases rctx) (simp_all add: erase_splice_def replace_node_def bind_split_asm_Some)
      moreover have "cpar hdr ?new = cpar hdr rctx" using False by (cases rctx) auto
      ultimately show ?thesis using h'(9) hi it y
        by (intro exI [of _ h'] exI [of _ cy] exI [of _ ?new] exI [of _ yr]) simp
    qed
  qed
qed

section \<open>The whole removal\<close>

lemma destroy_and_delete:
  assumes "is_nil h a = Some False" "node_val h a = Some v" "a \<noteq> nullptr"
  shows "\<exists>g. destroy_value h a = Some g \<and> node_delete g a = Some (h(a := None))"
proof -
  from assms obtain n where n: "h a = Some n" "\<not> n_nil n" "n_val n = Some v"
    by (auto simp: is_nil_def node_val_def bind_split_asm_Some)
  then have "destroy_value h a = Some (h(a \<mapsto> n\<lparr>n_val := None, n_nil := True\<rparr>))"
    by (simp add: destroy_value_def heap_simps)
  then show ?thesis using assms(3) by (simp add: node_delete_def)
qed

text \<open>The cached minimum and maximum are recomputed.\<close>

definition refresh_header :: "'v heap \<Rightarrow> qtree \<Rightarrow> 'v heap option" where
  "refresh_header h T = (let hdr = t_header T in
     if t_count T = 0 then init_header h hdr
     else do {
       r \<leftarrow> parent h hdr;
       m \<leftarrow> minimum h r;
       h \<leftarrow> set_left h hdr m;
       r \<leftarrow> parent h hdr;
       m \<leftarrow> maximum h r;
       set_right h hdr m })"

lemma refresh_header_sim:
  assumes T: "trep h (t_header T) mn mx t" and c: "t_count T = length (items t)"
  shows "\<exists>h'. refresh_header h T = Some h' \<and>
    trep h' (t_header T) (first_addr (t_header T) (items t)) (last_addr (t_header T) (items t)) t \<and>
    same_off {t_header T} h h'"
proof (cases "t = Tip")
  case True
  let ?hdr = "t_header T"
  have "h ?hdr = Some (hnode ?hdr mn mx)" using trep_header [OF T] True by simp
  then have "refresh_header h T = Some (h(?hdr \<mapsto> hnode ?hdr ?hdr ?hdr))"
    using c True by (simp add: refresh_header_def Let_def init_header_def heap_simps)
  then show ?thesis using True by (simp add: trep_def)
next
  case False
  let ?hdr = "t_header T"
  let ?mn = "first_addr ?hdr (items t)" and ?mx = "last_addr ?hdr (items t)"
  have c0: "t_count T \<noteq> 0" using False c by (cases t) auto
  let ?h1 = "h(?hdr \<mapsto> hnode (ptr ?hdr t) ?mn mx)"
  have T1: "trep ?h1 ?hdr ?mn mx t" by (rule trep_upd_extremes [OF T])
  let ?h2 = "?h1(?hdr \<mapsto> hnode (ptr ?hdr t) ?mn ?mx)"
  have T2: "trep ?h2 ?hdr ?mn ?mx t" by (rule trep_upd_extremes [OF T1])
  have "minimum h (ptr ?hdr t) = Some ?mn" using minimum_sim [of h ?hdr mn mx "[]" t] T False by simp
  moreover have "maximum ?h1 (ptr ?hdr t) = Some ?mx" using maximum_sim [of ?h1 ?hdr ?mn mx "[]" t] T1 False by simp
  moreover have "set_left h ?hdr ?mn = Some ?h1" using trep_header [OF T] by (simp add: heap_simps)
  moreover have "set_right ?h1 ?hdr ?mx = Some ?h2" by (simp add: heap_simps)
  moreover have "parent ?h1 ?hdr = Some (ptr ?hdr t)" by (simp add: heap_simps)
  ultimately have "refresh_header h T = Some ?h2"
    using c0 trep_header_reads [OF T] by (simp add: refresh_header_def Let_def)
  then show ?thesis using T2 by (intro exI [of _ ?h2]) simp
qed

lemma erase_node_phases:
  "node \<noteq> nullptr \<Longrightarrow> erase_node h T node = do {
     (h, original, x, x_parent) \<leftarrow> erase_splice h (t_header T) node;
     h \<leftarrow> destroy_value h node;
     h \<leftarrow> node_delete h node;
     h \<leftarrow> (if original = Black then erase_fixup h (t_header T) x x_parent else Some h);
     h \<leftarrow> refresh_header h (T\<lparr>t_count := t_count T - 1\<rparr>);
     Some (h, T\<lparr>t_count := t_count T - 1\<rparr>) }"
  by (simp add: erase_node_def refresh_header_def Let_def if_distrib cong: if_cong)

lemma rebalance_sim:
  assumes "trep h hdr mn mx (plug ctx t)" "hole_inv col ctx t"
  shows "\<exists>h' t'. (if col = Black then erase_fixup h hdr (ptr hdr t) (cpar hdr ctx) else Some h) = Some h' \<and>
    reshapes hdr mn mx h (plug ctx t) h' t' \<and> items t' = items (plug ctx t) \<and> rb t'"
proof (cases col)
  case Black
  then have "cinv ctx (Suc (bh t))" "invc (paint Black t)" "invh t" using assms(2) by (auto simp: hole_inv_def)
  from erase_fixup_sim [OF assms(1) this] show ?thesis using Black items_del_fix by fastforce
next
  case Red
  then show ?thesis using assms reshapes_refl by (fastforce simp: hole_inv_def)
qed

lemma erase_node_sim:
  assumes inv: "qtree_inv lt ks h T (xs @ (a, v) # ys)"
  shows "\<exists>h'. erase_node h T a = Some (h', T\<lparr>t_count := t_count T - 1\<rparr>) \<and>
    evolves lt ks h T (xs @ (a, v) # ys) h' (T\<lparr>t_count := t_count T - 1\<rparr>) (xs @ ys)"
proof -
  let ?hdr = "t_header T" and ?xs = "xs @ (a, v) # ys" and ?T = "T\<lparr>t_count := t_count T - 1\<rparr>"
  have nz: "?hdr \<noteq> nullptr" using inv by (auto simp: qtree_inv_def)
  have a0: "a \<noteq> nullptr" using iter_deref_sim(4) [OF inv, of a v] by simp
  from inv nz obtain t where t: "trep h ?hdr (first_addr ?hdr ?xs) (last_addr ?hdr ?xs) t" "items t = ?xs" "rb t"
    "h nullptr = None" "t_count T = length ?xs" "sorted_wrt lt (keys ks ?xs)" by (rule qtree_inv_obtain)
  obtain ctx l c r where z: "t = plug ctx (Bin l a c v r)" "xs = litems ctx @ items l" "ys = items r @ ritems ctx"
    using items_split [OF t(2)] trep_distinct [OF t(1)] by auto
  let ?mn = "first_addr ?hdr ?xs" and ?mx = "last_addr ?hdr ?xs"
  obtain h1 col ctx' t' where 1: "erase_splice h ?hdr a = Some (h1, col, ptr ?hdr t', cpar ?hdr ctx')"
      "spliced h ?hdr ?mn ?mx a v t h1 ctx' t'" "items (plug ctx' t') = xs @ ys" "hole_inv col ctx' t'"
    using erase_splice_sim [of h ?hdr ?mn ?mx ctx l a c v r] t(1,3) z by auto
  let ?h2 = "h1(a := None)"
  have sp: "trep h1 ?hdr ?mn ?mx (plug ctx' t')" "is_nil h1 a = Some False" "node_val h1 a = Some v"
    "set (addrs t) = insert a (set (addrs (plug ctx' t')))" "a \<notin> set (addrs (plug ctx' t'))"
    "same_off (insert ?hdr (set (addrs t))) h h1" using 1(2) by (auto simp: spliced_def)
  have ah: "a \<noteq> ?hdr" using trep_distinct [OF t(1)] sp(4) by auto
  obtain g where 2: "destroy_value h1 a = Some g" "node_delete g a = Some ?h2"
    using destroy_and_delete [OF sp(2,3) a0] by blast
  have T2: "trep ?h2 ?hdr ?mn ?mx (plug ctx' t')"
    by (rule trep_cong [OF sp(1)]) (use sp(5) ah in auto)
  obtain h3 u where 3: "(if col = Black then erase_fixup ?h2 ?hdr (ptr ?hdr t') (cpar ?hdr ctx') else Some ?h2) = Some h3"
      "reshapes ?hdr ?mn ?mx ?h2 (plug ctx' t') h3 u" "items u = xs @ ys" "rb u"
    using rebalance_sim [OF T2 1(4)] 1(3) by auto
  obtain h4 where 4: "refresh_header h3 ?T = Some h4"
      "trep h4 ?hdr (first_addr ?hdr (xs @ ys)) (last_addr ?hdr (xs @ ys)) u" "same_off {?hdr} h3 h4"
    using refresh_header_sim [of h3 ?T ?mn ?mx u] reshapes_trep [OF 3(2)] 3(3) t(5) by auto
  have run: "erase_node h T a = Some (h4, ?T)"
    using 1(1) 2 3(1) 4(1) by (simp add: erase_node_phases [OF a0])
  have ow: "owned T ?xs = insert ?hdr (set (addrs t))" "owned ?T (xs @ ys) = owned T ?xs - {a}"
    using nz ah t(2) trep_distinct [OF t(1)] by (auto simp: owned_def set_addrs addrs_items)
  have up: "set (addrs u) = set (addrs (plug ctx' t'))" using 3(2) by (simp add: reshapes_def)
  have off: "same_off (owned T ?xs) h h4"
  proof (rule same_off_trans)
    show "same_off (owned T ?xs) h ?h2" using sp(4,6) unfolding ow(1) by simp
    show "same_off (owned T ?xs) ?h2 h4"
    proof (rule same_off_trans)
      show "same_off (owned T ?xs) ?h2 h3" using 3(2) sp(4) unfolding reshapes_def ow(1)
        by (auto elim: same_off_mono)
      show "same_off (owned T ?xs) h3 h4" using 4(3) unfolding ow(1) by (rule same_off_mono) simp
    qed
  qed
  have "h4 a = None"
    using 3(2) 4(3) sp(5) ah by (auto simp: reshapes_def same_off_def)
  moreover have "qtree_inv lt ks h4 ?T (xs @ ys)"
  proof -
    have "nullptr \<notin> owned T ?xs" using qtree_inv_owned [OF inv] t(4) by auto
    then have "h4 nullptr = None" using off t(4) by (simp add: same_off_def)
    moreover have "sorted_wrt lt (keys ks (xs @ ys))" using t(6) by (auto simp: sorted_wrt_append)
    ultimately show ?thesis using nz 4(2) 3(3,4) t(5) by (auto simp: qtree_inv_header)
  qed
  moreover have "owned T ?xs \<union> owned ?T (xs @ ys) = owned T ?xs" unfolding ow(2) by blast
  ultimately have "evolves lt ks h T ?xs h4 ?T (xs @ ys)"
    using off ow(2) by (auto simp: evolves_def)
  then show ?thesis using run by blast
qed

end
