(* ===== verification/QTreeOps.thy ===== *)
theory QTreeOps
  imports QTreeErase
begin

text \<open>
  The composite operations: erasing by iterator, by range, by key and by predicate,
  and inserting a sequence of values.
\<close>

section \<open>Erasing\<close>

lemma erase_iter_sim:
  assumes inv: "qtree_inv lt ks h T (xs @ (a, v) # ys)"
  shows "\<exists>h'. erase_iter h T a = Some (first_addr (end_iter T) ys, h', T\<lparr>t_count := t_count T - 1\<rparr>) \<and>
    evolves lt ks h T (xs @ (a, v) # ys) h' (T\<lparr>t_count := t_count T - 1\<rparr>) (xs @ ys)"
  using iter_next_sim [OF inv] erase_node_sim [OF inv] by (auto simp: erase_iter_def)

lemma end_iter_count [simp]: "end_iter (T\<lparr>t_count := n\<rparr>) = end_iter T"
  by (simp add: end_iter_def)

lemma first_addr_in: "xs \<noteq> [] \<Longrightarrow> first_addr d xs \<in> fst ` set xs"
  by (cases xs) auto

lemma iter_not_later:
  assumes "qtree_inv lt ks h T (xs @ (a, v) # ys @ zs)"
  shows "a \<noteq> first_addr (end_iter T) zs"
proof -
  have nz: "t_header T \<noteq> nullptr" using assms by (auto simp: qtree_inv_def)
  with assms have "distinct (map fst (xs @ (a, v) # ys @ zs))" by (rule qtree_inv_obtain)
  then have "a \<notin> fst ` set zs" by simp
  moreover have "a \<noteq> end_iter T" using iter_deref_sim(3) [OF assms, of a v] by simp
  ultimately show ?thesis using first_addr_in [of zs "end_iter T"] by (cases "zs = []") auto
qed

lemma erase_range_sim:
  "qtree_inv lt ks h T (xs @ ms @ zs) \<Longrightarrow>
   \<exists>h' T'. erase_range h T (first_addr (end_iter T) (ms @ zs)) (first_addr (end_iter T) zs) =
       Some (first_addr (end_iter T) zs, h', T') \<and> t_header T' = t_header T \<and>
     evolves lt ks h T (xs @ ms @ zs) h' T' (xs @ zs)"
proof (induction ms arbitrary: h T)
  case Nil
  then show ?case by (subst erase_range.simps) (auto intro: evolves_refl)
next
  case (Cons m ms)
  obtain a v where m: "m = (a, v)" by (cases m)
  let ?T = "T\<lparr>t_count := t_count T - 1\<rparr>"
  from Cons.prems have inv: "qtree_inv lt ks h T (xs @ (a, v) # ms @ zs)" by (simp add: m)
  obtain h1 where 1: "erase_iter h T a = Some (first_addr (end_iter T) (ms @ zs), h1, ?T)"
      "evolves lt ks h T (xs @ (a, v) # ms @ zs) h1 ?T (xs @ ms @ zs)"
    using erase_iter_sim [OF inv] by blast
  obtain h2 T2 where 2: "erase_range h1 ?T (first_addr (end_iter T) (ms @ zs)) (first_addr (end_iter T) zs) =
      Some (first_addr (end_iter T) zs, h2, T2)" "t_header T2 = t_header T"
      "evolves lt ks h1 ?T (xs @ ms @ zs) h2 T2 (xs @ zs)"
    using Cons.IH [OF evolves_inv [OF 1(2)]] by auto
  have "erase_range h T a (first_addr (end_iter T) zs) = Some (first_addr (end_iter T) zs, h2, T2)"
    using iter_not_later [OF inv] 1(1) 2(1) by (subst erase_range.simps) simp
  then show ?case using evolves_trans [OF 1(2) 2(3)] 2(2) by (simp add: m)
qed

lemma first_where_cases:
  obtains (none) "\<forall>x\<in>set xs. \<not> P (snd x)" "first_where d P xs = d"
  | (some) ys a v zs where "xs = ys @ (a, v) # zs" "P v" "\<forall>y\<in>set ys. \<not> P (snd y)" "first_where d P xs = a"
proof (cases "\<exists>x\<in>set xs. P (snd x)")
  case False
  then show ?thesis using none first_where_skip by blast
next
  case True
  then obtain ys x zs where x: "xs = ys @ x # zs" "P (snd x)" "\<forall>y\<in>set ys. \<not> P (snd y)"
    using split_list_first_prop [of xs "\<lambda>x. P (snd x)"] by blast
  then have "first_where d P xs = fst x"
    using first_where_skip [of ys P] by (cases x) (simp add: first_where_append)
  with x show ?thesis using some [of ys "fst x" "snd x" zs] by simp
qed

context strict_weak
begin

text \<open>At most one element is equivalent to a key.\<close>

lemma filter_key:
  assumes "sorted_wrt lt (keys ks (ys @ (a, v) # zs))" "keys_equal lt (ks v) key"
    "\<forall>y\<in>set ys. \<not> keys_equal lt (ks (snd y)) key"
  shows "filter (\<lambda>x. \<not> keys_equal lt (ks (snd x)) key) (ys @ (a, v) # zs) = ys @ zs"
proof -
  have "\<not> keys_equal lt (ks (snd z)) key" if "z \<in> set zs" for z
  proof -
    have "lt (ks v) (ks (snd z))" using assms(1) that by (auto simp: sorted_wrt_append)
    then have "lt key (ks (snd z))" using assms(2) not_lt_lt_trans by (auto simp: keys_equal_def)
    then show ?thesis by (simp add: keys_equal_def)
  qed
  then show ?thesis using assms(2,3) by (simp add: filter_id_conv)
qed

lemma erase_key_sim:
  assumes inv: "qtree_inv lt ks h T xs"
  shows "\<exists>h' T'. erase_key lt ks h T key = Some (if has_key lt ks key xs then 1 else 0, h', T') \<and>
    evolves lt ks h T xs h' T' (filter (\<lambda>x. \<not> keys_equal lt (ks (snd x)) key) xs)"
proof (cases rule: first_where_cases [of xs "\<lambda>v. keys_equal lt (ks v) key" "end_iter T"])
  case none
  then have "filter (\<lambda>x. \<not> keys_equal lt (ks (snd x)) key) xs = xs" by (simp add: filter_id_conv)
  moreover have "\<not> has_key lt ks key xs" using none by (auto simp: has_key_def)
  ultimately show ?thesis using none find_sim [OF inv, of key] evolves_refl [OF inv]
    by (simp add: erase_key_def end_iter_def)
next
  case (some ys a v zs)
  have inv': "qtree_inv lt ks h T (ys @ (a, v) # zs)" using inv some(1) by simp
  have "has_key lt ks key xs" using some by (auto simp: has_key_def)
  moreover have "filter (\<lambda>x. \<not> keys_equal lt (ks (snd x)) key) xs = ys @ zs"
    unfolding some(1)
    by (rule filter_key) (use some(2,3) inv' in \<open>simp_all only: qtree_inv_def\<close>)
  moreover have "a \<noteq> t_header T" using iter_deref_sim(3) [OF inv, of a v] some(1) by (simp add: end_iter_def)
  ultimately show ?thesis using find_sim [OF inv, of key] some(1,4) erase_node_sim [OF inv']
    by (auto simp: erase_key_def)
qed

end

lemma erase_if_loop_sim:
  "qtree_inv lt ks h T (xs @ ys) \<Longrightarrow>
   \<exists>h' T'. erase_if_loop pred h T (first_addr (end_iter T) ys) n =
       Some (n + length (filter (\<lambda>x. pred (snd x)) ys), h', T') \<and>
     evolves lt ks h T (xs @ ys) h' T' (xs @ filter (\<lambda>x. \<not> pred (snd x)) ys)"
proof (induction ys arbitrary: h T xs n)
  case Nil
  then show ?case by (subst erase_if_loop.simps) (auto intro: evolves_refl)
next
  case (Cons y ys)
  obtain a v where y: "y = (a, v)" by (cases y)
  from Cons.prems have inv: "qtree_inv lt ks h T (xs @ (a, v) # ys)" by (simp add: y)
  have d: "node_val h a = Some v" "a \<noteq> end_iter T" using iter_deref_sim [OF inv, of a v] by auto
  show ?case
  proof (cases "pred v")
    case True
    let ?T = "T\<lparr>t_count := t_count T - 1\<rparr>"
    obtain h1 where 1: "erase_iter h T a = Some (first_addr (end_iter T) ys, h1, ?T)"
        "evolves lt ks h T (xs @ (a, v) # ys) h1 ?T (xs @ ys)"
      using erase_iter_sim [OF inv] by blast
    obtain h2 T2 where 2: "erase_if_loop pred h1 ?T (first_addr (end_iter T) ys) (n + 1) =
        Some (n + 1 + length (filter (\<lambda>x. pred (snd x)) ys), h2, T2)"
        "evolves lt ks h1 ?T (xs @ ys) h2 T2 (xs @ filter (\<lambda>x. \<not> pred (snd x)) ys)"
      using Cons.IH [OF evolves_inv [OF 1(2)], of "n + 1"] by auto
    then show ?thesis using evolves_trans [OF 1(2) 2(2)] 1(1) d True
      by (subst erase_if_loop.simps) (simp add: y)
  next
    case False
    have "qtree_inv lt ks h T ((xs @ [(a, v)]) @ ys)" using inv by simp
    from Cons.IH [OF this, of n] show ?thesis using iter_next_sim [OF inv] d False
      by (subst erase_if_loop.simps) (simp add: y)
  qed
qed

lemma erase_if_sim:
  assumes inv: "qtree_inv lt ks h T xs"
  shows "\<exists>h' T'. erase_if pred h T = Some (length (filter (\<lambda>x. pred (snd x)) xs), h', T') \<and>
     evolves lt ks h T xs h' T' (filter (\<lambda>x. \<not> pred (snd x)) xs)"
  using begin_iter_sim [OF inv] erase_if_loop_sim [of lt ks h T "[]" xs pred 0] inv by (simp add: erase_if_def)

section \<open>Inserting values\<close>

text \<open>The effect of an insertion on the list of values, without addresses.\<close>

definition vinsert :: "('k \<Rightarrow> 'k \<Rightarrow> bool) \<Rightarrow> ('v \<Rightarrow> 'k) \<Rightarrow> 'v \<Rightarrow> 'v list \<Rightarrow> 'v list" where
  "vinsert lt ks v vs = (if \<exists>w\<in>set vs. keys_equal lt (ks w) (ks v) then vs
     else takeWhile (\<lambda>w. lt (ks w) (ks v)) vs @ v # dropWhile (\<lambda>w. lt (ks w) (ks v)) vs)"

lemma map_insert_item:
  "\<not> has_key lt ks (ks v) xs \<Longrightarrow> map snd (insert_item lt ks (a, v) xs) = vinsert lt ks v (map snd xs)"
  by (auto simp: insert_item_def vinsert_def has_key_def takeWhile_map dropWhile_map o_def)

lemma vinsert_present:
  "(a, w) \<in> set xs \<Longrightarrow> keys_equal lt (ks w) (ks v) \<Longrightarrow> vinsert lt ks v (map snd xs) = map snd xs"
  by (force simp: vinsert_def)

context strict_weak
begin

lemma insert_value_sim:
  assumes inv: "qtree_inv lt ks h T xs" and al: "alloc_ok alloc" and cp: "\<And>v w. cp v = Some w \<Longrightarrow> w = v"
  shows "\<exists>r h' T'. insert_value alloc cp lt ks h T v = Some (r, h', T') \<and>
    emplaced alloc lt ks h T xs (ks v) (cp v) r h' T'"
  unfolding insert_value_def using lazy_emplace_sim [OF inv al, of "cp v" "ks v"] cp by blast

lemma emplaced_evolves:
  assumes "emplaced alloc lt ks h T xs (ks v) b r h' T'" "qtree_inv lt ks h T xs" "\<And>w. b = Some w \<Longrightarrow> w = v"
  shows "\<exists>xs'. evolves lt ks h T xs h' T' xs' \<and>
    map snd xs' = (case r of Inl _ \<Rightarrow> map snd xs | Inr _ \<Rightarrow> vinsert lt ks v (map snd xs))"
proof (cases r)
  case (Inl e)
  then show ?thesis using assms(1) by (auto simp: emplaced_def)
next
  case (Inr ai)
  obtain a i where ai: "ai = (a, i)" by (cases ai)
  show ?thesis
  proof (cases i)
    case True
    then have "evolves lt ks h T xs h' T' (insert_item lt ks (a, v) xs)" "\<not> has_key lt ks (ks v) xs"
      using assms(1,3) Inr ai by (auto simp: emplaced_def)
    then show ?thesis using Inr map_insert_item by fastforce
  next
    case False
    then obtain w where "h' = h" "T' = T" "(a, w) \<in> set xs" "keys_equal lt (ks w) (ks v)"
      using assms(1) Inr ai by (auto simp: emplaced_def)
    then show ?thesis using Inr evolves_refl [OF assms(2)] vinsert_present [of a w xs lt ks v]
      by (intro exI [of _ xs]) simp
  qed
qed

text \<open>
  Inserting a sequence: everything up to the element whose copy or allocation failed is in
  the tree.
\<close>

lemma insert_list_sim:
  "qtree_inv lt ks h T xs \<Longrightarrow> alloc_ok alloc \<Longrightarrow> (\<And>v w. cp v = Some w \<Longrightarrow> w = v) \<Longrightarrow>
   \<exists>r h' T' xs' us. insert_list alloc cp lt ks h T vs = Some (r, h', T') \<and>
     evolves lt ks h T xs h' T' xs' \<and> map snd xs' = foldl (\<lambda>ws v. vinsert lt ks v ws) (map snd xs) us \<and>
     (case r of Inl _ \<Rightarrow> \<exists>w ws. vs = us @ w # ws | Inr _ \<Rightarrow> us = vs)"
proof (induction vs arbitrary: h T xs)
  case Nil
  then show ?case by (auto intro!: evolves_refl)
next
  case (Cons v vs)
  obtain r1 h1 T1 where 1: "insert_value alloc cp lt ks h T v = Some (r1, h1, T1)"
      "emplaced alloc lt ks h T xs (ks v) (cp v) r1 h1 T1"
    using insert_value_sim [OF Cons.prems] by blast
  obtain xs1 where x1: "evolves lt ks h T xs h1 T1 xs1"
      "map snd xs1 = (case r1 of Inl _ \<Rightarrow> map snd xs | Inr _ \<Rightarrow> vinsert lt ks v (map snd xs))"
    using emplaced_evolves [OF 1(2) Cons.prems(1)] Cons.prems(3) by blast
  show ?case
  proof (cases r1)
    case (Inl e)
    then show ?thesis using 1(1) x1
      by (intro exI [of _ "Inl e"] exI [of _ h1] exI [of _ T1] exI [of _ xs1] exI [of _ "[]"]) simp
  next
    case (Inr u)
    obtain r h' T' xs' us where 2: "insert_list alloc cp lt ks h1 T1 vs = Some (r, h', T')"
        "evolves lt ks h1 T1 xs1 h' T' xs'" "map snd xs' = foldl (\<lambda>ws v. vinsert lt ks v ws) (map snd xs1) us"
        "case r of Inl _ \<Rightarrow> \<exists>w ws. vs = us @ w # ws | Inr _ \<Rightarrow> us = vs"
      using Cons.IH [OF evolves_inv [OF x1(1)] Cons.prems(2,3)] by blast
    have "case r of Inl _ \<Rightarrow> \<exists>w ws. v # vs = (v # us) @ w # ws | Inr _ \<Rightarrow> v # us = v # vs"
      using 2(4) by (cases r) auto
    moreover have "insert_list alloc cp lt ks h T (v # vs) = Some (r, h', T')" using 1(1) 2(1) Inr by simp
    moreover have "map snd xs' = foldl (\<lambda>ws v. vinsert lt ks v ws) (map snd xs) (v # us)"
      using 2(3) x1(2) Inr by simp
    ultimately show ?thesis using evolves_trans [OF x1(1) 2(2)] by blast
  qed
qed

end

end
