(* ===== verification/QTreeHint.thy ===== *)
theory QTreeHint
  imports QTreeOps
begin

text \<open>
  Insertion with a hint.  Whatever valid iterator is given as the hint, the outcome is that
  of an insertion without one: a wrong hint is never used.
\<close>

text \<open>An iterator of the tree, as a hint: one of its elements, \<open>end()\<close>, or none.\<close>

definition valid_hint :: "qtree \<Rightarrow> (addr \<times> 'v) list \<Rightarrow> addr \<Rightarrow> bool" where
  "valid_hint T xs p \<longleftrightarrow> p = nullptr \<or> p = end_iter T \<or> p \<in> fst ` set xs"

text \<open>What \<open>try_hint_insert\<close> may answer.\<close>

definition hint_result ::
  "('k \<Rightarrow> 'k \<Rightarrow> bool) \<Rightarrow> ('v \<Rightarrow> 'k) \<Rightarrow> qtree \<Rightarrow> 'v ptree \<Rightarrow> 'k \<Rightarrow> bool \<times> addr \<times> bool \<times> addr \<Rightarrow> bool" where
  "hint_result lt ks T t key r \<longleftrightarrow> (case r of (ok, p, g, e) \<Rightarrow>
     ok \<longrightarrow> (e \<noteq> nullptr \<and> (\<exists>v. (e, v) \<in> set (items t) \<and> keys_equal lt (ks v) key)) \<or>
            (e = nullptr \<and> (\<exists>ctx. plug ctx Tip = t \<and> place lt ks key ctx \<and>
                p = cpar (t_header T) ctx \<and> g = hole_side g ctx)))"

context strict_weak
begin

lemma place_between:
  assumes "sorted_wrt lt (keys ks (litems ctx @ ritems ctx))"
    "litems ctx = [] \<or> lt (ks (snd (last (litems ctx)))) key"
    "ritems ctx = [] \<or> lt key (ks (snd (hd (ritems ctx))))"
  shows "place lt ks key ctx"
proof -
  have "lt (ks (snd x)) key" if "x \<in> set (litems ctx)" for x
  proof -
    from that obtain ys z where l: "litems ctx = ys @ [z]" by (cases "litems ctx" rule: rev_cases) auto
    then have "x = z \<or> lt (ks (snd x)) (ks (snd z))" using that assms(1) by (auto simp: sorted_wrt_append)
    moreover have "lt (ks (snd z)) key" using assms(2) l by simp
    ultimately show ?thesis using trans by blast
  qed
  moreover have "lt key (ks (snd x))" if "x \<in> set (ritems ctx)" for x
  proof -
    from that obtain z ys where l: "ritems ctx = z # ys" by (cases "ritems ctx") auto
    then have "x = z \<or> lt (ks (snd z)) (ks (snd x))" using that assms(1) by (auto simp: sorted_wrt_append)
    moreover have "lt key (ks (snd z))" using assms(3) l by simp
    ultimately show ?thesis using trans by blast
  qed
  ultimately show ?thesis by (auto simp: place_def)
qed

text \<open>The free place on the right, and on the left, of an element.\<close>

lemma place_right_of:
  assumes t: "t = plug ctx (Bin l a c v Tip)" "sorted_wrt lt (keys ks (items t))"
    and lo: "lt (ks v) key" and hi: "ritems ctx = [] \<or> lt key (ks (snd (hd (ritems ctx))))"
  shows "plug (RF l a c v # ctx) Tip = t \<and> place lt ks key (RF l a c v # ctx)"
  using assms by (intro conjI place_between) auto

lemma place_left_of:
  assumes t: "t = plug ctx (Bin Tip a c v r)" "sorted_wrt lt (keys ks (items t))"
    and hi: "lt key (ks v)" and lo: "litems ctx = [] \<or> lt (ks (snd (last (litems ctx)))) key"
  shows "plug (LF a c v r # ctx) Tip = t \<and> place lt ks key (LF a c v r # ctx)"
  using assms by (intro conjI place_between) auto

lemma try_hint_end:
  assumes inv: "qtree_inv lt ks h T xs" and nz: "t_header T \<noteq> nullptr" "xs \<noteq> []"
    and t: "trep h (t_header T) (first_addr (t_header T) xs) (last_addr (t_header T) xs) t" "items t = xs"
  shows "\<exists>r. try_hint_insert lt ks h T key (t_header T) = Some r \<and> hint_result lt ks T t key r"
proof -
  obtain ys m w where xs: "xs = ys @ [(m, w)]" using nz(2) by (cases xs rule: rev_cases) auto
  have so: "sorted_wrt lt (keys ks (items t))" using inv t(2) by (simp add: qtree_inv_def)
  have "distinct (addrs t)" using trep_distinct [OF t(1)] by simp
  with items_split [of t ys m w "[]"] t(2) xs obtain ctx l c where z: "t = plug ctx (Bin l m c w Tip)" "ritems ctx = []"
    by (auto simp: xs) (metis items.elims append_is_Nil_conv list.distinct(1))
  have c0: "t_count T \<noteq> 0" using inv nz(2) by (simp add: qtree_inv_def)
  have m0: "m \<noteq> nullptr" using iter_deref_sim(4) [OF inv, of m w] by (simp add: xs)
  have rd: "right h (t_header T) = Some m" "is_nil h m = Some False" "node_val h m = Some w"
    using trep_header_reads [OF t(1)] iter_deref_sim [OF inv, of m w] by (auto simp: xs)
  consider "lt (ks w) key" | "\<not> lt (ks w) key" "keys_equal lt (ks w) key" | "\<not> lt (ks w) key" "\<not> keys_equal lt (ks w) key" by blast
  then show ?thesis
  proof cases
    case 1
    then have "plug (RF l m c w # ctx) Tip = t \<and> place lt ks key (RF l m c w # ctx)"
      using place_right_of [OF z(1) so] z(2) by simp
    moreover have "try_hint_insert lt ks h T key (t_header T) = Some (True, m, False, nullptr)"
      using nz c0 rd 1 by (simp add: try_hint_insert_def Let_def)
    moreover have "m = cpar (t_header T) (RF l m c w # ctx)" "\<not> hole_side False (RF l m c w # ctx)" by simp_all
    ultimately show ?thesis unfolding hint_result_def by blast
  next
    case 2
    then have "try_hint_insert lt ks h T key (t_header T) = Some (True, t_header T, True, m)"
      using nz c0 rd by (simp add: try_hint_insert_def Let_def)
    then show ?thesis using 2 m0 t(2) xs by (auto simp: hint_result_def)
  next
    case 3
    then have "try_hint_insert lt ks h T key (t_header T) = Some (False, t_header T, True, nullptr)"
      using nz c0 rd by (simp add: try_hint_insert_def Let_def)
    then show ?thesis by (auto simp: hint_result_def)
  qed
qed

lemma try_hint_before:
  assumes inv: "qtree_inv lt ks h T (ys @ (a, v) # zs)" and nz: "t_header T \<noteq> nullptr"
    and t: "trep h (t_header T) (first_addr (t_header T) (ys @ (a, v) # zs))
        (last_addr (t_header T) (ys @ (a, v) # zs)) t" "items t = ys @ (a, v) # zs"
    and lt: "lt key (ks v)"
  shows "\<exists>r. try_hint_insert lt ks h T key a = Some r \<and> hint_result lt ks T t key r"
proof -
  let ?hdr = "t_header T" and ?prev = "last_addr (t_header T) ys"
  have so: "sorted_wrt lt (keys ks (items t))" using inv t(2) by (simp add: qtree_inv_def)
  have di: "distinct (addrs t)" using trep_distinct [OF t(1)] by simp
  obtain ctx l c r where z: "t = plug ctx (Bin l a c v r)" "ys = litems ctx @ items l"
    using items_split [OF t(2) di] by blast
  note reads = trep_reads [OF t(1) [unfolded z(1)]] trep_child_nil [OF t(1) [unfolded z(1)]]
  have a: "a \<noteq> nullptr" "a \<noteq> ?hdr" "t_count T \<noteq> 0"
    using iter_deref_sim [OF inv, of a v] inv by (auto simp: end_iter_def qtree_inv_def)
  have ne: "\<not> keys_equal lt (ks v) key" using lt by (simp add: keys_equal_def)
  have prev: "predecessor h a = Some ?prev" using predecessor_sim [OF t(1) [unfolded z(1)]] z(2) by simp
  have fail: ?thesis if "try_hint_insert lt ks h T key a = Some (False, ?hdr, True, nullptr)"
    using that by (auto simp: hint_result_def)
  show ?thesis
  proof (cases ys rule: rev_cases)
    case Nil
    then have "litems ctx = []" "l = Tip" using z(2) by (cases l; simp)+
    then have "plug (LF a c v r # ctx) Tip = t \<and> place lt ks key (LF a c v r # ctx)"
      using place_left_of [of t ctx a c v r ks key] z(1) so lt by simp
    moreover have "try_hint_insert lt ks h T key a = Some (True, a, True, nullptr)"
      using nz a ne lt reads prev Nil \<open>l = Tip\<close> by (simp add: try_hint_insert_def Let_def)
    moreover have "a = cpar ?hdr (LF a c v r # ctx)" "hole_side True (LF a c v r # ctx)" by simp_all
    ultimately show ?thesis unfolding hint_result_def by blast
  next
    case (snoc ys' pw)
    obtain p w where pw: "pw = (p, w)" by (cases pw)
    have inv': "qtree_inv lt ks h T (ys' @ (p, w) # (a, v) # zs)" using inv snoc pw by simp
    have p: "?prev = p" "p \<noteq> ?hdr" "node_val h p = Some w"
      using iter_deref_sim [OF inv', of p w] snoc pw by (auto simp: end_iter_def)
    obtain ctx2 l2 c2 r2 where z2: "t = plug ctx2 (Bin l2 p c2 w r2)" "(a, v) # zs = items r2 @ ritems ctx2"
      using items_split [of t ys' p w "(a, v) # zs"] t(2) di snoc pw by auto
    note reads2 = trep_reads [OF t(1) [unfolded z2(1)]] trep_child_nil [OF t(1) [unfolded z2(1)]]
    consider "\<not> lt (ks w) key" | "lt (ks w) key" "l = Tip" | "lt (ks w) key" "l \<noteq> Tip" "r2 = Tip"
      | "lt (ks w) key" "l \<noteq> Tip" "r2 \<noteq> Tip" by blast
    then show ?thesis
    proof cases
      case 1
      then show ?thesis using nz a ne lt reads prev p by (intro fail) (simp add: try_hint_insert_def Let_def)
    next
      case 2
      then have "litems ctx = ys' @ [(p, w)]" using z(2) snoc pw by simp
      then have "plug (LF a c v r # ctx) Tip = t \<and> place lt ks key (LF a c v r # ctx)"
        using place_left_of [of t ctx a c v r ks key] z(1) so lt 2 by simp
      moreover have "try_hint_insert lt ks h T key a = Some (True, a, True, nullptr)"
        using nz a ne lt reads prev p 2 by (simp add: try_hint_insert_def Let_def)
      moreover have "a = cpar ?hdr (LF a c v r # ctx)" "hole_side True (LF a c v r # ctx)" by simp_all
      ultimately show ?thesis unfolding hint_result_def by blast
    next
      case 3
      then have "ritems ctx2 = (a, v) # zs" using z2(2) by simp
      then have "plug (RF l2 p c2 w # ctx2) Tip = t \<and> place lt ks key (RF l2 p c2 w # ctx2)"
        using place_right_of [of t ctx2 l2 p c2 w ks key] z2(1) so lt 3 by simp
      moreover have "try_hint_insert lt ks h T key a = Some (True, p, False, nullptr)"
        using nz a ne lt reads prev p 3 reads2 by (simp add: try_hint_insert_def Let_def)
      moreover have "p = cpar ?hdr (RF l2 p c2 w # ctx2)" "\<not> hole_side False (RF l2 p c2 w # ctx2)" by simp_all
      ultimately show ?thesis unfolding hint_result_def by blast
    next
      case 4
      then show ?thesis using nz a ne lt reads prev p reads2
        by (intro fail) (simp add: try_hint_insert_def Let_def)
    qed
  qed
qed

lemma try_hint_after:
  assumes inv: "qtree_inv lt ks h T (ys @ (a, v) # zs)" and nz: "t_header T \<noteq> nullptr"
    and t: "trep h (t_header T) (first_addr (t_header T) (ys @ (a, v) # zs))
        (last_addr (t_header T) (ys @ (a, v) # zs)) t" "items t = ys @ (a, v) # zs"
    and lt: "lt (ks v) key"
  shows "\<exists>r. try_hint_insert lt ks h T key a = Some r \<and> hint_result lt ks T t key r"
proof -
  let ?hdr = "t_header T" and ?nxt = "first_addr (t_header T) zs"
  have so: "sorted_wrt lt (keys ks (items t))" using inv t(2) by (simp add: qtree_inv_def)
  have di: "distinct (addrs t)" using trep_distinct [OF t(1)] by simp
  obtain ctx l c r where z: "t = plug ctx (Bin l a c v r)" "zs = items r @ ritems ctx"
    using items_split [OF t(2) di] by blast
  note reads = trep_reads [OF t(1) [unfolded z(1)]] trep_child_nil [OF t(1) [unfolded z(1)]]
  have a: "a \<noteq> nullptr" "a \<noteq> ?hdr" "t_count T \<noteq> 0"
    using iter_deref_sim [OF inv, of a v] inv by (auto simp: end_iter_def qtree_inv_def)
  have ne: "\<not> keys_equal lt (ks v) key" "\<not> lt key (ks v)" using lt asym by (auto simp: keys_equal_def)
  have nxt: "successor h a = Some ?nxt" using successor_sim [OF t(1) [unfolded z(1)]] z(2) by simp
  have fail: ?thesis if "try_hint_insert lt ks h T key a = Some (False, ?hdr, True, nullptr)"
    using that by (auto simp: hint_result_def)
  show ?thesis
  proof (cases zs)
    case Nil
    then have "ritems ctx = []" "r = Tip" using z(2) by (cases r; simp)+
    then have "plug (RF l a c v # ctx) Tip = t \<and> place lt ks key (RF l a c v # ctx)"
      using place_right_of [of t ctx l a c v ks key] z(1) so lt by simp
    moreover have "try_hint_insert lt ks h T key a = Some (True, a, False, nullptr)"
      using nz a ne lt reads nxt Nil \<open>r = Tip\<close> by (simp add: try_hint_insert_def Let_def)
    moreover have "a = cpar ?hdr (RF l a c v # ctx)" "\<not> hole_side False (RF l a c v # ctx)" by simp_all
    ultimately show ?thesis unfolding hint_result_def by blast
  next
    case (Cons pw zs')
    obtain p w where pw: "pw = (p, w)" by (cases pw)
    have inv': "qtree_inv lt ks h T ((ys @ [(a, v)]) @ (p, w) # zs')" using inv Cons pw by simp
    have p: "?nxt = p" "p \<noteq> ?hdr" "node_val h p = Some w"
      using iter_deref_sim [OF inv', of p w] Cons pw by (auto simp: end_iter_def)
    obtain ctx2 l2 c2 r2 where z2: "t = plug ctx2 (Bin l2 p c2 w r2)" "ys @ [(a, v)] = litems ctx2 @ items l2"
      using items_split [of t "ys @ [(a, v)]" p w zs'] t(2) di Cons pw by auto
    note reads2 = trep_reads [OF t(1) [unfolded z2(1)]] trep_child_nil [OF t(1) [unfolded z2(1)]]
    consider "\<not> lt key (ks w)" | "lt key (ks w)" "r = Tip" | "lt key (ks w)" "r \<noteq> Tip" "l2 = Tip"
      | "lt key (ks w)" "r \<noteq> Tip" "l2 \<noteq> Tip" by blast
    then show ?thesis
    proof cases
      case 1
      then show ?thesis using nz a ne lt reads nxt p by (intro fail) (simp add: try_hint_insert_def Let_def)
    next
      case 2
      then have "ritems ctx = (p, w) # zs'" using z(2) Cons pw by simp
      then have "plug (RF l a c v # ctx) Tip = t \<and> place lt ks key (RF l a c v # ctx)"
        using place_right_of [of t ctx l a c v ks key] z(1) so lt 2 by simp
      moreover have "try_hint_insert lt ks h T key a = Some (True, a, False, nullptr)"
        using nz a ne lt reads nxt p 2 by (simp add: try_hint_insert_def Let_def)
      moreover have "a = cpar ?hdr (RF l a c v # ctx)" "\<not> hole_side False (RF l a c v # ctx)" by simp_all
      ultimately show ?thesis unfolding hint_result_def by blast
    next
      case 3
      then have "litems ctx2 = ys @ [(a, v)]" using z2(2) by simp
      then have "plug (LF p c2 w r2 # ctx2) Tip = t \<and> place lt ks key (LF p c2 w r2 # ctx2)"
        using place_left_of [of t ctx2 p c2 w r2 ks key] z2(1) so lt 3 by simp
      moreover have "try_hint_insert lt ks h T key a = Some (True, p, True, nullptr)"
        using nz a ne lt reads nxt p 3 reads2 by (simp add: try_hint_insert_def Let_def)
      moreover have "p = cpar ?hdr (LF p c2 w r2 # ctx2)" "hole_side True (LF p c2 w r2 # ctx2)" by simp_all
      ultimately show ?thesis unfolding hint_result_def by blast
    next
      case 4
      then show ?thesis using nz a ne lt reads nxt p reads2
        by (intro fail) (simp add: try_hint_insert_def Let_def)
    qed
  qed
qed

lemma try_hint_node:
  assumes inv: "qtree_inv lt ks h T xs" and nz: "t_header T \<noteq> nullptr" and a: "(a, v) \<in> set xs"
    and t: "trep h (t_header T) (first_addr (t_header T) xs) (last_addr (t_header T) xs) t" "items t = xs"
  shows "\<exists>r. try_hint_insert lt ks h T key a = Some r \<and> hint_result lt ks T t key r"
proof -
  obtain ys zs where xs: "xs = ys @ (a, v) # zs" using split_list [OF a] by blast
  consider "keys_equal lt (ks v) key" | "lt key (ks v)" | "lt (ks v) key" unfolding keys_equal_def by blast
  then show ?thesis
  proof cases
    case 1
    have "a \<noteq> nullptr" "a \<noteq> t_header T" "t_count T \<noteq> 0" "node_val h a = Some v"
      using iter_deref_sim [OF inv a] inv xs by (auto simp: end_iter_def qtree_inv_def)
    then have "try_hint_insert lt ks h T key a = Some (True, t_header T, True, a)"
      using 1 nz by (simp add: try_hint_insert_def Let_def)
    then show ?thesis using 1 a t(2) \<open>a \<noteq> nullptr\<close> by (auto simp: hint_result_def)
  next
    case 2
    show ?thesis by (rule try_hint_before [OF inv [unfolded xs] nz t [unfolded xs] 2])
  next
    case 3
    show ?thesis by (rule try_hint_after [OF inv [unfolded xs] nz t [unfolded xs] 3])
  qed
qed

theorem lazy_emplace_with_hint_sim:
  assumes inv: "qtree_inv lt ks h T xs" and al: "alloc_ok alloc" and b: "\<And>v. b = Some v \<Longrightarrow> ks v = key"
    and hint: "valid_hint T xs p"
  shows "\<exists>r h' T'. lazy_emplace_with_hint alloc lt ks h T key p b = Some (r, h', T') \<and>
    emplaced alloc lt ks h T xs key b r h' T'"
proof (cases "t_header T = nullptr \<or> t_count T = 0")
  case True
  then show ?thesis
    using lazy_emplace_sim [OF inv al, of b key] b by (simp add: lazy_emplace_with_hint_def lazy_emplace_impl_def)
next
  case False
  then have nz: "t_header T \<noteq> nullptr" and ne: "xs \<noteq> []" using inv by (auto simp: qtree_inv_def)
  from inv nz obtain t where t: "trep h (t_header T) (first_addr (t_header T) xs) (last_addr (t_header T) xs) t"
    "items t = xs" "rb t" by (rule qtree_inv_obtain)
  have "\<exists>r. (if p \<noteq> nullptr then try_hint_insert lt ks h T key p else Some (False, t_header T, True, nullptr)) = Some r \<and>
      hint_result lt ks T t key r"
    using try_hint_end [OF inv nz ne t(1,2)] try_hint_node [OF inv nz _ t(1,2)] hint
    by (auto simp: valid_hint_def end_iter_def hint_result_def)
  then obtain ok q g e where r: "(if p \<noteq> nullptr then try_hint_insert lt ks h T key p
      else Some (False, t_header T, True, nullptr)) = Some (ok, q, g, e)" "hint_result lt ks T t key (ok, q, g, e)" by auto
  show ?thesis
  proof (cases ok)
    case False
    then show ?thesis using r(1) \<open>\<not> (t_header T = nullptr \<or> t_count T = 0)\<close> lazy_emplace_sim [OF inv al, of b key] b
      by (simp add: lazy_emplace_with_hint_def)
  next
    case True
    with r(2) consider v where "e \<noteq> nullptr" "(e, v) \<in> set xs" "keys_equal lt (ks v) key"
      | ctx where "e = nullptr" "plug ctx Tip = t" "place lt ks key ctx" "q = cpar (t_header T) ctx" "g = hole_side g ctx"
      using t(2) by (auto simp: hint_result_def)
    then show ?thesis
    proof cases
      case 1
      then show ?thesis using r(1) True False
        by (auto simp: lazy_emplace_with_hint_def emplaced_def)
    next
      case 2
      then have "xs = litems ctx @ ritems ctx" using t(2) by auto
      then show ?thesis using emplace_at_sim [OF inv nz, of ctx key alloc b g] t al b 2 r(1) True False
        by (simp add: lazy_emplace_with_hint_def)
    qed
  qed
qed

end

end
