(* ===== verification/QTreeCopy.thy ===== *)
theory QTreeCopy
  imports QTreeHint
begin

text \<open>
  Whole trees: clearing and destruction give every node back, copying clones the tree or
  changes nothing, comparison compares the elements in order.
\<close>

section \<open>Clearing\<close>

lemma restrict_all [simp]: "m |` UNIV = m"
  by (rule ext) (simp add: restrict_map_def)

lemma clear_subtree_sim:
  "rep h hdr p t \<Longrightarrow> is_nil h hdr = Some True \<Longrightarrow> distinct (hdr # addrs t) \<Longrightarrow> h nullptr = None \<Longrightarrow>
   clear_subtree h (ptr hdr t) = Some (h |` (- set (addrs t)))"
proof (induction t arbitrary: h p)
  case Tip
  then show ?case by (subst clear_subtree.simps) simp
next
  case (Bin l a c v r)
  have cell: "h a = Some (mk p (ptr hdr l) (ptr hdr r) c v)" "rep h hdr a l" "rep h hdr a r"
    using Bin.prems(1) by auto
  have d: "a \<noteq> hdr" "a \<notin> set (addrs l)" "a \<notin> set (addrs r)" "hdr \<notin> set (addrs l)" "hdr \<notin> set (addrs r)"
    "distinct (addrs l)" "distinct (addrs r)" "set (addrs l) \<inter> set (addrs r) = {}"
    using Bin.prems(3) by auto
  have a0: "a \<noteq> nullptr" using cell(1) Bin.prems(4) by auto
  obtain hn where hn: "h hdr = Some hn" "n_nil hn" using Bin.prems(2) by (auto simp: is_nil_def)
  let ?h1 = "h |` (- set (addrs l))"
  let ?h2 = "?h1 |` (- set (addrs r))"
  have nl: "is_nil h (ptr hdr l) = Some (l = Tip)" using cell(2) hn by (cases l) (auto simp: is_nil_def)
  have s1: "(if l \<noteq> Tip then clear_subtree h (ptr hdr l) else Some h) = Some ?h1"
    using Bin.IH(1) [OF cell(2) Bin.prems(2)] d Bin.prems(4) by (cases "l = Tip") auto
  have "rep ?h1 hdr a r = rep h hdr a r" by (rule rep_cong) (use d(8) in \<open>auto simp: restrict_map_def\<close>)
  with cell(3) have r1: "rep ?h1 hdr a r" by blast
  have i1: "is_nil ?h1 hdr = Some True" "?h1 nullptr = None" "?h1 a = h a"
    using hn d Bin.prems(4) by (auto simp: is_nil_def restrict_map_def)
  have nr: "is_nil ?h1 (ptr hdr r) = Some (r = Tip)"
    using r1 hn d(4) by (cases r) (auto simp: is_nil_def restrict_map_def)
  have s2: "(if r \<noteq> Tip then clear_subtree ?h1 (ptr hdr r) else Some ?h1) = Some ?h2"
    using Bin.IH(2) [OF r1 i1(1)] d i1(2) by (cases "r = Tip") auto
  have a2: "is_nil ?h2 a = Some False" "node_val ?h2 a = Some v"
    using cell(1) d by (auto simp: is_nil_def node_val_def restrict_map_def)
  obtain g where g: "destroy_value ?h2 a = Some g" "node_delete g a = Some (?h2(a := None))"
    using destroy_and_delete [OF a2 a0] by blast
  have "left h a = Some (ptr hdr l)" "is_nil h a = Some False" "right ?h1 a = Some (ptr hdr r)"
    using cell(1) i1(3) by (simp_all add: heap_simps)
  then have "clear_subtree h a = Some (?h2(a := None))"
    using nl s1 nr s2 g by (subst clear_subtree.simps) simp
  moreover have "?h2(a := None) = h |` (- set (addrs (Bin l a c v r)))"
    by (rule ext) (auto simp: restrict_map_def)
  ultimately show ?case by simp
qed

lemma init_header_nil:
  assumes "h hdr = Some n" "n_nil n" "n_val n = None"
  shows "init_header h hdr = Some (h(hdr \<mapsto> hnode hdr hdr hdr))"
  using assms by (cases n) (simp add: init_header_def heap_simps)

lemma clear_tree_sim:
  assumes inv: "qtree_inv lt ks h T xs"
  shows "\<exists>h'. clear_tree h T = Some (h', T\<lparr>t_count := 0\<rparr>) \<and> evolves lt ks h T xs h' (T\<lparr>t_count := 0\<rparr>) []"
proof (cases "t_header T = nullptr")
  case True
  then show ?thesis using inv by (simp add: clear_tree_def evolves_def qtree_inv_def owned_def)
next
  case False
  let ?hdr = "t_header T" and ?T = "T\<lparr>t_count := 0\<rparr>"
  from inv False obtain t where t: "trep h ?hdr (first_addr ?hdr xs) (last_addr ?hdr xs) t" "items t = xs" "rb t"
    "h nullptr = None" "t_count T = length xs" by (rule qtree_inv_obtain)
  let ?h1 = "h |` (- set (addrs t))"
  let ?h2 = "?h1(?hdr \<mapsto> hnode ?hdr ?hdr ?hdr)"
  have hd: "?hdr \<notin> set (addrs t)" using trep_distinct [OF t(1)] by simp
  have "clear_subtree h (ptr ?hdr t) = Some ?h1"
    using clear_subtree_sim [of h ?hdr ?hdr t] t(1,4) trep_header_reads [OF t(1)] by (simp add: trep_def)
  moreover have "init_header ?h1 ?hdr = Some ?h2"
    using init_header_nil [of ?h1 ?hdr] trep_header [OF t(1)] hd by (simp add: restrict_map_def)
  moreover have "t = Tip" if "xs = []" using t(2) that by (cases t) auto
  moreover have "init_header h ?hdr = Some (h(?hdr \<mapsto> hnode ?hdr ?hdr ?hdr))"
    using init_header_nil [of h ?hdr] trep_header [OF t(1)] by simp
  ultimately have run: "clear_tree h T = Some (?h2, ?T)"
    using False trep_header_reads [OF t(1)] t(5) by (cases "xs = []") (auto simp: clear_tree_def root_def)
  have "trep ?h2 ?hdr ?hdr ?hdr Tip" by (simp add: trep_def)
  moreover have "?h2 nullptr = None" using t(4) False by (simp add: restrict_map_def)
  ultimately have inv': "qtree_inv lt ks ?h2 ?T []"
    using False by (auto simp: qtree_inv_def rb_def intro!: exI [of _ Tip])
  have ow: "owned T xs = insert ?hdr (set (addrs t))" using False t(2) by (simp add: owned_def set_addrs)
  have "same_off (owned T xs) h ?h2" unfolding ow by (auto simp: same_off_def restrict_map_def)
  moreover have "?h2 p = None" if "p \<in> set (addrs t)" for p using hd that by (auto simp: restrict_map_def)
  ultimately have "evolves lt ks h T xs ?h2 ?T []"
    using inv' False unfolding evolves_def ow by (auto simp: owned_def)
  then show ?thesis using run by blast
qed

lemma destroy_tree_sim:
  assumes inv: "qtree_inv lt ks h T xs"
  shows "destroy_tree h T = Some (h |` (- owned T xs))"
proof (cases "t_header T = nullptr")
  case True
  then show ?thesis by (simp add: destroy_tree_def owned_def)
next
  case False
  obtain h' where h': "clear_tree h T = Some (h', T\<lparr>t_count := 0\<rparr>)"
      "evolves lt ks h T xs h' (T\<lparr>t_count := 0\<rparr>) []"
    using clear_tree_sim [OF inv] by blast
  have live: "h' (t_header T) \<noteq> None"
    using qtree_inv_owned [OF evolves_inv [OF h'(2)]] False by (auto simp: owned_def)
  have "h'(t_header T := None) = h |` (- owned T xs)"
  proof (rule ext)
    fix p
    show "(h'(t_header T := None)) p = (h |` (- owned T xs)) p"
      using h'(2) False by (auto simp: evolves_def same_off_def owned_def restrict_map_def)
  qed
  then show ?thesis using h'(1) False live by (auto simp: destroy_tree_def node_delete_def)
qed

section \<open>Copying\<close>

text \<open>A clone has the shape and the colours of the original, and copies of its values.\<close>

fun clone_of :: "('v \<Rightarrow> 'v option) \<Rightarrow> 'v ptree \<Rightarrow> 'v ptree \<Rightarrow> bool" where
  "clone_of cp Tip t' \<longleftrightarrow> t' = Tip"
| "clone_of cp (Bin l a c v r) t' \<longleftrightarrow>
     (\<exists>l' a' v' r'. t' = Bin l' a' c v' r' \<and> cp v = Some v' \<and> clone_of cp l l' \<and> clone_of cp r r')"

lemma clone_of_values: "clone_of cp t t' \<Longrightarrow> list_all2 (\<lambda>x y. cp (snd x) = Some (snd y)) (items t) (items t')"
  by (induction t arbitrary: t') (auto intro!: list_all2_appendI)

lemma clone_of_shape:
  "clone_of cp t t' \<Longrightarrow> bh t' = bh t \<and> tcol t' = tcol t \<and> (invc t \<longrightarrow> invc t') \<and> (invh t \<longrightarrow> invh t')"
proof (induction t arbitrary: t')
  case (Bin l a c v r)
  then obtain l' a' v' r' where t': "t' = Bin l' a' c v' r'" "clone_of cp l l'" "clone_of cp r r'" by auto
  show ?case using Bin.IH(1) [OF t'(2)] Bin.IH(2) [OF t'(3)] t'(1) by auto
qed simp

lemma clone_of_rb: "clone_of cp t t' \<Longrightarrow> rb t \<Longrightarrow> rb t'"
  using clone_of_shape by (fastforce simp: rb_def)

text \<open>
  \<open>cloned\<close>: the outcome of cloning a subtree.  On an exception the heap is exactly what it
  was before; otherwise the clone lives at fresh addresses and nothing else changed.
\<close>

definition cloned ::
  "('v \<Rightarrow> 'v option) \<Rightarrow> 'v heap \<Rightarrow> addr \<Rightarrow> addr \<Rightarrow> 'v ptree \<Rightarrow> exn + addr \<Rightarrow> 'v heap \<Rightarrow> bool" where
  "cloned cp h hdr p t r h' \<longleftrightarrow> (case r of
     Inl e \<Rightarrow> h' = h
   | Inr a \<Rightarrow> \<exists>t'. a = ptr hdr t' \<and> clone_of cp t t' \<and> rep h' hdr p t' \<and> distinct (addrs t') \<and>
       (\<forall>x\<in>set (addrs t'). h x = None \<and> x \<noteq> nullptr) \<and> same_off (set (addrs t')) h h')"

lemma rep_fresh:
  assumes "rep h hdr p t" "\<And>x. x \<in> A \<Longrightarrow> h x = None" "same_off A h h'"
  shows "rep h' hdr p t" "set (addrs t) \<inter> A = {}"
proof -
  have d: "x \<notin> A" if "x \<in> set (addrs t)" for x using rep_live [OF assms(1) that] assms(2) [of x] by auto
  then show "set (addrs t) \<inter> A = {}" by blast
  have "rep h' hdr p t = rep h hdr p t" by (rule rep_cong) (use d assms(3) in \<open>auto simp: same_off_def\<close>)
  with assms(1) show "rep h' hdr p t" by blast
qed

lemma nil_fresh:
  assumes "is_nil h a = Some b" "\<And>x. x \<in> A \<Longrightarrow> h x = None" "same_off A h h'"
  shows "is_nil h' a = Some b" "a \<notin> A"
proof -
  from assms(1,2) show "a \<notin> A" by (auto simp: is_nil_def)
  then show "is_nil h' a = Some b" using assms(1,3) by (simp add: is_nil_def same_off_def)
qed

text \<open>Undoing a half-built node: its subtree is freed, which gives back the old heap.\<close>

lemma undo_clone:
  assumes "rep h hdr p t" "is_nil h hdr = Some True" "distinct (addrs t)" "h nullptr = None"
    "\<And>x. x \<in> set (addrs t) \<Longrightarrow> h0 x = None" "same_off (set (addrs t)) h0 h" "is_nil h0 hdr = Some True"
  shows "clear_subtree h (ptr hdr t) = Some h0"
proof -
  have "hdr \<notin> set (addrs t)" using nil_fresh(2) [OF assms(7,5,6)] .
  moreover have "h |` (- set (addrs t)) = h0"
  proof
    fix x
    show "(h |` (- set (addrs t))) x = h0 x"
      using assms(5) [of x] assms(6) by (cases "x \<in> set (addrs t)") (auto simp: same_off_def)
  qed
  ultimately show ?thesis using clear_subtree_sim [OF assms(1,2)] assms(3,4) by simp
qed

lemma clone_subtree_sim:
  "rep h hdr2 p2 t \<Longrightarrow> is_nil h hdr2 = Some True \<Longrightarrow> is_nil h hdr = Some True \<Longrightarrow> alloc_ok alloc \<Longrightarrow>
   h nullptr = None \<Longrightarrow>
   \<exists>r h'. clone_subtree alloc cp h hdr (ptr hdr2 t) p = Some (r, h') \<and> cloned cp h hdr p t r h'"
proof (induction t arbitrary: h p p2)
  case Tip
  then show ?case by (subst clone_subtree.simps) (simp add: cloned_def)
next
  case (Bin l a c v r)
  have cell: "h a = Some (mk p2 (ptr hdr2 l) (ptr hdr2 r) c v)" "rep h hdr2 a l" "rep h hdr2 a r"
    using Bin.prems(1) by auto
  have a: "is_nil h a = Some False" using cell(1) by (simp add: heap_simps)
  show ?case
  proof (cases "alloc h")
    case None
    then show ?thesis using a by (subst clone_subtree.simps) (simp add: node_new_def cloned_def)
  next
    case (Some b)
    with Bin.prems(4) have b: "h b = None" "b \<noteq> nullptr" by (auto dest: alloc_okD)
    show ?thesis
    proof (cases "cp v")
      case None
      have "b \<noteq> a" using b cell by auto
      then have "node_val (h(b \<mapsto> blank_node)) a = Some v" using cell(1) by (simp add: heap_simps)
      moreover have "node_delete (h(b \<mapsto> blank_node)) b = Some h" using b by (simp add: node_delete_def fun_upd_idem)
      ultimately show ?thesis using a Some None
        by (subst clone_subtree.simps) (simp add: node_new_def cloned_def)
    next
      case v': (Some v')
      let ?h0 = "h(b \<mapsto> mk p hdr hdr c v')"
      have ba: "b \<noteq> a" using b cell by auto
      have bl: "b \<notin> set (addrs l)" "b \<notin> set (addrs r)" "b \<noteq> hdr" "b \<noteq> hdr2"
        using rep_live cell(2,3) b(1) Bin.prems(2,3) by (fastforce simp: is_nil_def)+
      have r0: "rep ?h0 hdr2 a l" "rep ?h0 hdr2 a r" "is_nil ?h0 hdr = Some True" "is_nil ?h0 hdr2 = Some True"
        "?h0 nullptr = None" "left ?h0 a = Some (ptr hdr2 l)"
        using cell bl Bin.prems(2,3,5) b ba by (simp_all add: is_nil_def left_def)
      have prefix: "clone_subtree alloc cp h hdr a p = do {
          (rl, h) \<leftarrow> clone_subtree alloc cp ?h0 hdr (ptr hdr2 l) b;
          case rl of
            Inl e \<Rightarrow> do { h \<leftarrow> clear_subtree h b; Some (Inl e, h) }
          | Inr lp \<Rightarrow> do {
              h \<leftarrow> set_left h b lp;
              orr \<leftarrow> right h a;
              (rr, h) \<leftarrow> clone_subtree alloc cp h hdr orr b;
              case rr of
                Inl e \<Rightarrow> do { h \<leftarrow> clear_subtree h b; Some (Inl e, h) }
              | Inr rp \<Rightarrow> do { h \<leftarrow> set_right h b rp; Some (Inr b, h) } } }"
        using a Some v' cell(1) ba r0(6)
        by (subst clone_subtree.simps) (simp add: node_new_def blank_node_def heap_simps)
      obtain r1 h1 where 1: "clone_subtree alloc cp ?h0 hdr (ptr hdr2 l) b = Some (r1, h1)"
          "cloned cp ?h0 hdr b l r1 h1"
        using Bin.IH(1) [OF r0(1,4,3) Bin.prems(4) r0(5)] by blast
      show ?thesis
      proof (cases r1)
        case (Inl e)
        have "clear_subtree ?h0 (ptr hdr (Bin Tip b c v' Tip)) = Some h"
          by (rule undo_clone [where p = p]) (use r0 b Bin.prems(3) in auto)
        then show ?thesis using prefix 1 Inl by (simp add: cloned_def)
      next
        case (Inr lp)
        with 1(2) obtain l' where l': "lp = ptr hdr l'" "clone_of cp l l'" "rep h1 hdr b l'" "distinct (addrs l')"
          "\<And>x. x \<in> set (addrs l') \<Longrightarrow> ?h0 x = None \<and> x \<noteq> nullptr" "same_off (set (addrs l')) ?h0 h1"
          by (auto simp: cloned_def)
        have fr1: "\<And>x. x \<in> set (addrs l') \<Longrightarrow> ?h0 x = None" using l'(5) by blast
        have bl': "b \<notin> set (addrs l')" using fr1 [of b] by auto
        let ?h2 = "h1(b \<mapsto> mk p lp hdr c v')"
        have h1b: "h1 b = Some (mk p hdr hdr c v')" using l'(6) bl' by (simp add: same_off_def)
        have sl: "set_left h1 b lp = Some ?h2" using h1b by (simp add: heap_simps)
        have "a \<notin> set (addrs l')" using fr1 [of a] cell(1) ba by auto
        then have h1a: "h1 a = h a" using l'(6) ba by (simp add: same_off_def)
        have ri: "right ?h2 a = Some (ptr hdr2 r)" using h1a cell(1) ba by (simp add: heap_simps)
        have rr: "rep ?h2 hdr2 a r" using rep_fresh(1) [OF r0(2) fr1 l'(6)] bl by simp
        have ni: "is_nil ?h2 hdr = Some True" "is_nil ?h2 hdr2 = Some True"
          using nil_fresh(1) [OF r0(3) fr1 l'(6)] nil_fresh(1) [OF r0(4) fr1 l'(6)] bl by (simp_all add: is_nil_def)
        have n2: "?h2 nullptr = None" using l'(5,6) r0(5) b by (fastforce simp: same_off_def)
        have rl2: "rep ?h2 hdr b l'" using l'(3) bl' by simp
        obtain r2 h3 where 2: "clone_subtree alloc cp ?h2 hdr (ptr hdr2 r) b = Some (r2, h3)"
            "cloned cp ?h2 hdr b r r2 h3"
          using Bin.IH(2) [OF rr ni(2,1) Bin.prems(4) n2] by blast
        have fr2: "\<And>x. x \<in> set (addrs (Bin l' b c v' Tip)) \<Longrightarrow> h x = None"
          using l'(5) b(1) by (fastforce split: if_splits)
        have s2: "same_off (set (addrs (Bin l' b c v' Tip))) h ?h2"
          using l'(6) by (auto simp: same_off_def)
        show ?thesis
        proof (cases r2)
          case (Inl e)
          have "clear_subtree ?h2 (ptr hdr (Bin l' b c v' Tip)) = Some h"
            by (rule undo_clone [where p = p]) (use rl2 l'(1,4) bl' ni n2 fr2 s2 Bin.prems(3) in auto)
          then show ?thesis using prefix 1 Inr sl ri 2 Inl by (simp add: cloned_def)
        next
          case r2: (Inr rp)
          with 2(2) obtain r' where r': "rp = ptr hdr r'" "clone_of cp r r'" "rep h3 hdr b r'" "distinct (addrs r')"
            "\<And>x. x \<in> set (addrs r') \<Longrightarrow> ?h2 x = None \<and> x \<noteq> nullptr" "same_off (set (addrs r')) ?h2 h3"
            by (auto simp: cloned_def)
          have fr3: "\<And>x. x \<in> set (addrs r') \<Longrightarrow> ?h2 x = None" using r'(5) by blast
          have br': "b \<notin> set (addrs r')" using fr3 [of b] by auto
          note lr = rep_fresh [OF rl2 fr3 r'(6)]
          let ?h4 = "h3(b \<mapsto> mk p lp rp c v')" and ?t = "Bin l' b c v' r'"
          have "h3 b = Some (mk p lp hdr c v')" using r'(6) br' by (simp add: same_off_def)
          then have "set_right h3 b rp = Some ?h4" by (simp add: heap_simps)
          then have run: "clone_subtree alloc cp h hdr a p = Some (Inr b, ?h4)"
            using prefix 1 Inr sl ri 2 r2 by simp
          have "rep ?h4 hdr p ?t" using lr(1) r'(1,3) l'(1) bl' br' by simp
          moreover have "distinct (addrs ?t)" using l'(4) r'(4) lr(2) bl' br' by auto
          moreover have "clone_of cp (Bin l a c v r) ?t" using l'(2) r'(2) v' by simp
          moreover have "h x = None \<and> x \<noteq> nullptr" if "x \<in> set (addrs ?t)" for x
          proof (cases "x \<in> set (addrs r')")
            case True
            then have "x \<notin> set (addrs l')" "x \<noteq> b" using lr(2) br' by auto
            then show ?thesis using r'(5) [OF True] s2 by (auto simp: same_off_def)
          next
            case False
            then show ?thesis using that fr2 l'(5) b(2) by auto
          qed
          moreover have "same_off (set (addrs ?t)) h ?h4"
            using s2 r'(6) by (auto simp: same_off_def)
          ultimately have "cloned cp h hdr p (Bin l a c v r) (Inr b) ?h4"
            unfolding cloned_def by (simp del: clone_of.simps rep.simps) (intro exI [of _ ?t], simp del: clone_of.simps rep.simps)
          then show ?thesis using run by auto
        qed
      qed
    qed
  qed
qed

lemma clone_from_sim:
  assumes inv: "qtree_inv lt ks h U xs" and ne: "xs \<noteq> []" and al: "alloc_ok alloc"
    and a: "h a = Some (hnode a a a)" "a \<noteq> nullptr" "a \<notin> owned U xs"
  shows "\<exists>r h' T. clone_from alloc cp h \<lparr>t_header = a, t_count = 0\<rparr> U = Some (r, h', T) \<and> t_header T = a \<and>
    (case r of Inl e \<Rightarrow> h' = h
     | Inr _ \<Rightarrow> \<exists>t t'. items t = xs \<and> rb t \<and> clone_of cp t t' \<and> t_count T = length xs \<and>
         trep h' a (first_addr a (items t')) (last_addr a (items t')) t' \<and>
         (\<forall>x\<in>set (addrs t'). h x = None \<and> x \<noteq> nullptr) \<and> same_off (insert a (set (addrs t'))) h h')"
proof -
  let ?T = "\<lparr>t_header = a, t_count = 0\<rparr>" and ?hdr = "t_header U"
  have nz: "?hdr \<noteq> nullptr" using inv ne by (auto simp: qtree_inv_def)
  from inv nz obtain t where t: "trep h ?hdr (first_addr ?hdr xs) (last_addr ?hdr xs) t" "items t = xs" "rb t"
    "h nullptr = None" "t_count U = length xs" "owned U xs = insert ?hdr (fst ` set xs)" by (rule qtree_inv_obtain)
  note hr = trep_header_reads [OF t(1)]
  have rt: "rep h ?hdr ?hdr t" using t(1) by (simp add: trep_def)
  obtain r1 h1 where 1: "clone_subtree alloc cp h a (ptr ?hdr t) a = Some (r1, h1)" "cloned cp h a a t r1 h1"
    using clone_subtree_sim [OF rt _ _ al t(4), of a cp a] hr(5) a(1) by (auto simp: is_nil_def)
  have pre: "t_count U \<noteq> 0" "root h U = Some (ptr ?hdr t)" using ne t(5) hr(1) nz by (simp_all add: root_def)
  show ?thesis
  proof (cases r1)
    case (Inl e)
    then have "h1 = h" using 1(2) by (simp add: cloned_def)
    moreover have "clear_tree h ?T = Some (h, ?T)"
      using a init_header_nil [of h a "hnode a a a"] by (simp add: clear_tree_def fun_upd_idem)
    ultimately show ?thesis using 1(1) Inl pre by (simp add: clone_from_def)
  next
    case (Inr nr)
    with 1(2) obtain t' where t': "nr = ptr a t'" "clone_of cp t t'" "rep h1 a a t'" "distinct (addrs t')"
      "\<And>x. x \<in> set (addrs t') \<Longrightarrow> h x = None \<and> x \<noteq> nullptr" "same_off (set (addrs t')) h h1"
      by (auto simp: cloned_def)
    have an: "a \<notin> set (addrs t')" using t'(5) [of a] a(1) by auto
    have h1a: "h1 a = Some (hnode a a a)" using t'(6) an a(1) by (simp add: same_off_def)
    have nt: "t' \<noteq> Tip" using t'(2) t(2) ne by (cases t) auto
    let ?h2 = "h1(a \<mapsto> hnode (ptr a t') a a)"
    have T2: "trep ?h2 a a a t'" using t'(3,4) an by (simp add: trep_def)
    let ?mn = "first_addr a (items t')" and ?mx = "last_addr a (items t')"
    let ?h3 = "?h2(a \<mapsto> hnode (ptr a t') ?mn a)"
    have T3: "trep ?h3 a ?mn a t'" by (rule trep_upd_extremes [OF T2])
    let ?h4 = "?h3(a \<mapsto> hnode (ptr a t') ?mn ?mx)"
    have T4: "trep ?h4 a ?mn ?mx t'" by (rule trep_upd_extremes [OF T3])
    have "minimum ?h2 nr = Some ?mn" using minimum_sim [of ?h2 a a a "[]" t'] T2 nt t'(1) by simp
    moreover have "maximum ?h3 nr = Some ?mx" using maximum_sim [of ?h3 a ?mn a "[]" t'] T3 nt t'(1) by simp
    moreover have "set_parent h1 a nr = Some ?h2" "set_left ?h2 a ?mn = Some ?h3" "set_right ?h3 a ?mx = Some ?h4"
      using h1a t'(1) by (simp_all add: heap_simps)
    ultimately have "clone_from alloc cp h ?T U = Some (Inr (), ?h4, ?T\<lparr>t_count := t_count U\<rparr>)"
      using 1(1) Inr pre by (simp add: clone_from_def)
    moreover have "same_off (insert a (set (addrs t'))) h ?h4" using t'(6) by (auto simp: same_off_def)
    ultimately show ?thesis using T4 t'(2,5) t(2,3,5) by (intro exI [of _ "Inr ()"] exI [of _ ?h4]) auto
  qed
qed

theorem copy_ctor_sim:
  assumes inv: "qtree_inv lt ks h U xs" and al: "alloc_ok alloc" and cp: "\<And>v w. cp v = Some w \<Longrightarrow> w = v"
  shows "\<exists>r h'. copy_ctor alloc cp h U = Some (r, h') \<and> (case r of
      Inl e \<Rightarrow> h' = h
    | Inr T \<Rightarrow> \<exists>ys. evolves lt ks h qtree_empty [] h' T ys \<and> map snd ys = map snd xs)"
proof (cases "xs = []")
  case True
  have "h nullptr = None" using inv by (simp add: qtree_inv_def)
  then have "evolves lt ks h qtree_empty [] h qtree_empty []" by (intro evolves_refl qtree_inv_empty)
  then show ?thesis using True inv by (auto simp: copy_ctor_def qtree_inv_def)
next
  case ne: False
  then have c: "t_count U \<noteq> 0" and h0: "h nullptr = None" and so: "sorted_wrt lt (keys ks xs)"
    using inv by (auto simp: qtree_inv_def)
  show ?thesis
  proof (cases "alloc h")
    case None
    then show ?thesis using c by (simp add: copy_ctor_def allocate_header_def node_new_def)
  next
    case (Some a)
    with al have a: "h a = None" "a \<noteq> nullptr" by (auto dest: alloc_okD)
    let ?h1 = "h(a \<mapsto> hnode a a a)"
    have ah: "allocate_header alloc h = Some (Inr (a, ?h1))"
      using Some by (simp add: allocate_header_def node_new_def blank_node_def heap_simps)
    have ih: "init_header ?h1 a = Some ?h1" by (simp add: init_header_nil)
    have an: "a \<notin> owned U xs" using qtree_inv_owned [OF inv] a(1) by auto
    have inv1: "qtree_inv lt ks ?h1 U xs" by (rule qtree_inv_frame [OF inv]) (use an a h0 in auto)
    obtain r h' T where 1: "clone_from alloc cp ?h1 \<lparr>t_header = a, t_count = 0\<rparr> U = Some (r, h', T)" "t_header T = a"
      "case r of Inl e \<Rightarrow> h' = ?h1
       | Inr _ \<Rightarrow> \<exists>t t'. items t = xs \<and> rb t \<and> clone_of cp t t' \<and> t_count T = length xs \<and>
         trep h' a (first_addr a (items t')) (last_addr a (items t')) t' \<and>
         (\<forall>x\<in>set (addrs t'). ?h1 x = None \<and> x \<noteq> nullptr) \<and> same_off (insert a (set (addrs t'))) ?h1 h'"
      using clone_from_sim [OF inv1 ne al, of a cp] a an by auto
    show ?thesis
    proof (cases r)
      case (Inl e)
      have "node_delete ?h1 a = Some h" using a by (simp add: node_delete_def fun_upd_idem)
      then show ?thesis using 1 Inl c ah ih by (simp add: copy_ctor_def)
    next
      case (Inr u)
      with 1(3) obtain t t' where t': "items t = xs" "rb t" "clone_of cp t t'" "t_count T = length xs"
         "trep h' a (first_addr a (items t')) (last_addr a (items t')) t'"
         "\<And>x. x \<in> set (addrs t') \<Longrightarrow> ?h1 x = None \<and> x \<noteq> nullptr" "same_off (insert a (set (addrs t'))) ?h1 h'"
        by auto
      have l2: "list_all2 (\<lambda>x y. cp (snd x) = Some (snd y)) xs (items t')"
        using clone_of_values [OF t'(3)] t'(1) by simp
      then have vals: "map snd (items t') = map snd xs"
        by (induction rule: list_all2_induct) (auto dest: cp)
      have "keys ks (items t') = map ks (map snd (items t'))" "keys ks xs = map ks (map snd xs)"
        by (simp_all add: keys_def)
      then have so': "sorted_wrt lt (keys ks (items t'))" using so vals by simp
      have n0: "h' nullptr = None" using t'(6,7) h0 a by (fastforce simp: same_off_def)
      have "qtree_inv lt ks h' T (items t')"
        using 1(2) a n0 so' t'(4,5) list_all2_lengthD [OF l2] clone_of_rb [OF t'(3,2)]
        by (auto simp: qtree_inv_def)
      moreover have ow: "owned T (items t') = insert a (set (addrs t'))" using 1(2) a by (simp add: owned_def set_addrs)
      moreover have "owned qtree_empty [] = {}" by (simp add: owned_def qtree_empty_def)
      moreover have "h x = None" if "x \<in> insert a (set (addrs t'))" for x
        using that a t'(6) [of x] by (auto split: if_splits)
      moreover have "same_off (insert a (set (addrs t'))) h h'" using t'(7) by (auto simp: same_off_def)
      ultimately have "evolves lt ks h qtree_empty [] h' T (items t')" unfolding evolves_def by auto
      then show ?thesis using 1(1) Inr c ah ih vals by (auto simp: copy_ctor_def)
    qed
  qed
qed

end
