(* ===== verification/QTreeWhole.thy ===== *)
theory QTreeWhole
  imports QTreeCopy
begin

text \<open>Assignment, moving and comparison of whole trees.\<close>

section \<open>Assignment\<close>

lemma owned_empty [simp]: "owned qtree_empty xs = {}"
  by (simp add: owned_def qtree_empty_def)

lemma copy_assign_sim:
  assumes inv: "qtree_inv lt ks h T xs" "qtree_inv lt ks h U zs" and al: "alloc_ok alloc"
    and cp: "\<And>v w. cp v = Some w \<Longrightarrow> w = v"
  shows "\<exists>r h'. copy_assign alloc cp h T U = Some (r, h') \<and> (case r of
      Inl e \<Rightarrow> h' = h
    | Inr T' \<Rightarrow> \<exists>ys. evolves lt ks h T xs h' T' ys \<and> map snd ys = map snd zs)"
proof -
  obtain r h1 where 1: "copy_ctor alloc cp h U = Some (r, h1)"
    "case r of Inl e \<Rightarrow> h1 = h | Inr T' \<Rightarrow> \<exists>ys. evolves lt ks h qtree_empty [] h1 T' ys \<and> map snd ys = map snd zs"
    using copy_ctor_sim [OF inv(2) al, of cp] cp by blast
  show ?thesis
  proof (cases r)
    case (Inl e)
    then show ?thesis using 1 by (simp add: copy_assign_def)
  next
    case (Inr T')
    with 1(2) obtain ys where ys: "evolves lt ks h qtree_empty [] h1 T' ys" "map snd ys = map snd zs" by auto
    have inv1: "qtree_inv lt ks h1 T xs" and dj: "owned T xs \<inter> owned T' ys = {}"
      using evolves_other [OF ys(1) inv(1)] by auto
    let ?h2 = "h1 |` (- owned T xs)"
    have run: "copy_assign alloc cp h T U = Some (Inr T', ?h2)"
      using 1(1) Inr destroy_tree_sim [OF inv1] by (simp add: copy_assign_def swap_trees_def Let_def)
    have "qtree_inv lt ks ?h2 T' ys"
    proof (rule qtree_inv_frame [OF evolves_inv [OF ys(1)]])
      show "?h2 x = h1 x" if "x \<in> owned T' ys" for x using that dj by (auto simp: restrict_map_def)
      show "?h2 nullptr = None" using inv1 by (simp add: qtree_inv_def restrict_map_def)
    qed
    then have "evolves lt ks h T xs ?h2 T' ys"
      using ys(1) by (auto simp: evolves_def same_off_def restrict_map_def)
    then show ?thesis using run ys(2) by auto
  qed
qed

lemma move_assign_sim:
  assumes inv: "qtree_inv lt ks h T xs" "qtree_inv lt ks h U zs" and dj: "owned T xs \<inter> owned U zs = {}"
  shows "move_assign h T U = Some (U, qtree_empty, h |` (- owned T xs)) \<and>
    qtree_inv lt ks (h |` (- owned T xs)) U zs"
proof -
  have "qtree_inv lt ks (h |` (- owned T xs)) U zs"
    by (rule qtree_inv_frame [OF inv(2)]) (use dj inv(1) in \<open>auto simp: restrict_map_def qtree_inv_def\<close>)
  then show ?thesis using destroy_tree_sim [OF inv(1)] by (cases U) (simp add: move_assign_def qtree_empty_def)
qed

section \<open>Comparison\<close>

lemma begin_is_end:
  assumes "qtree_inv lt ks h T (xs @ ys)"
  shows "first_addr (end_iter T) ys = end_iter T \<longleftrightarrow> ys = []"
proof (cases ys)
  case (Cons y zs)
  then show ?thesis using iter_deref_sim(3) [OF assms, of "fst y" "snd y"] by simp
qed simp

lemma equal_loop_sim:
  "qtree_inv lt ks h A (xs0 @ xs) \<Longrightarrow> qtree_inv lt ks h B (ys0 @ ys) \<Longrightarrow> length xs = length ys \<Longrightarrow>
   equal_loop eq h (first_addr (end_iter A) xs) (end_iter A) (first_addr (end_iter B) ys) =
     Some (list_all2 eq (map snd xs) (map snd ys))"
proof (induction xs arbitrary: xs0 ys0 ys)
  case Nil
  then show ?case by (subst equal_loop.simps) simp
next
  case (Cons x xs)
  obtain a v where x: "x = (a, v)" by (cases x)
  from Cons.prems(3) obtain b w ys' where ys: "ys = (b, w) # ys'" by (cases ys) auto
  have A: "qtree_inv lt ks h A (xs0 @ (a, v) # xs)" and B: "qtree_inv lt ks h B (ys0 @ (b, w) # ys')"
    using Cons.prems(1,2) x ys by simp_all
  have d: "node_val h a = Some v" "node_val h b = Some w" "a \<noteq> end_iter A"
    using iter_deref_sim [OF A, of a v] iter_deref_sim [OF B, of b w] by auto
  have IH: "equal_loop eq h (first_addr (end_iter A) xs) (end_iter A) (first_addr (end_iter B) ys') =
     Some (list_all2 eq (map snd xs) (map snd ys'))"
    using Cons.IH [of "xs0 @ [(a, v)]" "ys0 @ [(b, w)]" ys'] A B Cons.prems(3) ys by simp
  show ?case using d IH iter_next_sim [OF A] iter_next_sim [OF B]
    by (subst equal_loop.simps) (simp add: x ys)
qed

lemma tree_equal_sim:
  assumes "qtree_inv lt ks h A xs" "qtree_inv lt ks h B ys"
  shows "tree_equal eq h A B = Some (list_all2 eq (map snd xs) (map snd ys))"
proof -
  have c: "t_count A = length xs" "t_count B = length ys" using assms by (auto simp: qtree_inv_def)
  show ?thesis
  proof (cases "length xs = length ys")
    case True
    then show ?thesis using c begin_iter_sim [OF assms(1)] begin_iter_sim [OF assms(2)]
        equal_loop_sim [of lt ks h A "[]" xs B "[]" ys eq] assms by (simp add: tree_equal_def)
  next
    case False
    then have "\<not> list_all2 eq (map snd xs) (map snd ys)" using list_all2_lengthD by fastforce
    then show ?thesis using False c by (simp add: tree_equal_def)
  qed
qed

fun lex_less :: "('v \<Rightarrow> 'v \<Rightarrow> bool) \<Rightarrow> 'v list \<Rightarrow> 'v list \<Rightarrow> bool" where
  "lex_less ls [] ys \<longleftrightarrow> ys \<noteq> []"
| "lex_less ls (x # xs) [] \<longleftrightarrow> False"
| "lex_less ls (x # xs) (y # ys) \<longleftrightarrow> ls x y \<or> \<not> ls y x \<and> lex_less ls xs ys"

lemma lex_loop_sim:
  "qtree_inv lt ks h A (xs0 @ xs) \<Longrightarrow> qtree_inv lt ks h B (ys0 @ ys) \<Longrightarrow>
   lex_loop ls h (first_addr (end_iter A) xs) (end_iter A) (first_addr (end_iter B) ys) (end_iter B) =
     Some (lex_less ls (map snd xs) (map snd ys))"
proof (induction xs arbitrary: xs0 ys0 ys)
  case Nil
  then show ?case using begin_is_end [OF Nil.prems(2)] by (subst lex_loop.simps) auto
next
  case (Cons x xs)
  obtain a v where x: "x = (a, v)" by (cases x)
  have A: "qtree_inv lt ks h A (xs0 @ (a, v) # xs)" using Cons.prems(1) x by simp
  have d: "node_val h a = Some v" "a \<noteq> end_iter A" using iter_deref_sim [OF A, of a v] by auto
  show ?case
  proof (cases ys)
    case Nil
    then show ?thesis using d by (subst lex_loop.simps) (simp add: x)
  next
    case (Cons y ys')
    obtain b w where y: "y = (b, w)" by (cases y)
    have B: "qtree_inv lt ks h B (ys0 @ (b, w) # ys')" using Cons.prems(2) Cons y by simp
    have e: "node_val h b = Some w" "b \<noteq> end_iter B" using iter_deref_sim [OF B, of b w] by auto
    have IH: "lex_loop ls h (first_addr (end_iter A) xs) (end_iter A) (first_addr (end_iter B) ys') (end_iter B) =
       Some (lex_less ls (map snd xs) (map snd ys'))"
      using Cons.IH [of "xs0 @ [(a, v)]" "ys0 @ [(b, w)]" ys'] A B by simp
    show ?thesis using d e IH iter_next_sim [OF A] iter_next_sim [OF B]
      by (subst lex_loop.simps) (simp add: x y Cons)
  qed
qed

lemma tree_less_sim:
  assumes "qtree_inv lt ks h A xs" "qtree_inv lt ks h B ys"
  shows "tree_less ls h A B = Some (lex_less ls (map snd xs) (map snd ys))"
  using begin_iter_sim [OF assms(1)] begin_iter_sim [OF assms(2)]
    lex_loop_sim [of lt ks h A "[]" xs B "[]" ys ls] assms by (simp add: tree_less_def)

end
