(* ===== verification/QMap.thy ===== *)
theory QMap
  imports QTreeWhole
begin

text \<open>
  \<open>qmap\<close> of \<open>src/src/include/qtree.hpp\<close>: a tree of key-value pairs with the key
  selector \<open>select_first\<close>.  Its operations are stated over the abstract map
  \<open>mget\<close>, and shown to satisfy the contract \<open>store\<close> of an associative container.

  \<open>mb\<close> is the outcome of constructing the mapped value from the arguments
  (\<^const>\<open>None\<close>: its constructor throws), \<open>ma\<close> the outcome of assigning it to an
  existing mapped value.
\<close>

section \<open>Operations\<close>

definition qmap_at ::
  "('k \<Rightarrow> 'k \<Rightarrow> bool) \<Rightarrow> ('k \<times> 'm) heap \<Rightarrow> qtree \<Rightarrow> 'k \<Rightarrow> (exn + 'm) option" where
  "qmap_at lt h T key = do {
     it \<leftarrow> find_iter lt fst h T key;
     if it = end_iter T then Some (Inl Out_of_range)
     else do { v \<leftarrow> node_val h it; Some (Inr (snd v)) } }"

definition try_emplace ::
  "('k \<times> 'm) allocator \<Rightarrow> ('k \<Rightarrow> 'k \<Rightarrow> bool) \<Rightarrow> ('k \<times> 'm) heap \<Rightarrow> qtree \<Rightarrow> 'k \<Rightarrow> 'm option \<Rightarrow>
   ((exn + (addr \<times> bool)) \<times> ('k \<times> 'm) heap \<times> qtree) option" where
  "try_emplace alloc lt h T key mb = lazy_emplace_impl alloc lt fst h T key (map_option (Pair key) mb)"

text \<open>\<open>operator[]\<close> returns a reference to the mapped value: the node that holds it.\<close>

definition qmap_subscript ::
  "('k \<times> 'm) allocator \<Rightarrow> ('k \<Rightarrow> 'k \<Rightarrow> bool) \<Rightarrow> ('k \<times> 'm) heap \<Rightarrow> qtree \<Rightarrow> 'k \<Rightarrow> 'm option \<Rightarrow>
   ((exn + addr) \<times> ('k \<times> 'm) heap \<times> qtree) option" where
  "qmap_subscript alloc lt h T key mb = do {
     (r, h, T) \<leftarrow> try_emplace alloc lt h T key mb;
     Some (map_sum id fst r, h, T) }"

definition insert_or_assign ::
  "('k \<times> 'm) allocator \<Rightarrow> ('k \<Rightarrow> 'k \<Rightarrow> bool) \<Rightarrow> ('k \<times> 'm) heap \<Rightarrow> qtree \<Rightarrow> 'k \<Rightarrow> 'm option \<Rightarrow> 'm option \<Rightarrow>
   ((exn + (addr \<times> bool)) \<times> ('k \<times> 'm) heap \<times> qtree) option" where
  "insert_or_assign alloc lt h T key mb ma = do {
     (r, h, T) \<leftarrow> lazy_emplace_impl alloc lt fst h T key (map_option (Pair key) mb);
     case r of
       Inl e \<Rightarrow> Some (Inl e, h, T)
     | Inr (it, inserted) \<Rightarrow>
         (if inserted then Some (Inr (it, inserted), h, T)
          else do {
            v \<leftarrow> node_val h it;
            case ma of
              None \<Rightarrow> Some (Inl Value_throw, h, T)
            | Some m \<Rightarrow> do {
                h \<leftarrow> set_val h it (Some (fst v, m));
                Some (Inr (it, inserted), h, T) } }) }"

definition qmap_erase ::
  "('k \<Rightarrow> 'k \<Rightarrow> bool) \<Rightarrow> ('k \<times> 'm) heap \<Rightarrow> qtree \<Rightarrow> 'k \<Rightarrow> (nat \<times> ('k \<times> 'm) heap \<times> qtree) option" where
  "qmap_erase lt h T key = erase_key lt fst h T key"

section \<open>The abstract map\<close>

definition mget :: "('k \<Rightarrow> 'k \<Rightarrow> bool) \<Rightarrow> (addr \<times> ('k \<times> 'm)) list \<Rightarrow> 'k \<Rightarrow> 'm option" where
  "mget lt xs key = map_option (\<lambda>x. snd (snd x)) (List.find (\<lambda>x. keys_equal lt (fst (snd x)) key) xs)"

lemma mget_simps [simp]:
  "mget lt [] key = None"
  "mget lt ((a, k, m) # xs) key = (if keys_equal lt k key then Some m else mget lt xs key)"
  by (simp_all add: mget_def)

lemma mget_append: "mget lt (xs @ ys) key = (case mget lt xs key of None \<Rightarrow> mget lt ys key | Some m \<Rightarrow> Some m)"
  by (induction xs) auto

lemma mget_None: "mget lt xs key = None \<longleftrightarrow> \<not> has_key lt fst key xs"
  by (fastforce simp: mget_def has_key_def find_None_iff)

context strict_weak
begin

lemma keys_equal_refl: "keys_equal lt k k"
  by (simp add: keys_equal_def irrefl)

lemma keys_equal_sym: "keys_equal lt k k' \<longleftrightarrow> keys_equal lt k' k"
  by (auto simp: keys_equal_def)

lemma keys_equal_trans: "keys_equal lt a b \<Longrightarrow> keys_equal lt b c \<Longrightarrow> keys_equal lt a c"
  using incomp_trans unfolding keys_equal_def by blast

lemma mget_insert_item:
  assumes "\<not> has_key lt fst k xs"
  shows "mget lt (insert_item lt fst (a, k, m) xs) key = (if keys_equal lt k key then Some m else mget lt xs key)"
proof -
  let ?P = "\<lambda>y :: addr \<times> 'k \<times> 'b. lt (fst (snd y)) k"
  have "mget lt (takeWhile ?P xs) key = None" if "keys_equal lt k key"
  proof -
    have "\<not> has_key lt fst key (takeWhile ?P xs)"
      using assms that keys_equal_trans keys_equal_sym by (fastforce simp: has_key_def dest: set_takeWhileD)
    then show ?thesis by (simp add: mget_None)
  qed
  moreover have "mget lt (takeWhile ?P xs @ dropWhile ?P xs) key = mget lt xs key" by simp
  ultimately show ?thesis
    by (auto simp: insert_item_def mget_append simp del: takeWhile_dropWhile_id split: option.splits)
qed

lemma mget_filter:
  "mget lt (filter (\<lambda>x. \<not> keys_equal lt (fst (snd x)) k) xs) key = (if keys_equal lt k key then None else mget lt xs key)"
proof (induction xs)
  case (Cons x xs)
  obtain a k' m where x: "x = (a, k', m)" by (cases x)
  then show ?case using Cons.IH keys_equal_trans keys_equal_sym by (auto simp: x)
qed simp

section \<open>Correctness\<close>

lemma qmap_at_sim:
  assumes inv: "qtree_inv lt fst h T xs"
  shows "qmap_at lt h T key = Some (case mget lt xs key of None \<Rightarrow> Inl Out_of_range | Some m \<Rightarrow> Inr m)"
proof (cases rule: first_where_cases [of xs "\<lambda>v. keys_equal lt (fst v) key" "end_iter T"])
  case none
  then have "mget lt xs key = None" by (auto simp: mget_None has_key_def)
  then show ?thesis using find_sim [OF inv, of key] none by (simp add: qmap_at_def find_iter_def)
next
  case (some ys a v zs)
  then have "mget lt ys key = None" by (auto simp: mget_None has_key_def)
  then have "mget lt xs key = Some (snd v)" using some(1,2) by (cases v) (simp add: mget_append)
  moreover have "node_val h a = Some v" "a \<noteq> end_iter T"
    using iter_deref_sim [OF inv, of a v] some(1) by auto
  ultimately show ?thesis using find_sim [OF inv, of key] some(4) by (simp add: qmap_at_def find_iter_def)
qed

lemma try_emplace_sim:
  assumes inv: "qtree_inv lt fst h T xs" and al: "alloc_ok alloc"
  shows "\<exists>r h' T'. try_emplace alloc lt h T key mb = Some (r, h', T') \<and>
    emplaced alloc lt fst h T xs key (map_option (Pair key) mb) r h' T'"
  unfolding try_emplace_def by (rule lazy_emplace_sim [OF inv al]) auto

text \<open>Overwriting the payload of an element in place, with the key kept.\<close>

lemma set_val_sim:
  assumes inv: "qtree_inv lt ks h T (ys @ (a, v) # zs)" and k: "ks v' = ks v"
  shows "\<exists>h'. set_val h a (Some v') = Some h' \<and>
    evolves lt ks h T (ys @ (a, v) # zs) h' T (ys @ (a, v') # zs)"
proof -
  let ?xs = "ys @ (a, v) # zs" and ?xs' = "ys @ (a, v') # zs" and ?hdr = "t_header T"
  have nz: "?hdr \<noteq> nullptr" using inv by (auto simp: qtree_inv_def)
  from inv nz obtain t where t: "trep h ?hdr (first_addr ?hdr ?xs) (last_addr ?hdr ?xs) t" "items t = ?xs" "rb t"
    "h nullptr = None" "t_count T = length ?xs" "sorted_wrt lt (keys ks ?xs)" by (rule qtree_inv_obtain)
  obtain ctx l c r where z: "t = plug ctx (Bin l a c v r)" "ys = litems ctx @ items l" "zs = items r @ ritems ctx"
    using items_split [OF t(2)] trep_distinct [OF t(1)] by auto
  let ?t' = "plug ctx (Bin l a c v' r)"
  let ?h = "h(a \<mapsto> mk (cpar ?hdr ctx) (ptr ?hdr l) (ptr ?hdr r) c v')"
  have zr: "zrep h ?hdr (first_addr ?hdr ?xs) (last_addr ?hdr ?xs) ctx (Bin l a c v r)"
    using t(1) z(1) by (simp add: zrep_plug)
  have "zrep ?h ?hdr (first_addr ?hdr ?xs) (last_addr ?hdr ?xs) ctx (Bin l a c v' r)"
    using zr by (clarsimp simp: zrep_def)
  then have tr: "trep ?h ?hdr (first_addr ?hdr ?xs') (last_addr ?hdr ?xs') ?t'" by (simp add: zrep_plug)
  have run: "set_val h a (Some v') = Some ?h"
    using trep_cell [OF t(1) [unfolded z(1)]] by (simp add: heap_simps)
  have "rb ?t'" using t(3) z(1) rb_plug_cong [of "Bin l a c v r" "Bin l a c v' r" ctx] by simp
  moreover have "a \<noteq> nullptr" using iter_deref_sim(4) [OF inv, of a v] by simp
  ultimately have "qtree_inv lt ks ?h T ?xs'"
    using nz tr t(4,5,6) z(2,3) k by (auto simp: qtree_inv_header)
  moreover have "owned T ?xs' = owned T ?xs" "a \<in> owned T ?xs" using nz by (auto simp: owned_def)
  ultimately show ?thesis using run by (auto simp: evolves_def)
qed

lemma mget_update:
  assumes "sorted_wrt lt (keys fst (ys @ (a, k, m) # zs))"
  shows "mget lt (ys @ (a, k, m') # zs) key = (if keys_equal lt k key then Some m' else mget lt (ys @ (a, k, m) # zs) key)"
proof -
  have "mget lt ys key = None" if "keys_equal lt k key"
  proof -
    have "\<not> keys_equal lt (fst (snd y)) key" if "y \<in> set ys" for y
    proof -
      have "lt (fst (snd y)) k" using assms that by (auto simp: sorted_wrt_append)
      then have "lt (fst (snd y)) key"
        using \<open>keys_equal lt k key\<close> lt_not_lt_trans unfolding keys_equal_def by blast
      then show ?thesis by (simp add: keys_equal_def)
    qed
    then show ?thesis by (auto simp: mget_None has_key_def)
  qed
  then show ?thesis by (auto simp: mget_append split: option.splits)
qed

lemma insert_or_assign_sim:
  assumes inv: "qtree_inv lt fst h T xs" and al: "alloc_ok alloc"
  shows "\<exists>r h' T' xs'. insert_or_assign alloc lt h T key mb ma = Some (r, h', T') \<and>
    evolves lt fst h T xs h' T' xs' \<and>
    (case r of
       Inl e \<Rightarrow> xs' = xs
     | Inr (a, ins) \<Rightarrow> \<exists>m. (if ins then mb = Some m else ma = Some m) \<and> (ins \<longleftrightarrow> \<not> has_key lt fst key xs) \<and>
         (\<forall>k. mget lt xs' k = (if keys_equal lt key k then Some m else mget lt xs k)))"
proof -
  obtain r h1 T1 where 1: "lazy_emplace_impl alloc lt fst h T key (map_option (Pair key) mb) = Some (r, h1, T1)"
      "emplaced alloc lt fst h T xs key (map_option (Pair key) mb) r h1 T1"
    using lazy_emplace_sim [OF inv al, of "map_option (Pair key) mb" key] by auto
  show ?thesis
  proof (cases r)
    case (Inl e)
    then show ?thesis using 1
      by (intro exI [of _ r] exI [of _ h1] exI [of _ T1] exI [of _ xs]) (simp add: insert_or_assign_def emplaced_def)
  next
    case (Inr ai)
    obtain a i where ai: "ai = (a, i)" by (cases ai)
    show ?thesis
    proof (cases i)
      case True
      with 1(2) Inr ai obtain m where m: "mb = Some m" "\<not> has_key lt fst key xs"
        "evolves lt fst h T xs h1 T1 (insert_item lt fst (a, key, m) xs)"
        by (auto simp: emplaced_def)
      then show ?thesis using 1(1) Inr ai True mget_insert_item [OF m(2)]
        by (intro exI [of _ r] exI [of _ h1] exI [of _ T1] exI [of _ "insert_item lt fst (a, key, m) xs"])
          (simp add: insert_or_assign_def)
    next
      case False
      with 1(2) Inr ai obtain k0 m0 where k0: "h1 = h" "T1 = T" "(a, k0, m0) \<in> set xs" "keys_equal lt k0 key"
        by (auto simp: emplaced_def)
      have v: "node_val h a = Some (k0, m0)" using iter_deref_sim(1) [OF inv k0(3)] .
      have hk: "has_key lt fst key xs" using k0(3,4) by (force simp: has_key_def)
      show ?thesis
      proof (cases ma)
        case None
        then show ?thesis using 1(1) Inr ai False k0(1,2) v evolves_refl [OF inv]
          by (intro exI [of _ "Inl Value_throw"] exI [of _ h] exI [of _ T] exI [of _ xs])
            (simp add: insert_or_assign_def)
      next
        case (Some m)
        obtain ys zs where xs: "xs = ys @ (a, k0, m0) # zs" using split_list [OF k0(3)] by blast
        obtain h2 where h2: "set_val h a (Some (k0, m)) = Some h2"
            "evolves lt fst h T xs h2 T (ys @ (a, k0, m) # zs)"
          using set_val_sim [of fst h T ys a "(k0, m0)" zs "(k0, m)"] inv xs by auto
        have "mget lt (ys @ (a, k0, m) # zs) k = (if keys_equal lt key k then Some m else mget lt xs k)" for k
        proof -
          have "keys_equal lt k0 k = keys_equal lt key k"
            using k0(4) keys_equal_sym keys_equal_trans by blast
          then show ?thesis using mget_update [of ys a k0 m0 zs m k] inv xs by (simp add: qtree_inv_def)
        qed
        then show ?thesis using 1(1) Inr ai False k0(1,2) v Some h2 hk
          by (intro exI [of _ r] exI [of _ h2] exI [of _ T] exI [of _ "ys @ (a, k0, m) # zs"])
            (simp add: insert_or_assign_def)
      qed
    qed
  qed
qed

lemma qmap_subscript_sim:
  assumes inv: "qtree_inv lt fst h T xs" and al: "alloc_ok alloc"
  shows "\<exists>r h' T' xs'. qmap_subscript alloc lt h T key mb = Some (r, h', T') \<and>
    evolves lt fst h T xs h' T' xs' \<and> (case r of
      Inl e \<Rightarrow> xs' = xs
    | Inr a \<Rightarrow> \<exists>k m. (a, k, m) \<in> set xs' \<and> keys_equal lt k key \<and>
        (if has_key lt fst key xs then xs' = xs
         else mb = Some m \<and> (\<forall>k'. mget lt xs' k' = (if keys_equal lt key k' then Some m else mget lt xs k'))))"
proof -
  obtain r h1 T1 where 1: "try_emplace alloc lt h T key mb = Some (r, h1, T1)"
      "emplaced alloc lt fst h T xs key (map_option (Pair key) mb) r h1 T1"
    using try_emplace_sim [OF inv al] by blast
  show ?thesis
  proof (cases r)
    case (Inl e)
    then show ?thesis using 1
      by (intro exI [of _ "Inl e"] exI [of _ h1] exI [of _ T1] exI [of _ xs]) (simp add: qmap_subscript_def emplaced_def)
  next
    case (Inr ai)
    obtain a i where ai: "ai = (a, i)" by (cases ai)
    show ?thesis
    proof (cases i)
      case True
      with 1(2) Inr ai obtain m where m: "mb = Some m" "\<not> has_key lt fst key xs"
        "evolves lt fst h T xs h1 T1 (insert_item lt fst (a, key, m) xs)"
        by (auto simp: emplaced_def)
      then show ?thesis using 1(1) Inr ai mget_insert_item [OF m(2)] keys_equal_refl
        by (intro exI [of _ "Inr a"] exI [of _ h1] exI [of _ T1] exI [of _ "insert_item lt fst (a, key, m) xs"])
          (auto simp: qmap_subscript_def)
    next
      case False
      with 1(2) Inr ai obtain k0 m0 where k0: "h1 = h" "T1 = T" "(a, k0, m0) \<in> set xs" "keys_equal lt k0 key"
        by (auto simp: emplaced_def)
      have "has_key lt fst key xs" using k0(3,4) by (force simp: has_key_def)
      then show ?thesis using 1(1) Inr ai k0 evolves_refl [OF inv]
        by (intro exI [of _ "Inr a"] exI [of _ h] exI [of _ T] exI [of _ xs]) (auto simp: qmap_subscript_def)
    qed
  qed
qed

lemma qmap_erase_sim:
  assumes inv: "qtree_inv lt fst h T xs"
  shows "\<exists>n h' T' xs'. qmap_erase lt h T key = Some (n, h', T') \<and> evolves lt fst h T xs h' T' xs' \<and>
    n = (if has_key lt fst key xs then 1 else 0) \<and>
    (\<forall>k. mget lt xs' k = (if keys_equal lt key k then None else mget lt xs k))"
proof -
  obtain h' T' where 1: "erase_key lt fst h T key = Some (if has_key lt fst key xs then 1 else 0, h', T')"
      "evolves lt fst h T xs h' T' (filter (\<lambda>x. \<not> keys_equal lt (fst (snd x)) key) xs)"
    using erase_key_sim [OF inv] by blast
  then show ?thesis
    by (intro exI [of _ "if has_key lt fst key xs then 1 else 0"] exI [of _ h'] exI [of _ T']
        exI [of _ "filter (\<lambda>x. \<not> keys_equal lt (fst (snd x)) key) xs"])
      (simp add: qmap_erase_def mget_filter)
qed

end

section \<open>The contract of an associative container\<close>

datatype ('k, 'm) map_op = Put 'k 'm | Del 'k

fun apply_op :: "('k \<Rightarrow> 'k \<Rightarrow> bool) \<Rightarrow> ('k \<Rightarrow> 'm option) \<Rightarrow> ('k, 'm) map_op \<Rightarrow> 'k \<Rightarrow> 'm option" where
  "apply_op eqv f (Put k m) = (\<lambda>k'. if eqv k k' then Some m else f k')"
| "apply_op eqv f (Del k) = (\<lambda>k'. if eqv k k' then None else f k')"

text \<open>
  \<open>ok s\<close> is the invariant of a state, \<open>get s k\<close> the lookup, \<open>step s x s'\<close> says that the
  operation \<open>x\<close> takes \<open>s\<close> to \<open>s'\<close> without throwing.
\<close>

locale store =
  fixes ok :: "'s \<Rightarrow> bool" and eqv :: "'k \<Rightarrow> 'k \<Rightarrow> bool" and get :: "'s \<Rightarrow> 'k \<Rightarrow> 'm option"
    and step :: "'s \<Rightarrow> ('k, 'm) map_op \<Rightarrow> 's \<Rightarrow> bool"
  assumes step_ok: "ok s \<Longrightarrow> step s x s' \<Longrightarrow> ok s'"
    and step_get: "ok s \<Longrightarrow> step s x s' \<Longrightarrow> get s' = apply_op eqv (get s) x"
begin

fun run :: "'s \<Rightarrow> ('k, 'm) map_op list \<Rightarrow> 's \<Rightarrow> bool" where
  "run s [] s' \<longleftrightarrow> s' = s"
| "run s (x # xs) s' \<longleftrightarrow> (\<exists>s1. step s x s1 \<and> run s1 xs s')"

lemma run_ok: "ok s \<Longrightarrow> run s xs s' \<Longrightarrow> ok s'"
  by (induction xs arbitrary: s) (auto dest: step_ok)

lemma run_get: "ok s \<Longrightarrow> run s xs s' \<Longrightarrow> get s' = foldl (apply_op eqv) (get s) xs"
proof (induction xs arbitrary: s)
  case (Cons x xs)
  then obtain s1 where s1: "step s x s1" "run s1 xs s'" by auto
  then show ?case using Cons.IH [OF step_ok [OF Cons.prems(1) s1(1)] s1(2)] step_get [OF Cons.prems(1) s1(1)]
    by simp
qed simp

text \<open>The last operation on a key decides what is found.\<close>

lemma run_last_put:
  assumes "ok s" "run s (xs @ [Put k m]) s'" "eqv k k'"
  shows "get s' k' = Some m"
  using run_get [OF assms(1,2)] assms(3) by simp

end

text \<open>A \<open>qmap\<close> with its comparator and its allocator provides the contract.\<close>

definition qmap_ok :: "('k \<Rightarrow> 'k \<Rightarrow> bool) \<Rightarrow> ('k \<times> 'm) heap \<times> qtree \<Rightarrow> bool" where
  "qmap_ok lt s \<longleftrightarrow> (\<exists>xs. qtree_inv lt fst (fst s) (snd s) xs)"

definition qmap_get :: "('k \<Rightarrow> 'k \<Rightarrow> bool) \<Rightarrow> ('k \<times> 'm) heap \<times> qtree \<Rightarrow> 'k \<Rightarrow> 'm option" where
  "qmap_get lt s k = (case qmap_at lt (fst s) (snd s) k of Some (Inr m) \<Rightarrow> Some m | _ \<Rightarrow> None)"

fun qmap_step ::
  "('k \<times> 'm) allocator \<Rightarrow> ('k \<Rightarrow> 'k \<Rightarrow> bool) \<Rightarrow> ('k \<times> 'm) heap \<times> qtree \<Rightarrow> ('k, 'm) map_op \<Rightarrow> ('k \<times> 'm) heap \<times> qtree \<Rightarrow> bool" where
  "qmap_step alloc lt (h, T) (Put k m) (h', T') \<longleftrightarrow>
     (\<exists>r. insert_or_assign alloc lt h T k (Some m) (Some m) = Some (Inr r, h', T'))"
| "qmap_step alloc lt (h, T) (Del k) (h', T') \<longleftrightarrow> (\<exists>n. qmap_erase lt h T k = Some (n, h', T'))"

locale qmap_env = strict_weak lt for lt :: "'k \<Rightarrow> 'k \<Rightarrow> bool" +
  fixes alloc :: "('k \<times> 'm) allocator"
  assumes alloc: "alloc_ok alloc"
begin

lemma qmap_get_mget: "qtree_inv lt fst h T xs \<Longrightarrow> qmap_get lt (h, T) = mget lt xs"
  by (rule ext) (simp add: qmap_get_def qmap_at_sim split: option.splits)

lemma qmap_step_sim:
  assumes "qtree_inv lt fst h T xs" "qmap_step alloc lt (h, T) x (h', T')"
  shows "\<exists>xs'. qtree_inv lt fst h' T' xs' \<and> mget lt xs' = apply_op (keys_equal lt) (mget lt xs) x"
proof (cases x)
  case (Put k m)
  with assms(2) obtain a i where "insert_or_assign alloc lt h T k (Some m) (Some m) = Some (Inr (a, i), h', T')" by auto
  with insert_or_assign_sim [OF assms(1) alloc, of k "Some m" "Some m"]
  obtain xs' m' where "evolves lt fst h T xs h' T' xs'" "if i then Some m = Some m' else Some m = Some m'"
    "\<forall>k'. mget lt xs' k' = (if keys_equal lt k k' then Some m' else mget lt xs k')" by auto
  moreover from this have "mget lt xs' = (\<lambda>k'. if keys_equal lt k k' then Some m else mget lt xs k')"
    by (intro ext) (auto split: if_splits)
  ultimately show ?thesis using Put by (auto dest: evolves_inv)
next
  case (Del k)
  with assms(2) qmap_erase_sim [OF assms(1), of k] show ?thesis using evolves_inv by fastforce
qed

end

sublocale qmap_env \<subseteq> store "qmap_ok lt" "keys_equal lt" "qmap_get lt" "qmap_step alloc lt"
proof
  fix s x s'
  assume ok: "qmap_ok lt s" and st: "qmap_step alloc lt s x s'"
  obtain h T h' T' where s: "s = (h, T)" "s' = (h', T')" by (cases s, cases s')
  from ok obtain xs where inv: "qtree_inv lt fst h T xs" by (auto simp: qmap_ok_def s)
  obtain xs' where xs': "qtree_inv lt fst h' T' xs'" "mget lt xs' = apply_op (keys_equal lt) (mget lt xs) x"
    using qmap_step_sim [OF inv st [unfolded s]] by blast
  show "qmap_ok lt s'" using xs'(1) by (auto simp: qmap_ok_def s)
  show "qmap_get lt s' = apply_op (keys_equal lt) (qmap_get lt s) x"
    using xs'(2) qmap_get_mget [OF inv] qmap_get_mget [OF xs'(1)] by (simp add: s)
qed

context qmap_env
begin

lemma is_store: "store (qmap_ok lt) (keys_equal lt) (qmap_get lt) (qmap_step alloc lt)"
  by unfold_locales

end

text \<open>An allocator that hands out the addresses of a pool; the map keyed by addresses.\<close>

definition pool_alloc :: "addr list \<Rightarrow> 'v allocator" where
  "pool_alloc pool h = List.find (\<lambda>a. h a = None) pool"

lemma pool_alloc_ok: "nullptr \<notin> set pool \<Longrightarrow> alloc_ok (pool_alloc pool)"
proof -
  have "List.find P pool = Some a \<Longrightarrow> P a \<and> a \<in> set pool" for P a
    by (induction pool) (auto split: if_splits)
  then show "nullptr \<notin> set pool \<Longrightarrow> alloc_ok (pool_alloc pool)"
    by (fastforce simp: alloc_ok_def pool_alloc_def)
qed

interpretation ea_map: qmap_env "(<) :: u64 \<Rightarrow> u64 \<Rightarrow> bool" "pool_alloc [16, 32, 48, 64]"
  by unfold_locales (simp add: pool_alloc_ok)

end
