(* ===== verification/QNodeLayout.thy ===== *)
theory QNodeLayout
  imports QNode
begin

text \<open>
  The two memory layouts of a node in \<open>src/src/include/qtree.hpp\<close>.  The tree
  algorithms touch the parent pointer, the colour and the nil flag of a node only through
  the accessors \<open>_parent\<close>, \<open>_set_parent\<close>, \<open>_color\<close>, \<open>_set_color\<close>, \<open>_is_nil\<close>,
  \<open>_set_is_nil\<close>.  The interface \<open>node_layout\<close> states what they rely on;
  \<open>qtree_node_unpacked\<close> (three fields) and \<open>qtree_node_packed\<close> (one word with two tag
  bits) both provide it.
\<close>

section \<open>The interface\<close>

text \<open>The view of a node the algorithms have: parent, colour, nil flag.\<close>

type_synonym node_tags = "addr \<times> color \<times> bool"

text \<open>\<open>node_alloc\<close> returns addresses aligned to at least four bytes.\<close>

definition aligned :: "addr \<Rightarrow> bool" where
  "aligned p \<longleftrightarrow> p AND 3 = 0"

datatype tag_write = Set_parent addr | Set_color color | Set_nil bool

fun tag_write_ok :: "tag_write \<Rightarrow> bool" where
  "tag_write_ok (Set_parent p) \<longleftrightarrow> aligned p"
| "tag_write_ok (Set_color c) \<longleftrightarrow> True"
| "tag_write_ok (Set_nil b) \<longleftrightarrow> True"

fun apply_tags :: "node_tags \<Rightarrow> tag_write \<Rightarrow> node_tags" where
  "apply_tags (p, c, b) (Set_parent p') = (p', c, b)"
| "apply_tags (p, c, b) (Set_color c') = (p, c', b)"
| "apply_tags (p, c, b) (Set_nil b') = (p, c, b')"

locale node_layout =
  fixes get_parent :: "'n \<Rightarrow> addr" and put_parent :: "'n \<Rightarrow> addr \<Rightarrow> 'n"
    and get_color :: "'n \<Rightarrow> color" and put_color :: "'n \<Rightarrow> color \<Rightarrow> 'n"
    and get_nil :: "'n \<Rightarrow> bool" and put_nil :: "'n \<Rightarrow> bool \<Rightarrow> 'n"
  assumes parent_parent: "aligned p \<Longrightarrow> get_parent (put_parent n p) = p"
    and parent_color: "get_parent (put_color n c) = get_parent n"
    and parent_nil: "get_parent (put_nil n b) = get_parent n"
    and color_parent: "get_color (put_parent n p) = get_color n"
    and color_color: "get_color (put_color n c) = c"
    and color_nil: "get_color (put_nil n b) = get_color n"
    and nil_parent: "get_nil (put_parent n p) = get_nil n"
    and nil_color: "get_nil (put_color n c) = get_nil n"
    and nil_nil: "get_nil (put_nil n b) = b"
begin

definition view :: "'n \<Rightarrow> node_tags" where
  "view n = (get_parent n, get_color n, get_nil n)"

fun put :: "'n \<Rightarrow> tag_write \<Rightarrow> 'n" where
  "put n (Set_parent p) = put_parent n p"
| "put n (Set_color c) = put_color n c"
| "put n (Set_nil b) = put_nil n b"

lemma put_view: "tag_write_ok w \<Longrightarrow> view (put n w) = apply_tags (view n) w"
  by (cases w)
    (simp_all add: view_def parent_parent parent_color parent_nil color_parent color_color
      color_nil nil_parent nil_color nil_nil)

text \<open>Any sequence of accesses sees what it would see on separate fields.\<close>

lemma puts_view:
  "\<forall>w\<in>set ws. tag_write_ok w \<Longrightarrow> view (foldl put n ws) = foldl apply_tags (view n) ws"
  by (induction ws arbitrary: n) (simp_all add: put_view)

end

section \<open>\<open>qtree_node_unpacked\<close>\<close>

record unpacked =
  u_parent :: addr
  u_color :: color
  u_is_nil :: bool

definition unpacked_new :: unpacked where
  "unpacked_new = \<lparr>u_parent = nullptr, u_color = Black, u_is_nil = True\<rparr>"

definition unpacked_set_parent :: "unpacked \<Rightarrow> addr \<Rightarrow> unpacked" where
  "unpacked_set_parent n p = n\<lparr>u_parent := p\<rparr>"

definition unpacked_set_color :: "unpacked \<Rightarrow> color \<Rightarrow> unpacked" where
  "unpacked_set_color n c = n\<lparr>u_color := c\<rparr>"

definition unpacked_set_is_nil :: "unpacked \<Rightarrow> bool \<Rightarrow> unpacked" where
  "unpacked_set_is_nil n b = n\<lparr>u_is_nil := b\<rparr>"

interpretation unpacked: node_layout u_parent unpacked_set_parent u_color unpacked_set_color
    u_is_nil unpacked_set_is_nil
  by unfold_locales (simp_all add: unpacked_set_parent_def unpacked_set_color_def unpacked_set_is_nil_def)

section \<open>\<open>qtree_node_packed\<close>\<close>

text \<open>The word \<open>parent_and_tags_\<close>.\<close>

definition color_mask :: u64 where "color_mask = 0x1"
definition nil_mask :: u64 where "nil_mask = 0x2"
definition tag_mask :: u64 where "tag_mask = color_mask OR nil_mask"
definition ptr_mask :: u64 where "ptr_mask = NOT tag_mask"

definition untag :: "u64 \<Rightarrow> addr" where
  "untag v = v AND ptr_mask"

definition tagptr :: "addr \<Rightarrow> u64 \<Rightarrow> u64" where
  "tagptr p tags = (p AND ptr_mask) OR (tags AND tag_mask)"

definition set_or_clear :: "u64 \<Rightarrow> bool \<Rightarrow> u64 \<Rightarrow> u64" where
  "set_or_clear v b m = (if b then v OR m else v AND NOT m)"

definition packed_new :: u64 where
  "packed_new = 0"

definition packed_parent :: "u64 \<Rightarrow> addr" where
  "packed_parent v = untag v"

definition packed_set_parent :: "u64 \<Rightarrow> addr \<Rightarrow> u64" where
  "packed_set_parent v p = tagptr p v"

definition packed_color :: "u64 \<Rightarrow> color" where
  "packed_color v = (if v AND color_mask \<noteq> 0 then Red else Black)"

definition packed_set_color :: "u64 \<Rightarrow> color \<Rightarrow> u64" where
  "packed_set_color v c = set_or_clear v (c = Red) color_mask"

definition packed_is_nil :: "u64 \<Rightarrow> bool" where
  "packed_is_nil v \<longleftrightarrow> v AND nil_mask \<noteq> 0"

definition packed_set_is_nil :: "u64 \<Rightarrow> bool \<Rightarrow> u64" where
  "packed_set_is_nil v b = set_or_clear v b nil_mask"

lemmas packed_defs = packed_parent_def packed_set_parent_def packed_color_def packed_set_color_def
  packed_is_nil_def packed_set_is_nil_def untag_def tagptr_def set_or_clear_def

text \<open>Bit by bit: bit 0 is the colour, bit 1 the nil flag, the others the pointer.\<close>

lemma bit_color_mask: "bit color_mask n \<longleftrightarrow> n = 0"
  unfolding color_mask_def by (cases n) (simp_all add: bit_simps)

lemma bit_nil_mask: "bit nil_mask n \<longleftrightarrow> n = 1"
  by (auto simp: nil_mask_def bit_2_iff possible_bit_def)

lemma bit_tag_mask: "bit tag_mask n \<longleftrightarrow> n = 0 \<or> n = 1"
  by (auto simp: tag_mask_def bit_or_iff bit_color_mask bit_nil_mask)

lemma bit_ptr_mask: "n < 64 \<Longrightarrow> bit ptr_mask n \<longleftrightarrow> n \<noteq> 0 \<and> n \<noteq> 1"
  by (simp add: ptr_mask_def bit_not_iff bit_tag_mask possible_bit_def)

lemma u64_and_eq_0: "(v :: u64) AND m = 0 \<longleftrightarrow> (\<forall>n<64. \<not> (bit v n \<and> bit m n))"
proof
  assume "v AND m = 0"
  then have "\<not> bit (v AND m) n" for n by simp
  then show "\<forall>n<64. \<not> (bit v n \<and> bit m n)" by (simp add: bit_and_iff)
next
  assume "\<forall>n<64. \<not> (bit v n \<and> bit m n)"
  then show "v AND m = 0" by (intro bit_word_eqI) (simp add: bit_and_iff)
qed

lemma and_color_mask: "v AND color_mask \<noteq> 0 \<longleftrightarrow> bit v 0"
  by (auto simp: u64_and_eq_0 bit_color_mask)

lemma and_nil_mask: "v AND nil_mask \<noteq> 0 \<longleftrightarrow> bit v 1"
  by (auto simp: u64_and_eq_0 bit_nil_mask)

lemma aligned_bits: "aligned p \<longleftrightarrow> \<not> bit p 0 \<and> \<not> bit p 1"
proof -
  have "(3 :: u64) = tag_mask" by (simp add: tag_mask_def color_mask_def nil_mask_def)
  then have "aligned p \<longleftrightarrow> (\<forall>n<64. \<not> (bit p n \<and> (n = 0 \<or> n = 1)))"
    by (simp only: aligned_def u64_and_eq_0 bit_tag_mask)
  also have "\<dots> \<longleftrightarrow> \<not> bit p 0 \<and> \<not> bit p 1" by (auto dest: spec [of _ 0] spec [of _ 1] intro!: gr0I)
  finally show ?thesis .
qed

lemma packed_bits [simp]:
  "n < 64 \<Longrightarrow> bit (packed_parent v) n \<longleftrightarrow> n \<noteq> 0 \<and> n \<noteq> 1 \<and> bit v n"
  "n < 64 \<Longrightarrow> bit (packed_set_parent v p) n \<longleftrightarrow> (if n = 0 \<or> n = 1 then bit v n else bit p n)"
  "n < 64 \<Longrightarrow> bit (packed_set_color v c) n \<longleftrightarrow> (if n = 0 then c = Red else bit v n)"
  "n < 64 \<Longrightarrow> bit (packed_set_is_nil v b) n \<longleftrightarrow> (if n = 1 then b else bit v n)"
  by (auto simp: packed_defs bit_and_iff bit_or_iff bit_not_iff bit_ptr_mask bit_tag_mask
      bit_color_mask bit_nil_mask possible_bit_def)

lemma packed_color_bit: "packed_color v = (if bit v 0 then Red else Black)"
  by (simp add: packed_color_def and_color_mask)

lemma packed_nil_bit: "packed_is_nil v = bit v 1"
  by (simp add: packed_is_nil_def and_nil_mask)

lemma u64_eqI: "(\<And>n. n < 64 \<Longrightarrow> bit a n = bit b n) \<Longrightarrow> a = (b :: u64)"
  by (rule bit_word_eqI) simp

interpretation packed: node_layout packed_parent packed_set_parent packed_color packed_set_color
    packed_is_nil packed_set_is_nil
proof
  show "aligned p \<Longrightarrow> packed_parent (packed_set_parent n p) = p" for n p
    by (rule u64_eqI) (auto simp: aligned_bits)
  show "packed_parent (packed_set_color n c) = packed_parent n" for n c
    by (rule u64_eqI) auto
  show "packed_parent (packed_set_is_nil n b) = packed_parent n" for n b
    by (rule u64_eqI) auto
qed (auto simp: packed_color_bit packed_nil_bit)

text \<open>
  The layouts differ in one respect: a fresh packed node is not nil, a fresh unpacked one is.
  \<open>node_new\<close> is always followed by \<open>_set_is_nil\<close> before the flag is read.
\<close>

lemma fresh_views:
  "unpacked.view unpacked_new = (nullptr, Black, True)"
  "packed.view packed_new = (nullptr, Black, False)"
  by (simp_all add: unpacked.view_def unpacked_new_def packed.view_def packed_new_def packed_parent_def
      untag_def packed_color_def packed_is_nil_def)

end
