(* ===== verification/QTreeProps.thy ===== *)
theory QTreeProps
  imports QMap QNodeLayout
begin

text \<open>
  The properties of the ordered containers of \<open>src/src/include/qtree.hpp\<close>.  In each,
  \<open>qtree_inv lt ks h T xs\<close> says that the heap \<open>h\<close> holds the tree object \<open>T\<close> with
  the elements \<open>xs\<close> in order, \<open>evolves\<close> that an operation ends in such a state and
  touches no memory but its own, and \<open>emplaced\<close> spells out the outcomes of an insertion.
  An equation with \<^const>\<open>Some\<close> includes that the code returns and never follows a
  dangling pointer.
\<close>

section \<open>A concrete tree, for the witnesses\<close>

definition demo_heap :: "u64 heap" where
  "demo_heap = [16 \<mapsto> hnode 32 32 48, 32 \<mapsto> mk 16 16 48 Black 5, 48 \<mapsto> mk 32 16 16 Red 7]"

definition demo_tree :: qtree where
  "demo_tree = \<lparr>t_header = 16, t_count = 2\<rparr>"

abbreviation demo_alloc :: "u64 allocator" where
  "demo_alloc \<equiv> pool_alloc [16, 32, 48, 64, 80, 96]"

lemma demo_alloc_ok: "alloc_ok (pool_alloc [16, 32, 48, 64, 80, 96])"
  by (rule pool_alloc_ok) simp

lemma demo_inv: "qtree_inv (<) id demo_heap demo_tree [(32, 5), (48, 7)]"
proof -
  let ?t = "Bin Tip 32 Black 5 (Bin Tip 48 Red 7 Tip)"
  have "trep demo_heap 16 32 48 ?t" by (simp add: trep_def demo_heap_def)
  moreover have "items ?t = [(32, 5), (48, 7)]" "rb ?t" by (simp_all add: rb_def)
  ultimately show ?thesis by (auto simp: qtree_inv_def demo_tree_def demo_heap_def intro!: exI [of _ ?t])
qed

lemma u64_less: "strict_weak ((<) :: u64 \<Rightarrow> u64 \<Rightarrow> bool)"
  by (rule strict_weak_linorder)

section \<open>Insertion\<close>

text \<open>
  C1: \<open>lazy_emplace_impl\<close>, the routine behind every insertion, is correct on every path.
  It always returns.  If the key is present it returns that element and changes nothing.
  Otherwise the new node comes from fresh memory, every old element keeps its address, the
  list of elements becomes the old list with the new one in its place, and the result is
  again a red-black tree with a right header and count.  If an exception leaves it (out of
  memory, or the constructor of the value threw) the elements and all their nodes are as
  before and nothing leaks.
\<close>

theorem lazy_emplace_correct:
  assumes "strict_weak lt" "qtree_inv lt ks h T xs" "alloc_ok alloc" "\<And>v. b = Some v \<Longrightarrow> ks v = key"
  shows "\<exists>r h' T'. lazy_emplace_impl alloc lt ks h T key b = Some (r, h', T') \<and>
    emplaced alloc lt ks h T xs key b r h' T'"
  by (rule strict_weak.lazy_emplace_sim [OF assms(1,2,3)]) (rule assms(4))

theorem lazy_emplace_correct_witness:
  "\<exists>r h' T'. lazy_emplace_impl demo_alloc (<) id demo_heap demo_tree 6 (Some 6) = Some (r, h', T') \<and>
    emplaced demo_alloc (<) id demo_heap demo_tree [(32, 5), (48, 7)] 6 (Some 6) r h' T'"
  by (rule lazy_emplace_correct [OF u64_less demo_inv demo_alloc_ok]) simp

text \<open>
  C2: \<open>erase_node\<close>, the routine behind every removal, always returns; it takes exactly the
  given element out, frees exactly its node (the destructor of its value runs once), leaves
  every other element in its node, in order, and restores the red-black invariants, the
  cached minimum and maximum and the count.
\<close>

theorem erase_node_correct:
  assumes "qtree_inv lt ks h T (xs @ (a, v) # ys)"
  shows "\<exists>h'. erase_node h T a = Some (h', T\<lparr>t_count := t_count T - 1\<rparr>) \<and>
    evolves lt ks h T (xs @ (a, v) # ys) h' (T\<lparr>t_count := t_count T - 1\<rparr>) (xs @ ys)"
  by (rule erase_node_sim [OF assms])

theorem erase_node_correct_witness:
  "\<exists>h'. erase_node demo_heap demo_tree 32 = Some (h', demo_tree\<lparr>t_count := t_count demo_tree - 1\<rparr>) \<and>
    evolves (<) id demo_heap demo_tree ([] @ (32, 5) # [(48, 7)]) h'
      (demo_tree\<lparr>t_count := t_count demo_tree - 1\<rparr>) ([] @ [(48, 7)])"
  by (rule erase_node_correct) (use demo_inv in simp)

text \<open>
  C3: insertion with a hint has the outcome of an insertion without one, for every valid
  iterator as the hint (an element, \<open>end()\<close>, or none): \<open>try_hint_insert\<close> accepts a hint
  only when the place it names is the place of the key.
\<close>

theorem emplace_hint_correct:
  assumes "strict_weak lt" "qtree_inv lt ks h T xs" "alloc_ok alloc" "\<And>v. b = Some v \<Longrightarrow> ks v = key"
    "valid_hint T xs p"
  shows "\<exists>r h' T'. lazy_emplace_with_hint alloc lt ks h T key p b = Some (r, h', T') \<and>
    emplaced alloc lt ks h T xs key b r h' T'"
  by (rule strict_weak.lazy_emplace_with_hint_sim [OF assms(1,2,3) _ assms(5)]) (rule assms(4))

theorem emplace_hint_correct_witness:
  "\<exists>r h' T'. lazy_emplace_with_hint demo_alloc (<) id demo_heap demo_tree 6 48 (Some 6) = Some (r, h', T') \<and>
    emplaced demo_alloc (<) id demo_heap demo_tree [(32, 5), (48, 7)] 6 (Some 6) r h' T'"
  by (rule emplace_hint_correct [OF u64_less demo_inv demo_alloc_ok]) (simp_all add: valid_hint_def)

text \<open>
  C4: inserting a sequence of values inserts them one by one, up to the first whose copy
  or allocation fails; whatever happens the tree is valid and holds exactly those values.
\<close>

theorem insert_list_correct:
  assumes "strict_weak lt" "qtree_inv lt ks h T xs" "alloc_ok alloc" "\<And>v w. cp v = Some w \<Longrightarrow> w = v"
  shows "\<exists>r h' T' xs' us. insert_list alloc cp lt ks h T vs = Some (r, h', T') \<and>
     evolves lt ks h T xs h' T' xs' \<and> map snd xs' = foldl (\<lambda>ws v. vinsert lt ks v ws) (map snd xs) us \<and>
     (case r of Inl _ \<Rightarrow> \<exists>w ws. vs = us @ w # ws | Inr _ \<Rightarrow> us = vs)"
  by (rule strict_weak.insert_list_sim [OF assms(1,2,3)]) (rule assms(4))

theorem insert_list_correct_witness:
  "\<exists>r h' T' xs' us. insert_list demo_alloc Some (<) id demo_heap demo_tree [6, 5, 9] = Some (r, h', T') \<and>
     evolves (<) id demo_heap demo_tree [(32, 5), (48, 7)] h' T' xs' \<and>
     map snd xs' = foldl (\<lambda>ws v. vinsert (<) id v ws) (map snd [(32 :: addr, 5), (48, 7)]) us \<and>
     (case r of Inl _ \<Rightarrow> \<exists>w ws. [6, 5, 9] = us @ w # ws | Inr _ \<Rightarrow> us = [6, 5, 9])"
  by (rule insert_list_correct [OF u64_less demo_inv demo_alloc_ok]) simp

section \<open>Removal\<close>

text \<open>
  C5: erasing by key removes the equivalent element if there is one and nothing else, and
  returns how many it removed.
\<close>

theorem erase_key_correct:
  assumes "strict_weak lt" "qtree_inv lt ks h T xs"
  shows "\<exists>h' T'. erase_key lt ks h T key = Some (if has_key lt ks key xs then 1 else 0, h', T') \<and>
    evolves lt ks h T xs h' T' (filter (\<lambda>x. \<not> keys_equal lt (ks (snd x)) key) xs)"
  by (rule strict_weak.erase_key_sim [OF assms])

theorem erase_key_correct_witness:
  "\<exists>h' T'. erase_key (<) id demo_heap demo_tree 7 = Some (if has_key (<) id (7 :: u64) [(32, 5), (48, 7)] then 1 else 0, h', T') \<and>
    evolves (<) id demo_heap demo_tree [(32, 5), (48, 7)] h' T'
      (filter (\<lambda>x. \<not> keys_equal (<) (id (snd x)) 7) [(32, 5), (48, 7)])"
  by (rule erase_key_correct [OF u64_less demo_inv])

text \<open>
  C6: erasing a range of iterators removes exactly the elements from the first up to, not
  including, the last, and returns the last iterator, which is still valid.
\<close>

theorem erase_range_correct:
  assumes "qtree_inv lt ks h T (xs @ ms @ zs)"
  shows "\<exists>h' T'. erase_range h T (first_addr (end_iter T) (ms @ zs)) (first_addr (end_iter T) zs) =
       Some (first_addr (end_iter T) zs, h', T') \<and> t_header T' = t_header T \<and>
     evolves lt ks h T (xs @ ms @ zs) h' T' (xs @ zs)"
  by (rule erase_range_sim [OF assms])

theorem erase_range_correct_witness:
  "\<exists>h' T'. erase_range demo_heap demo_tree (first_addr (end_iter demo_tree) ([(32, 5)] @ [(48, 7 :: u64)]))
       (first_addr (end_iter demo_tree) [(48, 7 :: u64)]) =
       Some (first_addr (end_iter demo_tree) [(48, 7 :: u64)], h', T') \<and> t_header T' = t_header demo_tree \<and>
     evolves (<) id demo_heap demo_tree ([] @ [(32, 5)] @ [(48, 7)]) h' T' ([] @ [(48, 7)])"
  by (rule erase_range_correct) (use demo_inv in simp)

text \<open>
  C7: \<open>erase_if\<close> removes exactly the elements that satisfy the predicate, keeps the others
  in order, and returns how many it removed.  The loop survives the removal of the node it
  stands on.
\<close>

theorem erase_if_correct:
  assumes "qtree_inv lt ks h T xs"
  shows "\<exists>h' T'. erase_if pred h T = Some (length (filter (\<lambda>x. pred (snd x)) xs), h', T') \<and>
     evolves lt ks h T xs h' T' (filter (\<lambda>x. \<not> pred (snd x)) xs)"
  by (rule erase_if_sim [OF assms])

theorem erase_if_correct_witness:
  "\<exists>h' T'. erase_if (\<lambda>v. v = 5) demo_heap demo_tree =
       Some (length (filter (\<lambda>x. snd x = 5) [(32 :: addr, 5 :: u64), (48, 7)]), h', T') \<and>
     evolves (<) id demo_heap demo_tree [(32, 5), (48, 7)] h' T' (filter (\<lambda>x. \<not> (snd x = 5)) [(32, 5), (48, 7)])"
  by (rule erase_if_correct [OF demo_inv])

text \<open>
  C8: \<open>clear\<close> and the destructor give every node back: after \<open>clear\<close> only the header
  remains, after the destructor the heap is the old one without the nodes of the tree.
\<close>

theorem clear_and_destroy_correct:
  assumes "qtree_inv lt ks h T xs"
  shows "(\<exists>h'. clear_tree h T = Some (h', T\<lparr>t_count := 0\<rparr>) \<and>
      evolves lt ks h T xs h' (T\<lparr>t_count := 0\<rparr>) []) \<and>
    destroy_tree h T = Some (h |` (- owned T xs))"
  by (rule conjI [OF clear_tree_sim [OF assms] destroy_tree_sim [OF assms]])

theorem clear_and_destroy_correct_witness:
  "(\<exists>h'. clear_tree demo_heap demo_tree = Some (h', demo_tree\<lparr>t_count := 0\<rparr>) \<and>
      evolves (<) id demo_heap demo_tree [(32, 5), (48, 7)] h' (demo_tree\<lparr>t_count := 0\<rparr>) []) \<and>
    destroy_tree demo_heap demo_tree = Some (demo_heap |` (- owned demo_tree [(32, 5 :: u64), (48, 7)]))"
  by (rule clear_and_destroy_correct [OF demo_inv])

section \<open>Lookup and iteration\<close>

text \<open>
  C9: the searches find what their contracts say, by the order of the elements:
  \<open>find\<close> the equivalent element or \<open>end()\<close>, \<open>lower_bound\<close> the first element not less
  than the key, \<open>upper_bound\<close> the first greater one, \<open>equal_range\<close> both, and
  \<open>contains\<close> and \<open>count\<close> whether there is an equivalent one.  This includes the
  header-less empty tree.
\<close>

theorem lookup_correct:
  assumes "strict_weak lt" "qtree_inv lt ks h T xs"
  shows "find_iter lt ks h T key = Some (first_where (end_iter T) (\<lambda>v. keys_equal lt (ks v) key) xs) \<and>
    lower_bound_node lt ks h T key = Some (first_where (end_iter T) (\<lambda>v. \<not> lt (ks v) key) xs) \<and>
    upper_bound_node lt ks h T key = Some (first_where (end_iter T) (\<lambda>v. lt key (ks v)) xs) \<and>
    equal_range lt ks h T key = Some (first_where (end_iter T) (\<lambda>v. \<not> lt (ks v) key) xs,
                                      first_where (end_iter T) (\<lambda>v. lt key (ks v)) xs) \<and>
    contains lt ks h T key = Some (has_key lt ks key xs) \<and>
    count lt ks h T key = Some (if has_key lt ks key xs then 1 else 0)"
proof -
  note f = strict_weak.find_sim [OF assms, of key] strict_weak.lower_bound_sim [OF assms, of key]
    strict_weak.upper_bound_sim [OF assms, of key]
  have "contains lt ks h T key = Some (has_key lt ks key xs)"
  proof (cases rule: first_where_cases [of xs "\<lambda>v. keys_equal lt (ks v) key" "end_iter T"])
    case none
    then show ?thesis using f by (auto simp: contains_def has_key_def end_iter_def)
  next
    case (some ys a v zs)
    then have "has_key lt ks key xs" "a \<noteq> end_iter T"
      using iter_deref_sim(3) [OF assms(2), of a v] by (auto simp: has_key_def)
    then show ?thesis using f some(4) by (simp add: contains_def end_iter_def)
  qed
  then show ?thesis using f by (simp add: find_iter_def equal_range_def count_def)
qed

theorem lookup_correct_witness:
  "find_iter (<) id demo_heap demo_tree 7 = Some 48 \<and>
    lower_bound_node (<) id demo_heap demo_tree 6 = Some 48 \<and>
    upper_bound_node (<) id demo_heap demo_tree 7 = Some (end_iter demo_tree) \<and>
    equal_range (<) id demo_heap demo_tree 7 = Some (48, end_iter demo_tree) \<and>
    contains (<) id demo_heap demo_tree 6 = Some False \<and> count (<) id demo_heap demo_tree 5 = Some 1"
  using lookup_correct [OF u64_less demo_inv, of 7] lookup_correct [OF u64_less demo_inv, of 6]
    lookup_correct [OF u64_less demo_inv, of 5]
  by (simp add: keys_equal_def has_key_def)

text \<open>The search with a bound on the number of nodes it visits.\<close>

fun find_within ::
  "nat \<Rightarrow> ('k \<Rightarrow> 'k \<Rightarrow> bool) \<Rightarrow> ('v \<Rightarrow> 'k) \<Rightarrow> 'v heap \<Rightarrow> addr \<Rightarrow> 'k \<Rightarrow> addr \<Rightarrow> addr option" where
  "find_within 0 lt ks h hdr key node = do { b \<leftarrow> is_nil h node; if b then Some hdr else None }"
| "find_within (Suc n) lt ks h hdr key node = do {
     b \<leftarrow> is_nil h node;
     if b then Some hdr
     else do {
       v \<leftarrow> node_val h node;
       if lt key (ks v) then do { l \<leftarrow> left h node; find_within n lt ks h hdr key l }
       else if lt (ks v) key then do { r \<leftarrow> right h node; find_within n lt ks h hdr key r }
       else Some node } }"

lemma find_within_sim:
  "trep h hdr mn mx (plug ctx t) \<Longrightarrow> ht t \<le> n \<Longrightarrow>
   \<exists>r. find_within n lt ks h hdr key (ptr hdr t) = Some r \<and> find_loop lt ks h hdr key (ptr hdr t) = Some r"
proof (induction t arbitrary: ctx n)
  case Tip
  then show ?case using trep_is_nil [OF Tip.prems(1)] by (cases n; subst find_loop.simps) simp_all
next
  case (Bin l a c v r)
  then obtain m where n: "n = Suc m" "ht l \<le> m" "ht r \<le> m" by (cases n) auto
  note reads = trep_reads [OF Bin.prems(1)]
  obtain rl where rl: "find_within m lt ks h hdr key (ptr hdr l) = Some rl" "find_loop lt ks h hdr key (ptr hdr l) = Some rl"
    using Bin.IH(1) [of "LF a c v r # ctx"] Bin.prems(1) n by auto
  obtain rr where rr: "find_within m lt ks h hdr key (ptr hdr r) = Some rr" "find_loop lt ks h hdr key (ptr hdr r) = Some rr"
    using Bin.IH(2) [of "RF l a c v # ctx"] Bin.prems(1) n by auto
  show ?case using reads rl rr n(1) by (subst find_loop.simps) (simp split: if_splits)
qed

text \<open>
  C10: a search is logarithmic: in a tree of \<open>n\<close> elements it visits at most
  \<open>d\<close> nodes, where \<open>2 ^ ((d + 1) div 2) \<le> n + 1\<close>, that is \<open>d \<le> 2 log (n + 1)\<close>.
\<close>

theorem find_logarithmic:
  assumes "qtree_inv lt ks h T xs" "t_header T \<noteq> nullptr"
  shows "\<exists>d r. 2 ^ ((d + 1) div 2) \<le> length xs + 1 \<and> find_node lt ks h T key = Some r \<and>
    do { node \<leftarrow> root h T; find_within d lt ks h (t_header T) key node } = Some r"
proof -
  from assms obtain t where t: "trep h (t_header T) (first_addr (t_header T) xs) (last_addr (t_header T) xs) t"
    "items t = xs" "rb t" "h nullptr = None" by (rule qtree_inv_obtain)
  obtain r where r: "find_within (ht t) lt ks h (t_header T) key (ptr (t_header T) t) = Some r"
      "find_loop lt ks h (t_header T) key (ptr (t_header T) t) = Some r"
    using find_within_sim [of h "t_header T" "first_addr (t_header T) xs" "last_addr (t_header T) xs" "[]" t "ht t" lt ks key]
      t(1) by auto
  have "root h T = Some (ptr (t_header T) t)" using trep_header_reads [OF t(1)] assms(2) by (simp add: root_def)
  moreover have "ptr (t_header T) t \<noteq> nullptr" by (rule trep_root_not_null [OF t(1,4)])
  moreover have "2 ^ ((ht t + 1) div 2) \<le> length xs + 1" using rb_height [OF t(3)] t(2) by simp
  ultimately show ?thesis using r by (intro exI [of _ "ht t"] exI [of _ r]) (simp add: find_node_def)
qed

theorem find_logarithmic_witness:
  "\<exists>d r. 2 ^ ((d + 1) div 2) \<le> length [(32 :: addr, 5 :: u64), (48, 7)] + 1 \<and>
    find_node (<) id demo_heap demo_tree 7 = Some r \<and>
    do { node \<leftarrow> root demo_heap demo_tree; find_within d (<) id demo_heap (t_header demo_tree) 7 node } = Some r"
  by (rule find_logarithmic [OF demo_inv]) (simp add: demo_tree_def)

text \<open>
  C11: iteration visits the elements in order, in both directions.  \<open>begin()\<close> is the first
  element; at an element \<open>*it\<close> is its value, \<open>++it\<close> the next element or \<open>end()\<close>,
  \<open>--it\<close> the previous one (the header for the first); \<open>--end()\<close> is the last element,
  so a reverse iterator at \<open>end()\<close> dereferences to it.
\<close>

theorem iteration_correct:
  assumes "qtree_inv lt ks h T (xs @ (a, v) # ys)"
  shows "begin_iter h T = Some (first_addr (end_iter T) (xs @ (a, v) # ys)) \<and>
    node_val h a = Some v \<and> a \<noteq> end_iter T \<and>
    iter_next h a = Some (first_addr (end_iter T) ys) \<and>
    iter_prev h a = Some (last_addr (end_iter T) xs) \<and>
    iter_prev h (end_iter T) = Some (last_addr (end_iter T) (xs @ (a, v) # ys)) \<and>
    reverse_deref h (end_iter T) = Some (snd (last (xs @ (a, v) # ys)))"
proof -
  have nz: "t_header T \<noteq> nullptr" using assms by (auto simp: qtree_inv_def)
  note e = iter_prev_end(1) [OF assms nz]
  have l: "last (xs @ (a, v) # ys) \<in> set (xs @ (a, v) # ys)" by (rule last_in_set) simp
  have "node_val h (last_addr (end_iter T) (xs @ (a, v) # ys)) = Some (snd (last (xs @ (a, v) # ys)))"
    using iter_deref_sim(1) [OF assms, of "fst (last (xs @ (a, v) # ys))" "snd (last (xs @ (a, v) # ys))"] l
    by (simp add: last_addr_def)
  then show ?thesis
    using begin_iter_sim [OF assms] iter_deref_sim [OF assms, of a v] iter_next_sim [OF assms]
      iter_prev_sim [OF assms] e by (simp add: reverse_deref_def del: first_addr_simps last_addr_simps)
qed

theorem iteration_correct_witness:
  "begin_iter demo_heap demo_tree = Some 32 \<and> node_val demo_heap 32 = Some 5 \<and>
    iter_next demo_heap 32 = Some 48 \<and> iter_prev demo_heap 32 = Some (end_iter demo_tree) \<and>
    iter_prev demo_heap (end_iter demo_tree) = Some 48 \<and> reverse_deref demo_heap (end_iter demo_tree) = Some 7"
  using iteration_correct [where lt = "(<)" and ks = id and xs = "[]" and a = 32 and v = 5 and ys = "[(48, 7)]",
      of demo_heap demo_tree] demo_inv by simp

section \<open>Whole trees\<close>

text \<open>
  C12: the copy constructor has the strong exception guarantee.  It builds a tree with the
  same values in fresh memory and leaves the source alone; when an allocation or a copy
  throws half-way, every node allocated so far is given back and the heap is exactly what
  it was.
\<close>

theorem copy_ctor_correct:
  assumes "qtree_inv lt ks h U xs" "alloc_ok alloc" "\<And>v w. cp v = Some w \<Longrightarrow> w = v"
  shows "\<exists>r h'. copy_ctor alloc cp h U = Some (r, h') \<and> (case r of
      Inl e \<Rightarrow> h' = h
    | Inr T \<Rightarrow> \<exists>ys. evolves lt ks h qtree_empty [] h' T ys \<and> map snd ys = map snd xs)"
  by (rule copy_ctor_sim [OF assms(1,2)]) (rule assms(3))

theorem copy_ctor_correct_witness:
  "\<exists>r h'. copy_ctor demo_alloc Some demo_heap demo_tree = Some (r, h') \<and> (case r of
      Inl e \<Rightarrow> h' = demo_heap
    | Inr T \<Rightarrow> \<exists>ys. evolves (<) id demo_heap qtree_empty [] h' T ys \<and>
        map snd ys = map snd [(32 :: addr, 5), (48, 7)])"
  by (rule copy_ctor_correct [OF demo_inv demo_alloc_ok]) simp

text \<open>
  C13: copy assignment replaces the elements by copies of the other tree's and frees the old
  nodes, or throws and changes nothing.
\<close>

theorem copy_assign_correct:
  assumes "qtree_inv lt ks h T xs" "qtree_inv lt ks h U zs" "alloc_ok alloc" "\<And>v w. cp v = Some w \<Longrightarrow> w = v"
  shows "\<exists>r h'. copy_assign alloc cp h T U = Some (r, h') \<and> (case r of
      Inl e \<Rightarrow> h' = h
    | Inr T' \<Rightarrow> \<exists>ys. evolves lt ks h T xs h' T' ys \<and> map snd ys = map snd zs)"
  by (rule copy_assign_sim [OF assms(1,2,3)]) (rule assms(4))

theorem copy_assign_correct_witness:
  "\<exists>r h'. copy_assign demo_alloc Some demo_heap qtree_empty demo_tree = Some (r, h') \<and> (case r of
      Inl e \<Rightarrow> h' = demo_heap
    | Inr T' \<Rightarrow> \<exists>ys. evolves (<) id demo_heap qtree_empty [] h' T' ys \<and>
        map snd ys = map snd [(32 :: addr, 5), (48, 7)])"
  by (rule copy_assign_correct [OF qtree_inv_empty demo_inv demo_alloc_ok]) (simp_all add: demo_heap_def)

text \<open>
  C14: \<open>operator==\<close> and \<open>operator<\<close> compare the element sequences, element by element and
  lexicographically, whatever the shapes of the two trees.
\<close>

theorem compare_correct:
  assumes "qtree_inv lt ks h A xs" "qtree_inv lt ks h B ys"
  shows "tree_equal eq h A B = Some (list_all2 eq (map snd xs) (map snd ys)) \<and>
    tree_less ls h A B = Some (lex_less ls (map snd xs) (map snd ys))"
  by (rule conjI [OF tree_equal_sim [OF assms] tree_less_sim [OF assms]])

theorem compare_correct_witness:
  "tree_equal (=) demo_heap demo_tree qtree_empty =
      Some (list_all2 (=) (map snd [(32 :: addr, 5 :: u64), (48, 7)]) (map snd ([] :: (addr \<times> u64) list))) \<and>
    tree_less (<) demo_heap demo_tree qtree_empty =
      Some (lex_less (<) (map snd [(32 :: addr, 5 :: u64), (48, 7)]) (map snd ([] :: (addr \<times> u64) list)))"
  by (rule compare_correct [OF demo_inv qtree_inv_empty]) (simp add: demo_heap_def)

section \<open>Maps\<close>

text \<open>
  C15: a \<open>qmap\<close> is a finite map.  After any sequence of \<open>insert_or_assign\<close> and \<open>erase\<close>
  calls that did not throw, \<open>at\<close> returns for every key what the last operation on an
  equivalent key left there, and throws \<open>std::out_of_range\<close> if it left nothing.
\<close>

theorem qmap_history_correct:
  assumes "strict_weak lt" "alloc_ok alloc" "qtree_inv lt fst h T xs"
    "store.run (qmap_step alloc lt) (h, T) ops (h', T')"
  shows "qmap_at lt h' T' k = Some (case foldl (apply_op (keys_equal lt)) (qmap_get lt (h, T)) ops k of
      None \<Rightarrow> Inl Out_of_range | Some m \<Rightarrow> Inr m)"
proof -
  have env: "qmap_env lt alloc" using assms(1,2) by (simp add: qmap_env_def qmap_env_axioms_def)
  have ok: "qmap_ok lt (h, T)" using assms(3) by (auto simp: qmap_ok_def)
  have st: "store (qmap_ok lt) (keys_equal lt) (qmap_get lt) (qmap_step alloc lt)"
    by (rule qmap_env.is_store [OF env])
  obtain xs' where "qtree_inv lt fst h' T' xs'"
    using store.run_ok [OF st ok assms(4)] by (auto simp: qmap_ok_def)
  note at = strict_weak.qmap_at_sim [OF assms(1) this, of k]
  have "qmap_get lt (h', T') k = foldl (apply_op (keys_equal lt)) (qmap_get lt (h, T)) ops k"
    using store.run_get [OF st ok assms(4)] by simp
  then show ?thesis using at by (auto simp: qmap_get_def split: option.splits)
qed

theorem qmap_history_correct_witness:
  "\<exists>h T. store.run (qmap_step (pool_alloc [16, 32, 48, 64]) (<)) (Map.empty, qtree_empty)
      [Put (1 :: u64) (10 :: u64)] (h, T) \<and> qmap_at (<) h T 1 = Some (Inr 10)"
proof -
  let ?h = "[16 \<mapsto> hnode 32 32 32, 32 \<mapsto> mk 16 16 16 Black (1, 10)] :: (u64 \<times> u64) heap"
  let ?T = "\<lparr>t_header = 16, t_count = 1\<rparr>"
  have "qmap_step (pool_alloc [16, 32, 48, 64]) (<) (Map.empty, qtree_empty) (Put (1 :: u64) (10 :: u64)) (?h, ?T)"
    by (simp add: insert_or_assign_def lazy_emplace_impl_def emplace_into_empty_tree_def ensure_header_def
        allocate_header_def node_new_def pool_alloc_def qtree_empty_def init_header_def node_defs blank_node_def
        emplace_at_def attach_root_def Let_def fun_upd_twist) blast
  then have run: "store.run (qmap_step (pool_alloc [16, 32, 48, 64]) (<)) (Map.empty, qtree_empty) [Put (1 :: u64) (10 :: u64)] (?h, ?T)"
    by (simp add: store.run.simps [OF ea_map.is_store])
  have "qmap_at (<) ?h ?T 1 = Some (case foldl (apply_op (keys_equal (<)))
      (qmap_get (<) (Map.empty, qtree_empty)) [Put (1 :: u64) (10 :: u64)] 1 of
      None \<Rightarrow> Inl Out_of_range | Some m \<Rightarrow> Inr m)"
    by (rule qmap_history_correct [OF u64_less _ qtree_inv_empty run]) (simp_all add: pool_alloc_ok)
  with run show ?thesis by (auto simp: keys_equal_def)
qed



text \<open>
  C17: \<open>operator[]\<close> returns a reference to the mapped value of the key.  It inserts the
  default value only when the key is not there, and leaves the map as it is when it is.
\<close>

theorem subscript_correct:
  assumes "strict_weak lt" "qtree_inv lt fst h T xs" "alloc_ok alloc"
  shows "\<exists>r h' T' xs'. qmap_subscript alloc lt h T key mb = Some (r, h', T') \<and>
    evolves lt fst h T xs h' T' xs' \<and> (case r of
      Inl e \<Rightarrow> xs' = xs
    | Inr a \<Rightarrow> \<exists>k m. (a, k, m) \<in> set xs' \<and> keys_equal lt k key \<and>
        (if has_key lt fst key xs then xs' = xs
         else mb = Some m \<and> (\<forall>k'. mget lt xs' k' = (if keys_equal lt key k' then Some m else mget lt xs k'))))"
  by (rule strict_weak.qmap_subscript_sim [OF assms])

theorem subscript_correct_witness:
  "\<exists>r h' T' xs'. qmap_subscript (pool_alloc [16, 32, 48, 64]) (<) Map.empty qtree_empty (1 :: u64) (Some (0 :: u64)) =
      Some (r, h', T') \<and> evolves (<) fst Map.empty qtree_empty [] h' T' xs' \<and> (case r of
      Inl e \<Rightarrow> xs' = []
    | Inr a \<Rightarrow> \<exists>k m. (a, k, m) \<in> set xs' \<and> keys_equal (<) k 1 \<and>
        (if has_key (<) fst (1 :: u64) ([] :: (addr \<times> u64 \<times> u64) list) then xs' = []
         else Some 0 = Some m \<and> (\<forall>k'. mget (<) xs' k' = (if keys_equal (<) 1 k' then Some m else mget (<) [] k'))))"
  by (rule subscript_correct [OF u64_less qtree_inv_empty]) (simp_all add: pool_alloc_ok)

section \<open>Node layouts\<close>

text \<open>
  C18: the packed node is a faithful representation of the unpacked one.  If a packed word
  and an unpacked node show the same parent, colour and nil flag, they still do after any
  sequence of writes of aligned parents, colours and flags: packing two bits into the
  pointer never loses or mixes up a field.
\<close>

theorem packed_node_simulates:
  assumes "packed.view v = unpacked.view u" "\<forall>w\<in>set ws. tag_write_ok w"
  shows "packed.view (foldl packed.put v ws) = unpacked.view (foldl unpacked.put u ws)"
  using packed.puts_view [OF assms(2), of v] unpacked.puts_view [OF assms(2), of u] assms(1) by simp

theorem packed_node_simulates_witness:
  "packed.view (foldl packed.put packed_new [Set_nil True, Set_parent 64, Set_color Red, Set_nil False]) =
     unpacked.view (foldl unpacked.put (unpacked_set_is_nil unpacked_new False)
       [Set_nil True, Set_parent 64, Set_color Red, Set_nil False])"
  by (rule packed_node_simulates)
    (simp_all add: fresh_views(2) unpacked.view_def unpacked_new_def unpacked_set_is_nil_def aligned_def)

end
