(* ===== verification/SnesCart.thy ===== *)
theory SnesCart
  imports Prelude
begin

text \<open>
  The cartridge description of the SNES loader and of the 65816 processor module:
  \<open>struct SuperFamicomCartridge\<close> of \<open>src/src/ldr/snes/super-famicom.hpp\<close>, the
  conversions of its enumerations to and from strings, and \<open>write_hash\<close>/\<open>read_hash\<close>,
  by which the loader hands the description to the processor module through a netnode.

  The netnode is kernel code that is not in the repository.  Its four hash functions are the
  argument \<open>nn\<close>, and what \<open>netnode.hpp\<close> documents of them is the locale
  \<open>netnode_hash\<close>.
\<close>

section \<open>Data\<close>

datatype cart_type =
    TypeNormal | TypeBsxSlotted | TypeBsxBios | TypeBsx | TypeSufamiTurboBios | TypeSufamiTurbo
  | TypeSuperGameBoy1Bios | TypeSuperGameBoy2Bios | TypeGameBoy | TypeUnknown

datatype region = NTSC | PAL

datatype memory_mapper =
    LoROM | HiROM | ExLoROM | ExHiROM | SuperFXROM | SA1ROM | SPC7110ROM
  | BSCLoROM | BSCHiROM | BSXROM | STROM

datatype dsp1_memory_mapper = DSP1Unmapped | DSP1LoROM1MB | DSP1LoROM2MB | DSP1HiROM

record cartridge =
  rom_size :: u32
  ram_size :: u32
  firmware_appended :: bool
  has_copier_header :: bool
  header_offset :: u32
  cart_type :: cart_type
  cart_region :: region
  cart_mapper :: memory_mapper
  dsp1_mapper :: dsp1_memory_mapper
  has_bsx_slot :: bool
  has_superfx :: bool
  has_sa1 :: bool
  has_sharprtc :: bool
  has_epsonrtc :: bool
  has_sdd1 :: bool
  has_spc7110 :: bool
  has_cx4 :: bool
  has_dsp1 :: bool
  has_dsp2 :: bool
  has_dsp3 :: bool
  has_dsp4 :: bool
  has_obc1 :: bool
  has_st010 :: bool
  has_st011 :: bool
  has_st018 :: bool

text \<open>The member initialisers.\<close>

definition cartridge_init :: cartridge where
  "cartridge_init = \<lparr>rom_size = 0, ram_size = 0, firmware_appended = False,
     has_copier_header = False, header_offset = 0,
     cart_type = TypeUnknown, cart_region = NTSC, cart_mapper = LoROM, dsp1_mapper = DSP1Unmapped,
     has_bsx_slot = False, has_superfx = False, has_sa1 = False, has_sharprtc = False,
     has_epsonrtc = False, has_sdd1 = False, has_spc7110 = False, has_cx4 = False,
     has_dsp1 = False, has_dsp2 = False, has_dsp3 = False, has_dsp4 = False,
     has_obc1 = False, has_st010 = False, has_st011 = False, has_st018 = False\<rparr>"

section \<open>Enumerations as strings\<close>

fun type_to_string :: "cart_type \<Rightarrow> string" where
  "type_to_string TypeNormal = ''TypeNormal''"
| "type_to_string TypeBsxSlotted = ''TypeBsxSlotted''"
| "type_to_string TypeBsxBios = ''TypeBsxBios''"
| "type_to_string TypeBsx = ''TypeBsx''"
| "type_to_string TypeSufamiTurboBios = ''TypeSufamiTurboBios''"
| "type_to_string TypeSufamiTurbo = ''TypeSufamiTurbo''"
| "type_to_string TypeSuperGameBoy1Bios = ''TypeSuperGameBoy1Bios''"
| "type_to_string TypeSuperGameBoy2Bios = ''TypeSuperGameBoy2Bios''"
| "type_to_string TypeGameBoy = ''TypeGameBoy''"
| "type_to_string TypeUnknown = ''TypeUnknown''"

definition string_to_type :: "string \<Rightarrow> cart_type" where
  "string_to_type s =
     (if s = ''TypeNormal'' then TypeNormal
      else if s = ''TypeBsxSlotted'' then TypeBsxSlotted
      else if s = ''TypeBsxBios'' then TypeBsxBios
      else if s = ''TypeBsx'' then TypeBsx
      else if s = ''TypeSufamiTurboBios'' then TypeSufamiTurboBios
      else if s = ''TypeSufamiTurbo'' then TypeSufamiTurbo
      else if s = ''TypeSuperGameBoy1Bios'' then TypeSuperGameBoy1Bios
      else if s = ''TypeSuperGameBoy2Bios'' then TypeSuperGameBoy2Bios
      else if s = ''TypeGameBoy'' then TypeGameBoy
      else if s = ''TypeUnknown'' then TypeUnknown
      else TypeUnknown)"

fun region_to_string :: "region \<Rightarrow> string" where
  "region_to_string NTSC = ''NTSC''"
| "region_to_string PAL = ''PAL''"

definition string_to_region :: "string \<Rightarrow> region" where
  "string_to_region s = (if s = ''NTSC'' then NTSC else if s = ''PAL'' then PAL else NTSC)"

fun mapper_to_string :: "memory_mapper \<Rightarrow> string" where
  "mapper_to_string LoROM = ''LoROM''"
| "mapper_to_string HiROM = ''HiROM''"
| "mapper_to_string ExLoROM = ''ExLoROM''"
| "mapper_to_string ExHiROM = ''ExHiROM''"
| "mapper_to_string SuperFXROM = ''SuperFXROM''"
| "mapper_to_string SA1ROM = ''SA1ROM''"
| "mapper_to_string SPC7110ROM = ''SPC7110ROM''"
| "mapper_to_string BSCLoROM = ''BSCLoROM''"
| "mapper_to_string BSCHiROM = ''BSCHiROM''"
| "mapper_to_string BSXROM = ''BSXROM''"
| "mapper_to_string STROM = ''STROM''"

definition string_to_mapper :: "string \<Rightarrow> memory_mapper" where
  "string_to_mapper s =
     (if s = ''LoROM'' then LoROM
      else if s = ''HiROM'' then HiROM
      else if s = ''ExLoROM'' then ExLoROM
      else if s = ''ExHiROM'' then ExHiROM
      else if s = ''SuperFXROM'' then SuperFXROM
      else if s = ''SA1ROM'' then SA1ROM
      else if s = ''SPC7110ROM'' then SPC7110ROM
      else if s = ''BSCLoROM'' then BSCLoROM
      else if s = ''BSCHiROM'' then BSCHiROM
      else if s = ''BSXROM'' then BSXROM
      else if s = ''STROM'' then STROM
      else LoROM)"

fun dsp1_mapper_to_string :: "dsp1_memory_mapper \<Rightarrow> string" where
  "dsp1_mapper_to_string DSP1Unmapped = ''DSP1Unmapped''"
| "dsp1_mapper_to_string DSP1LoROM1MB = ''DSP1LoROM1MB''"
| "dsp1_mapper_to_string DSP1LoROM2MB = ''DSP1LoROM2MB''"
| "dsp1_mapper_to_string DSP1HiROM = ''DSP1HiROM''"

definition string_to_dsp1_mapper :: "string \<Rightarrow> dsp1_memory_mapper" where
  "string_to_dsp1_mapper s =
     (if s = ''DSP1Unmapped'' then DSP1Unmapped
      else if s = ''DSP1LoROM1MB'' then DSP1LoROM1MB
      else if s = ''DSP1LoROM2MB'' then DSP1LoROM2MB
      else if s = ''DSP1HiROM'' then DSP1HiROM
      else DSP1Unmapped)"

lemma string_conversions [simp]:
  "string_to_type (type_to_string t) = t"
  "string_to_region (region_to_string r) = r"
  "string_to_mapper (mapper_to_string m) = m"
  "string_to_dsp1_mapper (dsp1_mapper_to_string d) = d"
proof -
  show "string_to_type (type_to_string t) = t" by (cases t) (simp_all add: string_to_type_def)
  show "string_to_region (region_to_string r) = r" by (cases r) (simp_all add: string_to_region_def)
  show "string_to_mapper (mapper_to_string m) = m" by (cases m) (simp_all add: string_to_mapper_def)
  show "string_to_dsp1_mapper (dsp1_mapper_to_string d) = d"
    by (cases d) (simp_all add: string_to_dsp1_mapper_def)
qed

section \<open>Saving and restoring the description\<close>

text \<open>
  The hash functions of a netnode: \<open>hashset\<close> with a number and with a string,
  \<open>hashval_long\<close>, and \<open>hashstr\<close> (\<^const>\<open>None\<close> for the result -1).
\<close>

record 'n netnode_ops =
  hashset_long :: "'n \<Rightarrow> string \<Rightarrow> u64 \<Rightarrow> 'n"
  hashset_str :: "'n \<Rightarrow> string \<Rightarrow> string \<Rightarrow> 'n"
  hashval_long :: "'n \<Rightarrow> string \<Rightarrow> u64"
  hashstr :: "'n \<Rightarrow> string \<Rightarrow> string option"

definition hashset_bool :: "'n netnode_ops \<Rightarrow> 'n \<Rightarrow> string \<Rightarrow> bool \<Rightarrow> 'n" where
  "hashset_bool nn n key b = hashset_long nn n key (if b then 1 else 0)"

definition hashval_bool :: "'n netnode_ops \<Rightarrow> 'n \<Rightarrow> string \<Rightarrow> bool" where
  "hashval_bool nn n key \<longleftrightarrow> hashval_long nn n key \<noteq> 0"

definition write_hash :: "'n netnode_ops \<Rightarrow> cartridge \<Rightarrow> 'n \<Rightarrow> 'n" where
  "write_hash nn c n =
    (let n = hashset_long nn n ''rom_size'' (ucast (rom_size c));
         n = hashset_long nn n ''ram_size'' (ucast (ram_size c));
         n = hashset_bool nn n ''firmware_appended'' (firmware_appended c);
         n = hashset_long nn n ''header_offset'' (ucast (header_offset c));
         n = hashset_str nn n ''type'' (type_to_string (cart_type c));
         n = hashset_str nn n ''region'' (region_to_string (cart_region c));
         n = hashset_str nn n ''mapper'' (mapper_to_string (cart_mapper c));
         n = hashset_str nn n ''dsp1_mapper'' (dsp1_mapper_to_string (dsp1_mapper c));
         n = hashset_bool nn n ''has_bsx_slot'' (has_bsx_slot c);
         n = hashset_bool nn n ''has_superfx'' (has_superfx c);
         n = hashset_bool nn n ''has_sa1'' (has_sa1 c);
         n = hashset_bool nn n ''has_sharprtc'' (has_sharprtc c);
         n = hashset_bool nn n ''has_epsonrtc'' (has_epsonrtc c);
         n = hashset_bool nn n ''has_sdd1'' (has_sdd1 c);
         n = hashset_bool nn n ''has_spc7110'' (has_spc7110 c);
         n = hashset_bool nn n ''has_cx4'' (has_cx4 c);
         n = hashset_bool nn n ''has_dsp1'' (has_dsp1 c);
         n = hashset_bool nn n ''has_dsp2'' (has_dsp2 c);
         n = hashset_bool nn n ''has_dsp3'' (has_dsp3 c);
         n = hashset_bool nn n ''has_dsp4'' (has_dsp4 c);
         n = hashset_bool nn n ''has_obc1'' (has_obc1 c);
         n = hashset_bool nn n ''has_st010'' (has_st010 c);
         n = hashset_bool nn n ''has_st011'' (has_st011 c);
         n = hashset_bool nn n ''has_st018'' (has_st018 c)
     in n)"

definition read_hash :: "'n netnode_ops \<Rightarrow> 'n \<Rightarrow> cartridge \<Rightarrow> cartridge" where
  "read_hash nn n c = c\<lparr>
     rom_size := ucast (hashval_long nn n ''rom_size''),
     ram_size := ucast (hashval_long nn n ''ram_size''),
     firmware_appended := hashval_bool nn n ''firmware_appended'',
     header_offset := ucast (hashval_long nn n ''header_offset''),
     cart_type := (case hashstr nn n ''type'' of Some s \<Rightarrow> string_to_type s | None \<Rightarrow> cart_type c),
     cart_region := (case hashstr nn n ''region'' of Some s \<Rightarrow> string_to_region s | None \<Rightarrow> cart_region c),
     cart_mapper := (case hashstr nn n ''mapper'' of Some s \<Rightarrow> string_to_mapper s | None \<Rightarrow> cart_mapper c),
     dsp1_mapper := (case hashstr nn n ''dsp1_mapper'' of
        Some s \<Rightarrow> string_to_dsp1_mapper s | None \<Rightarrow> dsp1_mapper c),
     has_bsx_slot := hashval_bool nn n ''has_bsx_slot'',
     has_superfx := hashval_bool nn n ''has_superfx'',
     has_sa1 := hashval_bool nn n ''has_sa1'',
     has_sharprtc := hashval_bool nn n ''has_sharprtc'',
     has_epsonrtc := hashval_bool nn n ''has_epsonrtc'',
     has_sdd1 := hashval_bool nn n ''has_sdd1'',
     has_spc7110 := hashval_bool nn n ''has_spc7110'',
     has_cx4 := hashval_bool nn n ''has_cx4'',
     has_dsp1 := hashval_bool nn n ''has_dsp1'',
     has_dsp2 := hashval_bool nn n ''has_dsp2'',
     has_dsp3 := hashval_bool nn n ''has_dsp3'',
     has_dsp4 := hashval_bool nn n ''has_dsp4'',
     has_obc1 := hashval_bool nn n ''has_obc1'',
     has_st010 := hashval_bool nn n ''has_st010'',
     has_st011 := hashval_bool nn n ''has_st011'',
     has_st018 := hashval_bool nn n ''has_st018''\<rparr>"

section \<open>What the netnode promises\<close>

locale netnode_hash =
  fixes nn :: "'n netnode_ops"
  assumes long_long: "hashval_long nn (hashset_long nn n k v) k' = (if k' = k then v else hashval_long nn n k')"
    and long_str: "k' \<noteq> k \<Longrightarrow> hashval_long nn (hashset_str nn n k s) k' = hashval_long nn n k'"
    and str_str: "hashstr nn (hashset_str nn n k s) k' = (if k' = k then Some s else hashstr nn n k')"
    and str_long: "k' \<noteq> k \<Longrightarrow> hashstr nn (hashset_long nn n k v) k' = hashstr nn n k'"
begin

lemma bool_long: "k' \<noteq> k \<Longrightarrow> hashval_bool nn (hashset_long nn n k v) k' = hashval_bool nn n k'"
  and bool_bool: "hashval_bool nn (hashset_bool nn n k b) k' = (if k' = k then b else hashval_bool nn n k')"
  and bool_str: "k' \<noteq> k \<Longrightarrow> hashval_bool nn (hashset_str nn n k s) k' = hashval_bool nn n k'"
  and long_bool: "k' \<noteq> k \<Longrightarrow> hashval_long nn (hashset_bool nn n k b) k' = hashval_long nn n k'"
  and str_bool: "k' \<noteq> k \<Longrightarrow> hashstr nn (hashset_bool nn n k b) k' = hashstr nn n k'"
  by (simp_all add: hashval_bool_def hashset_bool_def long_long long_str str_long)

lemma ucast_up_down: "ucast (ucast (x :: u32) :: u64) = x"
  by (simp add: ucast_up_ucast_id is_up)

lemma hash_longs:
  "(ucast (hashval_long nn (write_hash nn c n) ''rom_size'') :: u32) = rom_size c"
  "(ucast (hashval_long nn (write_hash nn c n) ''ram_size'') :: u32) = ram_size c"
  "(ucast (hashval_long nn (write_hash nn c n) ''header_offset'') :: u32) = header_offset c"
  by (simp_all add: write_hash_def Let_def long_long long_str long_bool ucast_up_down)

lemma hash_strings:
  "hashstr nn (write_hash nn c n) ''type'' = Some (type_to_string (cart_type c))"
  "hashstr nn (write_hash nn c n) ''region'' = Some (region_to_string (cart_region c))"
  "hashstr nn (write_hash nn c n) ''mapper'' = Some (mapper_to_string (cart_mapper c))"
  "hashstr nn (write_hash nn c n) ''dsp1_mapper'' = Some (dsp1_mapper_to_string (dsp1_mapper c))"
  by (simp_all add: write_hash_def Let_def str_str str_long str_bool)

lemma hash_bools:
  "hashval_bool nn (write_hash nn c n) ''firmware_appended'' = firmware_appended c"
  "hashval_bool nn (write_hash nn c n) ''has_bsx_slot'' = has_bsx_slot c"
  "hashval_bool nn (write_hash nn c n) ''has_superfx'' = has_superfx c"
  "hashval_bool nn (write_hash nn c n) ''has_sa1'' = has_sa1 c"
  "hashval_bool nn (write_hash nn c n) ''has_sharprtc'' = has_sharprtc c"
  "hashval_bool nn (write_hash nn c n) ''has_epsonrtc'' = has_epsonrtc c"
  "hashval_bool nn (write_hash nn c n) ''has_sdd1'' = has_sdd1 c"
  "hashval_bool nn (write_hash nn c n) ''has_spc7110'' = has_spc7110 c"
  "hashval_bool nn (write_hash nn c n) ''has_cx4'' = has_cx4 c"
  by (simp_all add: write_hash_def Let_def bool_bool bool_long bool_str)

lemma hash_bools_dsp:
  "hashval_bool nn (write_hash nn c n) ''has_dsp1'' = has_dsp1 c"
  "hashval_bool nn (write_hash nn c n) ''has_dsp2'' = has_dsp2 c"
  "hashval_bool nn (write_hash nn c n) ''has_dsp3'' = has_dsp3 c"
  "hashval_bool nn (write_hash nn c n) ''has_dsp4'' = has_dsp4 c"
  "hashval_bool nn (write_hash nn c n) ''has_obc1'' = has_obc1 c"
  "hashval_bool nn (write_hash nn c n) ''has_st010'' = has_st010 c"
  "hashval_bool nn (write_hash nn c n) ''has_st011'' = has_st011 c"
  "hashval_bool nn (write_hash nn c n) ''has_st018'' = has_st018 c"
  by (simp_all add: write_hash_def Let_def bool_bool bool_long bool_str)

lemma read_write_hash:
  "read_hash nn (write_hash nn c n) c' = c\<lparr>has_copier_header := has_copier_header c'\<rparr>"
  by (rule cartridge.equality)
    (simp_all add: read_hash_def hash_longs hash_strings hash_bools hash_bools_dsp)

end

text \<open>A netnode hash as a map from keys to values, the model the contract is interpreted on.\<close>

definition map_netnode :: "(string \<Rightarrow> (u64 + string) option) netnode_ops" where
  "map_netnode = \<lparr>
     hashset_long = (\<lambda>n k v. n(k \<mapsto> Inl v)),
     hashset_str = (\<lambda>n k s. n(k \<mapsto> Inr s)),
     hashval_long = (\<lambda>n k. case n k of Some (Inl v) \<Rightarrow> v | _ \<Rightarrow> 0),
     hashstr = (\<lambda>n k. case n k of Some (Inr s) \<Rightarrow> Some s | _ \<Rightarrow> None)\<rparr>"

interpretation map_nn: netnode_hash map_netnode
  by unfold_locales (simp_all add: map_netnode_def)

end
