(* ===== verification/SnesAddr.thy ===== *)
theory SnesAddr
  imports SnesCart
begin

text \<open>
  Translation of SNES bus addresses: \<open>class snes_addr_t\<close> of
  \<open>src/src/ldr/snes/addr.cpp\<close>, shared by the loader and the processor module.  The state
  of the class is the cartridge; each \<open>xlat_\<close> function returns the translated address
  and its output argument \<open>dispatched\<close>.

  A bus address is \<open>bank:addr\<close>, 8 and 16 bits; \<open>ea_t\<close> is 64 bits wide.  C++ computes
  the shifts and sums in \<open>int\<close> or \<open>uint32\<close>; no value reaches \<open>2 ^ 31\<close>, so both
  are 32-bit words here.
\<close>

section \<open>Banks and offsets\<close>

definition addr_of :: "u64 \<Rightarrow> u16" where
  "addr_of address = ucast (address AND 0xffff)"

definition bank_of :: "u64 \<Rightarrow> u8" where
  "bank_of address = ucast (drop_bit 16 address AND 0xff)"

text \<open>\<open>(b << 16) + w\<close> as an \<open>ea_t\<close>.\<close>

definition bus :: "u32 \<Rightarrow> u32 \<Rightarrow> u64" where
  "bus b w = ucast (push_bit 16 b + w)"

text \<open>
  The two ways save RAM is laid out: 32 KB per bank, as on LoROM boards, and 8 KB per bank
  at offset \<open>0x6000\<close>, as on HiROM boards.  \<open>base\<close> is the bank the RAM starts at.
\<close>

definition lorom_sram :: "cartridge \<Rightarrow> u8 \<Rightarrow> u16 \<Rightarrow> u64" where
  "lorom_sram c bank addr =
    (let ram_mask = ram_size c - 1;
         ram_offset = (push_bit 15 (ucast (bank AND 0xf)) + ucast (addr AND 0x7fff)) AND ram_mask
     in bus (0x70 + drop_bit 15 ram_offset) (ram_offset AND 0x7fff))"

definition hirom_sram :: "cartridge \<Rightarrow> u32 \<Rightarrow> u8 \<Rightarrow> u16 \<Rightarrow> u64" where
  "hirom_sram c base bank addr =
    (let ram_mask = ram_size c - 1;
         ram_offset = (push_bit 13 (ucast (bank AND 0x1f)) + (ucast addr - 0x6000)) AND ram_mask
     in bus (base + drop_bit 13 ram_offset) (0x6000 + (ram_offset AND 0x1fff)))"

section \<open>Common memory\<close>

definition xlat_system :: "u64 \<Rightarrow> u64 \<times> bool" where
  "xlat_system address = (let addr = addr_of address; bank = bank_of address in
     if 0x7e \<le> bank \<and> bank \<le> 0x7f then (address, True)
     else if bank \<le> 0x3f \<or> 0x80 \<le> bank \<and> bank \<le> 0xbf then
       if addr \<le> 0x1fff then (ucast (0x7e0000 + ucast addr :: u32), True)
       else if 0x2100 \<le> addr \<and> addr \<le> 0x213f then (ucast addr, True)
       else if 0x2140 \<le> addr \<and> addr \<le> 0x2183 then (ucast addr, True)
       else if 0x4016 \<le> addr \<and> addr \<le> 0x4017 then (ucast addr, True)
       else if 0x4200 \<le> addr \<and> addr \<le> 0x421f then (ucast addr, True)
       else if 0x4300 \<le> addr \<and> addr \<le> 0x437f then (ucast addr, True)
       else (address, False)
     else (address, False))"

section \<open>Coprocessor boards\<close>

definition xlat_cx4 :: "cartridge \<Rightarrow> u64 \<Rightarrow> u64 \<times> bool" where
  "xlat_cx4 c address = (let addr = addr_of address; bank = bank_of address in
     if ram_size c \<noteq> 0 \<and> 0x70 \<le> bank \<and> bank \<le> 0x77 \<and> addr \<le> 0x7fff then (address, True)
     else
       let (address', bank) = (if bank \<le> 0x7d then (address + 0x800000, bank + 0x80) else (address, bank)) in
       if bank \<le> 0xbf then
         if 0x8000 \<le> addr then (address', True)
         else if 0x6000 \<le> addr then (ucast addr, True)
         else (address', False)
       else (address', False))"

definition xlat_spc7110 :: "cartridge \<Rightarrow> u64 \<Rightarrow> u64 \<times> bool" where
  "xlat_spc7110 c address = (let addr = addr_of address; bank = bank_of address in
     if ram_size c \<noteq> 0 \<and> (bank \<le> 0x3f \<or> 0x80 \<le> bank \<and> bank \<le> 0xbf) \<and>
        0x6000 \<le> addr \<and> addr \<le> 0x7fff then (hirom_sram c 0 bank addr, True)
     else if 0x50 \<le> bank \<and> bank \<le> 0x5f then (address, True)
     else
       let (address', bank) = (if bank \<le> 0x7d then (address + 0x800000, bank + 0x80) else (address, bank)) in
       if 0xc0 \<le> bank then (address', True)
       else if 0x8000 \<le> addr then (bus (0xc0 + ucast (bank AND 0x3f)) (ucast addr), True)
       else if 0x4800 \<le> addr \<and> addr \<le> 0x483f then (ucast addr, True)
       else (address', False))"

definition xlat_sdd1 :: "cartridge \<Rightarrow> u64 \<Rightarrow> u64 \<times> bool" where
  "xlat_sdd1 c address = (let addr = addr_of address; bank = bank_of address in
     if ram_size c \<noteq> 0 \<and> 0x70 \<le> bank \<and> bank \<le> 0x7d \<and> addr \<le> 0x7fff
     then (lorom_sram c bank addr, True)
     else if ram_size c \<noteq> 0 \<and> (0x20 \<le> bank \<and> bank \<le> 0x3f \<or> 0xa0 \<le> bank \<and> bank \<le> 0xbf) \<and>
        0x6000 \<le> addr \<and> addr \<le> 0x7fff then (hirom_sram c 0x20 bank addr, True)
     else if bank \<le> 0x3f \<or> 0x80 \<le> bank \<and> bank \<le> 0xbf then
       if 0x8000 \<le> addr then (bus (ucast (bank OR 0x80)) (ucast addr), True)
       else if 0x4800 \<le> addr \<and> addr \<le> 0x4807 then (ucast addr, True)
       else (address, False)
     else if 0xc0 \<le> bank then (address, True)
     else (address, False))"

section \<open>The memory mappers\<close>

definition preserve_rom_mirror :: "cartridge \<Rightarrow> bool" where
  "preserve_rom_mirror c \<longleftrightarrow> rom_size c > 0x200000 \<or> ram_size c > 32 * 1024"

definition xlat_lorom :: "cartridge \<Rightarrow> u64 \<Rightarrow> u64 \<times> bool" where
  "xlat_lorom c address = (let addr = addr_of address; bank = bank_of address in
     if ram_size c \<noteq> 0 \<and> (0x70 \<le> bank \<and> bank \<le> 0x7d \<or> 0xf0 \<le> bank) \<and>
        (addr \<le> 0x7fff \<or> \<not> preserve_rom_mirror c)
     then (let ea = lorom_sram c bank addr in if 0xfe \<le> bank then (ea + 0x800000, True) else (ea, True))
     else
       let (address', bank) = (if bank \<le> 0x7d then (address + 0x800000, bank + 0x80) else (address, bank)) in
       if bank \<le> 0xbf \<and> 0x8000 \<le> addr then (address', True) else (address', False))"

definition xlat_hirom :: "cartridge \<Rightarrow> u64 \<Rightarrow> u64 \<times> bool" where
  "xlat_hirom c address = (let addr = addr_of address; bank = bank_of address in
     if ram_size c \<noteq> 0 \<and> (0x10 \<le> bank \<and> bank \<le> 0x3f \<or> 0x90 \<le> bank \<and> bank \<le> 0xbf) \<and>
        0x6000 \<le> addr \<and> addr \<le> 0x7fff then (hirom_sram c 0x20 bank addr, True)
     else
       let (address', bank) = (if bank \<le> 0x7d then (address + 0x800000, bank + 0x80) else (address, bank)) in
       if 0xc0 \<le> bank then (address', True)
       else if 0x8000 \<le> addr then (bus (0xc0 + ucast (bank AND 0x3f)) (ucast addr), True)
       else (address', False))"

definition xlat_exlorom :: "cartridge \<Rightarrow> u64 \<Rightarrow> u64 \<times> bool" where
  "xlat_exlorom c address = (let addr = addr_of address; bank = bank_of address in
     if ram_size c \<noteq> 0 \<and> 0x70 \<le> bank \<and> bank \<le> 0x7d \<and> addr \<le> 0x7fff
     then (lorom_sram c bank addr, True)
     else if ram_size c \<noteq> 0 \<and> (0x20 \<le> bank \<and> bank \<le> 0x3f \<or> 0xa0 \<le> bank \<and> bank \<le> 0xbf) \<and>
        0x6000 \<le> addr \<and> addr \<le> 0x7fff then (hirom_sram c 0x20 bank addr, True)
     else if bank \<le> 0x3f \<or> 0x80 \<le> bank \<and> bank \<le> 0xbf then
       if 0x8000 \<le> addr then (bus (ucast (bank OR 0x80)) (ucast addr), True) else (address, False)
     else if bank \<le> 0x7f then (address, True)
     else (address, False))"

definition xlat_exhirom :: "cartridge \<Rightarrow> u64 \<Rightarrow> u64 \<times> bool" where
  "xlat_exhirom c address = (let addr = addr_of address; bank = bank_of address in
     if ram_size c \<noteq> 0 \<and> (0x20 \<le> bank \<and> bank \<le> 0x3f \<or> 0xa0 \<le> bank \<and> bank \<le> 0xbf) \<and>
        0x6000 \<le> addr \<and> addr \<le> 0x7fff then (hirom_sram c 0x20 bank addr, True)
     else if ram_size c \<noteq> 0 \<and> 0x70 \<le> bank \<and> bank \<le> 0x7d \<and>
        (addr \<le> 0x7fff \<or> \<not> preserve_rom_mirror c) then (lorom_sram c bank addr, True)
     else if 0xc0 \<le> bank then (address, True)
     else if 0x80 \<le> bank then
       if 0x8000 \<le> addr then (bus (ucast bank + 0x40) (ucast addr), True) else (address, False)
     else if 0x40 \<le> bank then (address, True)
     else if 0x8000 \<le> addr then (bus (ucast bank + 0x40) (ucast addr), True)
     else (address, False))"

definition xlat_superfxrom :: "cartridge \<Rightarrow> u64 \<Rightarrow> u64 \<times> bool" where
  "xlat_superfxrom c address = (let addr = addr_of address; bank = bank_of address in
     if ram_size c \<noteq> 0 \<and> (bank \<le> 0x3f \<or> 0x80 \<le> bank \<and> bank \<le> 0xbf) \<and>
        0x6000 \<le> addr \<and> addr \<le> 0x7fff then (bus 0 (ucast addr), True)
     else if ram_size c \<noteq> 0 \<and> (0x70 \<le> bank \<and> bank \<le> 0x7f \<or> 0xf0 \<le> bank \<and> bank \<le> 0xf1)
     then (bus (ucast bank AND NOT 0x80) (ucast addr), True)
     else if 0x40 \<le> bank \<and> bank \<le> 0x5f \<or> 0xc0 \<le> bank \<and> bank \<le> 0xdf then (address, True)
     else if bank \<le> 0x3f \<or> 0x80 \<le> bank \<and> bank \<le> 0xbf then
       if 0x8000 \<le> addr then (address, True) else (address, False)
     else (address, False))"

definition xlat_sa1rom :: "cartridge \<Rightarrow> u64 \<Rightarrow> u64 \<times> bool" where
  "xlat_sa1rom c address0 = (let addr = addr_of address0; bank0 = bank_of address0;
       (address, bank) = (if 0x80 \<le> bank0 \<and> bank0 \<le> 0xbf then (address0 - 0x800000, bank0 - 0x80)
                          else (address0, bank0)) in
     if ram_size c \<noteq> 0 \<and> bank \<le> 0x3f \<and> 0x6000 \<le> addr \<and> addr \<le> 0x7fff
     then (bus 0x40 (ucast (addr AND 0x7fff) - 0x6000), True)
     else if ram_size c \<noteq> 0 \<and> \<not> bank \<le> 0x3f \<and> bank \<le> 0x4f
     then (bus (ucast bank AND NOT 0xe) (ucast addr), True)
     else if 0xc0 \<le> bank then (address, True)
     else if bank \<le> 0x3f then
       if 0x8000 \<le> addr then (address, True) else (address, False)
     else (address, False))"

section \<open>Clock chips, and chips without a map\<close>

text \<open>
  \<open>xlat_sharprtc\<close> and \<open>xlat_epsonrtc\<close> end in \<open>return false\<close>: the address
  they give back when they do not dispatch is 0, which \<open>xlat\<close> ignores.
\<close>

definition xlat_sharprtc :: "u64 \<Rightarrow> u64 \<times> bool" where
  "xlat_sharprtc address = (let addr = addr_of address; bank = bank_of address in
     if (bank \<le> 0x3f \<or> 0x80 \<le> bank \<and> bank \<le> 0xbf) \<and> 0x2800 \<le> addr \<and> addr \<le> 0x2801
     then (ucast addr, True) else (0, False))"

definition xlat_epsonrtc :: "u64 \<Rightarrow> u64 \<times> bool" where
  "xlat_epsonrtc address = (let addr = addr_of address; bank = bank_of address in
     if (bank \<le> 0x3f \<or> 0x80 \<le> bank \<and> bank \<le> 0xbf) \<and> 0x4840 \<le> addr \<and> addr \<le> 0x4842
     then (ucast addr, True) else (0, False))"

definition xlat_obc1 :: "u64 \<Rightarrow> u64 \<times> bool" where "xlat_obc1 address = (address, False)"
definition xlat_dsp1 :: "u64 \<Rightarrow> dsp1_memory_mapper \<Rightarrow> u64 \<times> bool" where "xlat_dsp1 address m = (address, False)"
definition xlat_dsp2 :: "u64 \<Rightarrow> u64 \<times> bool" where "xlat_dsp2 address = (address, False)"
definition xlat_dsp3 :: "u64 \<Rightarrow> u64 \<times> bool" where "xlat_dsp3 address = (address, False)"
definition xlat_dsp4 :: "u64 \<Rightarrow> u64 \<times> bool" where "xlat_dsp4 address = (address, False)"
definition xlat_st010 :: "u64 \<Rightarrow> u64 \<times> bool" where "xlat_st010 address = (address, False)"
definition xlat_st011 :: "u64 \<Rightarrow> u64 \<times> bool" where "xlat_st011 address = (address, False)"
definition xlat_st018 :: "u64 \<Rightarrow> u64 \<times> bool" where "xlat_st018 address = (address, False)"

section \<open>Dispatch\<close>

definition addr_init :: "cartridge \<Rightarrow> cartridge \<times> bool" where
  "addr_init cartridge = (cartridge,
     case cart_mapper cartridge of
       LoROM \<Rightarrow> True | HiROM \<Rightarrow> True | ExLoROM \<Rightarrow> True | ExHiROM \<Rightarrow> True
     | SuperFXROM \<Rightarrow> True | SA1ROM \<Rightarrow> True | SPC7110ROM \<Rightarrow> True
     | _ \<Rightarrow> False)"

text \<open>The translation by the board, the two \<open>else if\<close> and the \<open>switch\<close> of \<open>xlat\<close>.\<close>

definition xlat_board :: "cartridge \<Rightarrow> u64 \<Rightarrow> u64 \<times> bool" where
  "xlat_board c address =
     (if has_cx4 c then xlat_cx4 c address
      else if has_sdd1 c then xlat_sdd1 c address
      else (case cart_mapper c of
          LoROM \<Rightarrow> xlat_lorom c address
        | HiROM \<Rightarrow> xlat_hirom c address
        | ExLoROM \<Rightarrow> xlat_exlorom c address
        | ExHiROM \<Rightarrow> xlat_exhirom c address
        | SuperFXROM \<Rightarrow> xlat_superfxrom c address
        | SA1ROM \<Rightarrow> xlat_sa1rom c address
        | SPC7110ROM \<Rightarrow> xlat_spc7110 c address
        | _ \<Rightarrow> (address, False)))"

text \<open>The chips that are tried in turn when the board does not claim the address.\<close>

definition xlat_chips :: "cartridge \<Rightarrow> u64 \<Rightarrow> (u64 \<times> bool) list" where
  "xlat_chips c address =
     (if has_sharprtc c then [xlat_sharprtc address] else []) @
     (if has_epsonrtc c then [xlat_epsonrtc address] else []) @
     (if has_obc1 c then [xlat_obc1 address] else []) @
     (if has_dsp1 c then [xlat_dsp1 address (dsp1_mapper c)] else []) @
     (if has_dsp2 c then [xlat_dsp2 address] else []) @
     (if has_dsp3 c then [xlat_dsp3 address] else []) @
     (if has_dsp4 c then [xlat_dsp4 address] else []) @
     (if has_st010 c then [xlat_st010 address] else []) @
     (if has_st011 c then [xlat_st011 address] else []) @
     (if has_st018 c then [xlat_st018 address] else [])"

definition xlat :: "cartridge \<Rightarrow> u64 \<Rightarrow> u64" where
  "xlat c address = (let (remapped, dispatched) = xlat_system address in
     if dispatched then remapped
     else
       let (remapped, dispatched) = xlat_board c address in
       if dispatched then remapped
       else (case filter snd (xlat_chips c address) of (r, _) # _ \<Rightarrow> r | [] \<Rightarrow> address))"

end
