(* ===== verification/SnesBus.thy ===== *)
theory SnesBus
  imports SnesAddr
begin

text \<open>
  Arithmetic of bus addresses: the bank and offset of a translated address, and the place of
  a cell of save RAM, as natural numbers.
\<close>

section \<open>Bank and offset\<close>

lemma mod_div_nat: "(x :: nat) mod 2 ^ 64 div 65536 mod 256 = x div 65536 mod 256"
proof -
  have "drop_bit 16 (take_bit 64 x) = take_bit 48 (drop_bit 16 x)" by (simp add: drop_bit_take_bit)
  then have "x mod 2 ^ 64 div 65536 = x div 65536 mod 2 ^ 48" by (simp add: take_bit_eq_mod drop_bit_eq_div)
  then show ?thesis by (simp add: mod_mod_cancel)
qed
lemma addr_of_ucast: "addr_of a = ucast a"
  and bank_of_ucast: "bank_of a = ucast (drop_bit 16 a)"
proof -
  have m: "0xffff = (mask 16 :: u64)" "0xff = (mask 8 :: u64)" by (simp_all add: mask_eq_exp_minus_1)
  show "addr_of a = ucast a" "bank_of a = ucast (drop_bit 16 a)"
    unfolding addr_of_def bank_of_def m by (rule bit_word_eqI; simp add: bit_simps)+
qed

lemma addr_nat: "unat (addr_of a) = unat a mod 65536"
  by (simp add: addr_of_ucast unsigned_ucast_eq take_bit_eq_mod)

lemma bank_nat: "unat (bank_of a) = unat a div 65536 mod 256"
proof -
  have "unat (bank_of a) = take_bit 8 (unat (a div 65536))"
    by (simp only: bank_of_ucast unsigned_ucast_eq) (simp add: drop_bit_eq_div)
  then show ?thesis by (simp add: take_bit_eq_mod unat_div_distrib)
qed

lemma bank_add: "bank_of (a + 0x800000) = bank_of a + 0x80"
proof -
  have "unat (bank_of (a + 0x800000)) = (unat a + 128 * 65536) div 65536 mod 256"
    using mod_div_nat [of "unat a + 128 * 65536"] by (simp add: bank_nat unat_word_ariths)
  also have "\<dots> = (unat a div 65536 + 128) mod 256" by (simp only: div_mult_self1 [of 65536]) (simp add: add.commute)
  finally have "unat (bank_of (a + 0x800000)) = unat (bank_of a + 0x80)"
    by (simp add: bank_nat mod_simps unat_word_ariths)
  then show ?thesis by (simp only: word_unat_eq_iff)
qed

lemma addr_add: "addr_of (a + 0x800000) = addr_of a"
proof -
  have "unat (addr_of (a + 0x800000)) = (unat a + 128 * 65536) mod 65536"
    by (simp add: addr_nat unat_word_ariths mod_mod_cancel)
  also have "\<dots> = unat a mod 65536" by (simp only: mod_mult_self1)
  finally have "unat (addr_of (a + 0x800000)) = unat (addr_of a)" by (simp add: addr_nat)
  then show ?thesis by (simp only: word_unat_eq_iff)
qed

lemma bank_sub: "bank_of (a - 0x800000) = bank_of a - 0x80"
  using bank_add [of "a - 0x800000"] by (simp add: algebra_simps)

lemma addr_sub: "addr_of (a - 0x800000) = addr_of a"
  using addr_add [of "a - 0x800000"] by simp

lemma unat_bus: "b < 0x100 \<Longrightarrow> w < 0x10000 \<Longrightarrow> unat (bus b w) = unat b * 65536 + unat w"
  by (simp add: bus_def unsigned_ucast_eq unat_word_ariths word_less_nat_alt push_bit_eq_mult take_bit_eq_mod)

lemma unat_bank_bus:
  assumes "b < 0x100" "w < 0x10000"
  shows "unat (bank_of (bus b w)) = unat b"
  using assms by (simp add: bank_nat unat_bus word_less_nat_alt)

lemma unat_addr_bus:
  assumes "b < 0x100" "w < 0x10000"
  shows "unat (addr_of (bus b w)) = unat w"
proof -
  have "unat (addr_of (bus b w)) = (unat w + unat b * 65536) mod 65536"
    using assms by (simp add: addr_nat unat_bus add.commute)
  then show ?thesis using assms(2) by (simp only: mod_mult_self1) (simp add: word_less_nat_alt)
qed

lemma u8_bound: "unat (b :: u8) < 256" and u16_bound: "unat (w :: u16) < 65536"
  using unsigned_less [of b, where 'a = nat] unsigned_less [of w, where 'a = nat] by simp_all

lemma unat_ucast_small [simp]:
  "unat (ucast (b :: u8) :: u32) = unat b" "unat (ucast (w :: u16) :: u32) = unat w"
  "unat (ucast (w :: u16) :: u64) = unat w"
  using u8_bound [of b] u16_bound [of w] by (simp_all add: unsigned_ucast_eq take_bit_eq_mod)

lemma bus_ucast: "ucast (w :: u16) = bus 0 (ucast w)"
  using u16_bound [of w] by (simp add: word_unat_eq_iff unat_bus word_less_nat_alt)

lemma lit_masks: "(0xf :: u8) = mask 4" "(0x1f :: u8) = mask 5" "(0x3f :: u8) = mask 6" "(0x7fff :: u16) = mask 15"
  "(0x1fff :: u32) = mask 13" "(0x7fff :: u32) = mask 15"
  by (simp_all add: mask_eq_exp_minus_1)

definition ram_bits :: "cartridge \<Rightarrow> nat \<Rightarrow> bool" where
  "ram_bits c k \<longleftrightarrow> 11 \<le> k \<and> k \<le> 17 \<and> ram_size c = 2 ^ k"

definition lorom_off :: "nat \<Rightarrow> u8 \<Rightarrow> u16 \<Rightarrow> nat" where
  "lorom_off k b w = (unat b mod 16 * 32768 + unat w mod 32768) mod 2 ^ k"
definition hirom_off :: "nat \<Rightarrow> u8 \<Rightarrow> u16 \<Rightarrow> nat" where
  "hirom_off k b w = (unat b mod 32 * 8192 + (unat w - 24576)) mod 2 ^ k"

lemma pow17: "k \<le> 17 \<Longrightarrow> (2 :: nat) ^ k \<le> 131072"
  using power_increasing [of k 17 "2 :: nat"] by simp

lemma off_bound:
  assumes "ram_bits c k"
  shows "lorom_off k b w < 131072" "hirom_off k b w < 131072"
proof -
  have "(x :: nat) mod 2 ^ k < 131072" for x
    by (rule less_le_trans [OF mod_less_divisor pow17]) (use assms in \<open>simp_all add: ram_bits_def\<close>)
  then show "lorom_off k b w < 131072" "hirom_off k b w < 131072"
    by (simp_all add: lorom_off_def hirom_off_def)
qed

lemma and_ram_mask: "ram_bits c k \<Longrightarrow> unat (x AND (ram_size c - 1)) = unat x mod 2 ^ k"
  by (simp add: ram_bits_def unat_and_mask flip: mask_eq_exp_minus_1)

lemma lorom_sram_bus:
  assumes "ram_bits c k"
  obtains p q where "lorom_sram c b w = bus p q"
    "unat p = 0x70 + lorom_off k b w div 32768" "unat q = lorom_off k b w mod 32768" "p < 0x100" "q < 0x10000"
proof -
  let ?x = "push_bit 15 (ucast (b AND 0xf)) + ucast (w AND 0x7fff) :: u32"
  define ro where "ro = ?x AND (ram_size c - 1)"
  have x: "unat ?x = unat b mod 16 * 32768 + unat w mod 32768"
    by (simp add: lit_masks push_bit_eq_mult unat_word_ariths unat_and_mask)
  have o: "unat ro = lorom_off k b w"
    unfolding ro_def by (simp add: and_ram_mask [OF assms] x lorom_off_def)
  note bound = off_bound(1) [OF assms, of b w]
  have q: "unat (ro AND 0x7fff) = lorom_off k b w mod 32768"
    by (simp only: lit_masks unat_and_mask o) simp
  have p: "unat (0x70 + drop_bit 15 ro) = 0x70 + lorom_off k b w div 32768"
    using bound by (simp add: drop_bit_eq_div unat_word_ariths unat_div_distrib o)
  show ?thesis
  proof (rule that)
    show "lorom_sram c b w = bus (0x70 + drop_bit 15 ro) (ro AND 0x7fff)"
      by (simp only: lorom_sram_def ro_def Let_def)
  qed (use p q bound in \<open>simp_all add: word_less_nat_alt\<close>)
qed

lemma hirom_sram_bus:
  assumes "ram_bits c k" "base \<le> 0x20" "0x6000 \<le> w"
  obtains p q where "hirom_sram c base b w = bus p q"
    "unat p = unat base + hirom_off k b w div 8192" "unat q = 0x6000 + hirom_off k b w mod 8192" "p < 0x100" "q < 0x10000"
proof -
  let ?x = "push_bit 13 (ucast (b AND 0x1f)) + (ucast w - 0x6000) :: u32"
  define ro where "ro = ?x AND (ram_size c - 1)"
  have w: "24576 \<le> unat w" "unat w < 65536" using assms(3) u16_bound [of w] by (simp_all add: word_le_nat_alt)
  have "unat (ucast w - 0x6000 :: u32) = unat w - 24576"
    using w(1) by (subst unat_sub) (simp_all add: word_le_nat_alt)
  then have x: "unat ?x = unat b mod 32 * 8192 + (unat w - 24576)"
    using w by (simp add: lit_masks push_bit_eq_mult unat_word_ariths unat_and_mask)
  have o: "unat ro = hirom_off k b w"
    unfolding ro_def by (simp add: and_ram_mask [OF assms(1)] x hirom_off_def)
  note bound = off_bound(2) [OF assms(1), of b w]
  have q: "unat (0x6000 + (ro AND 0x1fff)) = 0x6000 + hirom_off k b w mod 8192"
    by (simp only: lit_masks unat_word_ariths unat_and_mask o) simp
  have p: "unat (base + drop_bit 13 ro) = unat base + hirom_off k b w div 8192"
    using bound assms(2) by (simp add: drop_bit_eq_div unat_word_ariths unat_div_distrib o word_le_nat_alt)
  show ?thesis
  proof (rule that)
    show "hirom_sram c base b w = bus (base + drop_bit 13 ro) (0x6000 + (ro AND 0x1fff))"
      by (simp only: hirom_sram_def ro_def Let_def)
  qed (use p q bound assms(2) in \<open>simp_all add: word_less_nat_alt word_le_nat_alt\<close>)
qed

text \<open>
  The canonical cell of an address in save RAM: its bank and offset, and that translating
  the canonical address again gives the same one.
\<close>

lemma lorom_off_idem:
  assumes "ram_bits c k" "unat b' = 0x70 + lorom_off k b w div 32768" "unat w' = lorom_off k b w mod 32768"
  shows "lorom_off k b' w' = lorom_off k b w"
proof -
  let ?o = "lorom_off k b w"
  have "?o div 32768 < 4" using off_bound(1) [OF assms(1), of b w] by simp
  then have "(0x70 + ?o div 32768) mod 16 = ?o div 32768" by (simp add: mod_add_eq [of 112 16, symmetric])
  then have "lorom_off k b' w' = ?o mod 2 ^ k"
    by (simp add: lorom_off_def [of k b'] assms(2,3))
  then show ?thesis by (simp add: lorom_off_def)
qed

lemma hirom_off_idem:
  assumes "ram_bits c k" "base = 0 \<or> base = 32" "unat b' = base + hirom_off k b w div 8192"
    "unat w' = 0x6000 + hirom_off k b w mod 8192"
  shows "hirom_off k b' w' = hirom_off k b w"
proof -
  let ?o = "hirom_off k b w"
  have "?o div 8192 < 16" using off_bound(2) [OF assms(1), of b w] by simp
  then have "(base + ?o div 8192) mod 32 = ?o div 8192" using assms(2) by auto
  then have "hirom_off k b' w' = ?o mod 2 ^ k"
    by (simp add: hirom_off_def [of k b'] assms(3,4))
  then show ?thesis by (simp add: hirom_off_def)
qed

lemma lorom_sram:
  assumes "ram_bits c k"
  shows "unat (bank_of (lorom_sram c b w)) = 0x70 + lorom_off k b w div 32768"
    and "unat (addr_of (lorom_sram c b w)) = lorom_off k b w mod 32768"
    and "lorom_sram c (bank_of (lorom_sram c b w)) (addr_of (lorom_sram c b w)) = lorom_sram c b w"
proof -
  obtain p q where r: "lorom_sram c b w = bus p q"
    "unat p = 0x70 + lorom_off k b w div 32768" "unat q = lorom_off k b w mod 32768" "p < 0x100" "q < 0x10000"
    by (rule lorom_sram_bus [OF assms])
  show bank: "unat (bank_of (lorom_sram c b w)) = 0x70 + lorom_off k b w div 32768"
    and addr: "unat (addr_of (lorom_sram c b w)) = lorom_off k b w mod 32768"
    by (simp_all only: r unat_bank_bus unat_addr_bus)
  let ?b = "bank_of (lorom_sram c b w)" and ?w = "addr_of (lorom_sram c b w)"
  obtain p' q' where r': "lorom_sram c ?b ?w = bus p' q'"
    "unat p' = 0x70 + lorom_off k ?b ?w div 32768" "unat q' = lorom_off k ?b ?w mod 32768"
    by (rule lorom_sram_bus [OF assms])
  have "p' = p" "q' = q" using r(2,3) r'(2,3) lorom_off_idem [OF assms bank addr] by (simp_all add: word_unat_eq_iff)
  then show "lorom_sram c ?b ?w = lorom_sram c b w" using r(1) r'(1) by simp
qed

lemma hirom_sram:
  assumes "ram_bits c k" "base = 0 \<or> base = 0x20" "0x6000 \<le> w"
  shows "unat (bank_of (hirom_sram c base b w)) = unat base + hirom_off k b w div 8192"
    and "unat (addr_of (hirom_sram c base b w)) = 0x6000 + hirom_off k b w mod 8192"
    and "hirom_sram c base (bank_of (hirom_sram c base b w)) (addr_of (hirom_sram c base b w)) = hirom_sram c base b w"
proof -
  have base: "base \<le> 0x20" and base': "unat base = 0 \<or> unat base = 32" using assms(2) by auto
  obtain p q where r: "hirom_sram c base b w = bus p q"
    "unat p = unat base + hirom_off k b w div 8192" "unat q = 0x6000 + hirom_off k b w mod 8192" "p < 0x100" "q < 0x10000"
    by (rule hirom_sram_bus [OF assms(1) base assms(3)])
  show bank: "unat (bank_of (hirom_sram c base b w)) = unat base + hirom_off k b w div 8192"
    and addr: "unat (addr_of (hirom_sram c base b w)) = 0x6000 + hirom_off k b w mod 8192"
    by (simp_all only: r unat_bank_bus unat_addr_bus)
  let ?b = "bank_of (hirom_sram c base b w)" and ?w = "addr_of (hirom_sram c base b w)"
  have w: "0x6000 \<le> ?w" using addr by (simp add: word_le_nat_alt)
  obtain p' q' where r': "hirom_sram c base ?b ?w = bus p' q'"
    "unat p' = unat base + hirom_off k ?b ?w div 8192" "unat q' = 0x6000 + hirom_off k ?b ?w mod 8192"
    by (rule hirom_sram_bus [OF assms(1) base w])
  have "p' = p" "q' = q"
    using r(2,3) r'(2,3) hirom_off_idem [OF assms(1) base' bank addr] by (simp_all add: word_unat_eq_iff)
  then show "hirom_sram c base ?b ?w = hirom_sram c base b w" using r(1) r'(1) by simp
qed

lemma lorom_sram_cong:
  assumes "ram_bits c k" "lorom_off k b w = lorom_off k b' w'"
  shows "lorom_sram c b w = lorom_sram c b' w'"
proof -
  obtain p q where r: "lorom_sram c b w = bus p q"
    "unat p = 0x70 + lorom_off k b w div 32768" "unat q = lorom_off k b w mod 32768"
    by (rule lorom_sram_bus [OF assms(1)])
  obtain p' q' where r': "lorom_sram c b' w' = bus p' q'"
    "unat p' = 0x70 + lorom_off k b' w' div 32768" "unat q' = lorom_off k b' w' mod 32768"
    by (rule lorom_sram_bus [OF assms(1)])
  have "p' = p" "q' = q" using r(2,3) r'(2,3) assms(2) by (simp_all add: word_unat_eq_iff)
  then show ?thesis using r(1) r'(1) by simp
qed

end
