(* ===== verification/SnesXlat.thy ===== *)
theory SnesXlat
  imports SnesBus
begin

text \<open>
  Translation is a projection onto canonical addresses: for every board, an address that the
  board translates is translated to one that the board leaves alone.
\<close>

lemmas bus_nat = word_le_nat_alt word_less_nat_alt

definition ram_ok :: "cartridge \<Rightarrow> bool" where
  "ram_ok c \<longleftrightarrow> ram_size c = 0 \<or> (\<exists>k. ram_bits c k)"

lemma bank_mirror: "unat (bank_of a) \<le> 125 \<Longrightarrow> unat (bank_of a + 0x80) = unat (bank_of a) + 128"
  by (simp add: unat_word_ariths)

lemma view_mirror: "unat (bank_of a) \<le> 125 \<Longrightarrow> unat (bank_of (a + 0x800000)) = unat (bank_of a) + 128"
  by (simp add: bank_add unat_word_ariths)

lemma view_reg: "bank_of (ucast (w :: u16)) = 0" "addr_of (ucast (w :: u16)) = w"
  using u16_bound [of w] by (simp_all add: bus_ucast word_unat_eq_iff unat_bank_bus unat_addr_bus bus_nat)

lemma view_bus:
  assumes "unat b < 256"
  shows "unat (bank_of (bus b (ucast (w :: u16)))) = unat b" "addr_of (bus b (ucast w)) = w"
  using assms u16_bound [of w] by (simp_all add: word_unat_eq_iff unat_bank_bus unat_addr_bus bus_nat)

lemma unat_hi_bank: "unat (0xc0 + ucast (b AND 0x3f) :: u32) = 192 + unat (b :: u8) mod 64"
proof -
  have "unat (ucast (b AND 0x3f) :: u32) = unat b mod 64"
    by (simp only: unat_ucast_small lit_masks unat_and_mask) simp
  then show ?thesis by (subst unat_word_ariths) simp
qed

lemma hirom_view:
  assumes "ram_bits c k" "base = 0 \<or> base = 0x20" "0x6000 \<le> w"
  shows "unat base \<le> unat (bank_of (hirom_sram c base b w))"
    and "unat (bank_of (hirom_sram c base b w)) \<le> unat base + 15"
    and "0x6000 \<le> unat (addr_of (hirom_sram c base b w))"
    and "unat (addr_of (hirom_sram c base b w)) \<le> 0x7fff"
  using hirom_sram [OF assms, of b] off_bound(2) [OF assms(1), of b w] by simp_all

lemma lorom_view:
  assumes "ram_bits c k"
  shows "0x70 \<le> unat (bank_of (lorom_sram c b w))" "unat (bank_of (lorom_sram c b w)) \<le> 0x73"
    and "unat (addr_of (lorom_sram c b w)) \<le> 0x7fff"
  using lorom_sram [OF assms, of b w] off_bound(1) [OF assms, of b w] by simp_all

text \<open>Taking a cascade of conditionals apart without splitting the conditions.\<close>

lemma ifE: "(if P then x else y) = z \<Longrightarrow> (P \<Longrightarrow> x = z \<Longrightarrow> R) \<Longrightarrow> (\<not> P \<Longrightarrow> y = z \<Longrightarrow> R) \<Longrightarrow> R"
  by (simp split: if_splits)

definition system_register :: "u16 \<Rightarrow> bool" where
  "system_register w \<longleftrightarrow> 0x2100 \<le> w \<and> w \<le> 0x213f \<or> 0x2140 \<le> w \<and> w \<le> 0x2183 \<or> 0x4016 \<le> w \<and> w \<le> 0x4017 \<or>
     0x4200 \<le> w \<and> w \<le> 0x421f \<or> 0x4300 \<le> w \<and> w \<le> 0x437f"

lemma xlat_system_cases:
  assumes "xlat_system a = (r, True)"
  obtains (wram) "r = a" "126 \<le> unat (bank_of a)" "unat (bank_of a) \<le> 127"
  | (low) "r = bus 0x7e (ucast (addr_of a))" "unat (addr_of a) < 0x4380"
      "unat (bank_of a) \<le> 63 \<or> 128 \<le> unat (bank_of a) \<and> unat (bank_of a) \<le> 191"
  | (register) "r = ucast (addr_of a)" "system_register (addr_of a)" "unat (addr_of a) < 0x4380"
      "unat (bank_of a) \<le> 63 \<or> 128 \<le> unat (bank_of a) \<and> unat (bank_of a) \<le> 191"
  using assms unfolding xlat_system_def Let_def
  by (elim ifE) (simp_all add: bus_def bus_nat system_register_def)

text \<open>
  What makes an address canonical: the board maps it to itself, and the memory that is
  common to all boards either does not claim it or maps it to itself too.
\<close>

definition canonical :: "(u64 \<Rightarrow> u64 \<times> bool) \<Rightarrow> u64 \<Rightarrow> bool" where
  "canonical f r \<longleftrightarrow> f r = (r, True) \<and> (snd (xlat_system r) \<longrightarrow> fst (xlat_system r) = r)"

lemma canonicalI:
  assumes "f r = (r, True)"
    "126 \<le> unat (bank_of r) \<and> unat (bank_of r) \<le> 127 \<or> 64 \<le> unat (bank_of r) \<and> unat (bank_of r) < 128 \<or>
     192 \<le> unat (bank_of r) \<or> 0x4380 \<le> unat (addr_of r)"
  shows "canonical f r"
proof -
  have "fst (xlat_system r) = r" if "snd (xlat_system r)"
  proof -
    from that obtain x where x: "xlat_system r = (x, True)" by (metis prod.collapse)
    from x have "x = r" by (cases rule: xlat_system_cases) (use assms(2) in linarith)+
    then show ?thesis using x by simp
  qed
  then show ?thesis using assms(1) by (simp add: canonical_def)
qed

lemmas view_simps = Let_def bus_nat bank_mirror view_mirror addr_add view_bus view_reg unat_hi_bank

lemma ram_okE: "ram_ok c \<Longrightarrow> ram_size c \<noteq> 0 \<Longrightarrow> (\<And>k. ram_bits c k \<Longrightarrow> P) \<Longrightarrow> P"
  by (auto simp: ram_ok_def)

text \<open>The cells of save RAM.\<close>

lemma lorom_cell:
  assumes "ram_ok c" "ram_size c \<noteq> 0" "r = lorom_sram c b w"
  shows "0x70 \<le> unat (bank_of r)" "unat (bank_of r) \<le> 0x73" "unat (addr_of r) \<le> 0x7fff"
    "lorom_sram c (bank_of r) (addr_of r) = r"
proof -
  obtain k where k: "ram_bits c k" using assms(1,2) by (rule ram_okE)
  show "0x70 \<le> unat (bank_of r)" "unat (bank_of r) \<le> 0x73" "unat (addr_of r) \<le> 0x7fff"
    "lorom_sram c (bank_of r) (addr_of r) = r"
    unfolding assms(3) by (rule lorom_view [OF k] lorom_sram(3) [OF k])+
qed

lemma hirom_cell:
  assumes "ram_ok c" "ram_size c \<noteq> 0" "r = hirom_sram c base b w" "base = 0 \<or> base = 0x20" "0x6000 \<le> w"
  shows "unat base \<le> unat (bank_of r)" "unat (bank_of r) \<le> unat base + 15"
    "0x6000 \<le> unat (addr_of r)" "unat (addr_of r) \<le> 0x7fff"
    "hirom_sram c base (bank_of r) (addr_of r) = r"
proof -
  obtain k where k: "ram_bits c k" using assms(1,2) by (rule ram_okE)
  show "unat base \<le> unat (bank_of r)" "unat (bank_of r) \<le> unat base + 15"
    "0x6000 \<le> unat (addr_of r)" "unat (addr_of r) \<le> 0x7fff"
    "hirom_sram c base (bank_of r) (addr_of r) = r"
    unfolding assms(3) by (rule hirom_view [OF k assms(4,5)] hirom_sram(3) [OF k assms(4,5)])+
qed

text \<open>The banks that the code computes with masks.\<close>

lemma unat_clear_bit7:
  assumes "112 \<le> unat b \<and> unat b \<le> 127 \<or> 240 \<le> unat b \<and> unat b \<le> 241"
  shows "unat (ucast b AND NOT 0x80 :: u32) = unat (b :: u8) mod 128"
proof -
  have "\<forall>n\<in>set [112..<128] \<union> set [240..<242]. unat (ucast (of_nat n :: u8) AND NOT 0x80 :: u32) = n mod 128"
    by (simp add: upt_rec)
  from bspec [OF this, of "unat b"] show ?thesis using assms by (simp only: set_upt) auto
qed

lemma unat_fold_bwram:
  assumes "64 \<le> unat b" "unat b \<le> 79"
  shows "unat (ucast b AND NOT 0xe :: u32) = 64 + unat (b :: u8) mod 2"
proof -
  have "\<forall>n\<in>set [64..<80]. unat (ucast (of_nat n :: u8) AND NOT 0xe :: u32) = 64 + n mod 2"
    by (simp add: upt_rec)
  from bspec [OF this, of "unat b"] show ?thesis using assms by (simp only: set_upt) simp
qed

lemma unat_or_0x80:
  assumes "unat b \<le> 63 \<or> 128 \<le> unat b \<and> unat b \<le> 191"
  shows "unat ((b :: u8) OR 0x80) = 128 + unat b mod 64"
proof -
  have "\<forall>n\<in>set [0..<64] \<union> set [128..<192]. unat ((of_nat n :: u8) OR 0x80) = 128 + n mod 64"
    by (simp add: upt_rec)
  from bspec [OF this, of "unat b"] show ?thesis using assms by (simp only: set_upt) auto
qed

lemma view_or_0x80:
  assumes "r = bus (ucast (bank_of a OR 0x80)) (ucast (addr_of a))"
    "bank_of a \<le> 0x3f \<or> 0x80 \<le> bank_of a \<and> bank_of a \<le> 0xbf"
  shows "unat (bank_of r) = 128 + unat (bank_of a) mod 64" "addr_of r = addr_of a" 
    "bank_of r OR 0x80 = bank_of a OR 0x80"
proof -
  have or: "unat (bank_of a OR 0x80) = 128 + unat (bank_of a) mod 64"
    by (rule unat_or_0x80) (use assms(2) in \<open>auto simp: bus_nat\<close>)
  have m: "(128 + n mod 64) mod 64 = n mod 64" for n :: nat
    using mod_mult_self1 [of "n mod 64" 2 64] by (simp add: add.commute)
  show v: "unat (bank_of r) = 128 + unat (bank_of a) mod 64" "addr_of r = addr_of a"
    using view_bus [of "ucast (bank_of a OR 0x80)" "addr_of a"] or by (simp_all add: assms(1))
  have "unat (bank_of r OR 0x80) = unat (bank_of a OR 0x80)"
    by (subst unat_or_0x80) (use v or m in simp_all)
  then show "bank_of r OR 0x80 = bank_of a OR 0x80" by (simp only: word_unat_eq_iff)
qed

section \<open>Boards\<close>

lemma xlat_cx4_canonical:
  assumes "xlat_cx4 c a = (r, True)"
  shows "canonical (xlat_cx4 c) r"
  using assms by (auto simp: xlat_cx4_def view_simps split: if_splits intro!: canonicalI)

lemma xlat_hirom_canonical:
  assumes "ram_ok c" "xlat_hirom c a = (r, True)"
  shows "canonical (xlat_hirom c) r"
  using assms(2) [unfolded xlat_hirom_def Let_def]
proof (elim ifE, goal_cases)
  case 1
  then have r: "r = hirom_sram c 0x20 (bank_of a) (addr_of a)" by simp
  note v = hirom_cell [OF assms(1) _ r]
  show ?case by (rule canonicalI) (use v 1 in \<open>simp_all add: xlat_hirom_def view_simps\<close>)
next
  case 2
  then show ?case
    by (auto simp: xlat_hirom_def view_simps split: if_splits intro!: canonicalI)
qed

lemma xlat_spc7110_canonical:
  assumes "ram_ok c" "xlat_spc7110 c a = (r, True)"
  shows "canonical (xlat_spc7110 c) r"
  using assms(2) [unfolded xlat_spc7110_def Let_def]
proof (elim ifE, goal_cases)
  case 1
  then have r: "r = hirom_sram c 0 (bank_of a) (addr_of a)" by simp
  note v = hirom_cell [OF assms(1) _ r]
  show ?case by (rule canonicalI) (use v 1 in \<open>simp_all add: xlat_spc7110_def view_simps\<close>)
next
  case 2
  then show ?case using assms(2) by (intro canonicalI) (simp_all add: bus_nat)
next
  case 3
  define b where "b = (if bank_of a \<le> 0x7d then bank_of a + 0x80 else bank_of a)"
  define e where "e = (if bank_of a \<le> 0x7d then a + 0x800000 else a)"
  have v: "bank_of e = b" "addr_of e = addr_of a" "128 \<le> unat b \<or> 126 \<le> unat b \<and> unat b \<le> 127"
    by (auto simp: e_def b_def bank_add addr_add bus_nat bank_mirror)
  have "(if 0xc0 \<le> b then (e, True)
       else if 0x8000 \<le> addr_of a then (bus (0xc0 + ucast (b AND 0x3f)) (ucast (addr_of a)), True)
       else if 0x4800 \<le> addr_of a \<and> addr_of a \<le> 0x483f then (ucast (addr_of a), True)
       else (e, False)) = (r, True)"
    using 3(3) unfolding b_def e_def
    by (cases "bank_of a \<le> 0x7d") (simp_all only: if_True if_False prod.case simp_thms)
  then show ?case
  proof (elim ifE, goal_cases)
    case 1
    then have "r = e" by simp
    then show ?case using v 1(1) by (intro canonicalI) (simp_all add: xlat_spc7110_def view_simps)
  next
    case 2
    then have r: "r = bus (0xc0 + ucast (b AND 0x3f)) (ucast (addr_of a))" by simp
    have "unat (bank_of r) = 192 + unat b mod 64" "addr_of r = addr_of a"
      using view_bus [of "0xc0 + ucast (b AND 0x3f)" "addr_of a"] by (simp_all add: r unat_hi_bank)
    then show ?case by (intro canonicalI) (simp_all add: xlat_spc7110_def view_simps)
  next
    case 3
    then have r: "r = ucast (addr_of a)" and w: "0x4800 \<le> addr_of a" "addr_of a \<le> 0x483f" by simp_all
    show ?case unfolding r by (rule canonicalI) (use w in \<open>simp_all add: xlat_spc7110_def view_simps\<close>)
  qed simp_all
qed

lemma xlat_superfxrom_canonical:
  assumes "xlat_superfxrom c a = (r, True)"
  shows "canonical (xlat_superfxrom c) r"
  using assms [unfolded xlat_superfxrom_def Let_def]
proof (elim ifE, goal_cases)
  case 1
  then have r: "r = bus 0 (ucast (addr_of a))" and w: "ram_size c \<noteq> 0" "0x6000 \<le> addr_of a" "addr_of a \<le> 0x7fff"
    by simp_all
  show ?case unfolding r by (rule canonicalI) (use w in \<open>simp_all add: xlat_superfxrom_def view_simps\<close>)
next
  case 2
  then have b: "112 \<le> unat (bank_of a) \<and> unat (bank_of a) \<le> 127 \<or> 240 \<le> unat (bank_of a) \<and> unat (bank_of a) \<le> 241"
    and ram: "ram_size c \<noteq> 0" by (simp_all add: bus_nat)
  define m :: u32 where "m = ucast (bank_of a) AND NOT 0x80"
  have r: "r = bus m (ucast (addr_of a))" using 2 by (simp add: m_def)
  have m0: "unat m = unat (bank_of a) mod 128" unfolding m_def by (rule unat_clear_bit7 [OF b])
  have "112 \<le> n mod 128 \<and> n mod 128 \<le> 127" if n: "112 \<le> n \<and> n \<le> 127 \<or> 240 \<le> n \<and> n \<le> 241" for n :: nat
  proof -
    from n have "112 \<le> n \<and> n \<le> 127 \<or> n = 240 \<or> n = 241" by linarith
    then show ?thesis by (elim disjE) simp_all
  qed
  from this [OF b] have m: "112 \<le> unat m" "unat m \<le> 127" by (simp_all add: m0)
  have v: "unat (bank_of r) = unat m" "addr_of r = addr_of a"
    using view_bus [of m "addr_of a"] m by (simp_all add: r)
  have "ucast (bank_of r) AND NOT 0x80 = m"
    by (simp only: word_unat_eq_iff, subst unat_clear_bit7) (use v m in simp_all)
  then have "xlat_superfxrom c r = (r, True)" using v m ram by (simp add: xlat_superfxrom_def view_simps r)
  then show ?case by (rule canonicalI) (use v m in simp)
next
  case 3
  then show ?case using assms by (intro canonicalI) (auto simp: bus_nat)
next
  case 4
  then show ?case using assms by (intro canonicalI) (simp_all add: bus_nat)
qed simp_all

lemma xlat_sdd1_canonical:
  assumes "ram_ok c" "xlat_sdd1 c a = (r, True)"
  shows "canonical (xlat_sdd1 c) r"
  using assms(2) [unfolded xlat_sdd1_def Let_def] 
proof (elim ifE, goal_cases)
  case 1
  then have r: "r = lorom_sram c (bank_of a) (addr_of a)" by simp
  note v = lorom_cell [OF assms(1) _ r]
  show ?case by (rule canonicalI) (use v 1 in \<open>simp_all add: xlat_sdd1_def view_simps\<close>)
next
  case 2
  then have r: "r = hirom_sram c 0x20 (bank_of a) (addr_of a)" by simp
  note v = hirom_cell [OF assms(1) _ r]
  show ?case by (rule canonicalI) (use v 2 in \<open>simp_all add: xlat_sdd1_def view_simps\<close>)
next
  case 3
  then have r: "r = bus (ucast (bank_of a OR 0x80)) (ucast (addr_of a))" by simp
  note v = view_or_0x80 [OF r]
  have "xlat_sdd1 c r = (r, True)" using v 3 by (simp add: xlat_sdd1_def view_simps r)
  then show ?case by (rule canonicalI) (use v 3 in \<open>simp add: bus_nat\<close>)
next
  case 4
  then have r: "r = ucast (addr_of a)" and w: "0x4800 \<le> addr_of a" "addr_of a \<le> 0x4807" by simp_all
  show ?case unfolding r by (rule canonicalI) (use w in \<open>simp_all add: xlat_sdd1_def view_simps\<close>)
next
  case 5
  then show ?case by simp
next
  case 6
  then show ?case using assms(2) by (intro canonicalI) (simp_all add: bus_nat)
qed simp

lemma xlat_exlorom_canonical:
  assumes "ram_ok c" "xlat_exlorom c a = (r, True)"
  shows "canonical (xlat_exlorom c) r"
  using assms(2) [unfolded xlat_exlorom_def Let_def]
proof (elim ifE, goal_cases)
  case 1
  then have r: "r = lorom_sram c (bank_of a) (addr_of a)" by simp
  note v = lorom_cell [OF assms(1) _ r]
  show ?case by (rule canonicalI) (use v 1 in \<open>simp_all add: xlat_exlorom_def view_simps\<close>)
next
  case 2
  then have r: "r = hirom_sram c 0x20 (bank_of a) (addr_of a)" by simp
  note v = hirom_cell [OF assms(1) _ r]
  show ?case by (rule canonicalI) (use v 2 in \<open>simp_all add: xlat_exlorom_def view_simps\<close>)
next
  case 3
  then have r: "r = bus (ucast (bank_of a OR 0x80)) (ucast (addr_of a))" by simp
  note v = view_or_0x80 [OF r] 
  have "xlat_exlorom c r = (r, True)" using v 3 by (simp add: xlat_exlorom_def view_simps r)
  then show ?case by (rule canonicalI) (use v 3 in \<open>simp add: bus_nat\<close>)
next
  case 5
  then show ?case using assms(2) by (intro canonicalI) (simp_all add: bus_nat)
qed simp_all

lemma xlat_exhirom_canonical:
  assumes "ram_ok c" "preserve_rom_mirror c" "xlat_exhirom c a = (r, True)"
  shows "canonical (xlat_exhirom c) r"
  using assms(3) [unfolded xlat_exhirom_def Let_def]
proof (elim ifE, goal_cases)
  case 1
  then have r: "r = hirom_sram c 0x20 (bank_of a) (addr_of a)" by simp
  note v = hirom_cell [OF assms(1) _ r]
  show ?case by (rule canonicalI) (use v 1 in \<open>simp_all add: xlat_exhirom_def view_simps\<close>)
next
  case 2
  then have r: "r = lorom_sram c (bank_of a) (addr_of a)" by simp
  note v = lorom_cell [OF assms(1) _ r]
  show ?case by (rule canonicalI) (use v 2 in \<open>simp_all add: xlat_exhirom_def view_simps\<close>)
next
  case 3
  then show ?case using assms(3) by (intro canonicalI) (simp_all add: bus_nat)
next
  case 4
  then have r: "r = bus (ucast (bank_of a) + 0x40) (ucast (addr_of a))" by simp
  have "unat (ucast (bank_of a) + 0x40 :: u32) = unat (bank_of a) + 64"
    by (subst unat_word_ariths) (use u8_bound [of "bank_of a"] in simp)
  then have v: "unat (bank_of r) = unat (bank_of a) + 64" "addr_of r = addr_of a"
    using view_bus [of "ucast (bank_of a) + 0x40" "addr_of a"] 4 by (simp_all add: r bus_nat)
  show ?case by (rule canonicalI) (use v 4 assms(2) in \<open>simp_all add: xlat_exhirom_def view_simps\<close>)
next
  case 6
  then show ?case using assms(3) by (intro canonicalI) (simp_all add: bus_nat)
next
  case 7
  then have r: "r = bus (ucast (bank_of a) + 0x40) (ucast (addr_of a))" by simp
  have "unat (ucast (bank_of a) + 0x40 :: u32) = unat (bank_of a) + 64"
    by (subst unat_word_ariths) (use u8_bound [of "bank_of a"] in simp)
  then have v: "unat (bank_of r) = unat (bank_of a) + 64" "addr_of r = addr_of a"
    using view_bus [of "ucast (bank_of a) + 0x40" "addr_of a"] 7 by (simp_all add: r bus_nat)
  show ?case by (rule canonicalI) (use v 7 assms(2) in \<open>simp_all add: xlat_exhirom_def view_simps\<close>)
qed simp_all

text \<open>
  On a LoROM board the two banks \<open>0xfe\<close> and \<open>0xff\<close> of save RAM are moved up by
  \<open>0x800000\<close> after their cell was computed, so their result is not canonical.
\<close>

definition lorom_sram_high :: "cartridge \<Rightarrow> u64 \<Rightarrow> bool" where
  "lorom_sram_high c a \<longleftrightarrow> ram_size c \<noteq> 0 \<and> 0xfe \<le> bank_of a \<and> (addr_of a \<le> 0x7fff \<or> \<not> preserve_rom_mirror c)"

lemma xlat_lorom_canonical:
  assumes "ram_ok c" "xlat_lorom c a = (r, True)" "\<not> lorom_sram_high c a"
  shows "canonical (xlat_lorom c) r"
  using assms(2) [unfolded xlat_lorom_def Let_def]
proof (elim ifE, goal_cases)
  case 1
  then show ?case using assms(3) by (simp add: lorom_sram_high_def)
next
  case 2
  then have r: "r = lorom_sram c (bank_of a) (addr_of a)" by simp
  note v = lorom_cell [OF assms(1) _ r]
  show ?case by (rule canonicalI) (use v 2 in \<open>simp_all add: xlat_lorom_def view_simps\<close>)
next
  case 3
  then show ?case
    by (auto simp: xlat_lorom_def view_simps split: if_splits intro!: canonicalI)
qed

lemma xlat_lorom_high:
  assumes "ram_ok c" "lorom_sram_high c a"
  shows "xlat_lorom c a = (lorom_sram c (bank_of a) (addr_of a) + 0x800000, True)"
    and "xlat_lorom c (lorom_sram c (bank_of a) (addr_of a) + 0x800000) = (lorom_sram c (bank_of a) (addr_of a), True)"
proof -
  let ?s = "lorom_sram c (bank_of a) (addr_of a)"
  have ram: "ram_size c \<noteq> 0" and w: "addr_of a \<le> 0x7fff \<or> \<not> preserve_rom_mirror c" and b: "0xfe \<le> bank_of a"
    using assms(2) by (simp_all add: lorom_sram_high_def)
  then show "xlat_lorom c a = (?s + 0x800000, True)" by (auto simp: xlat_lorom_def view_simps)
  obtain k where k: "ram_bits c k" using assms(1) ram by (rule ram_okE)
  note v = lorom_cell [OF assms(1) ram refl, of "bank_of a" "addr_of a"]
  have b: "unat (bank_of (?s + 0x800000)) = unat (bank_of ?s) + 128" using v by (intro view_mirror) simp
  have "lorom_off k (bank_of (?s + 0x800000)) (addr_of (?s + 0x800000)) = lorom_off k (bank_of ?s) (addr_of ?s)"
    using mod_mult_self1 [of "unat (bank_of ?s)" 8 16] by (simp add: lorom_off_def b addr_add)
  then have "lorom_sram c (bank_of (?s + 0x800000)) (addr_of (?s + 0x800000)) = ?s"
    using lorom_sram_cong [OF k] v(4) by metis
  then show "xlat_lorom c (?s + 0x800000) = (?s, True)"
    using v ram b by (simp add: xlat_lorom_def view_simps)
qed

lemma bwram_again:
  assumes "r = bus m q" "unat m = 64 + n mod 2" "unat q < 65536"
  shows "bus (ucast (bank_of r) AND NOT 0xe) (ucast (addr_of r)) = r"
proof -
  have v: "unat (bank_of r) = unat m" "unat (addr_of r) = unat q"
    using assms by (simp_all add: unat_bank_bus unat_addr_bus bus_nat)
  have "unat (ucast (bank_of r) AND NOT 0xe :: u32) = 64 + unat (bank_of r) mod 2"
    by (rule unat_fold_bwram) (use v assms(2) in simp_all)
  also have "\<dots> = unat m" using mod_mult_self1 [of "n mod 2" 32 2] by (simp add: v assms(2) add.commute)
  finally have "ucast (bank_of r) AND NOT 0xe = m" by (simp only: word_unat_eq_iff)
  moreover have "ucast (addr_of r) = q" using v by (simp add: word_unat_eq_iff)
  ultimately show ?thesis by (simp only: assms(1))
qed

lemma xlat_sa1rom_canonical:
  assumes "xlat_sa1rom c a = (r, True)"
  shows "canonical (xlat_sa1rom c) r"
proof -
  define b where "b = (if 0x80 \<le> bank_of a \<and> bank_of a \<le> 0xbf then bank_of a - 0x80 else bank_of a)"
  define e where "e = (if 0x80 \<le> bank_of a \<and> bank_of a \<le> 0xbf then a - 0x800000 else a)"
  have v: "bank_of e = b" "addr_of e = addr_of a" "\<not> (128 \<le> unat b \<and> unat b \<le> 191)"
    by (auto simp: e_def b_def bank_sub addr_sub bus_nat unat_sub)
  have "(if ram_size c \<noteq> 0 \<and> b \<le> 0x3f \<and> 0x6000 \<le> addr_of a \<and> addr_of a \<le> 0x7fff
     then (bus 0x40 (ucast (addr_of a AND 0x7fff) - 0x6000), True)
     else if ram_size c \<noteq> 0 \<and> \<not> b \<le> 0x3f \<and> b \<le> 0x4f
     then (bus (ucast b AND NOT 0xe) (ucast (addr_of a)), True)
     else if 0xc0 \<le> b then (e, True)
     else if b \<le> 0x3f then
       if 0x8000 \<le> addr_of a then (e, True) else (e, False)
     else (e, False)) = (r, True)"
    using assms unfolding xlat_sa1rom_def Let_def b_def e_def
    by (cases "0x80 \<le> bank_of a \<and> bank_of a \<le> 0xbf") (simp_all only: if_True if_False prod.case simp_thms)
  then show ?thesis
  proof (elim ifE, goal_cases)
    case 1
    then have ram: "ram_size c \<noteq> 0" and w: "0x6000 \<le> unat (addr_of a)" "unat (addr_of a) \<le> 0x7fff"
      and r0: "r = bus 0x40 (ucast (addr_of a AND 0x7fff) - 0x6000)" by (simp_all add: bus_nat)
    define q :: u32 where "q = ucast (addr_of a AND 0x7fff) - 0x6000"
    have "unat (addr_of a AND 0x7fff) = unat (addr_of a)"
      by (simp only: lit_masks unat_and_mask) (use w in simp)
    then have q: "unat q < 65536"
      unfolding q_def by (subst unat_sub) (use w in \<open>simp_all add: bus_nat\<close>)
    have r: "r = bus 0x40 q" using r0 by (simp add: q_def)
    have vr: "unat (bank_of r) = 0x40" "unat (addr_of r) = unat q"
      unfolding r using q by (simp_all add: unat_bank_bus unat_addr_bus bus_nat)
    have "xlat_sa1rom c r = (r, True)" using vr ram bwram_again [OF r, of 0] q
      by (simp add: xlat_sa1rom_def view_simps)
    then show ?case using vr by (intro canonicalI) simp_all
  next
    case 2
    define m :: u32 where "m = ucast b AND NOT 0xe"
    have m: "unat m = 64 + unat b mod 2"
      unfolding m_def by (rule unat_fold_bwram) (use 2 in \<open>simp_all add: bus_nat\<close>)
    have r: "r = bus m (ucast (addr_of a))" and ram: "ram_size c \<noteq> 0" using 2 by (simp_all add: m_def)
    have vr: "unat (bank_of r) = 64 + unat b mod 2" using view_bus [of m "addr_of a"] m by (simp add: r)
    from vr ram have "xlat_sa1rom c r = (r, True)"
      using bwram_again [OF r m] m u16_bound [of "addr_of a"]
      by (simp add: xlat_sa1rom_def view_simps)
    moreover have "unat (bank_of r) < 66" using vr by presburger
    ultimately show ?case using vr(1) by (intro canonicalI) (simp, linarith)
  next
    case 3
    then have "r = e" by simp
    then show ?case using 3 v by (intro canonicalI) (simp_all add: xlat_sa1rom_def view_simps)
  next
    case 4
    then have "r = e" by simp
    then show ?case using 4 v by (intro canonicalI) (auto simp add: xlat_sa1rom_def view_simps)
  qed simp_all
qed

section \<open>The whole translation\<close>

definition lorom_board :: "cartridge \<Rightarrow> bool" where
  "lorom_board c \<longleftrightarrow> \<not> has_cx4 c \<and> \<not> has_sdd1 c \<and> cart_mapper c = LoROM"

text \<open>
  What the detection guarantees of a cartridge: the size of its RAM, and that a board with
  the extended HiROM layout has a large ROM.
\<close>

definition cart_ok :: "cartridge \<Rightarrow> bool" where
  "cart_ok c \<longleftrightarrow> ram_ok c \<and>
     (\<not> has_cx4 c \<and> \<not> has_sdd1 c \<and> cart_mapper c = ExHiROM \<longrightarrow> preserve_rom_mirror c)"

lemma xlat_board_canonical:
  assumes "cart_ok c" "xlat_board c a = (r, True)" "\<not> (lorom_board c \<and> lorom_sram_high c a)"
  shows "canonical (xlat_board c) r"
proof -
  have ok: "ram_ok c" using assms(1) by (simp add: cart_ok_def)
  consider "has_cx4 c" "xlat_board c = xlat_cx4 c"
    | "has_sdd1 c" "xlat_board c = xlat_sdd1 c"
    | "\<not> has_cx4 c" "\<not> has_sdd1 c"
    by (cases "has_cx4 c"; cases "has_sdd1 c") (simp_all add: xlat_board_def fun_eq_iff)
  then show ?thesis
  proof cases
    case 1
    then show ?thesis using assms(2) xlat_cx4_canonical by simp
  next
    case 2
    then show ?thesis using assms(2) xlat_sdd1_canonical [OF ok] by simp
  next
    case 3
    note board = xlat_board_def [abs_def] 3
    show ?thesis
    proof (cases "cart_mapper c")
      case LoROM
      then have "xlat_board c = xlat_lorom c" "lorom_board c" by (simp_all add: board lorom_board_def fun_eq_iff)
      then show ?thesis using assms(2,3) xlat_lorom_canonical [OF ok] by simp
    next
      case HiROM
      then have "xlat_board c = xlat_hirom c" by (simp add: board fun_eq_iff)
      then show ?thesis using assms(2) xlat_hirom_canonical [OF ok] by simp
    next
      case ExLoROM
      then have "xlat_board c = xlat_exlorom c" by (simp add: board fun_eq_iff)
      then show ?thesis using assms(2) xlat_exlorom_canonical [OF ok] by simp
    next
      case ExHiROM
      then have "xlat_board c = xlat_exhirom c" "preserve_rom_mirror c"
        using assms(1) 3 by (simp_all add: board fun_eq_iff cart_ok_def)
      then show ?thesis using assms(2) xlat_exhirom_canonical [OF ok] by simp
    next
      case SuperFXROM
      then have "xlat_board c = xlat_superfxrom c" by (simp add: board fun_eq_iff)
      then show ?thesis using assms(2) xlat_superfxrom_canonical by simp
    next
      case SA1ROM
      then have "xlat_board c = xlat_sa1rom c" by (simp add: board fun_eq_iff)
      then show ?thesis using assms(2) xlat_sa1rom_canonical by simp
    next
      case SPC7110ROM
      then have "xlat_board c = xlat_spc7110 c" by (simp add: board fun_eq_iff)
      then show ?thesis using assms(2) xlat_spc7110_canonical [OF ok] by simp
    qed (use assms(2) 3 in \<open>simp_all add: xlat_board_def\<close>)
  qed
qed

lemma xlat_canonical: "canonical (xlat_board c) r \<Longrightarrow> xlat c r = r"
  by (cases "xlat_system r") (auto simp: xlat_def canonical_def)

lemma xlat_system_canonical:
  assumes "xlat_system a = (r, True)"
  shows "xlat_system r = (r, True)"
  using assms
proof (cases rule: xlat_system_cases)
  case wram
  then show ?thesis by (simp add: xlat_system_def view_simps)
next
  case low
  then have "unat (bank_of r) = 126" using view_bus [of "0x7e" "addr_of a"] by simp
  then show ?thesis by (simp add: xlat_system_def view_simps)
next
  case register
  show ?thesis unfolding register(1)
    using register(2) by (auto simp: xlat_system_def view_simps system_register_def)
qed

text \<open>The registers of the clock chips are in bank 0 and claimed by nothing else.\<close>

lemma xlat_clock_registers:
  assumes "0x2800 \<le> w \<and> w \<le> 0x2801 \<or> 0x4840 \<le> w \<and> w \<le> 0x4842"
  shows "\<not> snd (xlat_system (ucast (w :: u16)))" "\<not> snd (xlat_board c (ucast w))"
proof -
  have w: "unat w < 0x6000" "0x2184 \<le> unat w" "\<not> (0x4016 \<le> unat w \<and> unat w \<le> 0x4017)"
    "\<not> (0x4200 \<le> unat w \<and> unat w \<le> 0x421f)" "\<not> (0x4300 \<le> unat w \<and> unat w \<le> 0x437f)"
    "\<not> (0x4800 \<le> unat w \<and> unat w \<le> 0x483f)" "\<not> (0x4800 \<le> unat w \<and> unat w \<le> 0x4807)"
    using assms by (simp_all only: bus_nat) auto
  then show "\<not> snd (xlat_system (ucast w))" by (simp add: xlat_system_def view_simps)
  have "\<not> snd (xlat_cx4 c (ucast w))" "\<not> snd (xlat_sdd1 c (ucast w))" "\<not> snd (xlat_lorom c (ucast w))"
    "\<not> snd (xlat_hirom c (ucast w))" "\<not> snd (xlat_exlorom c (ucast w))" "\<not> snd (xlat_exhirom c (ucast w))"
    "\<not> snd (xlat_superfxrom c (ucast w))" "\<not> snd (xlat_sa1rom c (ucast w))" "\<not> snd (xlat_spc7110 c (ucast w))"
    using w by (simp_all add: view_simps xlat_cx4_def xlat_sdd1_def xlat_lorom_def xlat_hirom_def
        xlat_exlorom_def xlat_exhirom_def xlat_superfxrom_def xlat_sa1rom_def xlat_spc7110_def)
  then show "\<not> snd (xlat_board c (ucast w))" by (simp add: xlat_board_def split: memory_mapper.split)
qed

lemma xlat_chips_cases:
  assumes "filter snd (xlat_chips c a) = (r, b) # xs"
  obtains "has_sharprtc c" "r = ucast (addr_of a)" "0x2800 \<le> addr_of a" "addr_of a \<le> 0x2801"
  | "has_epsonrtc c" "r = ucast (addr_of a)" "0x4840 \<le> addr_of a" "addr_of a \<le> 0x4842"
proof -
  have "(r, b) \<in> set (filter snd (xlat_chips c a))" by (simp only: assms) simp
  then show thesis using that
    by (auto simp: xlat_chips_def xlat_sharprtc_def xlat_epsonrtc_def xlat_obc1_def xlat_dsp1_def xlat_dsp2_def
        xlat_dsp3_def xlat_dsp4_def xlat_st010_def xlat_st011_def xlat_st018_def Let_def split: if_splits)
qed

text \<open>The four ways an address is translated.\<close>

lemma xlat_cases:
  obtains (system) r where "xlat_system a = (r, True)" "xlat c a = r"
  | (board) r where "\<not> snd (xlat_system a)" "xlat_board c a = (r, True)" "xlat c a = r"
  | (chip) "xlat c a = ucast (addr_of a)"
      "0x2800 \<le> addr_of a \<and> addr_of a \<le> 0x2801 \<or> 0x4840 \<le> addr_of a \<and> addr_of a \<le> 0x4842"
      "has_sharprtc c \<and> addr_of a \<le> 0x2801 \<or> has_epsonrtc c \<and> 0x4840 \<le> addr_of a"
  | (none) "xlat c a = a"
proof (cases "xlat_system a")
  case (Pair r d)
  show thesis
  proof (cases d)
    case True
    then show thesis using Pair that(1) [of r] by (simp add: xlat_def)
  next
    case sys: False
    obtain q e where b: "xlat_board c a = (q, e)" by (cases "xlat_board c a")
    show thesis
    proof (cases e)
      case True
      then show thesis using sys Pair b that(2) [of q] by (simp add: xlat_def)
    next
      case False
      show thesis
      proof (cases "filter snd (xlat_chips c a)")
        case Nil
        then show thesis using False sys Pair b that(4) by (simp add: xlat_def)
      next
        case (Cons p ps)
        obtain x y where p: "p = (x, y)" by (cases p)
        from Cons have "xlat c a = x" using False sys Pair b by (simp add: xlat_def p)
        then show thesis
          using Cons that(3) unfolding p by (elim xlat_chips_cases) simp_all
      qed
    qed
  qed
qed

lemma xlat_clock_fixed:
  assumes "0x2800 \<le> w \<and> w \<le> 0x2801 \<or> 0x4840 \<le> w \<and> w \<le> 0x4842"
    "has_sharprtc c \<and> w \<le> 0x2801 \<or> has_epsonrtc c \<and> 0x4840 \<le> w"
  shows "xlat c (ucast (w :: u16)) = ucast w"
proof (cases rule: xlat_cases [of "ucast w" c])
  case (system r)
  then show ?thesis using xlat_clock_registers(1) [OF assms(1)] by simp
next
  case (board r)
  then show ?thesis using xlat_clock_registers(2) [OF assms(1), of c] by simp
qed (simp_all add: view_reg)

lemma xlat_fixed:
  assumes "cart_ok c" "\<not> (lorom_board c \<and> lorom_sram_high c a)"
  shows "xlat c (xlat c a) = xlat c a"
proof (cases rule: xlat_cases [of a c])
  case (system r)
  then show ?thesis using xlat_system_canonical [OF system(1)] by (simp add: xlat_def)
next
  case (board r)
  then show ?thesis using xlat_canonical [OF xlat_board_canonical [OF assms(1) board(2) assms(2)]] by simp
next
  case chip
  then show ?thesis using xlat_clock_fixed [OF chip(2,3)] by simp
next
  case none
  then show ?thesis by simp
qed

lemma system_bank:
  assumes "192 \<le> unat (bank_of a)"
  shows "\<not> snd (xlat_system a)"
  using assms by (simp add: xlat_system_def view_simps)

lemma xlat_high:
  assumes "cart_ok c" "lorom_board c" "lorom_sram_high c a"
  shows "xlat c a = lorom_sram c (bank_of a) (addr_of a) + 0x800000"
    and "xlat c (xlat c a) = lorom_sram c (bank_of a) (addr_of a)"
proof -
  have ok: "ram_ok c" using assms(1) by (simp add: cart_ok_def)
  have ram: "ram_size c \<noteq> 0" and b: "192 \<le> unat (bank_of a)" using assms(3) by (simp_all add: lorom_sram_high_def bus_nat)
  let ?s = "lorom_sram c (bank_of a) (addr_of a)"
  have board: "xlat_board c x = xlat_lorom c x" for x using assms(2) by (simp add: xlat_board_def lorom_board_def)
  note h = xlat_lorom_high [OF ok assms(3)]
  have s: "192 \<le> unat (bank_of (?s + 0x800000))"
    using lorom_cell(1,2) [OF ok ram refl, of "bank_of a" "addr_of a"] by (simp add: view_mirror)
  show "xlat c a = ?s + 0x800000"
    using system_bank [OF b] h(1) by (cases "xlat_system a") (simp add: xlat_def board)
  then show "xlat c (xlat c a) = ?s"
    using system_bank [OF s] h(2) by (cases "xlat_system (?s + 0x800000)") (simp add: xlat_def board)
qed

end
