(* ===== verification/SnesHeader.thy ===== *)
theory SnesHeader
  imports SnesXlat
begin

text \<open>
  Detection of a cartridge from a ROM file: the constructor, \<open>read_header\<close>,
  \<open>find_header\<close> and \<open>score_header\<close> of
  \<open>src/src/ldr/snes/super-famicom.hpp\<close>, and \<open>accept_file\<close> of
  \<open>src/src/ldr/snes/snes.cpp\<close>.

  The file is an input source of the kernel, which is not in the repository: its three
  functions \<open>qlsize\<close>, \<open>qlseek\<close> and \<open>qlread\<close> are the argument \<open>io\<close>, and what
  \<open>diskio.hpp\<close> documents of them is the locale \<open>linput\<close>.  \<^const>\<open>None\<close> stands
  for a read of an array that \<open>qlread\<close> did not fill: the code does not check the number
  of bytes it got, and the arrays are uninitialised stack memory.
\<close>

section \<open>Input sources\<close>

text \<open>\<open>qlread\<close> yields the bytes read, or \<^const>\<open>None\<close> for its result -1.\<close>

record 'i linput_ops =
  qlsize :: "'i \<Rightarrow> u64"
  qlseek :: "'i \<Rightarrow> u64 \<Rightarrow> u64 \<times> 'i"
  qlread :: "'i \<Rightarrow> nat \<Rightarrow> u8 list option \<times> 'i"

text \<open>Seeking and filling an array of \<open>n\<close> bytes.\<close>

definition fill_at :: "'i linput_ops \<Rightarrow> 'i \<Rightarrow> u32 \<Rightarrow> nat \<Rightarrow> (u8 list \<times> 'i) option" where
  "fill_at io li pos n =
    (let (_, li) = qlseek io li (ucast pos);
         (got, li) = qlread io li n
     in case got of Some bs \<Rightarrow> if length bs = n then Some (bs, li) else None | None \<Rightarrow> None)"

definition copier_header :: "u32 \<Rightarrow> bool" where
  "copier_header sz \<longleftrightarrow> sz AND 0x7fff = 512"

definition word16_at :: "u8 list \<Rightarrow> nat \<Rightarrow> u16" where
  "word16_at bs i = ucast (bs ! i) OR push_bit 8 (ucast (bs ! (i + 1)))"

section \<open>The score of a header\<close>

definition score_opcode :: "u8 \<Rightarrow> int" where
  "score_opcode resetop =
     (if resetop \<in> {0x78, 0x18, 0x38, 0x9c, 0x4c, 0x5c} then 8 else 0) +
     (if resetop \<in> {0xc2, 0xe2, 0xad, 0xae, 0xac, 0xaf, 0xa9, 0xa2, 0xa0, 0x20, 0x22} then 4 else 0) -
     (if resetop \<in> {0x40, 0x60, 0x6b, 0xcd, 0xec, 0xcc} then 4 else 0) -
     (if resetop \<in> {0x00, 0x02, 0xdb, 0x42, 0xff} then 8 else 0)"

definition score_fields :: "u8 list \<Rightarrow> u32 \<Rightarrow> int" where
  "score_fields header addr =
    (let checksum = word16_at header 0x1e;
         complement = word16_at header 0x1c;
         mapper = header ! 0x15 AND NOT 0x10
     in (if uint checksum + uint complement = 0xffff \<and> checksum \<noteq> 0 \<and> complement \<noteq> 0 then 4 else 0) +
        (if addr = 0x007fc0 \<and> mapper = 0x20 then 2 else 0) +
        (if addr = 0x00ffc0 \<and> mapper = 0x21 then 2 else 0) +
        (if addr = 0x007fc0 \<and> mapper = 0x22 then 2 else 0) +
        (if addr = 0x40ffc0 \<and> mapper = 0x25 then 2 else 0) +
        (if header ! 0x1a = 0x33 then 2 else 0) +
        (if header ! 0x16 < 0x08 then 1 else 0) +
        (if header ! 0x17 < 0x10 then 1 else 0) +
        (if header ! 0x18 < 0x08 then 1 else 0) +
        (if header ! 0x19 < 14 then 1 else 0))"

text \<open>The first opcode executed upon reset, if it can be read.\<close>

definition reset_opcode :: "'i linput_ops \<Rightarrow> 'i \<Rightarrow> u32 \<Rightarrow> u8 option \<times> 'i" where
  "reset_opcode io li p = (let (pos, li) = qlseek io li (ucast p) in
     if pos \<noteq> ucast p then (None, li)
     else (case qlread io li 1 of (Some [resetop], li) \<Rightarrow> (Some resetop, li) | (_, li) \<Rightarrow> (None, li)))"

definition score_header :: "'i linput_ops \<Rightarrow> 'i \<Rightarrow> u32 \<Rightarrow> (u32 \<times> 'i) option" where
  "score_header io li addr = (let sz = ucast (qlsize io li) :: u32 in
     if sz <s 0x8000 then Some (0, li)
     else
       let start = (if copier_header sz then 512 else 0 :: u32);
           sz = (if copier_header sz then sz - 512 else sz) in
       if sz < addr + 64 then Some (0, li)
       else do {
         (header, li) \<leftarrow> fill_at io li (start + addr) 64;
         let resetvector = word16_at header 0x3c;
         let resetop_addr = (addr AND NOT 0x7fff) OR (ucast resetvector AND 0x7fff);
         let (op, li) = reset_opcode io li (start + resetop_addr);
         case op of
           None \<Rightarrow> Some (0, li)
         | Some resetop \<Rightarrow>
             if resetvector < 0x8000 then Some (0, li)
             else
               let score = score_opcode resetop + score_fields header addr
               in Some (word_of_int (if score < 0 then 0 else score), li) })"

definition find_header :: "'i linput_ops \<Rightarrow> 'i \<Rightarrow> (u32 \<times> 'i) option" where
  "find_header io li = do {
     (score_lo, li) \<leftarrow> score_header io li 0x007fc0;
     (score_hi, li) \<leftarrow> score_header io li 0x00ffc0;
     (score_ex, li) \<leftarrow> score_header io li 0x40ffc0;
     let score_ex = (if score_ex \<noteq> 0 then score_ex + 4 else score_ex);
     Some (if score_hi \<le> score_lo \<and> score_ex \<le> score_lo then 0x007fc0
           else if score_ex \<le> score_hi then 0x00ffc0
           else 0x40ffc0, li) }"

section \<open>Reading the header\<close>

text \<open>The members that \<open>read_header\<close> resets first.\<close>

definition reset_members :: "u32 \<Rightarrow> cartridge \<Rightarrow> cartridge" where
  "reset_members sz c = c\<lparr>cart_type := TypeUnknown, cart_mapper := LoROM, dsp1_mapper := DSP1Unmapped,
     cart_region := NTSC, rom_size := sz, ram_size := 0,
     has_bsx_slot := False, has_superfx := False, has_sa1 := False, has_sharprtc := False,
     has_epsonrtc := False, has_sdd1 := False, has_spc7110 := False, has_cx4 := False,
     has_dsp1 := False, has_dsp2 := False, has_dsp3 := False, has_dsp4 := False,
     has_obc1 := False, has_st010 := False, has_st011 := False, has_st018 := False\<rparr>"

definition is_game_boy :: "u8 list \<Rightarrow> bool" where
  "is_game_boy bs \<longleftrightarrow> take 8 (drop 0x104 bs) = [0xce, 0xed, 0x66, 0x66, 0xcc, 0x0d, 0x00, 0x0b]"

text \<open>
  \<open>ext\<close> is \<open>extended_header\<close>, and \<open>hdr ext i\<close> is \<open>header[i]\<close>; \<open>header\<close>
  points 16 bytes into it, so \<open>header[-n]\<close> is \<open>ext ! (16 - n)\<close>.
\<close>

abbreviation hdr :: "u8 list \<Rightarrow> nat \<Rightarrow> u8" where
  "hdr ext i \<equiv> ext ! (16 + i)"

definition size_from_code :: "u8 \<Rightarrow> u32" where
  "size_from_code b = (let s = push_bit (unat (b AND 7)) 1024 in if s = 1024 then 0 else s)"

definition header_ram_size :: "u8 list \<Rightarrow> u32" where
  "header_ram_size ext = (let s = size_from_code (hdr ext 0x18) in
     if hdr ext 0x17 = 0 \<and> s \<noteq> 0 then 0 else s)"

definition header_region :: "u8 list \<Rightarrow> region" where
  "header_region ext = (let regionid = hdr ext 0x19 AND 0x7f in
     if regionid \<le> 1 \<or> 13 \<le> regionid then NTSC else PAL)"

definition is_bsx :: "u8 list \<Rightarrow> bool" where
  "is_bsx ext \<longleftrightarrow> (hdr ext 0x13 = 0x00 \<or> hdr ext 0x13 = 0xff) \<and> hdr ext 0x14 = 0x00 \<and>
     hdr ext 0x15 \<in> {0x00, 0x80, 0x84, 0x9c, 0xbc, 0xfc} \<and>
     (hdr ext 0x1a = 0x33 \<or> hdr ext 0x1a = 0xff)"

definition has_text :: "u8 list \<Rightarrow> nat \<Rightarrow> string \<Rightarrow> bool" where
  "has_text bs i s \<longleftrightarrow> take (length s) (drop i bs) = map of_char s"

definition bsx_slot :: "u8 list \<Rightarrow> bool" where
  "bsx_slot ext \<longleftrightarrow> ext ! 2 = 0x5a \<and> ext ! 5 = 0x4a \<and>
     (0x41 \<le> ext ! 3 \<and> ext ! 3 \<le> 0x5a \<or> 0x30 \<le> ext ! 3 \<and> ext ! 3 \<le> 0x39) \<and>
     (hdr ext 0x1a = 0x33 \<or> ext ! 6 = 0x00 \<and> ext ! 12 = 0x00)"

section \<open>Boards and chips\<close>

definition standard_mapper :: "u32 \<Rightarrow> u32 \<Rightarrow> u8 \<Rightarrow> memory_mapper" where
  "standard_mapper index sz mapperid =
     (if index = 0x7fc0 \<and> 0x401000 \<le>s sz then ExLoROM
      else if index = 0x7fc0 \<and> mapperid = 0x32 then ExLoROM
      else if index = 0x7fc0 then LoROM
      else if index = 0xffc0 then HiROM
      else ExHiROM)"

definition detect_superfx :: "u8 \<Rightarrow> u8 \<Rightarrow> u8 \<Rightarrow> cartridge \<Rightarrow> cartridge" where
  "detect_superfx mapperid rom_type ram_code c =
     (if mapperid = 0x20 \<and> rom_type \<in> {0x13, 0x14, 0x15, 0x1a}
      then c\<lparr>has_superfx := True, cart_mapper := SuperFXROM, ram_size := size_from_code ram_code\<rparr> else c)"

definition detect_sa1 :: "u8 \<Rightarrow> u8 \<Rightarrow> cartridge \<Rightarrow> cartridge" where
  "detect_sa1 mapperid rom_type c =
     (if mapperid = 0x23 \<and> rom_type \<in> {0x32, 0x34, 0x35}
      then c\<lparr>has_sa1 := True, cart_mapper := SA1ROM\<rparr> else c)"

definition detect_sharprtc :: "u8 \<Rightarrow> u8 \<Rightarrow> cartridge \<Rightarrow> cartridge" where
  "detect_sharprtc mapperid rom_type c =
     (if mapperid = 0x35 \<and> rom_type = 0x55 then c\<lparr>has_sharprtc := True\<rparr> else c)"

definition detect_sdd1 :: "u8 \<Rightarrow> u8 \<Rightarrow> cartridge \<Rightarrow> cartridge" where
  "detect_sdd1 mapperid rom_type c =
     (if mapperid = 0x32 \<and> rom_type \<in> {0x43, 0x45} then c\<lparr>has_sdd1 := True\<rparr> else c)"

definition detect_spc7110 :: "u8 \<Rightarrow> u8 \<Rightarrow> cartridge \<Rightarrow> cartridge" where
  "detect_spc7110 mapperid rom_type c =
     (if mapperid = 0x3a \<and> rom_type \<in> {0xf5, 0xf9}
      then c\<lparr>has_spc7110 := True, has_epsonrtc := rom_type = 0xf9, cart_mapper := SPC7110ROM\<rparr> else c)"

definition detect_cx4 :: "u8 \<Rightarrow> u8 \<Rightarrow> cartridge \<Rightarrow> cartridge" where
  "detect_cx4 mapperid rom_type c =
     (if mapperid = 0x20 \<and> rom_type = 0xf3 then c\<lparr>has_cx4 := True\<rparr> else c)"

definition detect_dsp1 :: "u8 \<Rightarrow> u8 \<Rightarrow> u8 \<Rightarrow> u32 \<Rightarrow> cartridge \<Rightarrow> cartridge" where
  "detect_dsp1 mapperid rom_type company sz c =
    (let c = (if (mapperid = 0x20 \<or> mapperid = 0x21) \<and> rom_type = 0x03 then c\<lparr>has_dsp1 := True\<rparr> else c);
         c = (if mapperid = 0x30 \<and> rom_type = 0x05 \<and> company \<noteq> 0xb2 then c\<lparr>has_dsp1 := True\<rparr> else c);
         c = (if mapperid = 0x31 \<and> (rom_type = 0x03 \<or> rom_type = 0x05) then c\<lparr>has_dsp1 := True\<rparr> else c)
     in if has_dsp1 c then
          if mapperid AND 0x2f = 0x20 \<and> sz \<le>s 0x100000 then c\<lparr>dsp1_mapper := DSP1LoROM1MB\<rparr>
          else if mapperid AND 0x2f = 0x20 then c\<lparr>dsp1_mapper := DSP1LoROM2MB\<rparr>
          else if mapperid AND 0x2f = 0x21 then c\<lparr>dsp1_mapper := DSP1HiROM\<rparr>
          else c
        else c)"

definition detect_dsp234 :: "u8 \<Rightarrow> u8 \<Rightarrow> u8 \<Rightarrow> cartridge \<Rightarrow> cartridge" where
  "detect_dsp234 mapperid rom_type company c =
    (let c = (if mapperid = 0x20 \<and> rom_type = 0x05 then c\<lparr>has_dsp2 := True\<rparr> else c);
         c = (if mapperid = 0x30 \<and> rom_type = 0x05 \<and> company = 0xb2 then c\<lparr>has_dsp3 := True\<rparr> else c)
     in if mapperid = 0x30 \<and> rom_type = 0x03 then c\<lparr>has_dsp4 := True\<rparr> else c)"

definition detect_others :: "u8 \<Rightarrow> u8 \<Rightarrow> u8 \<Rightarrow> cartridge \<Rightarrow> cartridge" where
  "detect_others mapperid rom_type lrom_size c =
    (let c = (if mapperid = 0x30 \<and> rom_type = 0x25 then c\<lparr>has_obc1 := True\<rparr> else c);
         c = (if mapperid = 0x30 \<and> rom_type = 0xf6 \<and> 10 \<le> lrom_size then c\<lparr>has_st010 := True\<rparr> else c);
         c = (if mapperid = 0x30 \<and> rom_type = 0xf6 \<and> lrom_size < 10 then c\<lparr>has_st011 := True\<rparr> else c)
     in if mapperid = 0x30 \<and> rom_type = 0xf5 then c\<lparr>has_st018 := True\<rparr> else c)"

definition detect_chips :: "u8 list \<Rightarrow> u32 \<Rightarrow> cartridge \<Rightarrow> cartridge" where
  "detect_chips ext sz c =
    (let mapperid = hdr ext 0x15; rom_type = hdr ext 0x16; lrom_size = hdr ext 0x17; company = hdr ext 0x1a;
         c = detect_superfx mapperid rom_type (ext ! 13) c;
         c = detect_sa1 mapperid rom_type c;
         c = detect_sharprtc mapperid rom_type c;
         c = detect_sdd1 mapperid rom_type c;
         c = detect_spc7110 mapperid rom_type c;
         c = detect_cx4 mapperid rom_type c;
         c = detect_dsp1 mapperid rom_type company sz c;
         c = detect_dsp234 mapperid rom_type company c
     in detect_others mapperid rom_type lrom_size c)"

text \<open>What follows the detection of the special cartridges: board and chips.\<close>

definition detect_board :: "u8 list \<Rightarrow> u32 \<Rightarrow> u32 \<Rightarrow> cartridge \<Rightarrow> cartridge" where
  "detect_board ext index sz c =
    (let c = (if bsx_slot ext then c\<lparr>has_bsx_slot := True\<rparr> else c) in
     if has_bsx_slot c then
       if has_text ext 16 ''Satellaview BS-X     ''
       then c\<lparr>cart_type := TypeBsxBios, cart_mapper := BSXROM, cart_region := NTSC\<rparr>
       else detect_chips ext sz (c\<lparr>cart_type := TypeBsxSlotted,
              cart_mapper := (if index = 0x7fc0 then BSCLoROM else BSCHiROM), cart_region := NTSC\<rparr>)
     else detect_chips ext sz (c\<lparr>cart_type := TypeNormal,
            cart_mapper := standard_mapper index sz (hdr ext 0x15)\<rparr>))"

text \<open>What \<open>read_header\<close> makes of the extended header and of the first 32 bytes.\<close>

definition apply_header :: "u8 list \<Rightarrow> u32 \<Rightarrow> u32 \<Rightarrow> cartridge \<Rightarrow> (cartridge, u8 list \<Rightarrow> cartridge) sum" where
  "apply_header ext index sz c =
    (let c = c\<lparr>header_offset := index, ram_size := header_ram_size ext, cart_region := header_region ext\<rparr> in
     if is_bsx ext then Inl (c\<lparr>cart_type := TypeBsx, cart_mapper := BSXROM, cart_region := NTSC\<rparr>)
     else Inr (\<lambda>data.
       if has_text data 0 ''BANDAI SFC-ADX'' then
         c\<lparr>cart_type := (if has_text data 16 ''SFC-ADX BACKUP'' then TypeSufamiTurboBios else TypeSufamiTurbo),
           cart_mapper := STROM, cart_region := NTSC\<rparr>
       else if has_text ext 16 ''Super GAMEBOY2'' then c\<lparr>cart_type := TypeSuperGameBoy2Bios\<rparr>
       else if has_text ext 16 ''Super GAMEBOY'' then c\<lparr>cart_type := TypeSuperGameBoy1Bios\<rparr>
       else detect_board ext index sz c))"

definition read_header :: "'i linput_ops \<Rightarrow> 'i \<Rightarrow> cartridge \<Rightarrow> (cartridge \<times> 'i) option" where
  "read_header io li c = (let sz = ucast (qlsize io li) :: u32 in
     if sz <s 0 then Some (c, li)
     else
       let copier = copier_header sz;
           start = (if copier then 512 else 0 :: u32);
           sz = (if copier then sz - 512 else sz);
           c = reset_members sz (c\<lparr>has_copier_header := copier\<rparr>)
       in do {
         (gb, li) \<leftarrow> (if 0x140 \<le>s sz then do {
             (data, li) \<leftarrow> fill_at io li start 0x140;
             Some (is_game_boy data, li) } else Some (False, li));
         if gb then Some (c\<lparr>cart_type := TypeGameBoy\<rparr>, li)
         else if sz <s 32768 then Some (c\<lparr>cart_type := TypeUnknown\<rparr>, li)
         else do {
           (index, li) \<leftarrow> find_header io li;
           (ext, li) \<leftarrow> fill_at io li (start + index - 16) (16 + 64);
           case apply_header ext index sz c of
             Inl c \<Rightarrow> Some (c, li)
           | Inr f \<Rightarrow> do {
               (data, li) \<leftarrow> fill_at io li start 32;
               Some (f data, li) } } })"

section \<open>The constructor\<close>

text \<open>One chip with firmware of \<open>fw\<close> bytes appended to the ROM; \<open>x\<close> is the size tested.\<close>

definition strip_firmware :: "bool \<Rightarrow> u32 \<Rightarrow> u32 \<Rightarrow> u32 \<Rightarrow> cartridge \<Rightarrow> cartridge" where
  "strip_firmware chip x m fw c =
     (if chip \<and> x AND m = fw then c\<lparr>firmware_appended := True, rom_size := rom_size c - fw\<rparr> else c)"

definition strip_all_firmware :: "u32 \<Rightarrow> cartridge \<Rightarrow> cartridge" where
  "strip_all_firmware sz c =
    (let c = (if cart_type c = TypeSuperGameBoy1Bios \<or> cart_type c = TypeSuperGameBoy2Bios
              then strip_firmware True (rom_size c) 0x7fff 0x100 c
              else strip_firmware (has_cx4 c) (rom_size c) 0x7fff 0xc00 c);
         c = strip_firmware (has_dsp1 c) sz 0x7fff 0x2000 c;
         c = strip_firmware (has_dsp2 c) sz 0x7fff 0x2000 c;
         c = strip_firmware (has_dsp3 c) sz 0x7fff 0x2000 c;
         c = strip_firmware (has_dsp4 c) sz 0x7fff 0x2000 c;
         c = strip_firmware (has_st010 c) sz 0xffff 0xd000 c;
         c = strip_firmware (has_st011 c) sz 0xffff 0xd000 c
     in strip_firmware (has_st018 c) sz 0x3ffff 0x28000 c)"

definition cartridge_from :: "'i linput_ops \<Rightarrow> 'i \<Rightarrow> (cartridge \<times> 'i) option" where
  "cartridge_from io li = (let sz = ucast (qlsize io li) :: u32 in
     if sz <s 0 then Some (cartridge_init, li)
     else
       let c = cartridge_init\<lparr>firmware_appended := False\<rparr>;
           sz = (if copier_header sz then sz - 512 else sz) in
       if sz <s 0x8000 then Some (c, li)
       else do {
         (c, li) \<leftarrow> read_header io li c;
         Some (if cart_type c = TypeGameBoy then c
               else if cart_type c = TypeBsx then c
               else if cart_type c = TypeSufamiTurbo then c
               else strip_all_firmware sz c, li) })"

text \<open>\<open>accept_file\<close>: whether the loader takes the file.\<close>

definition accept_file :: "'i linput_ops \<Rightarrow> 'i \<Rightarrow> (bool \<times> 'i) option" where
  "accept_file io li = do {
     (c, li) \<leftarrow> cartridge_from io li;
     (score, li) \<leftarrow> score_header io li (header_offset c);
     Some (9 \<le> score \<and> cart_type c \<noteq> TypeUnknown, li) }"

section \<open>What an input source promises\<close>

text \<open>Signed 32-bit comparisons, as \<open>int32\<close> makes them.\<close>

lemma sint_u32: "sint (x :: u32) = (if unat x < 2 ^ 31 then int (unat x) else int (unat x) - 2 ^ 32)"
proof -
  have b: "uint x < 2 ^ 32" "0 \<le> uint x" using unsigned_less [of x, where 'a = int] by simp_all
  have u: "uint x = int (unat x)" by simp
  have "sint x = signed_take_bit 31 (uint x)" by (simp add: sint_uint)
  also have "\<dots> = take_bit 32 (uint x) - 2 ^ 32 * of_bool (bit (uint x) 31)"
    using signed_take_bit_eq_take_bit_minus [of 31 "uint x"] by simp
  also have "take_bit 32 (uint x) = uint x" using b by (simp add: take_bit_int_eq_self_iff)
  also have "bit (uint x) 31 \<longleftrightarrow> 2 ^ 31 \<le> uint x"
  proof -
    have "uint x div 2 ^ 31 = (if 2 ^ 31 \<le> uint x then 1 else 0)" using b by (auto simp: div_pos_pos_trivial)
    then show ?thesis by (simp add: bit_iff_odd)
  qed
  finally have s: "sint x = uint x - 2 ^ 32 * of_bool (2 ^ 31 \<le> uint x)" .
  have "k = (if n < 2 ^ 31 then int n else int n - 2 ^ 32)"
    if "m = int n" "k = m - 2 ^ 32 * of_bool (2 ^ 31 \<le> m)" for k m :: int and n :: nat
    using that by auto
  from this [OF u s] show ?thesis .
qed
lemma sless_u32:
  assumes "unat c < 2 ^ 31"
  shows "x <s (c :: u32) \<longleftrightarrow> unat x < unat c \<or> 2 ^ 31 \<le> unat x"
    and "c \<le>s x \<longleftrightarrow> unat c \<le> unat x \<and> unat x < 2 ^ 31"
proof -
  have ar: "((if n < 2 ^ 31 then int n else int n - 2 ^ 32) < int m) = (n < m \<or> 2 ^ 31 \<le> n)"
    "(int m \<le> (if n < 2 ^ 31 then int n else int n - 2 ^ 32)) = (m \<le> n \<and> n < 2 ^ 31)"
    if "n < 2 ^ 32" "m < 2 ^ 31" for n m :: nat
    using that by auto
  have x: "unat x < 2 ^ 32" using unsigned_less [of x, where 'a = nat] by simp
  show "x <s c \<longleftrightarrow> unat x < unat c \<or> 2 ^ 31 \<le> unat x"
    by (simp only: word_sless_alt sint_u32 assms if_True) (rule ar(1) [OF x assms])
  show "c \<le>s x \<longleftrightarrow> unat c \<le> unat x \<and> unat x < 2 ^ 31"
    by (simp only: word_sle_eq sint_u32 assms if_True) (rule ar(2) [OF x assms])
qed

text \<open>
  \<open>content\<close> is the file and \<open>pos\<close> the position.  Seeking into the file goes there;
  reading gives the bytes from the position on, as many as there are.
\<close>

locale linput =
  fixes io :: "'i linput_ops" and content :: "'i \<Rightarrow> u8 list" and pos :: "'i \<Rightarrow> nat"
  assumes size_content: "qlsize io li = of_nat (length (content li))"
    and seek_content: "content (snd (qlseek io li p)) = content li"
    and seek_pos: "unat p \<le> length (content li) \<Longrightarrow> fst (qlseek io li p) = p \<and> pos (snd (qlseek io li p)) = unat p"
    and read_content: "content (snd (qlread io li n)) = content li"
    and read_bytes: "fst (qlread io li n) = Some (take n (drop (pos li) (content li)))"
begin

lemma fill_at_bytes:
  assumes "unat p + n \<le> length (content li)"
  shows "\<exists>li'. fill_at io li p n = Some (take n (drop (unat p) (content li)), li') \<and> content li' = content li"
proof -
  obtain q li1 where s: "qlseek io li (ucast p) = (q, li1)" by (cases "qlseek io li (ucast p)")
  obtain g li2 where r: "qlread io li1 n = (g, li2)" by (cases "qlread io li1 n")
  have up: "unat (ucast p :: u64) = unat p"
    using unsigned_less [of p, where 'a = nat] by (simp add: unsigned_ucast_eq take_bit_nat_eq_self_iff)
  have li1: "content li1 = content li" "pos li1 = unat p"
    using seek_content [of li "ucast p"] seek_pos [of "ucast p" li] assms up by (simp_all add: s)
  have "g = Some (take n (drop (unat p) (content li)))" "content li2 = content li"
    using read_bytes [of li1 n] read_content [of li1 n] by (simp_all add: r li1)
  then show ?thesis using assms by (simp add: fill_at_def s r)
qed

text \<open>The size of the file as the code sees it, without a copier header.\<close>

definition rom_bytes :: "'i \<Rightarrow> u32" where
  "rom_bytes li = (let sz = ucast (qlsize io li) in if copier_header sz then sz - 512 else sz)"

definition rom_start :: "'i \<Rightarrow> u32" where
  "rom_start li = (if copier_header (ucast (qlsize io li)) then 512 else 0)"

lemma rom_bounds: "unat (rom_start li) \<le> 512" "unat (rom_start li) + unat (rom_bytes li) \<le> length (content li)"
  "unat (rom_start li) + unat (rom_bytes li) = unat (ucast (qlsize io li) :: u32)"
  "unat (rom_start li) + unat (rom_bytes li) < 2 ^ 32"
proof -
  let ?s = "ucast (qlsize io li) :: u32"
  have "512 \<le> unat ?s" if "copier_header ?s"
    using that word_and_le2 [of ?s "0x7fff"] by (simp add: copier_header_def word_le_nat_alt) 
  then show b: "unat (rom_start li) + unat (rom_bytes li) = unat ?s"
    by (simp add: rom_start_def rom_bytes_def Let_def unat_sub word_le_nat_alt)
  have "unat ?s = length (content li) mod 2 ^ 64 mod 2 ^ 32"
    by (simp add: size_content unsigned_ucast_eq take_bit_eq_mod unat_of_nat)
  then have "unat ?s \<le> length (content li)" by (simp only:) (meson le_trans mod_less_eq_dividend)
  then show "unat (rom_start li) + unat (rom_bytes li) \<le> length (content li)" using b by simp
  show "unat (rom_start li) + unat (rom_bytes li) < 2 ^ 32"
    using b unsigned_less [of ?s, where 'a = nat] by simp
  show "unat (rom_start li) \<le> 512" by (simp add: rom_start_def)
qed

lemma reset_opcode_content: "content (snd (reset_opcode io li p)) = content li"
proof -
  obtain q li1 where s: "qlseek io li (ucast p) = (q, li1)" by (cases "qlseek io li (ucast p)")
  obtain g li2 where r: "qlread io li1 1 = (g, li2)" by (cases "qlread io li1 1")
  have "content li1 = content li" "content li2 = content li1"
    using seek_content [of li "ucast p"] read_content [of li1 1] by (simp_all add: s r del: One_nat_def)
  then show ?thesis by (simp add: reset_opcode_def s r del: One_nat_def split: option.split list.split)
qed

lemma score_header_total:
  assumes "unat addr + 64 < 2 ^ 32"
  shows "\<exists>s li'. score_header io li addr = Some (s, li') \<and> content li' = content li \<and>
    (s \<noteq> 0 \<longrightarrow> unat addr + 64 \<le> unat (rom_bytes li))"
proof (cases "ucast (qlsize io li) <s (0x8000 :: u32) \<or> rom_bytes li < addr + 64")
  case True
  then show ?thesis by (auto simp: score_header_def rom_bytes_def Let_def)
next
  case False
  have fit: "unat addr + 64 \<le> unat (rom_bytes li)"
    using False assms by (simp add: word_less_nat_alt unat_word_ariths)
  note b = rom_bounds [of li]
  have st: "unat (rom_start li + addr) = unat (rom_start li) + unat addr"
    using b(4) fit by (simp add: unat_word_ariths)
  obtain hd li1 where f: "fill_at io li (rom_start li + addr) 64 = Some (hd, li1)" "content li1 = content li"
    using fill_at_bytes [of "rom_start li + addr" 64 li] b fit st by auto
  define p where "p = rom_start li + ((addr AND NOT 0x7fff) OR (ucast (word16_at hd 0x3c) AND 0x7fff))"
  obtain op li2 where op: "reset_opcode io li1 p = (op, li2)" by (cases "reset_opcode io li1 p")
  have "content li2 = content li" using reset_opcode_content [of li1 p] f(2) by (simp add: op)
  moreover have "\<exists>s. score_header io li addr = Some (s, li2)"
    using False f(1) op by (cases op) (simp_all add: score_header_def rom_bytes_def rom_start_def p_def Let_def)
  ultimately show ?thesis using fit by blast
qed

lemma find_header_total:
  assumes "0x8000 \<le> unat (rom_bytes li)"
  shows "\<exists>i li'. find_header io li = Some (i, li') \<and> content li' = content li \<and>
    i \<in> {0x7fc0, 0xffc0, 0x40ffc0} \<and> unat i + 64 \<le> unat (rom_bytes li)"
proof -
  obtain lo li1 where lo: "score_header io li 0x7fc0 = Some (lo, li1)" "content li1 = content li"
    using score_header_total [of "0x7fc0" li] by auto
  obtain hi li2 where hi: "score_header io li1 0xffc0 = Some (hi, li2)" "content li2 = content li1"
    "hi \<noteq> 0 \<longrightarrow> 0xffc0 + 64 \<le> unat (rom_bytes li1)"
    using score_header_total [of "0xffc0" li1] by auto
  obtain ex li3 where ex: "score_header io li2 0x40ffc0 = Some (ex, li3)" "content li3 = content li2"
    "ex \<noteq> 0 \<longrightarrow> 0x40ffc0 + 64 \<le> unat (rom_bytes li2)"
    using score_header_total [of "0x40ffc0" li2] by auto
  have same: "rom_bytes li1 = rom_bytes li" "rom_bytes li2 = rom_bytes li"
    using lo(2) hi(2) by (simp_all add: rom_bytes_def size_content)
  show ?thesis using lo hi ex assms same
    by (auto simp: find_header_def Let_def)
qed

end

text \<open>A file in memory with a position, the model the contract is interpreted on.\<close>

definition file_linput :: "(u8 list \<times> nat) linput_ops" where
  "file_linput = \<lparr>
     qlsize = (\<lambda>(bs, p). of_nat (length bs)),
     qlseek = (\<lambda>(bs, _) p. (p, bs, unat p)),
     qlread = (\<lambda>(bs, p) n. (Some (take n (drop p bs)), bs, p + min n (length bs - p)))\<rparr>"

lemma file_linput_laws: "linput file_linput fst snd"
  by unfold_locales (auto simp: file_linput_def split: prod.split)

interpretation mem: linput file_linput fst snd
  by (rule file_linput_laws)

end
