(* ===== verification/SnesDetect.thy ===== *)
theory SnesDetect
  imports SnesHeader
begin

text \<open>
  What the detection of a cartridge establishes: which members each step of
  \<open>read_header\<close> may change, that at most one coprocessor is found and that the boards
  that belong to a coprocessor go with it, that the size of the RAM is one the header can
  encode, and that the description of an extended HiROM cartridge has a large ROM.
\<close>

section \<open>What each step changes\<close>

lemma upd_if:
  "(if b then c\<lparr>has_superfx := True, cart_mapper := p, ram_size := q\<rparr> else c) =
     c\<lparr>has_superfx := has_superfx c \<or> b, cart_mapper := if b then p else cart_mapper c,
       ram_size := if b then q else ram_size c\<rparr>"
  "(if b then c\<lparr>has_sa1 := True, cart_mapper := p\<rparr> else c) =
     c\<lparr>has_sa1 := has_sa1 c \<or> b, cart_mapper := if b then p else cart_mapper c\<rparr>"
  "(if b then c\<lparr>has_spc7110 := True, has_epsonrtc := e, cart_mapper := p\<rparr> else c) =
     c\<lparr>has_spc7110 := has_spc7110 c \<or> b, has_epsonrtc := if b then e else has_epsonrtc c,
       cart_mapper := if b then p else cart_mapper c\<rparr>"
  "(if b then c\<lparr>has_sharprtc := True\<rparr> else c) = c\<lparr>has_sharprtc := has_sharprtc c \<or> b\<rparr>"
  "(if b then c\<lparr>has_sdd1 := True\<rparr> else c) = c\<lparr>has_sdd1 := has_sdd1 c \<or> b\<rparr>"
  "(if b then c\<lparr>has_cx4 := True\<rparr> else c) = c\<lparr>has_cx4 := has_cx4 c \<or> b\<rparr>"
  by (cases b; cases c; simp)+

lemma upd_dsp1:
  "(let c = (if b1 then c\<lparr>has_dsp1 := True\<rparr> else c); c = (if b2 then c\<lparr>has_dsp1 := True\<rparr> else c);
        c = (if b3 then c\<lparr>has_dsp1 := True\<rparr> else c)
    in if has_dsp1 c then if e1 then c\<lparr>dsp1_mapper := d1\<rparr> else if e2 then c\<lparr>dsp1_mapper := d2\<rparr>
       else if e3 then c\<lparr>dsp1_mapper := d3\<rparr> else c else c) =
   c\<lparr>has_dsp1 := has_dsp1 c \<or> b1 \<or> b2 \<or> b3,
     dsp1_mapper := if has_dsp1 c \<or> b1 \<or> b2 \<or> b3
       then if e1 then d1 else if e2 then d2 else if e3 then d3 else dsp1_mapper c else dsp1_mapper c\<rparr>"
  by (cases c) (simp add: Let_def)

lemma upd_dsp234:
  "(let c = (if b1 then c\<lparr>has_dsp2 := True\<rparr> else c); c = (if b2 then c\<lparr>has_dsp3 := True\<rparr> else c)
    in if b3 then c\<lparr>has_dsp4 := True\<rparr> else c) =
   c\<lparr>has_dsp2 := has_dsp2 c \<or> b1, has_dsp3 := has_dsp3 c \<or> b2, has_dsp4 := has_dsp4 c \<or> b3\<rparr>"
  by (cases c) (simp add: Let_def)

lemma upd_others:
  "(let c = (if b1 then c\<lparr>has_obc1 := True\<rparr> else c); c = (if b2 then c\<lparr>has_st010 := True\<rparr> else c);
        c = (if b3 then c\<lparr>has_st011 := True\<rparr> else c)
    in if b4 then c\<lparr>has_st018 := True\<rparr> else c) =
   c\<lparr>has_obc1 := has_obc1 c \<or> b1, has_st010 := has_st010 c \<or> b2,
     has_st011 := has_st011 c \<or> b3, has_st018 := has_st018 c \<or> b4\<rparr>"
  by (cases c) (simp add: Let_def)

lemma detect_steps:
  "detect_superfx m r k c = c\<lparr>has_superfx := has_superfx c \<or> m = 0x20 \<and> r \<in> {0x13, 0x14, 0x15, 0x1a},
     cart_mapper := if m = 0x20 \<and> r \<in> {0x13, 0x14, 0x15, 0x1a} then SuperFXROM else cart_mapper c,
     ram_size := if m = 0x20 \<and> r \<in> {0x13, 0x14, 0x15, 0x1a} then size_from_code k else ram_size c\<rparr>"
  "detect_sa1 m r c = c\<lparr>has_sa1 := has_sa1 c \<or> m = 0x23 \<and> r \<in> {0x32, 0x34, 0x35},
     cart_mapper := if m = 0x23 \<and> r \<in> {0x32, 0x34, 0x35} then SA1ROM else cart_mapper c\<rparr>"
  "detect_sharprtc m r c = c\<lparr>has_sharprtc := has_sharprtc c \<or> m = 0x35 \<and> r = 0x55\<rparr>"
  "detect_sdd1 m r c = c\<lparr>has_sdd1 := has_sdd1 c \<or> m = 0x32 \<and> r \<in> {0x43, 0x45}\<rparr>"
  "detect_spc7110 m r c = c\<lparr>has_spc7110 := has_spc7110 c \<or> m = 0x3a \<and> r \<in> {0xf5, 0xf9},
     has_epsonrtc := if m = 0x3a \<and> r \<in> {0xf5, 0xf9} then r = 0xf9 else has_epsonrtc c,
     cart_mapper := if m = 0x3a \<and> r \<in> {0xf5, 0xf9} then SPC7110ROM else cart_mapper c\<rparr>"
  "detect_cx4 m r c = c\<lparr>has_cx4 := has_cx4 c \<or> m = 0x20 \<and> r = 0xf3\<rparr>"
  "detect_dsp234 m r co c = c\<lparr>has_dsp2 := has_dsp2 c \<or> m = 0x20 \<and> r = 0x05,
     has_dsp3 := has_dsp3 c \<or> m = 0x30 \<and> r = 0x05 \<and> co = 0xb2,
     has_dsp4 := has_dsp4 c \<or> m = 0x30 \<and> r = 0x03\<rparr>"
  "detect_others m r l c = c\<lparr>has_obc1 := has_obc1 c \<or> m = 0x30 \<and> r = 0x25,
     has_st010 := has_st010 c \<or> m = 0x30 \<and> r = 0xf6 \<and> 10 \<le> l,
     has_st011 := has_st011 c \<or> m = 0x30 \<and> r = 0xf6 \<and> l < 10,
     has_st018 := has_st018 c \<or> m = 0x30 \<and> r = 0xf5\<rparr>"
  unfolding detect_superfx_def detect_sa1_def detect_sharprtc_def detect_sdd1_def
    detect_spc7110_def detect_cx4_def detect_dsp234_def detect_others_def
  by (rule upd_if upd_dsp234 upd_others)+

text \<open>The same for \<open>detect_dsp1\<close>, whose new mapping is left open.\<close>

lemma detect_dsp1_step: obtains D where
    "detect_dsp1 m r co n = (\<lambda>c. c\<lparr>has_dsp1 := has_dsp1 c \<or> (m = 0x20 \<or> m = 0x21) \<and> r = 0x03 \<or>
      m = 0x30 \<and> r = 0x05 \<and> co \<noteq> 0xb2 \<or> m = 0x31 \<and> (r = 0x03 \<or> r = 0x05), dsp1_mapper := D c\<rparr>)"
  by (rule that) (unfold detect_dsp1_def fun_eq_iff, rule allI, rule upd_dsp1)

section \<open>Coprocessors\<close>

text \<open>At most one coprocessor, and the boards that belong to one.\<close>

definition chips :: "cartridge \<Rightarrow> bool list" where
  "chips c = [has_superfx c, has_sa1 c, has_sharprtc c, has_sdd1 c, has_spc7110 c, has_cx4 c,
     has_dsp1 c, has_dsp2 c, has_dsp3 c, has_dsp4 c, has_obc1 c, has_st010 c, has_st011 c, has_st018 c]"

definition one_chip :: "cartridge \<Rightarrow> bool" where
  "one_chip c \<longleftrightarrow> length (filter id (chips c)) \<le> 1 \<and>
     (has_superfx c \<longleftrightarrow> cart_mapper c = SuperFXROM) \<and> (has_sa1 c \<longleftrightarrow> cart_mapper c = SA1ROM) \<and>
     (has_spc7110 c \<longleftrightarrow> cart_mapper c = SPC7110ROM) \<and> (has_epsonrtc c \<longrightarrow> has_spc7110 c)"

definition no_chip :: "cartridge \<Rightarrow> bool" where
  "no_chip c \<longleftrightarrow> True \<notin> set (chips c) \<and> \<not> has_epsonrtc c \<and>
     cart_mapper c \<notin> {SuperFXROM, SA1ROM, SPC7110ROM}"

lemma no_chip_one: "no_chip c \<Longrightarrow> one_chip c"
  by (simp add: no_chip_def one_chip_def chips_def)

text \<open>The identification bytes that each flag is detected from.\<close>

lemma detect_chips_flags:
  fixes ext :: "u8 list" and sz :: u32
  assumes "no_chip c"
  defines "m \<equiv> hdr ext 0x15" and "r \<equiv> hdr ext 0x16"
  defines "d \<equiv> detect_chips ext sz c"
  shows "has_superfx d \<longleftrightarrow> m = 0x20 \<and> r \<in> {0x13, 0x14, 0x15, 0x1a}"
    and "has_sa1 d \<longleftrightarrow> m = 0x23 \<and> r \<in> {0x32, 0x34, 0x35}"
    and "has_sharprtc d \<longleftrightarrow> m = 0x35 \<and> r = 0x55"
    and "has_sdd1 d \<longleftrightarrow> m = 0x32 \<and> r \<in> {0x43, 0x45}"
    and "has_spc7110 d \<longleftrightarrow> m = 0x3a \<and> r \<in> {0xf5, 0xf9}"
    and "has_epsonrtc d \<longleftrightarrow> m = 0x3a \<and> r = 0xf9"
    and "has_cx4 d \<longleftrightarrow> m = 0x20 \<and> r = 0xf3"
    and "has_dsp1 d \<longleftrightarrow> (m = 0x20 \<or> m = 0x21) \<and> r = 0x03 \<or>
      m = 0x30 \<and> r = 0x05 \<and> hdr ext 0x1a \<noteq> 0xb2 \<or> m = 0x31 \<and> (r = 0x03 \<or> r = 0x05)"
    and "has_dsp2 d \<longleftrightarrow> m = 0x20 \<and> r = 0x05"
    and "has_dsp3 d \<longleftrightarrow> m = 0x30 \<and> r = 0x05 \<and> hdr ext 0x1a = 0xb2"
    and "has_dsp4 d \<longleftrightarrow> m = 0x30 \<and> r = 0x03"
    and "has_obc1 d \<longleftrightarrow> m = 0x30 \<and> r = 0x25"
    and "has_st010 d \<longleftrightarrow> m = 0x30 \<and> r = 0xf6 \<and> 10 \<le> hdr ext 0x17"
    and "has_st011 d \<longleftrightarrow> m = 0x30 \<and> r = 0xf6 \<and> hdr ext 0x17 < 10"
    and "has_st018 d \<longleftrightarrow> m = 0x30 \<and> r = 0xf5"
    and "cart_mapper d = (if m = 0x3a \<and> r \<in> {0xf5, 0xf9} then SPC7110ROM
      else if m = 0x23 \<and> r \<in> {0x32, 0x34, 0x35} then SA1ROM
      else if m = 0x20 \<and> r \<in> {0x13, 0x14, 0x15, 0x1a} then SuperFXROM else cart_mapper c)"
    and "ram_size d = (if m = 0x20 \<and> r \<in> {0x13, 0x14, 0x15, 0x1a}
      then size_from_code (ext ! 13) else ram_size c)"
    and "rom_size d = rom_size c" "cart_type d = cart_type c" "header_offset d = header_offset c"
proof -
  obtain D where D: "detect_dsp1 m r (hdr ext 0x1a) sz = (\<lambda>c. c\<lparr>has_dsp1 := has_dsp1 c \<or>
      (m = 0x20 \<or> m = 0x21) \<and> r = 0x03 \<or>
      m = 0x30 \<and> r = 0x05 \<and> hdr ext 0x1a \<noteq> 0xb2 \<or> m = 0x31 \<and> (r = 0x03 \<or> r = 0x05), dsp1_mapper := D c\<rparr>)"
    by (rule detect_dsp1_step [of m r "hdr ext 0x1a" sz])
  note d = d_def [unfolded detect_chips_def Let_def, folded m_def r_def]
  note n = assms(1) [unfolded no_chip_def chips_def]
  obtain rs ra fi co he ct re ma ds bs su sa sh ep sd sp cx d1 d2 d3 d4 ob s0 s1 s8 where c:
    "c = \<lparr>rom_size = rs, ram_size = ra, firmware_appended = fi, has_copier_header = co,
     header_offset = he, cart_type = ct, cart_region = re, cart_mapper = ma, dsp1_mapper = ds,
     has_bsx_slot = bs, has_superfx = su, has_sa1 = sa, has_sharprtc = sh,
     has_epsonrtc = ep, has_sdd1 = sd, has_spc7110 = sp, has_cx4 = cx,
     has_dsp1 = d1, has_dsp2 = d2, has_dsp3 = d3, has_dsp4 = d4,
     has_obc1 = ob, has_st010 = s0, has_st011 = s1, has_st018 = s8\<rparr>" by (cases c)
  have f: "su = False" "sa = False" "sh = False" "ep = False" "sd = False" "sp = False" "cx = False" "d1 = False"
    "d2 = False" "d3 = False" "d4 = False" "ob = False" "s0 = False" "s1 = False" "s8 = False"
    using n by (simp_all add: c)
  note all = d [unfolded c f, unfolded detect_steps D cartridge.simps simp_thms]
  show "has_superfx d \<longleftrightarrow> m = 0x20 \<and> r \<in> {0x13, 0x14, 0x15, 0x1a}"
    "has_sa1 d \<longleftrightarrow> m = 0x23 \<and> r \<in> {0x32, 0x34, 0x35}"
    "has_sharprtc d \<longleftrightarrow> m = 0x35 \<and> r = 0x55"
    "has_sdd1 d \<longleftrightarrow> m = 0x32 \<and> r \<in> {0x43, 0x45}"
    "has_spc7110 d \<longleftrightarrow> m = 0x3a \<and> r \<in> {0xf5, 0xf9}"
    "has_cx4 d \<longleftrightarrow> m = 0x20 \<and> r = 0xf3"
    "has_dsp1 d \<longleftrightarrow> (m = 0x20 \<or> m = 0x21) \<and> r = 0x03 \<or>
      m = 0x30 \<and> r = 0x05 \<and> hdr ext 0x1a \<noteq> 0xb2 \<or> m = 0x31 \<and> (r = 0x03 \<or> r = 0x05)"
    "has_dsp2 d \<longleftrightarrow> m = 0x20 \<and> r = 0x05"
    "has_dsp3 d \<longleftrightarrow> m = 0x30 \<and> r = 0x05 \<and> hdr ext 0x1a = 0xb2"
    "has_dsp4 d \<longleftrightarrow> m = 0x30 \<and> r = 0x03"
    "has_obc1 d \<longleftrightarrow> m = 0x30 \<and> r = 0x25"
    "has_st010 d \<longleftrightarrow> m = 0x30 \<and> r = 0xf6 \<and> 10 \<le> hdr ext 0x17"
    "has_st011 d \<longleftrightarrow> m = 0x30 \<and> r = 0xf6 \<and> hdr ext 0x17 < 10"
    "has_st018 d \<longleftrightarrow> m = 0x30 \<and> r = 0xf5"
    "cart_mapper d = (if m = 0x3a \<and> r \<in> {0xf5, 0xf9} then SPC7110ROM
      else if m = 0x23 \<and> r \<in> {0x32, 0x34, 0x35} then SA1ROM
      else if m = 0x20 \<and> r \<in> {0x13, 0x14, 0x15, 0x1a} then SuperFXROM else cart_mapper c)"
    "ram_size d = (if m = 0x20 \<and> r \<in> {0x13, 0x14, 0x15, 0x1a}
      then size_from_code (ext ! 13) else ram_size c)"
    "rom_size d = rom_size c" "cart_type d = cart_type c" "header_offset d = header_offset c"
    by (simp_all only: all c f cartridge.simps)
  have e: "(if m = 0x3a \<and> r \<in> {0xf5, 0xf9} then r = 0xf9 else False) = (m = 0x3a \<and> r = 0xf9)" by simp
  show "has_epsonrtc d \<longleftrightarrow> m = 0x3a \<and> r = 0xf9" by (simp only: all cartridge.simps e)
qed

lemma detect_chips_one:
  assumes "no_chip c"
  shows "one_chip (detect_chips ext sz c)"
proof -
  have n: "cart_mapper c \<noteq> SuperFXROM" "cart_mapper c \<noteq> SA1ROM" "cart_mapper c \<noteq> SPC7110ROM"
    using assms by (simp_all add: no_chip_def)
  define m r where "m = hdr ext 0x15" and "r = hdr ext 0x16"
  note flags = detect_chips_flags [OF assms, of ext sz, folded m_def r_def]
  show ?thesis
    unfolding one_chip_def chips_def flags
  proof (intro conjI)
    show "length (filter id [m = 0x20 \<and> r \<in> {0x13, 0x14, 0x15, 0x1a}, m = 0x23 \<and> r \<in> {0x32, 0x34, 0x35},
        m = 0x35 \<and> r = 0x55, m = 0x32 \<and> r \<in> {0x43, 0x45}, m = 0x3a \<and> r \<in> {0xf5, 0xf9},
        m = 0x20 \<and> r = 0xf3, (m = 0x20 \<or> m = 0x21) \<and> r = 0x03 \<or>
        m = 0x30 \<and> r = 0x05 \<and> hdr ext 0x1a \<noteq> 0xb2 \<or> m = 0x31 \<and> (r = 0x03 \<or> r = 0x05),
        m = 0x20 \<and> r = 0x05, m = 0x30 \<and> r = 0x05 \<and> hdr ext 0x1a = 0xb2, m = 0x30 \<and> r = 0x03,
        m = 0x30 \<and> r = 0x25, m = 0x30 \<and> r = 0xf6 \<and> 10 \<le> hdr ext 0x17,
        m = 0x30 \<and> r = 0xf6 \<and> hdr ext 0x17 < 10, m = 0x30 \<and> r = 0xf5]) \<le> 1"
      by (cases "m = 0x20"; cases "m = 0x23"; cases "m = 0x30"; cases "m = 0x31"; cases "m = 0x35";
        cases "m = 0x32"; cases "m = 0x3a"; cases "m = 0x21") auto
  qed (use n in \<open>auto split: if_splits\<close>)
qed

section \<open>The whole description\<close>

lemma size_from_code: "size_from_code b = 0 \<or> (\<exists>k. 11 \<le> k \<and> k \<le> 17 \<and> size_from_code b = 2 ^ k)"
proof -
  define n where "n = unat (b AND 7)"
  have n: "n \<le> 7" using word_and_le1 [of b 7] by (simp add: n_def word_le_nat_alt)
  have "n = 0 \<or> n = 1 \<or> n = 2 \<or> n = 3 \<or> n = 4 \<or> n = 5 \<or> n = 6 \<or> n = 7" using n by linarith
  then have s: "size_from_code b = (if n = 0 then 0 else 2 ^ (n + 10))"
    unfolding size_from_code_def Let_def n_def [symmetric] by (elim disjE) (simp_all add: push_bit_eq_mult)
  show ?thesis
  proof (cases "n = 0")
    case False
    then show ?thesis using s n by (intro disjI2 exI [of _ "n + 10"]) simp
  qed (simp add: s)
qed

lemma ram_ok_code: "ram_size c = size_from_code b \<or> ram_size c = 0 \<Longrightarrow> ram_ok c"
  using size_from_code [of b] by (auto simp: ram_ok_def ram_bits_def)

text \<open>
  What holds of a description detected in a ROM of \<open>sz\<close> bytes: the header is at one of
  three places in the ROM, unless there is none.
\<close>

definition mapper_header :: "cartridge \<Rightarrow> bool" where
  "mapper_header c \<longleftrightarrow> (cart_mapper c \<in> {LoROM, ExLoROM} \<longrightarrow> header_offset c = 0x7fc0) \<and>
     (cart_mapper c = HiROM \<longrightarrow> header_offset c = 0xffc0)"

definition detected :: "u32 \<Rightarrow> cartridge \<Rightarrow> bool" where
  "detected sz c \<longleftrightarrow> one_chip c \<and> ram_ok c \<and> header_offset c \<in> {0, 0x7fc0, 0xffc0, 0x40ffc0} \<and>
     (cart_type c \<in> {TypeSuperGameBoy1Bios, TypeSuperGameBoy2Bios} \<longrightarrow> True \<notin> set (chips c)) \<and>
     (cart_mapper c = ExHiROM \<longrightarrow> header_offset c = 0x40ffc0 \<and> 0x410000 \<le> unat sz) \<and>
     (cart_type c = TypeNormal \<longrightarrow> mapper_header c) \<and>
     (cart_type c \<in> {TypeUnknown, TypeGameBoy} \<or>
        header_offset c \<in> {0x7fc0, 0xffc0, 0x40ffc0} \<and> unat (header_offset c) + 64 \<le> unat sz)"

lemma frame_simps [simp]:
  "no_chip (c\<lparr>cart_type := t\<rparr>) = no_chip c" "no_chip (c\<lparr>cart_region := g\<rparr>) = no_chip c"
  "no_chip (c\<lparr>has_bsx_slot := b\<rparr>) = no_chip c" "no_chip (c\<lparr>header_offset := i\<rparr>) = no_chip c"
  "no_chip (c\<lparr>ram_size := n\<rparr>) = no_chip c"
  "no_chip (c\<lparr>rom_size := n\<rparr>) = no_chip c" "no_chip (c\<lparr>has_copier_header := b\<rparr>) = no_chip c"
  "no_chip c \<Longrightarrow> m \<noteq> SuperFXROM \<Longrightarrow> m \<noteq> SA1ROM \<Longrightarrow> m \<noteq> SPC7110ROM \<Longrightarrow> no_chip (c\<lparr>cart_mapper := m\<rparr>)"
  "ram_ok (c\<lparr>cart_type := t\<rparr>) = ram_ok c" "ram_ok (c\<lparr>cart_region := g\<rparr>) = ram_ok c"
  "ram_ok (c\<lparr>has_bsx_slot := b\<rparr>) = ram_ok c" "ram_ok (c\<lparr>header_offset := i\<rparr>) = ram_ok c"
  "ram_ok (c\<lparr>cart_mapper := m\<rparr>) = ram_ok c"
  by (simp_all add: no_chip_def chips_def ram_ok_def ram_bits_def)

definition header_at :: "u32 \<Rightarrow> u32 \<Rightarrow> bool" where
  "header_at sz i \<longleftrightarrow> i \<in> {0x7fc0, 0xffc0, 0x40ffc0} \<and> unat i + 64 \<le> unat sz"

lemma detectedD:
  assumes "detected sz c"
  shows "one_chip c" "ram_ok c"
    and "cart_type c \<in> {TypeSuperGameBoy1Bios, TypeSuperGameBoy2Bios} \<Longrightarrow> True \<notin> set (chips c)"
    and "cart_mapper c = ExHiROM \<Longrightarrow> header_offset c = 0x40ffc0 \<and> 0x410000 \<le> unat sz"
    and "cart_type c = TypeNormal \<Longrightarrow> mapper_header c"
    and "header_offset c \<in> {0, 0x7fc0, 0xffc0, 0x40ffc0}"
    and "cart_type c \<notin> {TypeUnknown, TypeGameBoy} \<Longrightarrow> unat (header_offset c) + 64 \<le> unat sz"
  using assms unfolding detected_def by blast+

lemma detected_plain:
  assumes "no_chip c" "ram_ok c" "header_at sz (header_offset c)"
    and "cart_mapper c = ExHiROM \<Longrightarrow> header_offset c = 0x40ffc0" "cart_type c \<noteq> TypeNormal"
  shows "detected sz c"
  using assms no_chip_one [OF assms(1)] by (auto simp: detected_def header_at_def no_chip_def)

lemma detected_chips:
  assumes "no_chip c" "ram_ok c" "header_at sz (header_offset c)"
    and "cart_mapper c = ExHiROM \<Longrightarrow> header_offset c = 0x40ffc0"
    and "cart_type c \<notin> {TypeSuperGameBoy1Bios, TypeSuperGameBoy2Bios}"
    and normal: "cart_type c = TypeNormal \<Longrightarrow> mapper_header c"
  shows "detected sz (detect_chips ext n c)"
proof -
  note f = detect_chips_flags [OF assms(1), of ext n]
  have "ram_ok (detect_chips ext n c)"
  proof (cases "hdr ext 0x15 = 0x20 \<and> hdr ext 0x16 \<in> {0x13, 0x14, 0x15, 0x1a}")
    case True
    show ?thesis by (rule ram_ok_code [of _ "ext ! 13"]) (simp only: f(17) True if_True simp_thms)
  next
    case False
    have "ram_size (detect_chips ext n c) = ram_size c" by (simp only: f(17) False if_False)
    then show ?thesis using assms(2) by (simp add: ram_ok_def ram_bits_def)
  qed
  moreover have "cart_mapper (detect_chips ext n c) = ExHiROM \<Longrightarrow> cart_mapper c = ExHiROM"
    by (simp only: f(16) split: if_splits) simp_all
  moreover have "mapper_header (detect_chips ext n c)" if "cart_type c = TypeNormal"
    using normal [OF that] unfolding mapper_header_def f(16,20) by (simp split: if_splits)
  ultimately show ?thesis
    using assms(3-5) detect_chips_one [OF assms(1), of ext n]
    by (auto simp: detected_def header_at_def f(19,20))
qed

lemma detected_board:
  assumes "no_chip c" "ram_ok c" "header_offset c = i" "header_at sz i"
  shows "detected sz (detect_board ext i n c)"
proof -
  have std [simp]: "standard_mapper i n k \<noteq> SuperFXROM" "standard_mapper i n k \<noteq> SA1ROM"
    "standard_mapper i n k \<noteq> SPC7110ROM" and ex: "standard_mapper i n k = ExHiROM \<Longrightarrow> i = 0x40ffc0" for k
    using assms(4) by (auto simp: standard_mapper_def header_at_def split: if_splits)
  have std_header: "mapper_header (e\<lparr>cart_type := t, cart_mapper := standard_mapper i n k\<rparr>)"
    if "header_offset e = i" for e t k
    using that assms(4) by (auto simp: mapper_header_def standard_mapper_def header_at_def split: if_splits)
  have *: "detected sz (if has_bsx_slot e then
       if t then e\<lparr>cart_type := TypeBsxBios, cart_mapper := BSXROM, cart_region := NTSC\<rparr>
       else detect_chips ext n (e\<lparr>cart_type := TypeBsxSlotted,
              cart_mapper := (if i = 0x7fc0 then BSCLoROM else BSCHiROM), cart_region := NTSC\<rparr>)
     else detect_chips ext n (e\<lparr>cart_type := TypeNormal, cart_mapper := standard_mapper i n (hdr ext 0x15)\<rparr>))"
    if "no_chip e" "ram_ok e" "header_offset e = i" for e t
  proof -
    note e = that assms(4)
    have "detected sz (e\<lparr>cart_type := TypeBsxBios, cart_mapper := BSXROM, cart_region := NTSC\<rparr>)"
      by (rule detected_plain) (simp_all add: e)
    moreover have "detected sz (detect_chips ext n (e\<lparr>cart_type := TypeBsxSlotted,
              cart_mapper := (if i = 0x7fc0 then BSCLoROM else BSCHiROM), cart_region := NTSC\<rparr>))"
      by (rule detected_chips) (simp_all add: e split: if_splits)
    moreover have "detected sz (detect_chips ext n
        (e\<lparr>cart_type := TypeNormal, cart_mapper := standard_mapper i n (hdr ext 0x15)\<rparr>))"
      by (rule detected_chips) (simp_all add: e std_header, rule ex)
    ultimately show ?thesis by simp
  qed
  show ?thesis
    unfolding detect_board_def Let_def by (rule *) (use assms in simp_all)
qed

lemma detected_apply_header:
  assumes "no_chip c" "header_at sz i" "cart_mapper c \<noteq> ExHiROM"
  shows "case apply_header ext i n c of Inl d \<Rightarrow> detected sz d | Inr f \<Rightarrow> detected sz (f data)"
proof -
  define d where "d = c\<lparr>header_offset := i, ram_size := header_ram_size ext, cart_region := header_region ext\<rparr>"
  have d: "no_chip d" "header_offset d = i" "cart_mapper d \<noteq> ExHiROM"
    using assms by (simp_all add: d_def)
  have ram: "ram_ok d"
    by (rule ram_ok_code [of _ "hdr ext 0x18"]) (simp add: d_def header_ram_size_def Let_def)
  show ?thesis
    unfolding apply_header_def Let_def d_def [symmetric]
    using d ram assms(2) by (auto intro!: detected_plain detected_board)
qed

section \<open>Reading the header and the constructor\<close>

text \<open>Stripping firmware changes the size of the ROM and nothing else.\<close>

lemma strip_firmware_simps [simp]:
  "cart_type (strip_firmware b x m f c) = cart_type c" "cart_mapper (strip_firmware b x m f c) = cart_mapper c"
  "header_offset (strip_firmware b x m f c) = header_offset c"
  "has_copier_header (strip_firmware b x m f c) = has_copier_header c" "ram_size (strip_firmware b x m f c) = ram_size c"
  "chips (strip_firmware b x m f c) = chips c" "has_epsonrtc (strip_firmware b x m f c) = has_epsonrtc c"
  "has_superfx (strip_firmware b x m f c) = has_superfx c" "has_sa1 (strip_firmware b x m f c) = has_sa1 c"
  "has_spc7110 (strip_firmware b x m f c) = has_spc7110 c" "has_cx4 (strip_firmware b x m f c) = has_cx4 c"
  "has_dsp1 (strip_firmware b x m f c) = has_dsp1 c" "has_dsp2 (strip_firmware b x m f c) = has_dsp2 c"
  "has_dsp3 (strip_firmware b x m f c) = has_dsp3 c" "has_dsp4 (strip_firmware b x m f c) = has_dsp4 c"
  "has_st010 (strip_firmware b x m f c) = has_st010 c" "has_st011 (strip_firmware b x m f c) = has_st011 c"
  "has_st018 (strip_firmware b x m f c) = has_st018 c"
  by (simp_all add: strip_firmware_def chips_def)

lemma detected_cong:
  assumes "detected sz c" "chips d = chips c" "has_epsonrtc d = has_epsonrtc c" "cart_type d = cart_type c"
    "cart_mapper d = cart_mapper c" "header_offset d = header_offset c" "ram_size d = ram_size c"
  shows "detected sz d"
proof -
  have e: "has_superfx d = has_superfx c" "has_sa1 d = has_sa1 c" "has_spc7110 d = has_spc7110 c"
    using assms(2) by (simp_all add: chips_def)
  show ?thesis using assms(1)
    unfolding detected_def mapper_header_def one_chip_def ram_ok_def ram_bits_def e assms(2-7) .
qed

lemma detected_strip: "detected sz c \<Longrightarrow> detected sz (strip_all_firmware n c)"
  by (erule detected_cong) (simp_all add: strip_all_firmware_def Let_def)

lemma strip_firmware_False [simp]: "strip_firmware False x m f c = c"
  by (simp add: strip_firmware_def)

lemma strip_firmware_size:
  assumes "rom_size c = n" "f \<le> 0x28000"
  shows "rom_size (strip_firmware b n m f c) \<le> n \<and> unat n \<le> unat (rom_size (strip_firmware b n m f c)) + 0x28000"
proof (cases "b \<and> n AND m = f")
  case True
  then have "f \<le> n" using word_and_le2 [of n m] by simp
  then show ?thesis using True assms
    by (simp add: strip_firmware_def word_le_nat_alt unat_sub)
qed (use assms in \<open>auto simp: strip_firmware_def\<close>)

lemma at_most_one:
  "length (filter id (b # bs)) \<le> 1 \<longleftrightarrow> b \<and> True \<notin> set bs \<or> \<not> b \<and> length (filter id bs) \<le> 1"
  by (cases b) (auto simp: filter_empty_conv)

lemma strip_all_size:
  assumes "detected sz c" "rom_size c = n"
  shows "rom_size (strip_all_firmware n c) \<le> n \<and> unat n \<le> unat (rom_size (strip_all_firmware n c)) + 0x28000"
proof (cases "cart_type c \<in> {TypeSuperGameBoy1Bios, TypeSuperGameBoy2Bios}")
  case True
  then have "True \<notin> set (chips c)" using detectedD(3) [OF assms(1)] by simp
  then show ?thesis using True strip_firmware_size [of c n "0x100" True "0x7fff"] assms(2)
    by (auto simp: strip_all_firmware_def chips_def)
next
  case False
  have one: "length (filter id (chips c)) \<le> 1" using detectedD(1) [OF assms(1)] by (simp add: one_chip_def)
  let ?fw = "[has_cx4 c, has_dsp1 c, has_dsp2 c, has_dsp3 c, has_dsp4 c, has_st010 c, has_st011 c, has_st018 c]"
  have "length (filter id ?fw) \<le> 1"
    using one by (simp add: chips_def split: if_splits)
  then show ?thesis
    unfolding at_most_one list.set insert_iff empty_iff
    by (elim disjE conjE) (use False strip_firmware_size [OF assms(2)] in \<open>simp_all add: strip_all_firmware_def assms(2)\<close>)
qed

lemma detect_rom_size [simp]:
  "rom_size (detect_superfx m r k c) = rom_size c" "rom_size (detect_sa1 m r c) = rom_size c"
  "rom_size (detect_sharprtc m r c) = rom_size c" "rom_size (detect_sdd1 m r c) = rom_size c"
  "rom_size (detect_spc7110 m r c) = rom_size c" "rom_size (detect_cx4 m r c) = rom_size c"
  "rom_size (detect_dsp1 m r co n c) = rom_size c" "rom_size (detect_dsp234 m r co c) = rom_size c"
  "rom_size (detect_others m r l c) = rom_size c"
  "has_copier_header (detect_superfx m r k c) = has_copier_header c"
  "has_copier_header (detect_sa1 m r c) = has_copier_header c"
  "has_copier_header (detect_sharprtc m r c) = has_copier_header c"
  "has_copier_header (detect_sdd1 m r c) = has_copier_header c"
  "has_copier_header (detect_spc7110 m r c) = has_copier_header c"
  "has_copier_header (detect_cx4 m r c) = has_copier_header c"
  "has_copier_header (detect_dsp1 m r co n c) = has_copier_header c"
  "has_copier_header (detect_dsp234 m r co c) = has_copier_header c"
  "has_copier_header (detect_others m r l c) = has_copier_header c"
  by (simp_all add: detect_superfx_def detect_sa1_def detect_sharprtc_def detect_sdd1_def detect_spc7110_def
    detect_cx4_def detect_dsp1_def detect_dsp234_def detect_others_def Let_def)

lemma apply_header_size:
  "case apply_header ext i n c of
     Inl d \<Rightarrow> rom_size d = rom_size c \<and> has_copier_header d = has_copier_header c
   | Inr f \<Rightarrow> rom_size (f data) = rom_size c \<and> has_copier_header (f data) = has_copier_header c"
  by (simp add: apply_header_def detect_board_def detect_chips_def Let_def)

context linput
begin

text \<open>
  The constructor never reads a byte that the file does not have, leaves the file alone, and
  what it returns is a consistent description of a ROM that lies in the file.
\<close>

lemma read_header_total:
  assumes "\<not> ucast (qlsize io li) <s (0 :: u32)" "header_offset c = 0"
  shows "\<exists>d li'. read_header io li c = Some (d, li') \<and> content li' = content li \<and>
    rom_size d = rom_bytes li \<and> has_copier_header d = copier_header (ucast (qlsize io li)) \<and>
    detected (rom_bytes li) d"
proof -
  let ?n = "rom_bytes li" and ?st = "rom_start li"
  define e where "e = reset_members ?n (c\<lparr>has_copier_header := copier_header (ucast (qlsize io li))\<rparr>)"
  have e: "no_chip e" "rom_size e = ?n" "cart_mapper e \<noteq> ExHiROM" "cart_type e = TypeUnknown"
    "header_offset e = 0" "has_copier_header e = copier_header (ucast (qlsize io li))"
    using assms(2) by (simp_all add: e_def reset_members_def no_chip_def chips_def)
  have ram: "ram_ok e" by (simp add: e_def reset_members_def ram_ok_def)
  have un: "detected ?n (e\<lparr>cart_type := t\<rparr>)" if "t = TypeUnknown \<or> t = TypeGameBoy" for t
    using no_chip_one [of "e\<lparr>cart_type := t\<rparr>"] e ram that by (auto simp: detected_def)
  have pos: "?n <s k \<longleftrightarrow> unat ?n < unat k" "k \<le>s ?n \<longleftrightarrow> unat k \<le> unat ?n" if "unat k < 2 ^ 31" for k :: u32
    using sless_u32 [OF that, of ?n] sless_u32(1) [of 0 "ucast (qlsize io li)"] rom_bounds(3) [of li] assms
    by (auto simp: not_less)
  have "\<exists>li1 gb. (if 0x140 \<le>s ?n then do {
             (data, li) \<leftarrow> fill_at io li ?st 0x140;
             Some (is_game_boy data, li) } else Some (False, li)) = Some (gb, li1) \<and> content li1 = content li"
    using fill_at_bytes [of ?st "0x140" li] pos(2) [of "0x140"] rom_bounds(2) [of li] by force
  then obtain li1 gb where gb: "(if 0x140 \<le>s ?n then do {
             (data, li) \<leftarrow> fill_at io li ?st 0x140;
             Some (is_game_boy data, li) } else Some (False, li)) = Some (gb, li1)" "content li1 = content li" by blast
  have rh: "read_header io li c = (if gb then Some (e\<lparr>cart_type := TypeGameBoy\<rparr>, li1)
         else if ?n <s 32768 then Some (e\<lparr>cart_type := TypeUnknown\<rparr>, li1)
         else do {
           (index, li) \<leftarrow> find_header io li1;
           (ext, li) \<leftarrow> fill_at io li (?st + index - 16) (16 + 64);
           case apply_header ext index ?n e of
             Inl c \<Rightarrow> Some (c, li)
           | Inr f \<Rightarrow> do {
               (data, li) \<leftarrow> fill_at io li ?st 32;
               Some (f data, li) } })"
    using assms gb(1) unfolding read_header_def Let_def e_def rom_bytes_def rom_start_def by simp
  show ?thesis
  proof (cases "gb \<or> ?n <s 32768")
    case True
    then show ?thesis using rh un gb(2) e by (cases gb) simp_all
  next
    case False
    have same: "rom_bytes li1 = ?n" using gb(2) by (simp add: rom_bytes_def size_content)
    obtain i li2 where i: "find_header io li1 = Some (i, li2)" "content li2 = content li" "header_at ?n i"
      using find_header_total [of li1] False pos(1) [of 32768] gb(2)
      by (auto simp: same header_at_def not_less)
    have "16 \<le> unat i" using i(3) by (auto simp: header_at_def)
    have le: "unat i + 64 \<le> unat ?n" using i(3) by (simp add: header_at_def)
    have add: "unat (?st + i) = unat ?st + unat i"
      using le rom_bounds(4) [of li] by (simp add: unat_word_ariths)
    have "unat (?st + i - 16) = unat ?st + unat i - 16"
      using \<open>16 \<le> unat i\<close> by (simp add: unat_sub word_le_nat_alt add)
    then have p: "unat (?st + i - 16) + 80 \<le> length (content li2)"
      using le \<open>16 \<le> unat i\<close> i(2) rom_bounds(2) [of li] by simp
    obtain ext li3 where x: "fill_at io li2 (?st + i - 16) 80 = Some (ext, li3)" "content li3 = content li"
      using fill_at_bytes [OF p] i(2) by auto
    obtain data li4 where d: "fill_at io li3 ?st 32 = Some (data, li4)" "content li4 = content li"
      using fill_at_bytes [of ?st 32 li3] x(2) rom_bounds(2) [of li] False pos(1) [of 32768] by (auto simp: not_less)
    have "read_header io li c = (case apply_header ext i ?n e of Inl c \<Rightarrow> Some (c, li3) | Inr f \<Rightarrow> Some (f data, li4))"
      unfolding rh using False i(1) x(1) d(1) by (simp split: sum.split)
    then show ?thesis
      using detected_apply_header [OF e(1) i(3) e(3), where ext = ext and n = ?n and data = data]
        apply_header_size [where ext = ext and i = i and n = ?n and c = e and data = data] x(2) d(2) e(2,6)
      by (auto split: sum.splits)
  qed
qed

lemma cartridge_from_total:
  "\<exists>c li'. cartridge_from io li = Some (c, li') \<and> content li' = content li \<and>
    detected (rom_bytes li) c \<and> rom_size c \<le> rom_bytes li \<and>
    (rom_size c = 0 \<and> cart_type c = TypeUnknown \<or>
       unat (rom_bytes li) \<le> unat (rom_size c) + 0x28000 \<and> unat (rom_bytes li) < 2 ^ 31 \<and>
       (if has_copier_header c then 512 else 0) = rom_start li)"
proof -
  let ?s = "ucast (qlsize io li) :: u32" and ?n = "rom_bytes li"
  have init: "detected ?n (cartridge_init\<lparr>firmware_appended := False\<rparr>)" "cartridge_init\<lparr>firmware_appended := False\<rparr> = cartridge_init"
    by (simp_all add: detected_def one_chip_def chips_def cartridge_init_def ram_ok_def)
  have zero: "rom_size cartridge_init = 0" "cart_type cartridge_init = TypeUnknown" "header_offset cartridge_init = 0"
    by (simp_all add: cartridge_init_def)
  have cf: "cartridge_from io li = (if ?s <s 0 \<or> ?n <s 0x8000 then Some (cartridge_init, li)
       else do {
         (c, li) \<leftarrow> read_header io li cartridge_init;
         Some (if cart_type c = TypeGameBoy then c
               else if cart_type c = TypeBsx then c
               else if cart_type c = TypeSufamiTurbo then c
               else strip_all_firmware ?n c, li) })"
    unfolding cartridge_from_def Let_def rom_bytes_def init(2) by simp
  show ?thesis
  proof (cases "?s <s 0 \<or> ?n <s 0x8000")
    case True
    then show ?thesis using init zero by (simp add: cf)
  next
    case False
    then obtain c li1 where c: "read_header io li cartridge_init = Some (c, li1)" "content li1 = content li"
      "rom_size c = ?n" "detected ?n c" "has_copier_header c = copier_header ?s"
      using read_header_total [of li cartridge_init] zero(3) by blast
    have h: "has_copier_header (strip_all_firmware n c) = has_copier_header c" for n
      by (simp add: strip_all_firmware_def Let_def)
    have b: "unat ?n < 2 ^ 31"
      using False rom_bounds(3) [of li] sless_u32(1) [of 0 ?s] by auto
    show ?thesis
      using False c detected_strip [OF c(4)] strip_all_size [OF c(4) c(3)] h b by (simp add: cf rom_start_def)
  qed
qed

lemma accept_file_total: "\<exists>b li'. accept_file io li = Some (b, li') \<and> content li' = content li"
proof -
  obtain c li1 where c: "cartridge_from io li = Some (c, li1)" "content li1 = content li" "detected (rom_bytes li) c"
    using cartridge_from_total by blast
  have "unat (header_offset c) + 64 < 2 ^ 32" using detectedD(6) [OF c(3)] by (elim insertE) simp_all
  then obtain s li2 where "score_header io li1 (header_offset c) = Some (s, li2)" "content li2 = content li1"
    using score_header_total by blast
  then show ?thesis using c by (simp add: accept_file_def)
qed

end

section \<open>What detection does not touch\<close>

text \<open>
  Anything that seeking and reading leave alone, the detection leaves alone.  The
  \<open>_keeps\<close> lemmas follow the calls of the code.
\<close>

locale linput_frame =
  fixes io :: "'i linput_ops" and g :: "'i \<Rightarrow> 'g"
  assumes seek_keeps: "g (snd (qlseek io li p)) = g li"
    and read_keeps: "g (snd (qlread io li n)) = g li"
begin

lemma fill_at_keeps: "fill_at io li p n = Some (bs, li') \<Longrightarrow> g li' = g li"
  using seek_keeps [of li "ucast p"] read_keeps [of "snd (qlseek io li (ucast p))" n]
  by (auto simp: fill_at_def split_beta Let_def split: option.splits if_splits)

lemma reset_opcode_keeps: "g (snd (reset_opcode io li p)) = g li"
  using seek_keeps [of li "ucast p"] read_keeps [of "snd (qlseek io li (ucast p))" 1]
  by (auto simp: reset_opcode_def split_beta Let_def split: prod.split option.split list.split)

lemma score_header_keeps: "score_header io li a = Some (s, li') \<Longrightarrow> g li' = g li"
  using reset_opcode_keeps
  by (auto simp: score_header_def split_beta Let_def dest!: fill_at_keeps split: if_splits bind_splits option.splits)

lemma find_header_keeps: "find_header io li = Some (i, li') \<Longrightarrow> g li' = g li"
  by (auto simp: find_header_def Let_def dest!: score_header_keeps split: bind_splits)

lemma read_header_keeps:
  assumes "read_header io li c = Some (d, li')"
  shows "g li' = g li"
  using assms unfolding read_header_def Let_def
  by (auto dest!: fill_at_keeps find_header_keeps split: if_splits bind_splits sum.splits)

lemma cartridge_from_keeps: "cartridge_from io li = Some (c, li') \<Longrightarrow> g li' = g li"
  by (auto simp: cartridge_from_def Let_def dest!: read_header_keeps split: if_splits bind_splits)

end

interpretation mem_frame: linput_frame file_linput fst
  by unfold_locales (simp_all add: file_linput_def split_beta)

text \<open>What the address translation relies on.\<close>

lemma detected_cart_ok:
  assumes "detected sz c" "unat sz \<le> unat (rom_size c) + 0x28000 \<or> cart_mapper c \<noteq> ExHiROM"
  shows "cart_ok c"
proof -
  have "0x200000 < unat (rom_size c)" if "cart_mapper c = ExHiROM"
    using detectedD(4) [OF assms(1) that] assms(2) that by auto
  then show ?thesis using detectedD(2) [OF assms(1)]
    by (simp add: cart_ok_def preserve_rom_mirror_def word_less_nat_alt)
qed

end
