(* ===== verification/SnesLoad.thy ===== *)
theory SnesLoad
  imports SnesDetect
begin

text \<open>
  The loader of SNES ROM files, \<open>src/src/ldr/snes/snes.cpp\<close>: which part of the file goes to
  which addresses of the database, the segments for ROM, RAM and registers, the entry
  point and the interrupt vectors.

  The kernel is not in the repository.  Its state, the open file included, is a value of
  type \<open>'k\<close>; the calls whose results the loader uses are the members of \<open>kernel_ops\<close>,
  and the calls it makes for their effect alone are values of \<open>call\<close>, performed by the
  member \<open>perform\<close>.  A call of \<open>loader_failure\<close>, which does not return, is a value
  of \<open>load_error\<close>.
\<close>

section \<open>The kernel\<close>

text \<open>\<open>segment_info_t\<close>: every segment the loader describes this way has type \<open>SEG_IMEM\<close>.\<close>

record segment_info =
  start_ea :: u64
  end_ea :: u64
  seg_sel :: u64
  seg_name :: string
  seg_sclass :: string

datatype call =
    SetProcessorType string
  | CreateNetnode string
  | InfSetStartCs u64
  | InfSetStartIp u64
  | CreateByte u64
  | CreateWord u64
  | CreateStrlit u64 nat
  | SetName u64 string
  | SetCmt u64 string
  | AutoMakeCode u64
  | OpOffset u64 u64

record 'k kernel_ops =
  allocate_selector :: "'k \<Rightarrow> u64 \<Rightarrow> u64 \<times> 'k"
  add_segment_ex :: "'k \<Rightarrow> segment_info \<Rightarrow> bool \<times> 'k"
  add_segm :: "'k \<Rightarrow> u64 \<Rightarrow> u64 \<Rightarrow> u64 \<Rightarrow> string \<Rightarrow> string \<Rightarrow> bool \<times> 'k"
  file2base :: "'k \<Rightarrow> u64 \<Rightarrow> u64 \<Rightarrow> u64 \<Rightarrow> bool \<times> 'k"
  get_word :: "'k \<Rightarrow> u64 \<Rightarrow> u16"
  has_user_name :: "'k \<Rightarrow> u64 \<Rightarrow> bool"
  perform :: "'k \<Rightarrow> call \<Rightarrow> 'k"

datatype load_error =
    UninitialisedRead
  | FailedAddingSegment string
  | FailedMapping u32 u64 u64
  | FailedAddingBank
  | UnsupportedMapper string

type_synonym ('k, 'a) loader = "'k \<Rightarrow> load_error + ('a \<times> 'k)"

definition ret :: "'a \<Rightarrow> ('k, 'a) loader" where
  "ret x k = Inr (x, k)"

definition andthen :: "('k, 'a) loader \<Rightarrow> ('a \<Rightarrow> ('k, 'b) loader) \<Rightarrow> ('k, 'b) loader" where
  "andthen m f k = (case m k of Inl e \<Rightarrow> Inl e | Inr (x, k) \<Rightarrow> f x k)"

definition BADSEL :: u64 where "BADSEL = - 1"

text \<open>\<open>qsnprintf\<close> with the format \<open>".%02X"\<close>.\<close>

fun hex_digits :: "nat \<Rightarrow> string" where
  "hex_digits n = (let d = ''0123456789ABCDEF'' ! (n mod 16) in
     if n < 16 then [d] else hex_digits (n div 16) @ [d])"

definition bank_name :: "u32 \<Rightarrow> string" where
  "bank_name bank = (let s = hex_digits (unat bank) in ''.'' @ (if length s < 2 then ''0'' @ s else s))"

section \<open>Segments for registers and RAM\<close>

definition add_imem :: "'k kernel_ops \<Rightarrow> u64 \<Rightarrow> u64 \<Rightarrow> string \<Rightarrow> string \<Rightarrow> ('k, unit) loader" where
  "add_imem K start stop name sclass k =
    (let (sel, k) = allocate_selector K k (drop_bit 4 start);
         (ok, k) = add_segment_ex K k
           \<lparr>start_ea = start, end_ea = stop, seg_sel = sel, seg_name = name, seg_sclass = sclass\<rparr>
     in if ok then Inr ((), k) else Inl (FailedAddingSegment name))"

definition map_io_seg :: "'k kernel_ops \<Rightarrow> u64 \<Rightarrow> u64 \<Rightarrow> string \<Rightarrow> ('k, unit) loader" where
  "map_io_seg K start stop name = add_imem K start stop name []"

definition map_hwregs :: "'k kernel_ops \<Rightarrow> ('k, unit) loader" where
  "map_hwregs K =
     andthen (map_io_seg K 0x2100 0x2140 ''ppu'') (\<lambda>_.
     andthen (map_io_seg K 0x2140 0x2144 ''apu'') (\<lambda>_.
     andthen (map_io_seg K 0x2180 0x2184 ''wramrw'') (\<lambda>_.
     andthen (map_io_seg K 0x4016 0x4018 ''joypad'') (\<lambda>_.
     andthen (map_io_seg K 0x4200 0x4220 ''misc'') (\<lambda>_.
     map_io_seg K 0x4300 0x4380 ''dma'')))))"

definition map_wram :: "'k kernel_ops \<Rightarrow> ('k, unit) loader" where
  "map_wram K = add_imem K 0x7e0000 0x800000 ''wram'' []"

text \<open>The loops over RAM banks, with the number of iterations left.\<close>

primrec lorom_sram_loop :: "'k kernel_ops \<Rightarrow> nat \<Rightarrow> u32 \<Rightarrow> ('k, unit) loader" where
  "lorom_sram_loop K 0 bank = ret ()"
| "lorom_sram_loop K (Suc n) bank =
    (let bank = (if bank = 0x7e then 0xfe else bank);
         start = ucast (push_bit 16 bank) :: u64 in
     andthen (add_imem K start (start + 0x8000) (bank_name bank) ''BANK_RAM'') (\<lambda>_.
     lorom_sram_loop K n (bank + 1)))"

definition map_lorom_sram_offset :: "'k kernel_ops \<Rightarrow> u32 \<Rightarrow> u8 \<Rightarrow> ('k, unit) loader" where
  "map_lorom_sram_offset K ram start_bank =
     lorom_sram_loop K (unat ((ram + 0x8000 - 1) div 0x8000)) (ucast start_bank)"

primrec hirom_sram_loop :: "'k kernel_ops \<Rightarrow> nat \<Rightarrow> u32 \<Rightarrow> ('k, unit) loader" where
  "hirom_sram_loop K 0 bank = ret ()"
| "hirom_sram_loop K (Suc n) bank =
    (let start = ucast (push_bit 16 bank + 0x6000) :: u64 in
     andthen (add_imem K start (start + 0x2000) (bank_name bank) ''BANK_RAM'') (\<lambda>_.
     hirom_sram_loop K n (bank + 1)))"

definition map_hirom_sram_offset :: "'k kernel_ops \<Rightarrow> u32 \<Rightarrow> u8 \<Rightarrow> ('k, unit) loader" where
  "map_hirom_sram_offset K ram start_bank =
     hirom_sram_loop K (unat ((ram + 0x2000 - 1) div 0x2000)) (ucast start_bank)"

definition map_lorom_sram :: "'k kernel_ops \<Rightarrow> u32 \<Rightarrow> ('k, unit) loader" where
  "map_lorom_sram K ram = map_lorom_sram_offset K ram 0x70"

definition map_hirom_sram :: "'k kernel_ops \<Rightarrow> u32 \<Rightarrow> ('k, unit) loader" where
  "map_hirom_sram K ram = map_hirom_sram_offset K ram 0x20"

text \<open>The loop of \<open>map_superfx_sram\<close> and \<open>map_sa1_bwram\<close>, over banks of 64 KB.\<close>

primrec ram64_loop :: "'k kernel_ops \<Rightarrow> nat \<Rightarrow> u32 \<Rightarrow> ('k, unit) loader" where
  "ram64_loop K 0 bank = ret ()"
| "ram64_loop K (Suc n) bank =
    (let start = ucast (push_bit 16 bank) :: u64 in
     andthen (add_imem K start (start + 0x10000) (bank_name bank) ''BANK_RAM'') (\<lambda>_.
     ram64_loop K n (bank + 1)))"

definition map_superfx_sram :: "'k kernel_ops \<Rightarrow> u32 \<Rightarrow> ('k, unit) loader" where
  "map_superfx_sram K ram = ram64_loop K (unat ((ram + 0x10000 - 1) div 0x10000)) 0x70"

definition map_superfx_workram :: "'k kernel_ops \<Rightarrow> ('k, unit) loader" where
  "map_superfx_workram K = add_imem K 0x6000 0x8000 ''sfxram'' []"

definition map_superfx_hwregs :: "'k kernel_ops \<Rightarrow> ('k, unit) loader" where
  "map_superfx_hwregs K = map_io_seg K 0x3000 0x3500 ''superfx''"

definition map_sa1_bwram :: "'k kernel_ops \<Rightarrow> u32 \<Rightarrow> ('k, unit) loader" where
  "map_sa1_bwram K ram = ram64_loop K (unat ((ram + 0x10000 - 1) div 0x10000)) 0x40"

definition map_sa1_iram :: "'k kernel_ops \<Rightarrow> ('k, unit) loader" where
  "map_sa1_iram K = add_imem K 0x3000 0x3800 ''iram'' []"

definition map_sa1_hwregs :: "'k kernel_ops \<Rightarrow> ('k, unit) loader" where
  "map_sa1_hwregs K = map_io_seg K 0x2200 0x2400 ''sa1''"

definition map_cx4_hwregs :: "'k kernel_ops \<Rightarrow> ('k, unit) loader" where
  "map_cx4_hwregs K = map_io_seg K 0x6000 0x8000 ''cx4''"

definition map_spc7110_hwregs :: "'k kernel_ops \<Rightarrow> ('k, unit) loader" where
  "map_spc7110_hwregs K =
     andthen (map_io_seg K 0x4800 0x4840 ''spc7110'') (\<lambda>_. map_io_seg K 0x500000 0x600000 ''decomprom'')"

definition map_sdd1_hwregs :: "'k kernel_ops \<Rightarrow> ('k, unit) loader" where
  "map_sdd1_hwregs K = map_io_seg K 0x4800 0x4808 ''sdd1''"

section \<open>ROM banks\<close>

text \<open>
  The loops of \<open>map_lorom_offset\<close> and \<open>map_hirom_offset\<close>: the number of iterations left,
  \<open>mapped\<close>, \<open>bank\<close> and \<open>start_sel\<close>.
\<close>

primrec lorom_loop ::
    "'k kernel_ops \<Rightarrow> u32 \<Rightarrow> u32 \<Rightarrow> u8 \<Rightarrow> u32 \<Rightarrow> nat \<Rightarrow> u32 \<Rightarrow> u32 \<Rightarrow> u64 \<Rightarrow> ('k, u64) loader" where
  "lorom_loop K rom_start n start_bank off 0 mapped bank start_sel k = Inr (start_sel, k)"
| "lorom_loop K rom_start n start_bank off (Suc r) mapped bank start_sel k =
     (if bank = 0x7e \<or> bank = 0x7f
      then lorom_loop K rom_start n start_bank off r (mapped + 1) (bank + 1) start_sel k
      else
        let map_size = min 0x8000 (n - 0x8000 * mapped);
            start = ucast (push_bit 16 bank + 0x8000) :: u64;
            stop = start + 0x8000;
            off_in_file = rom_start + off + push_bit 15 mapped;
            (ok, k) = file2base K k (ucast off_in_file) start (start + ucast map_size) in
        if \<not> ok then Inl (FailedMapping off_in_file start stop)
        else
          let (selector, k) = allocate_selector K k (drop_bit 4 (start - 0x8000));
              (ok, k) = add_segm K k selector start stop (bank_name bank) ''BANK_ROM'' in
          if \<not> ok then Inl FailedAddingBank
          else lorom_loop K rom_start n start_bank off r (mapped + 1) (bank + 1)
                 (if bank = ucast start_bank then selector else start_sel) k)"

definition map_lorom_offset :: "'k kernel_ops \<Rightarrow> u32 \<Rightarrow> u32 \<Rightarrow> u8 \<Rightarrow> u32 \<Rightarrow> ('k, u64) loader" where
  "map_lorom_offset K rom_start n start_bank off =
     lorom_loop K rom_start n start_bank off (unat ((n + 0x8000 - 1) div 0x8000)) 0 (ucast start_bank) 0"

primrec hirom_loop ::
    "'k kernel_ops \<Rightarrow> u32 \<Rightarrow> u32 \<Rightarrow> u8 \<Rightarrow> u32 \<Rightarrow> nat \<Rightarrow> u32 \<Rightarrow> u32 \<Rightarrow> u64 \<Rightarrow> ('k, u64) loader" where
  "hirom_loop K rom_start n start_bank off 0 mapped bank start_sel k = Inr (start_sel, k)"
| "hirom_loop K rom_start n start_bank off (Suc r) mapped bank start_sel k =
     (if bank = 0x7e \<or> bank = 0x7f
      then hirom_loop K rom_start n start_bank off r (mapped + 1) (bank + 1) start_sel k
      else
        let map_size = min 0x10000 (n - 0x10000 * mapped);
            start = ucast (push_bit 16 bank) :: u64;
            stop = start + 0x10000;
            off_in_file = rom_start + off + push_bit 16 mapped;
            (ok, k) = file2base K k (ucast off_in_file) start (start + ucast map_size) in
        if \<not> ok then Inl (FailedMapping off_in_file start stop)
        else
          let (selector, k) = allocate_selector K k (drop_bit 4 start);
              (ok, k) = add_segm K k selector start stop (bank_name bank) ''BANK_ROM'' in
          if \<not> ok then Inl FailedAddingBank
          else hirom_loop K rom_start n start_bank off r (mapped + 1) (bank + 1)
                 (if bank = ucast start_bank then selector else start_sel) k)"

definition map_hirom_offset :: "'k kernel_ops \<Rightarrow> u32 \<Rightarrow> u32 \<Rightarrow> u8 \<Rightarrow> u32 \<Rightarrow> ('k, u64) loader" where
  "map_hirom_offset K rom_start n start_bank off =
     hirom_loop K rom_start n start_bank off (unat ((n + 0x10000 - 1) div 0x10000)) 0 (ucast start_bank) 0"

definition map_lorom :: "'k kernel_ops \<Rightarrow> u32 \<Rightarrow> u32 \<Rightarrow> ('k, u64) loader" where
  "map_lorom K rom_start n = map_lorom_offset K rom_start n 0x80 0"

definition map_hirom :: "'k kernel_ops \<Rightarrow> u32 \<Rightarrow> u32 \<Rightarrow> ('k, u64) loader" where
  "map_hirom K rom_start n = map_hirom_offset K rom_start n 0xc0 0"

definition map_exhirom :: "'k kernel_ops \<Rightarrow> u32 \<Rightarrow> u32 \<Rightarrow> ('k, u64) loader" where
  "map_exhirom K rom_start n =
     (if n \<le> 0x400000 then ret BADSEL
      else andthen (map_hirom_offset K rom_start (n - 0x400000) 0x40 0x400000) (\<lambda>start_sel.
           andthen (map_hirom_offset K rom_start (min n 0x400000) 0xc0 0) (\<lambda>_. ret start_sel)))"

definition map_superfx :: "'k kernel_ops \<Rightarrow> u32 \<Rightarrow> u32 \<Rightarrow> ('k, u64) loader" where
  "map_superfx K rom_start n =
     andthen (map_lorom_offset K rom_start (min n 0x200000) 0x00 0) (\<lambda>start_sel.
     andthen (map_hirom_offset K rom_start (min n 0x200000) 0xc0 0) (\<lambda>_. ret start_sel))"

definition map_sa1 :: "'k kernel_ops \<Rightarrow> u32 \<Rightarrow> u32 \<Rightarrow> ('k, u64) loader" where
  "map_sa1 K rom_start n =
     andthen (map_lorom_offset K rom_start (min n 0x200000) 0x00 0) (\<lambda>start_sel.
     andthen (map_hirom_offset K rom_start n 0xc0 0) (\<lambda>_. ret start_sel))"

definition map_sdd1rom :: "'k kernel_ops \<Rightarrow> u32 \<Rightarrow> u32 \<Rightarrow> ('k, u64) loader" where
  "map_sdd1rom K rom_start n =
     andthen (map_lorom_offset K rom_start (min n 0x200000) 0x80 0) (\<lambda>start_sel.
     andthen (map_hirom_offset K rom_start (min n 0x400000) 0xc0 0) (\<lambda>_. ret start_sel))"

section \<open>Cartridges\<close>

definition map_lorom_cartridge :: "'k kernel_ops \<Rightarrow> u32 \<Rightarrow> u32 \<Rightarrow> u32 \<Rightarrow> ('k, u64) loader" where
  "map_lorom_cartridge K rom_start n ram =
     andthen (map_lorom K rom_start (min n 0x400000)) (\<lambda>start_sel.
     andthen (map_lorom_sram K ram) (\<lambda>_. ret start_sel))"

definition map_hirom_cartridge :: "'k kernel_ops \<Rightarrow> u32 \<Rightarrow> u32 \<Rightarrow> u32 \<Rightarrow> ('k, u64) loader" where
  "map_hirom_cartridge K rom_start n ram =
     andthen (map_hirom K rom_start (min n 0x400000)) (\<lambda>start_sel.
     andthen (map_hirom_sram K ram) (\<lambda>_. ret start_sel))"

definition map_exlorom_cartridge :: "'k kernel_ops \<Rightarrow> u32 \<Rightarrow> u32 \<Rightarrow> u32 \<Rightarrow> ('k, u64) loader" where
  "map_exlorom_cartridge K rom_start n ram =
     andthen (map_lorom_offset K rom_start (min n 0x200000) 0x80 0) (\<lambda>start_sel.
     andthen (map_hirom_offset K rom_start (min n 0x400000) 0x40 0) (\<lambda>_.
     andthen (map_lorom_sram K ram) (\<lambda>_. ret start_sel)))"

definition map_exhirom_cartridge :: "'k kernel_ops \<Rightarrow> u32 \<Rightarrow> u32 \<Rightarrow> u32 \<Rightarrow> ('k, u64) loader" where
  "map_exhirom_cartridge K rom_start n ram =
     andthen (map_exhirom K rom_start n) (\<lambda>start_sel.
     andthen (map_hirom_sram K ram) (\<lambda>_. ret start_sel))"

definition map_superfx_cartridge :: "'k kernel_ops \<Rightarrow> u32 \<Rightarrow> u32 \<Rightarrow> u32 \<Rightarrow> ('k, u64) loader" where
  "map_superfx_cartridge K rom_start n ram =
     andthen (map_superfx K rom_start n) (\<lambda>start_sel.
     andthen (map_superfx_sram K ram) (\<lambda>_.
     andthen (map_superfx_workram K) (\<lambda>_.
     andthen (map_superfx_hwregs K) (\<lambda>_. ret start_sel))))"

definition map_sa1_cartridge :: "'k kernel_ops \<Rightarrow> u32 \<Rightarrow> u32 \<Rightarrow> u32 \<Rightarrow> ('k, u64) loader" where
  "map_sa1_cartridge K rom_start n ram =
     andthen (map_sa1 K rom_start n) (\<lambda>start_sel.
     andthen (map_sa1_bwram K ram) (\<lambda>_.
     andthen (map_sa1_iram K) (\<lambda>_.
     andthen (map_sa1_hwregs K) (\<lambda>_. ret start_sel))))"

definition map_cx4_cartridge :: "'k kernel_ops \<Rightarrow> u32 \<Rightarrow> u32 \<Rightarrow> u32 \<Rightarrow> ('k, u64) loader" where
  "map_cx4_cartridge K rom_start n ram =
     andthen (map_lorom K rom_start (min n 0x400000)) (\<lambda>start_sel.
     andthen (map_lorom_sram K ram) (\<lambda>_.
     andthen (map_cx4_hwregs K) (\<lambda>_. ret start_sel)))"

definition map_spc7110_cartridge :: "'k kernel_ops \<Rightarrow> u32 \<Rightarrow> u32 \<Rightarrow> u32 \<Rightarrow> ('k, u64) loader" where
  "map_spc7110_cartridge K rom_start n ram =
     andthen (map_hirom_offset K rom_start (min n 0x100000) 0xc0 0) (\<lambda>start_sel.
     andthen (map_hirom_sram_offset K ram 0x00) (\<lambda>_.
     andthen (map_spc7110_hwregs K) (\<lambda>_. ret start_sel)))"

definition map_sdd1_cartridge :: "'k kernel_ops \<Rightarrow> u32 \<Rightarrow> u32 \<Rightarrow> u32 \<Rightarrow> ('k, u64) loader" where
  "map_sdd1_cartridge K rom_start n ram =
     andthen (map_sdd1rom K rom_start n) (\<lambda>start_sel.
     andthen (map_lorom_sram K ram) (\<lambda>_.
     andthen (map_sdd1_hwregs K) (\<lambda>_. ret start_sel)))"

definition map_sharprtc :: "'k kernel_ops \<Rightarrow> ('k, unit) loader" where
  "map_sharprtc K = map_io_seg K 0x2800 0x2802 ''sharprtc''"

definition map_epsonrtc :: "'k kernel_ops \<Rightarrow> ('k, unit) loader" where
  "map_epsonrtc K = map_io_seg K 0x4840 0x4843 ''epsonrtc''"

text \<open>
  \<open>map_obc1\<close>, \<open>map_dsp1\<close> to \<open>map_dsp4\<close>, \<open>map_st010\<close>, \<open>map_st011\<close> and \<open>map_st018\<close>
  have empty bodies, so the calls of \<open>load_file\<close> to them are nothing here.
\<close>

definition map_board :: "'k kernel_ops \<Rightarrow> u32 \<Rightarrow> cartridge \<Rightarrow> ('k, u64) loader" where
  "map_board K start c =
     (if has_cx4 c then map_cx4_cartridge K start (rom_size c) (ram_size c)
      else if has_spc7110 c then map_spc7110_cartridge K start (rom_size c) (ram_size c)
      else if has_sdd1 c then map_sdd1_cartridge K start (rom_size c) (ram_size c)
      else (case cart_mapper c of
          LoROM \<Rightarrow> map_lorom_cartridge K start (rom_size c) (ram_size c)
        | HiROM \<Rightarrow> map_hirom_cartridge K start (rom_size c) (ram_size c)
        | ExLoROM \<Rightarrow> map_exlorom_cartridge K start (rom_size c) (ram_size c)
        | ExHiROM \<Rightarrow> map_exhirom_cartridge K start (rom_size c) (ram_size c)
        | SuperFXROM \<Rightarrow> map_superfx_cartridge K start (rom_size c) (ram_size c)
        | SA1ROM \<Rightarrow> map_sa1_cartridge K start (rom_size c) (ram_size c)
        | _ \<Rightarrow> (\<lambda>_. Inl (UnsupportedMapper (mapper_to_string (cart_mapper c))))))"

section \<open>Vectors, header and the whole load\<close>

definition add_interrupt_vector ::
    "'k kernel_ops \<Rightarrow> cartridge \<Rightarrow> u16 \<times> string \<times> bool \<Rightarrow> 'k \<Rightarrow> 'k" where
  "add_interrupt_vector K sa v k = (case v of (addr, name, make_code) \<Rightarrow>
     let real_ea = xlat sa (ucast addr);
         k = perform K k (CreateWord real_ea);
         orig_vector_addr = ucast (get_word K k real_ea) :: u64;
         vector_addr = xlat sa orig_vector_addr in
     if orig_vector_addr \<noteq> 0 \<and> orig_vector_addr \<noteq> 0xffff then
       let k = (if has_user_name K k vector_addr then k else perform K k (SetName vector_addr name));
           k = (if make_code then perform K k (AutoMakeCode vector_addr) else k);
           k = perform K k (OpOffset real_ea (vector_addr - orig_vector_addr))
       in perform K k (SetCmt real_ea name)
     else k)"

definition interrupt_vectors :: "(u16 \<times> string \<times> bool) list" where
  "interrupt_vectors = [
     (0xfffc, ''Emulation-mode RESET'', True), (0xffea, ''Native-mode NMI'', True),
     (0xffee, ''Native-mode IRQ'', True), (0xfffe, ''Emulation-mode IRQ'', True),
     (0xffe4, ''Native-mode COP'', False), (0xffe6, ''Native-mode BRK'', False),
     (0xffe8, ''Native-mode ABORT'', False), (0xffec, ''Native-mode RESET'', False),
     (0xfff4, ''Emulation-mode COP'', False), (0xfff8, ''Emulation-mode ABORT'', False),
     (0xfffa, ''Emulation-mode NMI'', False)]"

definition undefined_vectors :: "u64 list" where
  "undefined_vectors = [0xffe0, 0xffe2, 0xfff0, 0xfff2, 0xfff6]"

definition header_calls :: "u64 \<Rightarrow> call list" where
  "header_calls header = [
     SetName header ''snes_header'', CreateStrlit header 21, SetCmt header ''Game Title'',
     CreateByte (header + 0x15), SetCmt (header + 0x15) ''ROM Makeup / ROM Speed and Map Mode'',
     CreateByte (header + 0x16), SetCmt (header + 0x16) ''Chipset'',
     CreateByte (header + 0x17), SetCmt (header + 0x17) ''ROM Size'',
     CreateByte (header + 0x18), SetCmt (header + 0x18) ''RAM Size'',
     CreateByte (header + 0x19), SetCmt (header + 0x19) ''Country'',
     CreateByte (header + 0x1a), SetCmt (header + 0x1a) ''Developer ID'',
     CreateByte (header + 0x1b), SetCmt (header + 0x1b) ''ROM Version'',
     CreateWord (header + 0x1c), SetCmt (header + 0x1c) ''Checksum Complement'',
     CreateWord (header + 0x1e), SetCmt (header + 0x1e) ''Checksum'']"

text \<open>What \<open>load_file\<close> does after the segments are there.\<close>

definition load_vectors :: "'k kernel_ops \<Rightarrow> cartridge \<Rightarrow> 'k \<Rightarrow> 'k" where
  "load_vectors K sa k =
    (let start_pc = get_word K k (xlat sa 0xfffc);
         k = perform K k (InfSetStartIp (xlat sa (ucast start_pc) AND 0xffff));
         k = foldl (\<lambda>k v. add_interrupt_vector K sa v k) k interrupt_vectors;
         k = foldl (\<lambda>k v. perform K k (CreateWord (xlat sa v))) k undefined_vectors
     in foldl (perform K) k (header_calls (xlat sa 0xffc0)))"

definition load_file ::
    "'k kernel_ops \<Rightarrow> 'k linput_ops \<Rightarrow> 'k netnode_ops \<Rightarrow> ('k, unit) loader" where
  "load_file K io nn k =
    (let k = perform K k (SetProcessorType ''m65816'') in
     case cartridge_from io k of
       None \<Rightarrow> Inl UninitialisedRead
     | Some (c, k) \<Rightarrow>
         let start = (if has_copier_header c then 512 else 0);
             k = perform K k (CreateNetnode ''$ m65816'');
             k = hashset_str nn k ''device'' ''snes'';
             k = write_hash nn c k;
             (sa, _) = addr_init c in
         andthen (map_board K start c) (\<lambda>start_cs.
         andthen (\<lambda>k. Inr ((), perform K k (InfSetStartCs start_cs))) (\<lambda>_.
         andthen (map_hwregs K) (\<lambda>_.
         andthen (map_wram K) (\<lambda>_.
         andthen (if has_sharprtc c then map_sharprtc K else ret ()) (\<lambda>_.
         andthen (if has_epsonrtc c then map_epsonrtc K else ret ()) (\<lambda>_.
         (\<lambda>k. Inr ((), load_vectors K sa k)))))))) k)"

end
