(* ===== verification/SnesImage.thy ===== *)
theory SnesImage
  imports SnesLoad
begin

text \<open>
  What the loader makes of a database.  The locale \<open>database\<close> says what the kernel calls
  of the loader do to four things one can observe: the open file, the loaded bytes, the
  addresses that belong to a segment and the entry point.  Inside it every loop and every
  \<open>map_*\<close> function of \<open>SnesLoad\<close> is shown to implement a plain update
  of these.
\<close>

section \<open>Databases\<close>

record database =
  db_file :: "u8 list"
  db_byte :: "u64 \<Rightarrow> u8 option"
  db_segment :: "u64 \<Rightarrow> bool"
  db_entry :: u64

definition with_segment :: "u64 \<Rightarrow> u64 \<Rightarrow> database \<Rightarrow> database" where
  "with_segment x y d = d\<lparr>db_segment := (\<lambda>a. db_segment d a \<or> x \<le> a \<and> a < y)\<rparr>"

definition with_bytes :: "nat \<Rightarrow> u64 \<Rightarrow> u64 \<Rightarrow> database \<Rightarrow> database" where
  "with_bytes p x y d = d\<lparr>db_byte := (\<lambda>a. if x \<le> a \<and> a < y then Some (db_file d ! (p + unat (a - x))) else db_byte d a)\<rparr>"

text \<open>
  The laws: a call succeeds when its range is not empty and, for \<open>file2base\<close>, lies in the
  file; reading the file leaves the database alone; \<open>get_word\<close> reads a little-endian word.
\<close>

locale database = linput io "\<lambda>k. db_file (db k)" pos
  for io :: "'k linput_ops" and db :: "'k \<Rightarrow> database" and pos :: "'k \<Rightarrow> nat" +
  fixes K :: "'k kernel_ops" and nn :: "'k netnode_ops"
  assumes selector: "db (snd (allocate_selector K k p)) = db k"
    and segment_ex: "start_ea s < end_ea s \<Longrightarrow>
      fst (add_segment_ex K k s) \<and> db (snd (add_segment_ex K k s)) = with_segment (start_ea s) (end_ea s) (db k)"
    and segm: "x < y \<Longrightarrow>
      fst (add_segm K k sel x y nm cl) \<and> db (snd (add_segm K k sel x y nm cl)) = with_segment x y (db k)"
    and file2base: "x \<le> y \<Longrightarrow> unat p + unat (y - x) \<le> length (db_file (db k)) \<Longrightarrow>
      fst (file2base K k p x y) \<and> db (snd (file2base K k p x y)) = with_bytes (unat p) x y (db k)"
    and seek_db: "db (snd (qlseek io k p)) = db k" and read_db: "db (snd (qlread io k n)) = db k"
    and perform: "db (perform K k c) = (case c of InfSetStartIp ip \<Rightarrow> (db k)\<lparr>db_entry := ip\<rparr> | _ \<Rightarrow> db k)"
    and hashset_long: "db (hashset_long nn k key v) = db k"
    and hashset_str: "db (hashset_str nn k key str) = db k"
    and get_word: "db_byte (db k) x = Some lo \<Longrightarrow> db_byte (db k) (x + 1) = Some hi \<Longrightarrow>
      get_word K k x = ucast lo OR push_bit 8 (ucast hi)"

section \<open>Cells\<close>

text \<open>
  ROM is loaded in chunks of \<open>S\<close> bytes at the end of consecutive banks from \<open>b\<close> on;
  the banks of the work RAM are left out.  The cell at address \<open>A\<close> holds byte \<open>p\<close>.
\<close>

definition bank_cell :: "nat \<Rightarrow> nat \<Rightarrow> nat \<Rightarrow> nat \<Rightarrow> nat \<Rightarrow> bool" where
  "bank_cell S b lo hi A \<longleftrightarrow> b + lo \<le> A div 65536 \<and> A div 65536 < b + hi \<and>
     A div 65536 \<noteq> 0x7e \<and> A div 65536 \<noteq> 0x7f \<and> 65536 - S \<le> A mod 65536"

definition rom_cell :: "nat \<Rightarrow> nat \<Rightarrow> nat \<Rightarrow> nat \<Rightarrow> nat \<Rightarrow> nat \<Rightarrow> nat option" where
  "rom_cell S b lo hi n A =
    (let p = (A div 65536 - b) * S + (A mod 65536 - (65536 - S))
     in if bank_cell S b lo hi A \<and> p < n then Some p else None)"

definition with_rom :: "nat \<Rightarrow> nat \<Rightarrow> nat \<Rightarrow> nat \<Rightarrow> nat \<Rightarrow> nat \<Rightarrow> database \<Rightarrow> database" where
  "with_rom S b lo hi n base d = d\<lparr>
     db_byte := (\<lambda>a. case rom_cell S b lo hi n (unat a) of
        Some p \<Rightarrow> Some (db_file d ! (base + p)) | None \<Rightarrow> db_byte d a),
     db_segment := (\<lambda>a. db_segment d a \<or> bank_cell S b lo hi (unat a))\<rparr>"

lemma with_rom_none: "with_rom S b lo lo n base d = d"
proof -
  have "\<not> bank_cell S b lo lo A" for A by (simp add: bank_cell_def)
  then show ?thesis by (simp add: with_rom_def rom_cell_def Let_def)
qed

lemma with_rom_wram:
  assumes "b + lo = 0x7e \<or> b + lo = 0x7f"
  shows "with_rom S b lo hi n base d = with_rom S b (Suc lo) hi n base d"
proof -
  have "bank_cell S b lo hi A = bank_cell S b (Suc lo) hi A" for A
    using assms by (auto simp: bank_cell_def)
  then show ?thesis by (simp add: with_rom_def rom_cell_def)
qed

lemma with_rom_trans:
  assumes "lo \<le> mid" "mid \<le> hi"
  shows "with_rom S b mid hi n base (with_rom S b lo mid n base d) = with_rom S b lo hi n base d"
proof -
  have "bank_cell S b lo hi A \<longleftrightarrow> bank_cell S b lo mid A \<or> bank_cell S b mid hi A" for A
    using assms by (auto simp: bank_cell_def)
  then show ?thesis
    by (auto simp: with_rom_def rom_cell_def Let_def fun_eq_iff split: option.split)
qed

lemma with_rom_simps [simp]:
  "db_file (with_rom S b lo hi n base d) = db_file d"
  "db_entry (with_rom S b lo hi n base d) = db_entry d"
  "db_file (with_segment x y d) = db_file d" "db_entry (with_segment x y d) = db_entry d"
  "db_byte (with_segment x y d) = db_byte d"
  "db_segment (with_segment x y d) a \<longleftrightarrow> db_segment d a \<or> x \<le> a \<and> a < y"
  "db_byte (with_rom S b lo hi n base d) a = (case rom_cell S b lo hi n (unat a) of
        Some p \<Rightarrow> Some (db_file d ! (base + p)) | None \<Rightarrow> db_byte d a)"
  "db_segment (with_rom S b lo hi n base d) a \<longleftrightarrow> db_segment d a \<or> bank_cell S b lo hi (unat a)"
  by (simp_all add: with_rom_def with_segment_def)

lemma bank_range:
  fixes A :: nat
  assumes "S \<le> 65536"
  shows "65536 * B + (65536 - S) \<le> A \<and> A < 65536 * B + 65536 \<longleftrightarrow> A div 65536 = B \<and> 65536 - S \<le> A mod 65536"
proof -
  define q w where "q = A div 65536" and "w = A mod 65536"
  have A: "A = 65536 * q + w" "w < 65536" by (simp_all add: q_def w_def)
  have "65536 * B + (65536 - S) \<le> 65536 * q + w \<and> 65536 * q + w < 65536 * B + 65536 \<longleftrightarrow> q = B \<and> 65536 - S \<le> w"
  proof (cases q B rule: linorder_cases)
    case less
    then have "65536 * q + 65536 \<le> 65536 * B" by linarith
    then show ?thesis using less A(2) by linarith
  next
    case equal
    then show ?thesis using A(2) by simp
  next
    case greater
    then have "65536 * B + 65536 \<le> 65536 * q" by linarith
    then show ?thesis using greater by linarith
  qed
  then show ?thesis by (simp only: A(1) [symmetric] q_def [symmetric] w_def [symmetric])
qed

lemma bank_chunk:
  fixes A B S n k :: nat
  assumes "S \<le> 65536"
  defines "X \<equiv> 65536 * B + (65536 - S)"
  shows "X \<le> A \<and> A < X + min S (n - k) \<longleftrightarrow>
      A div 65536 = B \<and> 65536 - S \<le> A mod 65536 \<and> k + (A mod 65536 - (65536 - S)) < n"
    and "A div 65536 = B \<Longrightarrow> A - X = A mod 65536 - (65536 - S)"
proof -
  define q w where "q = A div 65536" and "w = A mod 65536"
  have A: "A = 65536 * q + w" "w < 65536" by (simp_all add: q_def w_def)
  have "65536 * B + (65536 - S) \<le> 65536 * q + w \<and> 65536 * q + w < 65536 * B + (65536 - S) + min S (n - k)
      \<longleftrightarrow> q = B \<and> 65536 - S \<le> w \<and> k + (w - (65536 - S)) < n"
  proof (cases q B rule: linorder_cases)
    case less
    then have "65536 * q + 65536 \<le> 65536 * B" by linarith
    then show ?thesis using less A(2) by linarith
  next
    case equal
    then show ?thesis using A(2) assms(1) by (auto simp: min_def)
  next
    case greater
    then have "65536 * B + 65536 \<le> 65536 * q" by linarith
    then have "\<not> 65536 * q + w < 65536 * B + (65536 - S) + min S (n - k)" using assms(1) by linarith
    then show ?thesis using greater by blast
  qed
  then show "X \<le> A \<and> A < X + min S (n - k) \<longleftrightarrow>
      A div 65536 = B \<and> 65536 - S \<le> A mod 65536 \<and> k + (A mod 65536 - (65536 - S)) < n"
    by (simp only: A(1) [symmetric] q_def [symmetric] w_def [symmetric] X_def)
  assume "A div 65536 = B"
  then have "q = B" by (simp add: q_def)
  then have e: "A = 65536 * B + w" using A(1) by blast
  show "A - X = A mod 65536 - (65536 - S)"
    unfolding X_def w_def [symmetric] by (subst e) (rule diff_cancel)
qed

text \<open>One bank: a call of \<open>file2base\<close> and a segment.\<close>

lemma with_rom_bank:
  fixes x y z :: u64
  assumes S: "0 < S" "S \<le> 65536" and b: "B = b + m" "B \<noteq> 0x7e" "B \<noteq> 0x7f"
    and x: "unat x = 65536 * B + (65536 - S)" and z: "unat z = 65536 * B + 65536"
    and y: "unat y = unat x + min S (n - S * m)" and p: "p = base + S * m"
  shows "with_segment x z (with_bytes p x y d) = with_rom S b m (Suc m) n base d"
proof -
  have cell: "bank_cell S b m (Suc m) A \<longleftrightarrow> A div 65536 = B \<and> 65536 - S \<le> A mod 65536" for A
    using b by (auto simp: bank_cell_def)
  have seg: "(x \<le> a \<and> a < z) = bank_cell S b m (Suc m) (unat a)" for a
    using bank_range [OF S(2), of B "unat a"] by (simp add: cell word_le_nat_alt word_less_nat_alt x z)
  moreover have "(if x \<le> a \<and> a < y then Some (db_file d ! (p + unat (a - x))) else db_byte d a) =
     (case rom_cell S b m (Suc m) n (unat a) of Some q \<Rightarrow> Some (db_file d ! (base + q)) | None \<Rightarrow> db_byte d a)" for a
  proof -
    note chunk = bank_chunk(1) [OF S(2), where B = B and A = "unat a" and n = n and k = "S * m"]
      bank_chunk(2) [OF S(2), where B = B and A = "unat a"]
    have r: "x \<le> a \<and> a < y \<longleftrightarrow> unat a div 65536 = B \<and> 65536 - S \<le> unat a mod 65536 \<and>
        S * m + (unat a mod 65536 - (65536 - S)) < n"
      using chunk(1) by (simp add: word_le_nat_alt word_less_nat_alt x y)
    have c: "rom_cell S b m (Suc m) n (unat a) = (if x \<le> a \<and> a < y
        then Some (S * m + (unat a mod 65536 - (65536 - S))) else None)"
      using b(1) by (auto simp: r rom_cell_def cell Let_def mult.commute)
    have "p + unat (a - x) = base + (S * m + (unat a mod 65536 - (65536 - S)))" if "x \<le> a \<and> a < y"
    proof -
      have "unat (a - x) = unat a - unat x" using that by (simp add: unat_sub)
      also have "\<dots> = unat a mod 65536 - (65536 - S)" using chunk(2) that r by (simp only: x)
      finally show ?thesis by (simp only: p add.assoc)
    qed
    then show ?thesis by (simp add: c)
  qed
  ultimately show ?thesis by (simp add: with_rom_def with_segment_def with_bytes_def)
qed

section \<open>Positions and sizes in the loops\<close>

lemma u32_bound: "unat (x :: u32) < 2 ^ 32"
  using unsigned_less [of x, where 'a = nat] by simp

lemma unat_ucast_u64: "unat (ucast (x :: u32) :: u64) = unat x"
  using u32_bound [of x] by (simp add: unsigned_ucast_eq take_bit_nat_eq_self_iff)

lemma bank_start:
  assumes "unat (bank :: u32) < 65536"
  shows "unat (ucast (push_bit 16 bank) :: u64) = 65536 * unat bank"
    and "unat (ucast (push_bit 16 bank + 0x8000) :: u64) = 65536 * unat bank + 32768"
    and "unat (ucast (push_bit 16 bank + 0x6000) :: u64) = 65536 * unat bank + 24576"
proof -
  have p: "unat (push_bit 16 bank) = 65536 * unat bank"
    using assms by (simp add: push_bit_eq_mult unat_word_ariths)
  show "unat (ucast (push_bit 16 bank) :: u64) = 65536 * unat bank" by (simp only: unat_ucast_u64 p)
  show "unat (ucast (push_bit 16 bank + 0x8000) :: u64) = 65536 * unat bank + 32768"
    "unat (ucast (push_bit 16 bank + 0x6000) :: u64) = 65536 * unat bank + 24576"
    unfolding unat_ucast_u64 using assms by (simp_all add: unat_word_ariths p)
qed

text \<open>A chunk of \<open>S\<close> bytes, \<open>S\<close> a power of two, at position \<open>m * S\<close> of the ROM.\<close>

lemma chunk_words:
  fixes n mapped rs off :: u32
  assumes "k = 15 \<or> k = 16" and m: "unat mapped = m" "2 ^ k * m < unat n"
    and f: "unat rs + unat off + unat n < 2 ^ 32"
  shows "unat (ucast (min (2 ^ k) (n - 2 ^ k * mapped)) :: u64) = min (2 ^ k) (unat n - 2 ^ k * m)"
    and "unat (ucast (rs + off + push_bit k mapped) :: u64) = unat rs + unat off + 2 ^ k * m"
proof -
  have k: "unat (2 ^ k :: u32) = 2 ^ k" using assms(1) by auto
  have n: "unat n < 2 ^ 32" by (rule u32_bound)
  have t: "unat (2 ^ k * mapped) = 2 ^ k * m" using m n by (simp add: unat_word_ariths k)
  then have "unat (n - 2 ^ k * mapped) = unat n - 2 ^ k * m"
    using m(2) by (simp add: unat_sub word_le_nat_alt)
  then show "unat (ucast (min (2 ^ k) (n - 2 ^ k * mapped)) :: u64) = min (2 ^ k) (unat n - 2 ^ k * m)"
    unfolding unat_ucast_u64 by (simp add: min_def word_le_nat_alt k)
  have p: "unat (push_bit k mapped) = 2 ^ k * m" using t by (simp add: push_bit_eq_mult mult.commute)
  show "unat (ucast (rs + off + push_bit k mapped) :: u64) = unat rs + unat off + 2 ^ k * m"
    unfolding unat_ucast_u64 using f m(2) by (simp add: unat_word_ariths p)
qed

lemma unat_add_small: "unat x + unat y < 2 ^ 64 \<Longrightarrow> unat (x + y :: u64) = unat x + unat y"
  by (simp add: unat_word_ariths)

lemma unat_chunks:
  assumes "0 < unat c" "unat n + unat c < 2 ^ 32"
  shows "unat ((n + c - 1) div c :: u32) = (unat n + unat c - 1) div unat c"
proof -
  have a: "unat (n + c) = unat n + unat c" using assms(2) by (simp add: unat_word_ariths)
  then have "unat (n + c - 1) = unat n + unat c - 1" using assms(1) by (simp add: unat_sub word_le_nat_alt)
  then show ?thesis by (simp only: unat_div_distrib)
qed

lemma last_chunk:
  fixes n S :: nat
  assumes "0 < (n + S - 1) div S" "0 < S"
  shows "S * ((n + S - 1) div S - 1) < n"
proof -
  have "S * ((n + S - 1) div S) \<le> n + S - 1" by (rule times_div_less_eq_dividend)
  then have "S * ((n + S - 1) div S - 1) \<le> n + S - 1 - S" by (simp only: right_diff_distrib' mult_1_right diff_le_mono)
  moreover have "0 < n" using assms by (cases "n = 0") simp_all
  ultimately show ?thesis by linarith
qed

section \<open>The loops\<close>

context database
begin

text \<open>One bank of ROM: the bytes, a selector and the segment.\<close>

lemma rom_bank:
  fixes start stop :: u64
  assumes S: "0 < S" "S \<le> 65536" and B: "B = b + m" "B \<noteq> 0x7e" "B \<noteq> 0x7f" "B < 2 ^ 40"
    and x: "unat start = 65536 * B + (65536 - S)" "unat (stop - start) = S" "unat stop = 65536 * B + 65536"
    and len: "unat sz = min S (n - S * m)" and p: "unat p = base + S * m"
    and fit: "base + n \<le> length (db_file (db k))" "S * m < n"
  obtains k1 sel k2 k3 where "file2base K k p start (start + sz) = (True, k1)"
    "allocate_selector K k1 q = (sel, k2)" "add_segm K k2 sel start stop nm cl = (True, k3)"
    "db k3 = with_rom S b m (Suc m) n base (db k)"
proof -
  obtain ok1 k1 where 1: "file2base K k p start (start + sz) = (ok1, k1)" by (cases "file2base K k p start (start + sz)")
  obtain sel k2 where 2: "allocate_selector K k1 q = (sel, k2)" by (cases "allocate_selector K k1 q")
  obtain ok3 k3 where 3: "add_segm K k2 sel start stop nm cl = (ok3, k3)" by (cases "add_segm K k2 sel start stop nm cl")
  have y: "unat (start + sz) = unat start + min S (n - S * m)"
    using unat_add_small [of start sz] x(1) len B(4) S(2) by (simp add: min_def)
  have le: "start \<le> start + sz" using y by (simp add: word_le_nat_alt)
  have "unat (start + sz - start) = unat sz" by simp
  then have r: "unat p + unat (start + sz - start) \<le> length (db_file (db k))" using fit p len by simp
  have "ok1" "db k1 = with_bytes (unat p) start (start + sz) (db k)"
    using file2base [OF le r] by (simp_all add: 1)
  moreover have "start < stop" using x S by (simp add: word_less_nat_alt)
  ultimately have "ok1 \<and> ok3 \<and> db k3 = with_rom S b m (Suc m) n base (db k)"
    using selector [of k1 q] segm [of start stop k2 sel nm cl]
      with_rom_bank [OF S B(1-3) x(1) x(3) y p, of "db k"] by (simp add: 2 3)
  then show thesis by (intro that [of k1 sel k2 k3]) (simp_all add: 1 2 3)
qed

lemma lorom_loop_db:
  assumes "unat mapped = m" "unat bank = unat sb + m" "unat n < 2 ^ 30" "r > 0 \<Longrightarrow> 32768 * (m + r - 1) < unat n"
    and "unat rs + unat off + unat n < 2 ^ 32" "unat rs + unat off + unat n \<le> length (db_file (db k))"
  shows "\<exists>sel k'. lorom_loop K rs n sb off r mapped bank ss k = Inr (sel, k') \<and>
    db k' = with_rom 32768 (unat sb) m (m + r) (unat n) (unat rs + unat off) (db k)"
  using assms
proof (induction r arbitrary: mapped m bank ss k)
  case 0
  then show ?case by (simp add: with_rom_none)
next
  case (Suc r)
  have sb: "unat sb < 256" using unsigned_less [of sb, where 'a = nat] by simp
  have m: "32768 * m < unat n" using Suc.prems(4) by simp
  have b: "unat bank < 65536" using Suc.prems(2,3) m sb by simp
  have next_: "unat (mapped + 1) = Suc m" "unat (bank + 1) = unat sb + Suc m"
    using Suc.prems(1,2) m b Suc.prems(3) by (simp_all add: unat_word_ariths)
  have chunk: "0 < r \<Longrightarrow> 32768 * (Suc m + r - 1) < unat n" using Suc.prems(4) by simp
  show ?case
  proof (cases "bank = 0x7e \<or> bank = 0x7f")
    case True
    then have "unat sb + m = 0x7e \<or> unat sb + m = 0x7f" using Suc.prems(2) by auto
    from with_rom_wram [OF this] show ?thesis
      using Suc.IH [OF next_ Suc.prems(3) chunk Suc.prems(5,6)] True by simp
  next
    case False
    then have w: "unat bank \<noteq> 0x7e" "unat bank \<noteq> 0x7f" by (auto simp: word_unat_eq_iff)
    define start where "start = (ucast (push_bit 16 bank + 0x8000) :: u64)"
    define sz where "sz = (ucast (min 0x8000 (n - 0x8000 * mapped)) :: u64)"
    define p where "p = (ucast (rs + off + push_bit 15 mapped) :: u64)"
    have st: "unat start = 65536 * unat bank + (65536 - 32768)"
      using bank_start(2) [OF b] by (simp add: start_def)
    have cw: "unat sz = min 32768 (unat n - 32768 * m)" "unat p = unat rs + unat off + 32768 * m"
      using chunk_words [of 15 mapped m n rs off] Suc.prems(1,5) m by (simp_all add: sz_def p_def)
    have en: "unat (start + 0x8000) = 65536 * unat bank + 65536"
      using unat_add_small [of start "0x8000"] st b by simp
    obtain k1 sel k2 k3 where k: "file2base K k p start (start + sz) = (True, k1)"
      "allocate_selector K k1 (drop_bit 4 (start - 0x8000)) = (sel, k2)"
      "add_segm K k2 sel start (start + 0x8000) (bank_name bank) ''BANK_ROM'' = (True, k3)"
      "db k3 = with_rom 32768 (unat sb) m (Suc m) (unat n) (unat rs + unat off) (db k)"
      by (rule rom_bank [of 32768 "unat bank" "unat sb" m start "start + 0x8000" sz "unat n" p "unat rs + unat off" k
          "drop_bit 4 (start - 0x8000)" "bank_name bank" "''BANK_ROM''"])
        (use w b st en cw m Suc.prems(2,6) in simp_all)
    have "lorom_loop K rs n sb off (Suc r) mapped bank ss k =
        lorom_loop K rs n sb off r (mapped + 1) (bank + 1) (if bank = ucast sb then sel else ss) k3"
      using False k(1-3) by (simp add: Let_def flip: start_def sz_def p_def)
    moreover have "with_rom 32768 (unat sb) (Suc m) (Suc m + r) (unat n) (unat rs + unat off) (db k3) =
        with_rom 32768 (unat sb) m (m + Suc r) (unat n) (unat rs + unat off) (db k)"
      unfolding k(4) by (subst with_rom_trans) simp_all
    ultimately show ?thesis
      using Suc.IH [OF next_ Suc.prems(3) chunk Suc.prems(5), of k3] k(4) Suc.prems(6) by simp
  qed
qed

lemma hirom_loop_db:
  assumes "unat mapped = m" "unat bank = unat sb + m" "unat n < 2 ^ 31" "r > 0 \<Longrightarrow> 65536 * (m + r - 1) < unat n"
    and "unat rs + unat off + unat n < 2 ^ 32" "unat rs + unat off + unat n \<le> length (db_file (db k))"
  shows "\<exists>sel k'. hirom_loop K rs n sb off r mapped bank ss k = Inr (sel, k') \<and>
    db k' = with_rom 65536 (unat sb) m (m + r) (unat n) (unat rs + unat off) (db k)"
  using assms
proof (induction r arbitrary: mapped m bank ss k)
  case 0
  then show ?case by (simp add: with_rom_none)
next
  case (Suc r)
  have sb: "unat sb < 256" using unsigned_less [of sb, where 'a = nat] by simp
  have m: "65536 * m < unat n" using Suc.prems(4) by simp
  have b: "unat bank < 65536" using Suc.prems(2,3) m sb by simp
  have next_: "unat (mapped + 1) = Suc m" "unat (bank + 1) = unat sb + Suc m"
    using Suc.prems(1,2) m b Suc.prems(3) by (simp_all add: unat_word_ariths)
  have chunk: "0 < r \<Longrightarrow> 65536 * (Suc m + r - 1) < unat n" using Suc.prems(4) by simp
  show ?case
  proof (cases "bank = 0x7e \<or> bank = 0x7f")
    case True
    then have "unat sb + m = 0x7e \<or> unat sb + m = 0x7f" using Suc.prems(2) by auto
    from with_rom_wram [OF this] show ?thesis
      using Suc.IH [OF next_ Suc.prems(3) chunk Suc.prems(5,6)] True by simp
  next
    case False
    then have w: "unat bank \<noteq> 0x7e" "unat bank \<noteq> 0x7f" by (auto simp: word_unat_eq_iff)
    define start where "start = (ucast (push_bit 16 bank) :: u64)"
    define sz where "sz = (ucast (min 0x10000 (n - 0x10000 * mapped)) :: u64)"
    define p where "p = (ucast (rs + off + push_bit 16 mapped) :: u64)"
    have st: "unat start = 65536 * unat bank + (65536 - 65536)"
      using bank_start(1) [OF b] by (simp add: start_def)
    have cw: "unat sz = min 65536 (unat n - 65536 * m)" "unat p = unat rs + unat off + 65536 * m"
      using chunk_words [of 16 mapped m n rs off] Suc.prems(1,5) m by (simp_all add: sz_def p_def)
    have en: "unat (start + 0x10000) = 65536 * unat bank + 65536"
      using unat_add_small [of start "0x10000"] st b by simp
    obtain k1 sel k2 k3 where k: "file2base K k p start (start + sz) = (True, k1)"
      "allocate_selector K k1 (drop_bit 4 start) = (sel, k2)"
      "add_segm K k2 sel start (start + 0x10000) (bank_name bank) ''BANK_ROM'' = (True, k3)"
      "db k3 = with_rom 65536 (unat sb) m (Suc m) (unat n) (unat rs + unat off) (db k)"
      by (rule rom_bank [of 65536 "unat bank" "unat sb" m start "start + 0x10000" sz "unat n" p "unat rs + unat off" k
          "drop_bit 4 start" "bank_name bank" "''BANK_ROM''"])
        (use w b st en cw m Suc.prems(2,6) in simp_all)
    have "hirom_loop K rs n sb off (Suc r) mapped bank ss k =
        hirom_loop K rs n sb off r (mapped + 1) (bank + 1) (if bank = ucast sb then sel else ss) k3"
      using False k(1-3) by (simp add: Let_def flip: start_def sz_def p_def)
    moreover have "with_rom 65536 (unat sb) (Suc m) (Suc m + r) (unat n) (unat rs + unat off) (db k3) =
        with_rom 65536 (unat sb) m (m + Suc r) (unat n) (unat rs + unat off) (db k)"
      unfolding k(4) by (subst with_rom_trans) simp_all
    ultimately show ?thesis
      using Suc.IH [OF next_ Suc.prems(3) chunk Suc.prems(5), of k3] k(4) Suc.prems(6) by simp
  qed
qed

end

text \<open>The whole ROM, \<open>n\<close> bytes from position \<open>base\<close> of the file, from bank \<open>b\<close> on.\<close>

definition with_image :: "nat \<Rightarrow> nat \<Rightarrow> nat \<Rightarrow> nat \<Rightarrow> database \<Rightarrow> database" where
  "with_image S b n base d = with_rom S b 0 ((n + S - 1) div S) n base d"

context database
begin

lemma map_lorom_offset_db:
  assumes "unat n \<le> 0x400000" "unat rs \<le> 512" "unat off \<le> 0x400000"
    and "unat rs + unat off + unat n \<le> length (db_file (db k))"
  shows "\<exists>sel k'. map_lorom_offset K rs n sb off k = Inr (sel, k') \<and>
    db k' = with_image 32768 (unat sb) (unat n) (unat rs + unat off) (db k)"
proof -
  have r: "unat ((n + 0x8000 - 1) div 0x8000) = (unat n + 32768 - 1) div 32768"
    using unat_chunks [of "0x8000" n] assms(1) by simp
  let ?c = "(unat n + 32768 - 1) div 32768"
  have last: "32768 * (0 + ?c - 1) < unat n" if "?c > 0" using last_chunk [OF that] by simp
  have sb: "unat (ucast sb :: u32) = unat sb + 0"
    using unsigned_less [of sb, where 'a = nat] by (simp add: unsigned_ucast_eq take_bit_nat_eq_self_iff)
  have "\<exists>sel k'. lorom_loop K rs n sb off ?c 0 (ucast sb) 0 k = Inr (sel, k') \<and>
      db k' = with_rom 32768 (unat sb) 0 (0 + ?c) (unat n) (unat rs + unat off) (db k)"
    by (rule lorom_loop_db [OF _ sb _ last]) (use assms in simp_all)
  then show ?thesis
    unfolding map_lorom_offset_def r with_image_def add_0 .
qed

lemma map_hirom_offset_db:
  assumes "unat n < 2 ^ 31" "unat rs \<le> 512" "unat off \<le> 0x400000"
    and "unat rs + unat off + unat n \<le> length (db_file (db k))"
  shows "\<exists>sel k'. map_hirom_offset K rs n sb off k = Inr (sel, k') \<and>
    db k' = with_image 65536 (unat sb) (unat n) (unat rs + unat off) (db k)"
proof -
  have r: "unat ((n + 0x10000 - 1) div 0x10000) = (unat n + 65536 - 1) div 65536"
    using unat_chunks [of "0x10000" n] assms(1) by simp
  let ?c = "(unat n + 65536 - 1) div 65536"
  have last: "65536 * (0 + ?c - 1) < unat n" if "?c > 0" using last_chunk [OF that] by simp
  have sb: "unat (ucast sb :: u32) = unat sb + 0"
    using unsigned_less [of sb, where 'a = nat] by (simp add: unsigned_ucast_eq take_bit_nat_eq_self_iff)
  have "\<exists>sel k'. hirom_loop K rs n sb off ?c 0 (ucast sb) 0 k = Inr (sel, k') \<and>
      db k' = with_rom 65536 (unat sb) 0 (0 + ?c) (unat n) (unat rs + unat off) (db k)"
    by (rule hirom_loop_db [OF _ sb _ last]) (use assms in simp_all)
  then show ?thesis
    unfolding map_hirom_offset_def r with_image_def add_0 .
qed

lemma add_imem_db:
  assumes "x < y"
  shows "\<exists>k'. add_imem K x y nm cl k = Inr ((), k') \<and> db k' = with_segment x y (db k)"
proof -
  obtain sel k1 where 1: "allocate_selector K k (drop_bit 4 x) = (sel, k1)"
    by (cases "allocate_selector K k (drop_bit 4 x)")
  let ?s = "\<lparr>start_ea = x, end_ea = y, seg_sel = sel, seg_name = nm, seg_sclass = cl\<rparr>"
  obtain ok k2 where 2: "add_segment_ex K k1 ?s = (ok, k2)" by (cases "add_segment_ex K k1 ?s")
  show ?thesis using segment_ex [of ?s k1] selector [of k "drop_bit 4 x"] assms
    by (simp add: add_imem_def 1 2)
qed

end

text \<open>Segments for RAM: the offsets \<open>lo\<close> to \<open>hi\<close> of \<open>r\<close> banks from \<open>b\<close> on.\<close>

definition with_ram :: "nat \<Rightarrow> nat \<Rightarrow> nat \<Rightarrow> nat \<Rightarrow> database \<Rightarrow> database" where
  "with_ram lo hi b r d = d\<lparr>db_segment := (\<lambda>a. db_segment d a \<or>
     b \<le> unat a div 65536 \<and> unat a div 65536 < b + r \<and> lo \<le> unat a mod 65536 \<and> unat a mod 65536 < hi)\<rparr>"

lemma with_simps [simp]:
  "db_file (with_ram lo hi b r d) = db_file d" "db_entry (with_ram lo hi b r d) = db_entry d"
  "db_byte (with_ram lo hi b r d) = db_byte d"
  "db_segment (with_ram lo hi b r d) a \<longleftrightarrow> db_segment d a \<or>
     b \<le> unat a div 65536 \<and> unat a div 65536 < b + r \<and> lo \<le> unat a mod 65536 \<and> unat a mod 65536 < hi"
  "db_file (with_image S b n base d) = db_file d" "db_entry (with_image S b n base d) = db_entry d"
  by (simp_all add: with_ram_def with_image_def)

lemma with_ram_none: "with_ram lo hi b 0 d = d"
  by (rule database.equality) (auto simp: with_ram_def)

lemma with_ram_bank:
  fixes x y :: u64
  assumes "unat x = 65536 * b + lo" "unat y = 65536 * b + hi" "lo < hi" "hi \<le> 65536"
  shows "with_ram lo hi (Suc b) r (with_segment x y d) = with_ram lo hi b (Suc r) d"
proof -
  have "65536 * b + lo \<le> 65536 * q + w \<and> 65536 * q + w < 65536 * b + hi \<longleftrightarrow> q = b \<and> lo \<le> w \<and> w < hi"
    if "w < 65536" for q w
    using that assms(3,4) by (cases q b rule: linorder_cases) auto
  from this [of "unat a mod 65536" "unat a div 65536" for a]
  have seg: "x \<le> a \<and> a < y \<longleftrightarrow> unat a div 65536 = b \<and> lo \<le> unat a mod 65536 \<and> unat a mod 65536 < hi" for a
    using assms(1,2) by (simp add: word_le_nat_alt word_less_nat_alt)
  have "(s \<or> q = b \<and> lo \<le> w \<and> w < hi) \<or> Suc b \<le> q \<and> q < Suc b + r \<and> lo \<le> w \<and> w < hi \<longleftrightarrow>
      s \<or> b \<le> q \<and> q < b + Suc r \<and> lo \<le> w \<and> w < hi" for q w s
    by auto
  then have key: "db_segment (with_ram lo hi (Suc b) r (with_segment x y d)) a = db_segment (with_ram lo hi b (Suc r) d) a" for a
    by (simp only: with_simps with_rom_simps seg)
  show ?thesis
    by (rule database.equality)
      (simp_all add: fun_eq_iff key del: with_simps(4) with_rom_simps(6))
qed

context database
begin

text \<open>The calls of \<open>m\<close> succeed on a file of at least \<open>n\<close> bytes, and implement \<open>f\<close>.\<close>

definition does :: "('k, 'a) loader \<Rightarrow> nat \<Rightarrow> (database \<Rightarrow> database) \<Rightarrow> bool" where
  "does m n f \<longleftrightarrow> (\<forall>d. db_file (f d) = db_file d) \<and>
     (\<forall>k. n \<le> length (db_file (db k)) \<longrightarrow> (\<exists>x k'. m k = Inr (x, k') \<and> db k' = f (db k)))"

lemma does_ret: "does (ret x) n (\<lambda>d. d)"
  by (simp add: does_def ret_def)

lemma doesD: "does m n f \<Longrightarrow> n \<le> length (db_file (db k)) \<Longrightarrow> \<exists>x k'. m k = Inr (x, k') \<and> db k' = f (db k)"
  by (simp add: does_def)

lemma does_file: "does m n f \<Longrightarrow> db_file (f d) = db_file d"
  by (simp add: does_def)

lemma does_andthen:
  assumes m: "does m n f" and g: "\<And>x. does (g x) n h"
  shows "does (andthen m g) n (\<lambda>d. h (f d))"
  unfolding does_def
proof (intro conjI allI impI)
  fix k assume 0: "n \<le> length (db_file (db k))"
  obtain x k1 where 1: "m k = Inr (x, k1)" "db k1 = f (db k)" using doesD [OF m 0] by blast
  then have "n \<le> length (db_file (db k1))" using 0 does_file [OF m] by simp
  from doesD [OF g this, of x] obtain y k2 where "g x k1 = Inr (y, k2)" "db k2 = h (db k1)" by blast
  then show "\<exists>y k'. andthen m g k = Inr (y, k') \<and> db k' = h (f (db k))" using 1 by (simp add: andthen_def)
qed (simp add: does_file [OF m] does_file [OF g])

lemma does_andthen_ret:
  assumes "does m n f"
  shows "does (andthen m (\<lambda>_. ret x)) n f"
  using does_andthen [OF assms does_ret, of "\<lambda>_. x"] by simp

lemma does_imem:
  assumes "x < y"
  shows "does (add_imem K x y nm cl) n (with_segment x y)"
  unfolding does_def
proof (intro conjI allI impI)
  show "\<exists>u k'. add_imem K x y nm cl k = Inr (u, k') \<and> db k' = with_segment x y (db k)" for k
    using add_imem_db [OF assms] by blast
qed simp

lemma does_io: "x < y \<Longrightarrow> does (map_io_seg K x y nm) n (with_segment x y)"
  by (simp add: map_io_seg_def does_imem)

lemma does_lorom:
  assumes "unat n \<le> 0x400000" "unat rs \<le> 512" "unat off \<le> 0x400000" "unat rs + unat off + unat n \<le> N"
  shows "does (map_lorom_offset K rs n sb off) N (with_image 32768 (unat sb) (unat n) (unat rs + unat off))"
  using map_lorom_offset_db [OF assms(1-3)] assms(4) by (simp add: does_def)

lemma does_hirom:
  assumes "unat n < 2 ^ 31" "unat rs \<le> 512" "unat off \<le> 0x400000" "unat rs + unat off + unat n \<le> N"
  shows "does (map_hirom_offset K rs n sb off) N (with_image 65536 (unat sb) (unat n) (unat rs + unat off))"
  using map_hirom_offset_db [OF assms(1-3)] assms(4) by (simp add: does_def)

text \<open>The loops over RAM banks.\<close>

lemma does_sram_loops:
  "unat bank + r \<le> 0x7e \<Longrightarrow> does (lorom_sram_loop K r bank) N (with_ram 0 0x8000 (unat bank) r)"
  "unat bank + r \<le> 0x7e \<Longrightarrow> does (hirom_sram_loop K r bank) N (with_ram 0x6000 0x8000 (unat bank) r)"
  "unat bank + r \<le> 0x7e \<Longrightarrow> does (ram64_loop K r bank) N (with_ram 0 0x10000 (unat bank) r)"
proof (induction r arbitrary: bank)
  case 0
  { case 1 show ?case using does_ret [of "()"] by (simp add: with_ram_none) }
  { case 2 show ?case using does_ret [of "()"] by (simp add: with_ram_none) }
  { case 3 show ?case using does_ret [of "()"] by (simp add: with_ram_none) }
next
  case (Suc r)
  have s: "unat (bank + 1) = Suc (unat bank)" "unat (bank + 1) + r \<le> 0x7e" "bank \<noteq> 0x7e" "unat bank < 65536"
    if "unat bank + Suc r \<le> 0x7e" for bank :: u32
    using that by (auto simp: unat_word_ariths)
  { case 1
    let ?x = "ucast (push_bit 16 bank) :: u64"
    note s1 = s [OF 1] bank_start(1) [OF s(4) [OF 1]]
    have y: "unat (?x + 0x8000) = 65536 * unat bank + 0x8000" using s1(4,5) unat_add_small [of ?x "0x8000"] by simp
    have "?x < ?x + 0x8000" by (simp add: word_less_nat_alt y s1(5))
    from does_andthen [OF does_imem [OF this] Suc.IH(1) [OF s1(2)], of "bank_name bank" "''BANK_RAM''"]
    show ?case using with_ram_bank [of ?x "unat bank" 0 "?x + 0x8000" "0x8000" r] s1 y
      by (simp add: Let_def) }
  { case 2
    let ?x = "ucast (push_bit 16 bank + 0x6000) :: u64"
    note s1 = s [OF 2] bank_start(3) [OF s(4) [OF 2]]
    have y: "unat (?x + 0x2000) = 65536 * unat bank + 0x8000" using s1(4,5) unat_add_small [of ?x "0x2000"] by simp
    have "?x < ?x + 0x2000" by (simp add: word_less_nat_alt y s1(5))
    from does_andthen [OF does_imem [OF this] Suc.IH(2) [OF s1(2)], of "bank_name bank" "''BANK_RAM''"]
    show ?case using with_ram_bank [of ?x "unat bank" "0x6000" "?x + 0x2000" "0x8000" r] s1 y
      by (simp add: Let_def) }
  { case 3
    let ?x = "ucast (push_bit 16 bank) :: u64"
    note s1 = s [OF 3] bank_start(1) [OF s(4) [OF 3]]
    have y: "unat (?x + 0x10000) = 65536 * unat bank + 0x10000" using s1(4,5) unat_add_small [of ?x "0x10000"] by simp
    have "?x < ?x + 0x10000" by (simp add: word_less_nat_alt y s1(5))
    from does_andthen [OF does_imem [OF this] Suc.IH(3) [OF s1(2)], of "bank_name bank" "''BANK_RAM''"]
    show ?case using with_ram_bank [of ?x "unat bank" 0 "?x + 0x10000" "0x10000" r] s1 y
      by (simp add: Let_def) }
qed

end

end
