(* ===== verification/SnesBoard.thy ===== *)
theory SnesBoard
  imports SnesImage
begin

text \<open>
  The layout of each board: what \<open>map_board\<close> makes of a database, as one update, and the
  byte that ends up at an address.
\<close>

section \<open>Layouts\<close>

text \<open>The number of segments of \<open>sz\<close> bytes for the RAM.\<close>

definition ram_banks :: "cartridge \<Rightarrow> nat \<Rightarrow> nat" where
  "ram_banks c sz = (unat (ram_size c) + sz - 1) div sz"

definition lorom_ram :: "cartridge \<Rightarrow> database \<Rightarrow> database" where
  "lorom_ram c = with_ram 0 0x8000 0x70 (ram_banks c 0x8000)"

definition hirom_ram :: "nat \<Rightarrow> cartridge \<Rightarrow> database \<Rightarrow> database" where
  "hirom_ram b c = with_ram 0x6000 0x8000 b (ram_banks c 0x2000)"

text \<open>\<open>s\<close> is where the ROM starts in the file, \<open>n\<close> its size.\<close>

definition board_db :: "cartridge \<Rightarrow> nat \<Rightarrow> nat \<Rightarrow> database \<Rightarrow> database" where
  "board_db c s n =
     (if has_cx4 c then
        \<lambda>d. with_segment 0x6000 0x8000 (lorom_ram c (with_image 32768 0x80 (min n 0x400000) s d))
      else if has_spc7110 c then
        \<lambda>d. with_segment 0x500000 0x600000 (with_segment 0x4800 0x4840
          (hirom_ram 0 c (with_image 65536 0xc0 (min n 0x100000) s d)))
      else if has_sdd1 c then
        \<lambda>d. with_segment 0x4800 0x4808 (lorom_ram c
          (with_image 65536 0xc0 (min n 0x400000) s (with_image 32768 0x80 (min n 0x200000) s d)))
      else (case cart_mapper c of
          LoROM \<Rightarrow> \<lambda>d. lorom_ram c (with_image 32768 0x80 (min n 0x400000) s d)
        | HiROM \<Rightarrow> \<lambda>d. hirom_ram 0x20 c (with_image 65536 0xc0 (min n 0x400000) s d)
        | ExLoROM \<Rightarrow> \<lambda>d. lorom_ram c
            (with_image 65536 0x40 (min n 0x400000) s (with_image 32768 0x80 (min n 0x200000) s d))
        | ExHiROM \<Rightarrow> \<lambda>d. hirom_ram 0x20 c
            (if n \<le> 0x400000 then d
             else with_image 65536 0xc0 (min n 0x400000) s (with_image 65536 0x40 (n - 0x400000) (s + 0x400000) d))
        | SuperFXROM \<Rightarrow> \<lambda>d. with_segment 0x3000 0x3500 (with_segment 0x6000 0x8000
            (with_ram 0 0x10000 0x70 (ram_banks c 0x10000)
              (with_image 65536 0xc0 (min n 0x200000) s (with_image 32768 0 (min n 0x200000) s d))))
        | SA1ROM \<Rightarrow> \<lambda>d. with_segment 0x2200 0x2400 (with_segment 0x3000 0x3800
            (with_ram 0 0x10000 0x40 (ram_banks c 0x10000)
              (with_image 65536 0xc0 n s (with_image 32768 0 (min n 0x200000) s d))))
        | _ \<Rightarrow> \<lambda>d. d))"

text \<open>The boards the loader supports.\<close>

definition supported :: "cartridge \<Rightarrow> bool" where
  "supported c \<longleftrightarrow> has_cx4 c \<or> has_spc7110 c \<or> has_sdd1 c \<or>
     cart_mapper c \<in> {LoROM, HiROM, ExLoROM, ExHiROM, SuperFXROM, SA1ROM}"

lemma ram_size_bound: "ram_ok c \<Longrightarrow> unat (ram_size c) \<le> 0x20000"
proof -
  have "unat (2 ^ k :: u32) \<le> 0x20000" if "11 \<le> k" "k \<le> 17" for k
  proof -
    have "k = 11 \<or> k = 12 \<or> k = 13 \<or> k = 14 \<or> k = 15 \<or> k = 16 \<or> k = 17" using that by linarith
    then show ?thesis by (elim disjE) simp_all
  qed
  then show "ram_ok c \<Longrightarrow> unat (ram_size c) \<le> 0x20000" by (auto simp: ram_ok_def ram_bits_def)
qed

lemma ram_banks_bound:
  assumes "ram_ok c"
  shows "ram_banks c 0x8000 \<le> 4" "ram_banks c 0x2000 \<le> 16" "ram_banks c 0x10000 \<le> 2"
  using ram_size_bound [OF assms] by (simp_all add: ram_banks_def)

lemma unat_min: "unat (min (x :: u32) y) = min (unat x) (unat y)"
  by (simp add: min_def word_le_nat_alt)

context database
begin

lemma does_lorom_ram:
  assumes "ram_ok c"
  shows "does (map_lorom_sram K (ram_size c)) N (lorom_ram c)"
proof -
  have "unat ((ram_size c + 0x8000 - 1) div 0x8000) = ram_banks c 0x8000"
    using unat_chunks [of "0x8000" "ram_size c"] ram_size_bound [OF assms] by (simp add: ram_banks_def)
  then show ?thesis
    using does_sram_loops(1) [of "0x70" "ram_banks c 0x8000" N] ram_banks_bound(1) [OF assms]
    by (simp add: map_lorom_sram_def map_lorom_sram_offset_def lorom_ram_def del: add_diff_eq)
qed

lemma does_hirom_ram:
  assumes "ram_ok c" "unat sb \<le> 0x20"
  shows "does (map_hirom_sram_offset K (ram_size c) sb) N (hirom_ram (unat sb) c)"
proof -
  have "unat ((ram_size c + 0x2000 - 1) div 0x2000) = ram_banks c 0x2000"
    using unat_chunks [of "0x2000" "ram_size c"] ram_size_bound [OF assms(1)] by (simp add: ram_banks_def)
  moreover have "unat (ucast sb :: u32) = unat sb"
    using unsigned_less [of sb, where 'a = nat] by (simp add: unsigned_ucast_eq take_bit_nat_eq_self_iff)
  ultimately show ?thesis
    using does_sram_loops(2) [of "ucast sb" "ram_banks c 0x2000" N] ram_banks_bound(2) [OF assms(1)] assms(2)
    by (simp add: map_hirom_sram_offset_def hirom_ram_def del: add_diff_eq)
qed

lemma does_ram64:
  assumes "ram_ok c"
  shows "does (map_superfx_sram K (ram_size c)) N (with_ram 0 0x10000 0x70 (ram_banks c 0x10000))"
    and "does (map_sa1_bwram K (ram_size c)) N (with_ram 0 0x10000 0x40 (ram_banks c 0x10000))"
proof -
  have "unat ((ram_size c + 0x10000 - 1) div 0x10000) = ram_banks c 0x10000"
    using unat_chunks [of "0x10000" "ram_size c"] ram_size_bound [OF assms] by (simp add: ram_banks_def)
  then show "does (map_superfx_sram K (ram_size c)) N (with_ram 0 0x10000 0x70 (ram_banks c 0x10000))"
    "does (map_sa1_bwram K (ram_size c)) N (with_ram 0 0x10000 0x40 (ram_banks c 0x10000))"
    using does_sram_loops(3) [of "0x70" "ram_banks c 0x10000" N] does_sram_loops(3) [of "0x40" "ram_banks c 0x10000" N]
      ram_banks_bound(3) [OF assms]
    by (simp_all add: map_superfx_sram_def map_sa1_bwram_def del: add_diff_eq)
qed

text \<open>The ROM of \<open>c\<close> is in a file of \<open>N\<close> bytes from position \<open>s\<close> on.\<close>

definition rom_at :: "cartridge \<Rightarrow> u32 \<Rightarrow> nat \<Rightarrow> nat \<Rightarrow> bool" where
  "rom_at c start s N \<longleftrightarrow> unat (rom_size c) < 2 ^ 31 \<and> s + unat (rom_size c) \<le> N \<and> unat start = s \<and> s \<le> 512"

lemma does_images:
  assumes "rom_at c start s N"
  shows "unat x \<le> 0x400000 \<Longrightarrow> does (map_lorom_offset K start (min (rom_size c) x) sb 0) N
      (with_image 32768 (unat sb) (min (unat (rom_size c)) (unat x)) s)"
    and "does (map_hirom_offset K start (min (rom_size c) x) sb 0) N
      (with_image 65536 (unat sb) (min (unat (rom_size c)) (unat x)) s)"
    and "does (map_hirom_offset K start (rom_size c) sb 0) N (with_image 65536 (unat sb) (unat (rom_size c)) s)"
    and "\<not> unat (rom_size c) \<le> 0x400000 \<Longrightarrow> does (map_hirom_offset K start (rom_size c - 0x400000) sb 0x400000) N
      (with_image 65536 (unat sb) (unat (rom_size c) - 0x400000) (s + 0x400000))"
proof -
  have le: "unat (min (rom_size c) x) \<le> unat (rom_size c)" "unat (min (rom_size c) x) \<le> unat x"
    by (simp_all add: unat_min)
  note r = assms [unfolded rom_at_def]
  show "unat x \<le> 0x400000 \<Longrightarrow> does (map_lorom_offset K start (min (rom_size c) x) sb 0) N
      (with_image 32768 (unat sb) (min (unat (rom_size c)) (unat x)) s)"
    using does_lorom [of "min (rom_size c) x" start 0 N sb] le r by (simp flip: unat_min)
  show "does (map_hirom_offset K start (min (rom_size c) x) sb 0) N
      (with_image 65536 (unat sb) (min (unat (rom_size c)) (unat x)) s)"
    using does_hirom [of "min (rom_size c) x" start 0 N sb] le r by (simp flip: unat_min)
  show "does (map_hirom_offset K start (rom_size c) sb 0) N (with_image 65536 (unat sb) (unat (rom_size c)) s)"
    using does_hirom [of "rom_size c" start 0 N sb] r by simp
  assume "\<not> unat (rom_size c) \<le> 0x400000"
  then have "unat (rom_size c - 0x400000) = unat (rom_size c) - 0x400000" "0x400000 \<le> unat (rom_size c)"
    by (simp_all add: unat_sub word_le_nat_alt)
  then show "does (map_hirom_offset K start (rom_size c - 0x400000) sb 0x400000) N
      (with_image 65536 (unat sb) (unat (rom_size c) - 0x400000) (s + 0x400000))"
    using does_hirom [of "rom_size c - 0x400000" start "0x400000" N sb] r by (simp add: less_imp_diff_less)
qed

lemma does_lorom_image:
  "rom_at c start s N \<Longrightarrow> does (map_lorom K start (min (rom_size c) 0x400000)) N
     (with_image 32768 0x80 (min (unat (rom_size c)) 0x400000) s)"
  using does_images(1) [of c start s N "0x400000" "0x80"] by (simp add: map_lorom_def)

lemma does_hirom_rams:
  assumes "ram_ok c"
  shows "does (map_hirom_sram K (ram_size c)) N (hirom_ram 0x20 c)"
    and "does (map_hirom_sram_offset K (ram_size c) 0) N (hirom_ram 0 c)"
  using does_hirom_ram [OF assms, of "0x20" N] does_hirom_ram [OF assms, of 0 N] by (simp_all add: map_hirom_sram_def)

text \<open>Every supported board implements its layout.\<close>

lemma does_cx4:
  assumes "ram_ok c" "rom_at c start s N"
  shows "does (map_cx4_cartridge K start (rom_size c) (ram_size c)) N
    (\<lambda>d. with_segment 0x6000 0x8000 (lorom_ram c (with_image 32768 0x80 (min (unat (rom_size c)) 0x400000) s d)))"
  unfolding map_cx4_cartridge_def map_cx4_hwregs_def
  by (rule does_andthen [OF does_lorom_image [OF assms(2)]
      does_andthen [OF does_lorom_ram [OF assms(1)] does_andthen_ret [OF does_io]]]) simp

lemma does_spc:
  assumes "ram_ok c" "rom_at c start s N"
  shows "does (map_spc7110_cartridge K start (rom_size c) (ram_size c)) N
    (\<lambda>d. with_segment 0x500000 0x600000 (with_segment 0x4800 0x4840
        (hirom_ram 0 c (with_image 65536 (unat (0xc0 :: u8)) (min (unat (rom_size c)) (unat (0x100000 :: u32))) s d))))"
  unfolding map_spc7110_cartridge_def map_spc7110_hwregs_def
  by (rule does_andthen [OF does_images(2) [OF assms(2)]
      does_andthen [OF does_hirom_rams(2) [OF assms(1)] does_andthen_ret [OF does_andthen [OF does_io does_io]]]]) simp_all

lemma does_sdd:
  assumes "ram_ok c" "rom_at c start s N"
  shows "does (map_sdd1_cartridge K start (rom_size c) (ram_size c)) N
    (\<lambda>d. with_segment 0x4800 0x4808 (lorom_ram c
        (with_image 65536 (unat (0xc0 :: u8)) (min (unat (rom_size c)) (unat (0x400000 :: u32))) s
          (with_image 32768 (unat (0x80 :: u8)) (min (unat (rom_size c)) (unat (0x200000 :: u32))) s d))))"
  unfolding map_sdd1_cartridge_def map_sdd1_hwregs_def map_sdd1rom_def
  by (rule does_andthen [OF does_andthen [OF does_images(1) [OF assms(2)] does_andthen_ret [OF does_images(2) [OF assms(2)]]]
      does_andthen [OF does_lorom_ram [OF assms(1)] does_andthen_ret [OF does_io]]]) simp_all

lemma does_lor:
  assumes "ram_ok c" "rom_at c start s N"
  shows "does (map_lorom_cartridge K start (rom_size c) (ram_size c)) N
    (\<lambda>d. lorom_ram c (with_image 32768 0x80 (min (unat (rom_size c)) 0x400000) s d))"
  unfolding map_lorom_cartridge_def
  by (rule does_andthen [OF does_lorom_image [OF assms(2)] does_andthen_ret [OF does_lorom_ram [OF assms(1)]]])

lemma does_hir:
  assumes "ram_ok c" "rom_at c start s N"
  shows "does (map_hirom_cartridge K start (rom_size c) (ram_size c)) N
    (\<lambda>d. hirom_ram 0x20 c (with_image 65536 (unat (0xc0 :: u8)) (min (unat (rom_size c)) (unat (0x400000 :: u32))) s d))"
  unfolding map_hirom_cartridge_def map_hirom_def
  by (rule does_andthen [OF does_images(2) [OF assms(2)] does_andthen_ret [OF does_hirom_rams(1) [OF assms(1)]]])

lemma does_exl:
  assumes "ram_ok c" "rom_at c start s N"
  shows "does (map_exlorom_cartridge K start (rom_size c) (ram_size c)) N
    (\<lambda>d. lorom_ram c (with_image 65536 (unat (0x40 :: u8)) (min (unat (rom_size c)) (unat (0x400000 :: u32))) s
       (with_image 32768 (unat (0x80 :: u8)) (min (unat (rom_size c)) (unat (0x200000 :: u32))) s d)))"
  unfolding map_exlorom_cartridge_def
  by (rule does_andthen [OF does_images(1) [OF assms(2)]
      does_andthen [OF does_images(2) [OF assms(2)] does_andthen_ret [OF does_lorom_ram [OF assms(1)]]]]) simp

lemma does_exh:
  assumes "ram_ok c" "rom_at c start s N"
  shows "does (map_exhirom_cartridge K start (rom_size c) (ram_size c)) N
    (\<lambda>d. hirom_ram 0x20 c (if unat (rom_size c) \<le> 0x400000 then d
       else with_image 65536 (unat (0xc0 :: u8)) (min (unat (rom_size c)) (unat (0x400000 :: u32))) s
         (with_image 65536 (unat (0x40 :: u8)) (unat (rom_size c) - 0x400000) (s + 0x400000) d)))"
proof (cases "unat (rom_size c) \<le> 0x400000")
  case True
  then show ?thesis unfolding map_exhirom_cartridge_def map_exhirom_def
    using does_andthen [OF does_ret does_andthen_ret [OF does_hirom_rams(1) [OF assms(1)]]] by (simp add: word_le_nat_alt)
next
  case False
  have e: "map_exhirom K start (rom_size c) =
      andthen (map_hirom_offset K start (rom_size c - 0x400000) 0x40 0x400000) (\<lambda>start_sel.
      andthen (map_hirom_offset K start (min (rom_size c) 0x400000) 0xc0 0) (\<lambda>_. ret start_sel))"
    using False by (simp add: map_exhirom_def word_le_nat_alt)
  show ?thesis
    unfolding map_exhirom_cartridge_def e if_not_P [OF False]
    by (rule does_andthen [OF does_andthen [OF does_images(4) [OF assms(2) False]
      does_andthen_ret [OF does_images(2) [OF assms(2)]]] does_andthen_ret [OF does_hirom_rams(1) [OF assms(1)]]])
qed

lemma does_sfx:
  assumes "ram_ok c" "rom_at c start s N"
  shows "does (map_superfx_cartridge K start (rom_size c) (ram_size c)) N
    (\<lambda>d. with_segment 0x3000 0x3500 (with_segment 0x6000 0x8000 (with_ram 0 0x10000 0x70 (ram_banks c 0x10000)
      (with_image 65536 (unat (0xc0 :: u8)) (min (unat (rom_size c)) (unat (0x200000 :: u32))) s
        (with_image 32768 (unat (0 :: u8)) (min (unat (rom_size c)) (unat (0x200000 :: u32))) s d)))))"
  unfolding map_superfx_cartridge_def map_superfx_def map_superfx_workram_def map_superfx_hwregs_def
  by (rule does_andthen [OF does_andthen [OF does_images(1) [OF assms(2)] does_andthen_ret [OF does_images(2) [OF assms(2)]]]
    does_andthen [OF does_ram64(1) [OF assms(1)] does_andthen [OF does_imem does_andthen_ret [OF does_io]]]]) simp_all

lemma does_sa1:
  assumes "ram_ok c" "rom_at c start s N"
  shows "does (map_sa1_cartridge K start (rom_size c) (ram_size c)) N
    (\<lambda>d. with_segment 0x2200 0x2400 (with_segment 0x3000 0x3800 (with_ram 0 0x10000 0x40 (ram_banks c 0x10000)
      (with_image 65536 (unat (0xc0 :: u8)) (unat (rom_size c)) s
        (with_image 32768 (unat (0 :: u8)) (min (unat (rom_size c)) (unat (0x200000 :: u32))) s d)))))"
  unfolding map_sa1_cartridge_def map_sa1_def map_sa1_iram_def map_sa1_hwregs_def
  by (rule does_andthen [OF does_andthen [OF does_images(1) [OF assms(2)] does_andthen_ret [OF does_images(3) [OF assms(2)]]]
    does_andthen [OF does_ram64(2) [OF assms(1)] does_andthen [OF does_imem does_andthen_ret [OF does_io]]]]) simp_all

lemma does_map_board:
  assumes "ram_ok c" "rom_at c start s N" "supported c"
  shows "does (map_board K start c) N (board_db c s (unat (rom_size c)))"
proof -
  note ok = assms(1,2)
  show ?thesis
  proof (cases "has_cx4 c \<or> has_spc7110 c \<or> has_sdd1 c")
    case True
    then show ?thesis using does_cx4 [OF ok] does_spc [OF ok] does_sdd [OF ok]
      by (cases "has_cx4 c"; cases "has_spc7110 c") (simp_all add: map_board_def board_db_def)
  next
    case False
    then consider "cart_mapper c = LoROM" | "cart_mapper c = HiROM" | "cart_mapper c = ExLoROM"
      | "cart_mapper c = ExHiROM" | "cart_mapper c = SuperFXROM" | "cart_mapper c = SA1ROM"
      using assms(3) by (auto simp: supported_def)
    then show ?thesis
    proof cases
      case 1 then show ?thesis using False does_lor [OF ok] by (simp add: map_board_def board_db_def)
    next
      case 2 then show ?thesis using False does_hir [OF ok] by (simp add: map_board_def board_db_def)
    next
      case 3 then show ?thesis using False does_exl [OF ok] by (simp add: map_board_def board_db_def)
    next
      case 4 then show ?thesis using False does_exh [OF ok]
        by (simp add: map_board_def board_db_def cong: if_cong)
    next
      case 5 then show ?thesis using False does_sfx [OF ok] by (simp add: map_board_def board_db_def)
    next
      case 6 then show ?thesis using False does_sa1 [OF ok] by (simp add: map_board_def board_db_def)
    qed
  qed
qed

end

end
