(* ===== verification/SnesRun.thy ===== *)
theory SnesRun
  imports SnesBoard
begin

text \<open>
  The whole of \<open>load_file\<close>: it succeeds on every file whose cartridge has a board the loader
  supports, and what it leaves in the database.
\<close>

section \<open>Registers, work RAM, vectors\<close>

text \<open>The segments that every cartridge gets.\<close>

definition common_db :: "cartridge \<Rightarrow> database \<Rightarrow> database" where
  "common_db c d =
    (let d = with_segment 0x4300 0x4380 (with_segment 0x4200 0x4220 (with_segment 0x4016 0x4018
               (with_segment 0x2180 0x2184 (with_segment 0x2140 0x2144 (with_segment 0x2100 0x2140 d)))));
         d = with_segment 0x7e0000 0x800000 d;
         d = (if has_sharprtc c then with_segment 0x2800 0x2802 d else d)
     in if has_epsonrtc c then with_segment 0x4840 0x4843 d else d)"

lemma common_db_simps [simp]:
  "db_file (common_db c d) = db_file d" "db_byte (common_db c d) = db_byte d"
  by (simp_all add: common_db_def Let_def)

lemma common_db_segment: "db_segment d a \<Longrightarrow> db_segment (common_db c d) a"
  by (simp add: common_db_def Let_def)

context database
begin

lemma does_hwregs:
  "does (map_hwregs K) N (\<lambda>d. with_segment 0x4300 0x4380 (with_segment 0x4200 0x4220 (with_segment 0x4016 0x4018
     (with_segment 0x2180 0x2184 (with_segment 0x2140 0x2144 (with_segment 0x2100 0x2140 d))))))"
  unfolding map_hwregs_def
  by (rule does_andthen [OF does_io does_andthen [OF does_io does_andthen [OF does_io
    does_andthen [OF does_io does_andthen [OF does_io does_io]]]]]) simp_all

lemma perform_plain:
  "db (perform K k (SetProcessorType s)) = db k" "db (perform K k (CreateNetnode s)) = db k"
  "db (perform K k (InfSetStartCs x)) = db k" "db (perform K k (InfSetStartIp x)) = (db k)\<lparr>db_entry := x\<rparr>"
  "db (perform K k (CreateByte x)) = db k" "db (perform K k (CreateWord x)) = db k"
  "db (perform K k (CreateStrlit x n)) = db k" "db (perform K k (SetName x s)) = db k"
  "db (perform K k (SetCmt x s)) = db k" "db (perform K k (AutoMakeCode x)) = db k"
  "db (perform K k (OpOffset x y)) = db k"
  by (simp_all add: perform)

lemma interrupt_vector: "db (add_interrupt_vector K sa v k) = db k"
  by (cases v) (simp add: add_interrupt_vector_def Let_def perform_plain)

lemma write_hash_db: "db (write_hash nn c k) = db k"
  by (simp add: write_hash_def hashset_bool_def Let_def hashset_long hashset_str)

lemma foldl_db:
  assumes "\<And>k x. x \<in> set xs \<Longrightarrow> db (f k x) = db k"
  shows "db (foldl f k xs) = db k"
  using assms by (induction xs arbitrary: k) simp_all

lemma load_vectors_db:
  "db (load_vectors K sa k) = (db k)\<lparr>db_entry := xlat sa (ucast (get_word K k (xlat sa 0xfffc))) AND 0xffff\<rparr>"
proof -
  have "db (perform K k x) = db k" if "x \<in> set (header_calls h)" for k x h
    using that by (auto simp: header_calls_def perform_plain)
  then show ?thesis
    by (simp add: load_vectors_def Let_def foldl_db interrupt_vector perform_plain)
qed

text \<open>A step of a sequence, whose rest then runs on the updated database.\<close>

lemma does_step:
  assumes "does m N f" "N \<le> length (db_file (db k))"
  obtains x k' where "m k = Inr (x, k')" "db k' = f (db k)" "N \<le> length (db_file (db k'))"
  using doesD [OF assms] does_file [OF assms(1)] assms(2) by fastforce

lemma does_rtc:
  "does (if has_sharprtc c then map_sharprtc K else ret ()) N
     (\<lambda>d. if has_sharprtc c then with_segment 0x2800 0x2802 d else d)"
  "does (if has_epsonrtc c then map_epsonrtc K else ret ()) N
     (\<lambda>d. if has_epsonrtc c then with_segment 0x4840 0x4843 d else d)"
  by (simp_all add: map_sharprtc_def map_epsonrtc_def does_ret does_io)

lemma does_wram: "does (map_wram K) N (with_segment 0x7e0000 0x800000)"
  unfolding map_wram_def by (rule does_imem) simp

lemma load_file_db:
  assumes c: "cartridge_from io (perform K k (SetProcessorType ''m65816'')) = Some (c, k0)"
    and ok: "ram_ok c" "supported c" "rom_at c (if has_copier_header c then 512 else 0) s N" "N \<le> length (db_file (db k0))"
  defines "d \<equiv> common_db c (board_db c s (unat (rom_size c)) (db k0))"
  obtains k' k1 where "load_file K io nn k = Inr ((), k')" "db k1 = d"
    "db k' = d\<lparr>db_entry := xlat c (ucast (get_word K k1 (xlat c 0xfffc))) AND 0xffff\<rparr>"
proof -
  define k2 where "k2 = write_hash nn c (hashset_str nn (perform K k0 (CreateNetnode ''$ m65816'')) ''device'' ''snes'')"
  have k2: "db k2 = db k0" by (simp add: k2_def write_hash_db hashset_str perform_plain)
  define start where "start = (if has_copier_header c then 512 else 0 :: u32)"
  have N: "N \<le> length (db_file (db k2))" using ok(4) k2 by simp
  obtain cs k3 where 3: "map_board K start c k2 = Inr (cs, k3)"
    "db k3 = board_db c s (unat (rom_size c)) (db k2)" "N \<le> length (db_file (db k3))"
    using does_step [OF does_map_board [OF ok(1) ok(3) [folded start_def] ok(2)] N] .
  define k4 where "k4 = perform K k3 (InfSetStartCs cs)"
  have 4: "db k4 = db k3" "N \<le> length (db_file (db k4))" using 3(3) by (simp_all add: k4_def perform_plain)
  obtain k5 where 5: "map_hwregs K k4 = Inr ((), k5)"
    "db k5 = with_segment 0x4300 0x4380 (with_segment 0x4200 0x4220 (with_segment 0x4016 0x4018
      (with_segment 0x2180 0x2184 (with_segment 0x2140 0x2144 (with_segment 0x2100 0x2140 (db k4))))))"
    "N \<le> length (db_file (db k5))"
    using does_step [OF does_hwregs 4(2)] by force
  obtain k6 where 6: "map_wram K k5 = Inr ((), k6)" "db k6 = with_segment 0x7e0000 0x800000 (db k5)"
    "N \<le> length (db_file (db k6))"
    using does_step [OF does_wram 5(3)] by force
  obtain k7 where 7: "(if has_sharprtc c then map_sharprtc K else ret ()) k6 = Inr ((), k7)"
    "db k7 = (if has_sharprtc c then with_segment 0x2800 0x2802 (db k6) else db k6)"
    "N \<le> length (db_file (db k7))"
    using does_step [OF does_rtc(1) [of c] 6(3)] by force
  obtain k8 where 8: "(if has_epsonrtc c then map_epsonrtc K else ret ()) k7 = Inr ((), k8)"
    "db k8 = (if has_epsonrtc c then with_segment 0x4840 0x4843 (db k7) else db k7)"
    using does_step [OF does_rtc(2) [of c] 7(3)] by force
  have "load_file K io nn k = Inr ((), load_vectors K c k8)"
    unfolding load_file_def Let_def c option.case prod.case k2_def [symmetric] start_def [symmetric] addr_init_def
    using 3(1) 5(1) 6(1) 7(1) 8(1) by (simp add: andthen_def flip: k4_def)
  moreover have d8: "db k8 = d"
    by (simp add: d_def common_db_def Let_def 3(2) 4(1) 5(2) 6(2) 7(2) 8(2) k2)
  ultimately show thesis by (rule that) (simp add: load_vectors_db d8)
qed

end

end
