(* ===== verification/SnesRom.thy ===== *)
theory SnesRom
  imports SnesRun
begin

text \<open>
  The ROM as the processor sees it.  \<open>rom_offset\<close> is the wiring of each board: the position
  in the ROM of the byte at an address of the bus, as the \<open>map id=rom\<close> comments of
  \<open>src/src/ldr/snes/addr.cpp\<close> state it, for the part of the ROM that the loader loads and
  the addresses that the translation resolves.  The loaded bytes agree with it: at the
  translation of an address the database has the byte of the file that the board puts there.
\<close>

section \<open>The wiring\<close>

definition lorom_pos :: "nat \<Rightarrow> nat \<Rightarrow> nat" where "lorom_pos B W = B mod 128 * 32768 + (W - 32768)"
definition hirom_pos :: "nat \<Rightarrow> nat \<Rightarrow> nat" where "hirom_pos B W = B mod 64 * 65536 + W"

text \<open>Banks 00-3f and 80-bf, upper halves.\<close>

definition low_area :: "nat \<Rightarrow> nat \<Rightarrow> bool" where
  "low_area B W \<longleftrightarrow> (B < 0x40 \<or> 0x80 \<le> B \<and> B < 0xc0) \<and> 0x8000 \<le> W"

definition up_to :: "nat \<Rightarrow> nat \<Rightarrow> nat option" where
  "up_to lim p = (if p < lim then Some p else None)"

definition mapper_offset :: "cartridge \<Rightarrow> nat \<Rightarrow> nat \<Rightarrow> nat \<Rightarrow> nat option" where
  "mapper_offset c n B W = (let ram = ram_size c \<noteq> 0 in case cart_mapper c of
     LoROM \<Rightarrow> if (B < 0x40 \<or> 0x80 \<le> B) \<and> 0x8000 \<le> W \<and> \<not> (ram \<and> 0xf0 \<le> B \<and> \<not> preserve_rom_mirror c)
        then up_to (min n 0x400000) (lorom_pos B W) else None
   | HiROM \<Rightarrow> if low_area B W \<or> 0x40 \<le> B \<and> B < 0x80 \<or> 0xc0 \<le> B
        then up_to (min n 0x400000) (hirom_pos B W) else None
   | ExLoROM \<Rightarrow> if low_area B W then up_to (min n 0x200000) (lorom_pos B W)
        else if 0x40 \<le> B \<and> B < 0x80 \<and> \<not> (ram \<and> 0x70 \<le> B \<and> W < 0x8000)
        then up_to (min n 0x400000) (hirom_pos B W) else None
   | ExHiROM \<Rightarrow> if n \<le> 0x400000 then None
        else if 0x80 \<le> B then if low_area B W \<or> 0xc0 \<le> B then Some (hirom_pos B W) else None
        else if B < 0x3e \<and> 0x8000 \<le> W \<or> 0x40 \<le> B \<and> \<not> (ram \<and> 0x70 \<le> B \<and> W < 0x8000)
        then up_to n (0x400000 + hirom_pos B W) else None
   | SuperFXROM \<Rightarrow> if B < 0x40 \<and> 0x8000 \<le> W then up_to (min n 0x200000) (lorom_pos B W)
        else if 0xc0 \<le> B \<and> B < 0xe0 then up_to (min n 0x200000) (hirom_pos B W) else None
   | SA1ROM \<Rightarrow> if low_area B W then up_to (min n 0x200000) (lorom_pos (B mod 64) W)
        else if 0xc0 \<le> B then up_to n (hirom_pos B W) else None
   | _ \<Rightarrow> None)"

definition rom_offset :: "cartridge \<Rightarrow> nat \<Rightarrow> nat \<Rightarrow> nat option" where
  "rom_offset c B W = (let n = unat (rom_size c) in
     if B = 0x7e \<or> B = 0x7f then None
     else if has_cx4 c then
       if (B < 0x40 \<or> 0x80 \<le> B) \<and> 0x8000 \<le> W then up_to (min n 0x400000) (lorom_pos B W) else None
     else if has_spc7110 c then
       if low_area B W \<or> 0x40 \<le> B \<and> B < 0x50 \<or> 0xc0 \<le> B then up_to (min n 0x100000) (hirom_pos B W) else None
     else if has_sdd1 c then
       if low_area B W then up_to (min n 0x200000) (lorom_pos B W)
       else if 0xc0 \<le> B then up_to (min n 0x400000) (hirom_pos B W) else None
     else mapper_offset c n B W)"

section \<open>Bytes of an image\<close>

lemma image_byte:
  assumes a: "unat a = 65536 * B + W" "W < 65536" and B: "b \<le> B" "B \<noteq> 0x7e" "B \<noteq> 0x7f"
    and S: "0 < S" "65536 - S \<le> W" "S \<le> 65536" and p: "p = (B - b) * S + (W - (65536 - S))" "p < n"
  shows "db_byte (with_image S b n base d) a = Some (db_file d ! (base + p))"
proof -
  have q: "unat a div 65536 = B" "unat a mod 65536 = W" using a by simp_all
  have "(B - b) * S < n" using p by simp
  then have "B - b < (n + S - 1) div S"
    using S(1) by (simp add: less_eq_div_iff_mult_less_eq flip: Suc_le_eq)
  then have "bank_cell S b 0 ((n + S - 1) div S) (unat a)" using B S by (simp add: bank_cell_def q)
  then show ?thesis using p by (simp add: with_image_def rom_cell_def q)
qed

lemma image_other:
  assumes a: "unat a = 65536 * B + W" "W < 65536"
    and "B < b \<or> W < 65536 - S \<or> n \<le> (B - b) * S + (W - (65536 - S))"
  shows "db_byte (with_image S b n base d) a = db_byte d a"
proof -
  have q: "unat a div 65536 = B" "unat a mod 65536 = W" using a by simp_all
  have "rom_cell S b 0 m n (unat a) = None" for m
    using assms(3) by (auto simp: rom_cell_def bank_cell_def Let_def q)
  then show ?thesis by (simp add: with_image_def)
qed

section \<open>Translations of ROM addresses\<close>

lemma addr_split: "unat a < 2 ^ 24 \<Longrightarrow> unat a = 65536 * unat (bank_of a) + unat (addr_of a)"
  using div_mult_mod_eq [of "unat a" 65536] by (simp add: addr_nat bank_nat)

lemma unat_mirror:
  assumes "unat a < 2 ^ 24" "unat (bank_of a) \<le> 125"
  shows "unat (a + 0x800000) = 65536 * (unat (bank_of a) + 128) + unat (addr_of a)"
  using unat_add_small [of a "0x800000"] addr_split [OF assms(1)] assms(1) by simp

lemma unat_unmirror:
  assumes "unat a < 2 ^ 24" "128 \<le> unat (bank_of a)"
  shows "unat (a - 0x800000) = 65536 * (unat (bank_of a) - 128) + unat (addr_of a)"
  using addr_split [OF assms(1)] assms(2) by (simp add: unat_sub word_le_nat_alt diff_mult_distrib2)

lemma unat_bus_addr: "unat m < 256 \<Longrightarrow> unat (bus m (ucast (w :: u16))) = 65536 * unat m + unat w"
  using unat_bus [of m "ucast w"] u16_bound [of w] by (simp add: bus_nat)

lemma system_rom:
  assumes "unat (bank_of a) \<noteq> 0x7e" "unat (bank_of a) \<noteq> 0x7f"
    "0x8000 \<le> unat (addr_of a) \<or> 64 \<le> unat (bank_of a) \<and> unat (bank_of a) < 128 \<or> 192 \<le> unat (bank_of a)"
  shows "\<not> snd (xlat_system a)"
proof
  assume "snd (xlat_system a)"
  then obtain r where "xlat_system a = (r, True)" by (cases "xlat_system a") simp
  then show False using assms by (cases rule: xlat_system_cases) auto
qed

lemma xlat_dispatched: "\<not> snd (xlat_system a) \<Longrightarrow> xlat_board c a = (r, True) \<Longrightarrow> xlat c a = r"
  by (cases "xlat_system a") (simp add: xlat_def)

lemma xlat_kept:
  assumes "\<not> snd (xlat_system a)" "\<not> snd (xlat_board c a)" "0x8000 \<le> unat (addr_of a)"
  shows "xlat c a = a"
  by (cases rule: xlat_cases [of a c]) (use assms in \<open>auto simp: bus_nat\<close>)

text \<open>The bank that the translation of an address leads to; the offset is unchanged.\<close>

lemma mod_shift:
  fixes B m k :: nat
  assumes "k * m \<le> B" "B < k * m + m"
  shows "B mod m = B - k * m"
proof -
  have "B mod m = (B - k * m + k * m) mod m" using assms(1) by simp
  also have "\<dots> = (B - k * m) mod m" by (rule mod_mult_self1)
  also have "\<dots> = B - k * m" using assms by (intro mod_less) linarith
  finally show ?thesis .
qed

lemma bank_mod:
  fixes B :: nat
  shows "B < 64 \<Longrightarrow> B mod 64 = B" "64 \<le> B \<Longrightarrow> B < 128 \<Longrightarrow> B mod 64 = B - 64"
    "128 \<le> B \<Longrightarrow> B < 192 \<Longrightarrow> B mod 64 = B - 128" "192 \<le> B \<Longrightarrow> B < 256 \<Longrightarrow> B mod 64 = B - 192"
    "B < 128 \<Longrightarrow> B mod 128 = B" "128 \<le> B \<Longrightarrow> B < 256 \<Longrightarrow> B mod 128 = B - 128"
  using mod_shift [of 1 64 B] mod_shift [of 2 64 B] mod_shift [of 3 64 B] mod_shift [of 1 128 B] by simp_all

lemma lorom_bank:
  assumes "unat a < 2 ^ 24" and B: "B = unat (bank_of a)" "B < 0x40 \<or> 0x80 \<le> B" and W: "0x8000 \<le> unat (addr_of a)"
    and c: "xlat_board c a = xlat_lorom c a \<and> \<not> (ram_size c \<noteq> 0 \<and> 0xf0 \<le> B \<and> \<not> preserve_rom_mirror c) \<or>
      xlat_board c a = xlat_cx4 c a"
  shows "unat (xlat c a) = 65536 * (if B < 0x40 then B + 128 else B) + unat (addr_of a)"
proof -
  have s: "\<not> snd (xlat_system a)" using B W by (intro system_rom) auto
  show ?thesis
  proof (cases "B < 0xc0")
    case True
    then have "xlat_board c a = (if B < 0x40 then a + 0x800000 else a, True)"
      using B W c by (auto simp: xlat_lorom_def xlat_cx4_def Let_def bus_nat bank_mirror)
    then show ?thesis
      using xlat_dispatched [OF s] unat_mirror [OF assms(1)] addr_split [OF assms(1)] B by auto
  next
    case False
    then have "\<not> snd (xlat_board c a)"
      using B W c by (auto simp: xlat_lorom_def xlat_cx4_def Let_def bus_nat)
    then show ?thesis using xlat_kept [OF s _ W] addr_split [OF assms(1)] B False by simp
  qed
qed

lemma hirom_bank:
  assumes "unat a < 2 ^ 24" and B: "B = unat (bank_of a)" "B \<noteq> 0x7e" "B \<noteq> 0x7f"
    and W: "low_area B (unat (addr_of a)) \<or> 0x40 \<le> B \<and> B < 0x80 \<or> 0xc0 \<le> B"
    and c: "xlat_board c a = xlat_hirom c a \<or> xlat_board c a = xlat_spc7110 c a \<and> \<not> (0x50 \<le> B \<and> B < 0x60)"
  shows "unat (xlat c a) = 65536 * (192 + B mod 64) + unat (addr_of a)"
proof -
  have s: "\<not> snd (xlat_system a)" using B W by (intro system_rom) (auto simp: low_area_def)
  show ?thesis
  proof (cases "0x40 \<le> B \<and> B < 0x80 \<or> 0xc0 \<le> B")
    case True
    then have "xlat_board c a = (if B < 0x80 then a + 0x800000 else a, True)"
      using B c by (auto simp: xlat_hirom_def xlat_spc7110_def Let_def bus_nat bank_mirror)
    moreover have "192 + B mod 64 = (if B < 0x80 then B + 128 else B)"
      using True bank_mod(2,4) [of B] u8_bound [of "bank_of a"] B(1) by auto
    ultimately show ?thesis
      using xlat_dispatched [OF s] unat_mirror [OF assms(1)] addr_split [OF assms(1)] B True by auto
  next
    case False
    then have l: "0x8000 \<le> unat (addr_of a)" "B < 0x40 \<or> 0x80 \<le> B \<and> B < 0xc0"
      using W by (auto simp: low_area_def)
    define b where "b = (if B < 0x40 then bank_of a + 0x80 else bank_of a)"
    have b: "unat b mod 64 = B mod 64"
      using mod_mult_self1 [of B 2 64] B(1) by (simp add: b_def bank_mirror)
    have "xlat_board c a = (bus (0xc0 + ucast (b AND 0x3f)) (ucast (addr_of a)), True)"
      using B c l False by (auto simp: xlat_hirom_def xlat_spc7110_def Let_def bus_nat bank_mirror b_def)
    then show ?thesis using xlat_dispatched [OF s] unat_bus_addr [of "0xc0 + ucast (b AND 0x3f)" "addr_of a"]
      by (simp add: unat_hi_bank b)
  qed
qed

lemma or_bank:
  assumes "unat a < 2 ^ 24" and B: "B = unat (bank_of a)" and W: "low_area B (unat (addr_of a))"
    and c: "xlat_board c a = xlat_exlorom c a \<or> xlat_board c a = xlat_sdd1 c a"
  shows "unat (xlat c a) = 65536 * (128 + B mod 64) + unat (addr_of a)"
proof -
  have l: "0x8000 \<le> unat (addr_of a)" "B < 0x40 \<or> 0x80 \<le> B \<and> B < 0xc0" using W by (auto simp: low_area_def)
  have s: "\<not> snd (xlat_system a)" using B l by (intro system_rom) auto
  have "xlat_board c a = (bus (ucast (bank_of a OR 0x80)) (ucast (addr_of a)), True)"
    using B c l by (auto simp: xlat_exlorom_def xlat_sdd1_def Let_def bus_nat)
  moreover have "unat (bank_of a OR 0x80) = 128 + B mod 64" using l B by (auto intro: unat_or_0x80)
  ultimately show ?thesis
    using xlat_dispatched [OF s] unat_bus_addr [of "ucast (bank_of a OR 0x80)" "addr_of a"] by simp
qed

text \<open>Addresses that a board gives back unchanged.\<close>

lemma same_bank:
  assumes "unat a < 2 ^ 24" and B: "B = unat (bank_of a)" "B \<noteq> 0x7e" "B \<noteq> 0x7f"
    and W: "0x8000 \<le> unat (addr_of a) \<or> 0x40 \<le> B \<and> B < 0x80 \<or> 0xc0 \<le> B" and c: "xlat_board c a = (a, True)"
  shows "unat (xlat c a) = 65536 * B + unat (addr_of a)"
proof -
  have s: "\<not> snd (xlat_system a)" using B W by (intro system_rom) auto
  show ?thesis using xlat_dispatched [OF s c] addr_split [OF assms(1)] B(1) by simp
qed

lemma exhirom_bank:
  assumes "unat a < 2 ^ 24" and B: "B = unat (bank_of a)" and W: "0x8000 \<le> unat (addr_of a)"
    and l: "B < 0x3e \<or> 0x80 \<le> B \<and> B < 0xc0" and c: "xlat_board c a = xlat_exhirom c a"
  shows "unat (xlat c a) = 65536 * (B + 64) + unat (addr_of a)"
proof -
  have s: "\<not> snd (xlat_system a)" using B W l by (intro system_rom) auto
  have "xlat_board c a = (bus (ucast (bank_of a) + 0x40) (ucast (addr_of a)), True)"
    using B c l W by (auto simp: xlat_exhirom_def Let_def bus_nat)
  moreover have "B + 64 < 256" using l by auto
  moreover have "unat (ucast (bank_of a) + 0x40 :: u32) = B + 64"
    using l B by (subst unat_word_ariths) auto
  ultimately show ?thesis
    using xlat_dispatched [OF s] unat_bus_addr [of "ucast (bank_of a) + 0x40" "addr_of a"] by simp
qed

lemma sa1_bank:
  assumes "unat a < 2 ^ 24" and B: "B = unat (bank_of a)" and W: "low_area B (unat (addr_of a))"
    and c: "xlat_board c a = xlat_sa1rom c a"
  shows "unat (xlat c a) = 65536 * (B mod 64) + unat (addr_of a)"
proof -
  have l: "0x8000 \<le> unat (addr_of a)" "B < 0x40 \<or> 0x80 \<le> B \<and> B < 0xc0" using W by (auto simp: low_area_def)
  have s: "\<not> snd (xlat_system a)" using B l by (intro system_rom) auto
  have u: "0x80 \<le> unat (bank_of a) \<Longrightarrow> unat (bank_of a - 0x80) = unat (bank_of a) - 128"
    by (simp add: unat_sub bus_nat)
  have "xlat_board c a = (if 0x80 \<le> B then a - 0x800000 else a, True)"
    using B c l u by (auto simp: xlat_sa1rom_def Let_def bus_nat)
  then show ?thesis
    using xlat_dispatched [OF s] addr_split [OF assms(1)] unat_unmirror [OF assms(1)] B l bank_mod(1,3) [of B] by auto
qed

section \<open>The byte at the translation of an address\<close>

lemma lorom_image_byte:
  assumes "unat x = 65536 * (if B < 0x40 then B + 128 else B) + W" "B < 0x40 \<or> 0x80 \<le> B" "B < 256"
    "0x8000 \<le> W" "W < 65536" "lorom_pos B W < m"
  shows "db_byte (with_image 32768 0x80 m s d) x = Some (db_file d ! (s + lorom_pos B W))"
proof -
  have "B mod 128 = (if B < 0x40 then B + 128 else B) - 128" using bank_mod(5,6) [of B] assms(2,3) by auto
  then show ?thesis
    using assms by (intro image_byte [of x "if B < 0x40 then B + 128 else B" W]) (auto simp: lorom_pos_def)
qed

lemma hirom_image_byte:
  assumes "unat x = 65536 * (192 + B mod 64) + W" "W < 65536" "hirom_pos B W < m"
  shows "db_byte (with_image 65536 0xc0 m s d) x = Some (db_file d ! (s + hirom_pos B W))"
  using assms by (intro image_byte [of x "192 + B mod 64" W]) (auto simp: hirom_pos_def)

lemma up_to_Some: "up_to lim q = Some p \<longleftrightarrow> q = p \<and> p < lim"
  by (auto simp: up_to_def)

lemma ram_bytes [simp]: "db_byte (lorom_ram c d) = db_byte d" "db_byte (hirom_ram b c d) = db_byte d"
  "db_file (lorom_ram c d) = db_file d" "db_file (hirom_ram b c d) = db_file d"
  by (simp_all add: lorom_ram_def hirom_ram_def)

lemma if_Some: "(if P then x else None) = Some y \<longleftrightarrow> P \<and> x = Some y"
  by simp

definition bus_address :: "u64 \<Rightarrow> nat \<Rightarrow> nat \<Rightarrow> bool" where
  "bus_address a B W \<longleftrightarrow> unat a < 2 ^ 24 \<and> B = unat (bank_of a) \<and> W = unat (addr_of a) \<and> B \<noteq> 0x7e \<and> B \<noteq> 0x7f"

lemma bus_addressD:
  assumes "bus_address a B W"
  shows "unat a < 2 ^ 24" "B = unat (bank_of a)" "unat (addr_of a) = W" "B \<noteq> 0x7e" "B \<noteq> 0x7f" "B < 256" "W < 65536"
  using assms u8_bound [of "bank_of a"] u16_bound [of "addr_of a"] by (auto simp: bus_address_def)

lemma lorom_byte:
  assumes "bus_address a B W"
    and "xlat_board c a = xlat_lorom c a \<and> \<not> (ram_size c \<noteq> 0 \<and> 0xf0 \<le> B \<and> \<not> preserve_rom_mirror c) \<or>
      xlat_board c a = xlat_cx4 c a"
    and "B < 0x40 \<or> 0x80 \<le> B" "0x8000 \<le> W" "lorom_pos B W < m"
  shows "db_byte (with_image 32768 0x80 m s d) (xlat c a) = Some (db_file d ! (s + lorom_pos B W))"
proof -
  note b = bus_addressD [OF assms(1)]
  have "unat (xlat c a) = 65536 * (if B < 0x40 then B + 128 else B) + W"
    using lorom_bank [OF b(1,2) assms(3) _ assms(2)] assms(4) b(3) by simp
  then show ?thesis by (rule lorom_image_byte) (use assms b in simp_all)
qed

lemma hirom_byte:
  assumes "bus_address a B W" "xlat_board c a = xlat_hirom c a \<or> xlat_board c a = xlat_spc7110 c a \<and> \<not> (0x50 \<le> B \<and> B < 0x60)"
    and "low_area B W \<or> 0x40 \<le> B \<and> B < 0x80 \<or> 0xc0 \<le> B" "hirom_pos B W < m"
  shows "db_byte (with_image 65536 0xc0 m s d) (xlat c a) = Some (db_file d ! (s + hirom_pos B W))"
proof -
  note b = bus_addressD [OF assms(1)]
  have "unat (xlat c a) = 65536 * (192 + B mod 64) + W"
    using hirom_bank [OF b(1,2,4,5) _ assms(2)] assms(3) b(3) by simp
  then show ?thesis by (rule hirom_image_byte) (use assms b in simp_all)
qed

text \<open>Banks 00-3f and 80-bf of a board with the LoROM layout there, below another image.\<close>

lemma or_byte:
  assumes "bus_address a B W" "xlat_board c a = xlat_exlorom c a \<or> xlat_board c a = xlat_sdd1 c a"
    and "low_area B W" "lorom_pos B W < m"
  shows "db_byte (with_image 65536 0xc0 k s (with_image 32768 0x80 m s d)) (xlat c a) =
      Some (db_file d ! (s + lorom_pos B W))"
    and "db_byte (with_image 65536 0x40 (min k 0x400000) s (with_image 32768 0x80 m s d)) (xlat c a) =
      Some (db_file d ! (s + lorom_pos B W))"
proof -
  note b = bus_addressD [OF assms(1)]
  have l: "0x8000 \<le> W" "B < 0x40 \<or> 0x80 \<le> B \<and> B < 0xc0" using assms(3) by (auto simp: low_area_def)
  have x: "unat (xlat c a) = 65536 * (128 + B mod 64) + W"
    using or_bank [OF b(1,2) _ assms(2)] assms(3) b(3) by simp
  have "128 + B mod 64 = (if B < 0x40 then B + 128 else B)" using bank_mod(1,3) [of B] l by auto
  then have "db_byte (with_image 32768 0x80 m s d) (xlat c a) = Some (db_file d ! (s + lorom_pos B W))"
    using x l b assms(4) by (intro lorom_image_byte) auto
  moreover have "B mod 64 < 64" by simp
  then have "db_byte (with_image 65536 0xc0 k s e) (xlat c a) = db_byte e (xlat c a)"
    "db_byte (with_image 65536 0x40 (min k 0x400000) s e) (xlat c a) = db_byte e (xlat c a)" for e
    using b(7) by (simp_all add: image_other [OF x b(7)] min_le_iff_disj)
  ultimately show "db_byte (with_image 65536 0xc0 k s (with_image 32768 0x80 m s d)) (xlat c a) =
      Some (db_file d ! (s + lorom_pos B W))"
    "db_byte (with_image 65536 0x40 (min k 0x400000) s (with_image 32768 0x80 m s d)) (xlat c a) =
      Some (db_file d ! (s + lorom_pos B W))"
    by simp_all
qed

lemma cx4_byte:
  assumes "bus_address a B W" "has_cx4 c" "rom_offset c B W = Some p"
  shows "db_byte (board_db c s (unat (rom_size c)) d) (xlat c a) = Some (db_file d ! (s + p))"
proof -
  have o: "B < 0x40 \<or> 0x80 \<le> B" "0x8000 \<le> W" "lorom_pos B W < min (unat (rom_size c)) 0x400000" "p = lorom_pos B W"
    using assms(2,3) bus_addressD(4,5) [OF assms(1)] by (simp_all add: rom_offset_def up_to_Some if_Some)
  have "xlat_board c a = xlat_cx4 c a" using assms(2) by (simp add: xlat_board_def)
  then show ?thesis using lorom_byte [OF assms(1) _ o(1-3)] o(4) assms(2) by (simp add: board_db_def)
qed

lemma spc7110_byte:
  assumes "bus_address a B W" "\<not> has_cx4 c" "has_spc7110 c" "one_chip c" "rom_offset c B W = Some p"
  shows "db_byte (board_db c s (unat (rom_size c)) d) (xlat c a) = Some (db_file d ! (s + p))"
proof -
  have o: "low_area B W \<or> 0x40 \<le> B \<and> B < 0x50 \<or> 0xc0 \<le> B" "hirom_pos B W < min (unat (rom_size c)) 0x100000"
    "p = hirom_pos B W"
    using assms(2,3,5) bus_addressD(4,5) [OF assms(1)] by (simp_all add: rom_offset_def up_to_Some if_Some)
  have "cart_mapper c = SPC7110ROM" "\<not> has_sdd1 c"
    using assms(3,4) by (auto simp: one_chip_def chips_def split: if_splits)
  then have "xlat_board c a = xlat_spc7110 c a" using assms(2) by (simp add: xlat_board_def)
  moreover have "\<not> (0x50 \<le> B \<and> B < 0x60)" "low_area B W \<or> 0x40 \<le> B \<and> B < 0x80 \<or> 0xc0 \<le> B"
    using o(1) by (auto simp: low_area_def)
  ultimately show ?thesis using hirom_byte [OF assms(1) _ _ o(2)] o(3) assms(2,3) by (simp add: board_db_def)
qed

lemma sdd1_byte:
  assumes "bus_address a B W" "\<not> has_cx4 c" "\<not> has_spc7110 c" "has_sdd1 c" "rom_offset c B W = Some p"
  shows "db_byte (board_db c s (unat (rom_size c)) d) (xlat c a) = Some (db_file d ! (s + p))"
proof -
  note b = bus_addressD [OF assms(1)]
  have off: "(if low_area B W then up_to (min (unat (rom_size c)) 0x200000) (lorom_pos B W)
       else if 0xc0 \<le> B then up_to (min (unat (rom_size c)) 0x400000) (hirom_pos B W) else None) = Some p"
    using assms(2-5) b(4,5) by (simp add: rom_offset_def Let_def split del: if_split)
  have bd: "xlat_board c a = xlat_sdd1 c a" using assms by (simp add: xlat_board_def)
  show ?thesis
  proof (cases "low_area B W")
    case True
    then have "lorom_pos B W < min (unat (rom_size c)) 0x200000" "p = lorom_pos B W" using off by (simp_all add: up_to_Some)
    then show ?thesis using or_byte [OF assms(1) _ True] bd assms(2-4) by (simp add: board_db_def)
  next
    case False
    then have o: "0xc0 \<le> B" "hirom_pos B W < min (unat (rom_size c)) 0x400000" "p = hirom_pos B W"
      using off by (simp_all add: up_to_Some if_Some)
    have "xlat_board c a = (a, True)" using bd o b by (auto simp: xlat_sdd1_def Let_def bus_nat)
    then have "unat (xlat c a) = 65536 * B + W" using same_bank [OF b(1,2,4,5)] o b(3) by simp
    then have "unat (xlat c a) = 65536 * (192 + B mod 64) + W" using o(1) b(6) bank_mod(4) [of B] by simp
    then show ?thesis using o(2,3) b(7) assms(2-4) by (simp add: board_db_def hirom_image_byte)
  qed
qed

text \<open>The two images of the extended HiROM board.\<close>

lemma exhirom_byte:
  assumes "bus_address a B W" "xlat_board c a = xlat_exhirom c a" "preserve_rom_mirror c"
    and off: "(if unat (rom_size c) \<le> 0x400000 then None
        else if 0x80 \<le> B then if low_area B W \<or> 0xc0 \<le> B then Some (hirom_pos B W) else None
        else if B < 0x3e \<and> 0x8000 \<le> W \<or> 0x40 \<le> B \<and> \<not> (ram_size c \<noteq> 0 \<and> 0x70 \<le> B \<and> W < 0x8000)
        then up_to (unat (rom_size c)) (0x400000 + hirom_pos B W) else None) = Some p"
    and c: "\<not> has_cx4 c" "\<not> has_spc7110 c" "\<not> has_sdd1 c" "cart_mapper c = ExHiROM"
  shows "db_byte (board_db c s (unat (rom_size c)) d) (xlat c a) = Some (db_file d ! (s + p))"
proof -
  let ?n = "unat (rom_size c)"
  note b = bus_addressD [OF assms(1)]
  have n: "0x400000 < ?n" using off by (simp split: if_splits)
  have image: "db_byte (board_db c s ?n d) x = db_byte (with_image 65536 0xc0 0x400000 s
      (with_image 65536 0x40 (?n - 0x400000) (s + 0x400000) d)) x" for x
    using n c by (simp add: board_db_def)
  show ?thesis
  proof (cases "0x80 \<le> B")
    case True
    then have o: "low_area B W \<or> 0xc0 \<le> B" "p = hirom_pos B W" using off n by (simp_all split: if_splits)
    have "B mod 64 < 64" by simp
    then have lt: "hirom_pos B W < 0x400000" using b(7) by (simp add: hirom_pos_def)
    have "unat (xlat c a) = 65536 * (192 + B mod 64) + W"
    proof (cases "0xc0 \<le> B")
      case hi: True
      then have "xlat_board c a = (a, True)" using assms(2) b by (auto simp: xlat_exhirom_def Let_def bus_nat)
      then have "unat (xlat c a) = 65536 * B + W" using same_bank [OF b(1,2,4,5)] hi b(3) by simp
      then show ?thesis using hi b(6) bank_mod(4) [of B] by simp
    next
      case False
      then have l: "0x8000 \<le> W" "B < 0xc0" using o(1) by (auto simp: low_area_def)
      then have "unat (xlat c a) = 65536 * (B + 64) + W" using exhirom_bank [OF b(1,2) _ _ assms(2)] True b(3) by simp
      then show ?thesis using l True bank_mod(3) [of B] by simp
    qed
    then show ?thesis using lt b(7) o(2) by (simp add: image hirom_image_byte)
  next
    case False
    then have o: "B < 0x3e \<and> 0x8000 \<le> W \<or> 0x40 \<le> B \<and> \<not> (ram_size c \<noteq> 0 \<and> 0x70 \<le> B \<and> W < 0x8000)"
      "p = 0x400000 + hirom_pos B W" "p < ?n"
      using off n by (simp_all add: if_Some up_to_Some)
    have x: "unat (xlat c a) = 65536 * (64 + B mod 64) + W"
    proof (cases "0x40 \<le> B")
      case hi: True
      then have "xlat_board c a = (a, True)" using assms(2,3) b o(1) False by (auto simp: xlat_exhirom_def Let_def bus_nat)
      then have "unat (xlat c a) = 65536 * B + W" using same_bank [OF b(1,2,4,5)] hi False b(3) by simp
      then show ?thesis using hi False bank_mod(2) [of B] by simp
    next
      case lo: False
      then have "unat (xlat c a) = 65536 * (B + 64) + W"
        using exhirom_bank [OF b(1,2) _ _ assms(2)] o(1) b(3) by simp
      then show ?thesis using lo bank_mod(1) [of B] by simp
    qed
    have "B mod 64 < 64" "64 + B mod 64 \<noteq> 0x7e" "64 + B mod 64 \<noteq> 0x7f"
      using False o(1) b(4,5) bank_mod(1,2) [of B] by (simp, cases "B < 64", simp_all) auto
    moreover have "db_byte (with_image 65536 0x40 (?n - 0x400000) (s + 0x400000) d) (xlat c a) =
        Some (db_file d ! (s + 0x400000 + hirom_pos B W))"
      by (rule image_byte [OF x b(7)]) (use calculation o(2,3) in \<open>auto simp: hirom_pos_def\<close>)
    moreover have "64 + B mod 64 < 192" using mod_less_divisor [of 64 B] by linarith
    ultimately show ?thesis by (simp add: image image_other [OF x b(7) disjI1] o(2) add.assoc)
  qed
qed

lemma exlorom_byte:
  assumes "bus_address a B W" and bd: "xlat_board c a = xlat_exlorom c a"
    and flags: "\<not> has_cx4 c" "\<not> has_spc7110 c" "\<not> has_sdd1 c" and ExLoROM: "cart_mapper c = ExLoROM"
    and off: "mapper_offset c n B W = Some p" and n: "n = unat (rom_size c)"
  shows "db_byte (board_db c s n d) (xlat c a) = Some (db_file d ! (s + p))"
proof -
  note b = bus_addressD [OF assms(1)]
  note off = off [unfolded mapper_offset_def Let_def]
  show ?thesis
  proof (cases "low_area B W")
    case True
    then have "lorom_pos B W < min n 0x200000" "p = lorom_pos B W"
      using off ExLoROM by (simp_all add: up_to_Some)
    then show ?thesis using or_byte [OF assms(1) _ True] bd ExLoROM flags by (simp add: board_db_def)
  next
    case False
    then have o: "0x40 \<le> B" "B < 0x80" "\<not> (ram_size c \<noteq> 0 \<and> 0x70 \<le> B \<and> W < 0x8000)"
      "hirom_pos B W < min n 0x400000" "p = hirom_pos B W"
      using off ExLoROM by (simp_all add: up_to_Some if_Some split: if_splits)
    have "xlat_board c a = (a, True)" using bd o b by (auto simp: xlat_exlorom_def Let_def bus_nat)
    then have "unat (xlat c a) = 65536 * B + W" using same_bank [OF b(1,2,4,5)] o b(3) by simp
    then show ?thesis using o b(7) b(4,5) ExLoROM flags bank_mod(2) [of B]
      by (simp add: board_db_def image_byte hirom_pos_def)
  qed
qed

lemma superfx_byte:
  assumes "bus_address a B W" and bd: "xlat_board c a = xlat_superfxrom c a"
    and flags: "\<not> has_cx4 c" "\<not> has_spc7110 c" "\<not> has_sdd1 c" and SuperFXROM: "cart_mapper c = SuperFXROM"
    and off: "mapper_offset c n B W = Some p" and n: "n = unat (rom_size c)"
  shows "db_byte (board_db c s n d) (xlat c a) = Some (db_file d ! (s + p))"
proof -
  note b = bus_addressD [OF assms(1)]
  note off = off [unfolded mapper_offset_def Let_def]
  show ?thesis
  proof (cases "B < 0x40 \<and> 0x8000 \<le> W")
    case True
    then have o: "lorom_pos B W < min n 0x200000" "p = lorom_pos B W" using off SuperFXROM by (simp_all add: up_to_Some)
    have "xlat_board c a = (a, True)" using bd True b by (auto simp: xlat_superfxrom_def Let_def bus_nat)
    then have x: "unat (xlat c a) = 65536 * B + W" using same_bank [OF b(1,2,4,5)] True b(3) by simp
    then show ?thesis using o True b(4,5,7) SuperFXROM flags bank_mod(5) [of B]
      by (simp add: board_db_def image_byte image_other [OF x b(7)] lorom_pos_def)
  next
    case False
    then have o: "0xc0 \<le> B" "B < 0xe0" "hirom_pos B W < min n 0x200000" "p = hirom_pos B W"
      using off SuperFXROM by (simp_all add: up_to_Some if_Some split: if_splits)
    have "xlat_board c a = (a, True)" using bd o b by (auto simp: xlat_superfxrom_def Let_def bus_nat)
    then have "unat (xlat c a) = 65536 * B + W" using same_bank [OF b(1,2,4,5)] o b(3) by simp
    then have "unat (xlat c a) = 65536 * (192 + B mod 64) + W" using o(1) b(6) bank_mod(4) [of B] by simp
    then show ?thesis using o(3,4) b(7) SuperFXROM flags by (simp add: board_db_def hirom_image_byte)
  qed
qed

lemma sa1_byte:
  assumes "bus_address a B W" and bd: "xlat_board c a = xlat_sa1rom c a"
    and flags: "\<not> has_cx4 c" "\<not> has_spc7110 c" "\<not> has_sdd1 c" and SA1ROM: "cart_mapper c = SA1ROM"
    and off: "mapper_offset c n B W = Some p" and n: "n = unat (rom_size c)"
  shows "db_byte (board_db c s n d) (xlat c a) = Some (db_file d ! (s + p))"
proof -
  note b = bus_addressD [OF assms(1)]
  note off = off [unfolded mapper_offset_def Let_def]
  show ?thesis
  proof (cases "low_area B W")
    case True
    then have o: "lorom_pos (B mod 64) W < min n 0x200000" "p = lorom_pos (B mod 64) W" "0x8000 \<le> W"
      using off SA1ROM by (simp_all add: up_to_Some low_area_def)
    have x: "unat (xlat c a) = 65536 * (B mod 64) + W" using sa1_bank [OF b(1,2) _ bd] True b(3) by simp
    have lt: "B mod 64 < 64" by simp
    have "db_byte (with_image 32768 0 (min n 0x200000) s d) (xlat c a) = Some (db_file d ! (s + p))"
      by (rule image_byte [OF x b(7)]) (use lt o in \<open>auto simp: lorom_pos_def\<close>)
    moreover have "B mod 64 < 192" using lt by linarith
    ultimately show ?thesis using SA1ROM flags
      by (simp add: board_db_def image_other [OF x b(7) disjI1])
  next
    case False
    then have o: "0xc0 \<le> B" "hirom_pos B W < n" "p = hirom_pos B W"
      using off SA1ROM by (simp_all add: up_to_Some if_Some split: if_splits)
    have "xlat_board c a = (a, True)" using bd o b by (auto simp: xlat_sa1rom_def Let_def bus_nat)
    then have "unat (xlat c a) = 65536 * B + W" using same_bank [OF b(1,2,4,5)] o b(3) by simp
    then have "unat (xlat c a) = 65536 * (192 + B mod 64) + W" using o(1) b(6) bank_mod(4) [of B] by simp
    then show ?thesis using o(2,3) b(7) SA1ROM flags by (simp add: board_db_def hirom_image_byte)
  qed
qed

lemma mapper_byte:
  assumes "bus_address a B W" "\<not> has_cx4 c" "\<not> has_spc7110 c" "\<not> has_sdd1 c" "cart_ok c"
    and "mapper_offset c (unat (rom_size c)) B W = Some p"
  shows "db_byte (board_db c s (unat (rom_size c)) d) (xlat c a) = Some (db_file d ! (s + p))"
proof -
  let ?n = "unat (rom_size c)"
  note b = bus_addressD [OF assms(1)]
  note off = assms(6) [unfolded mapper_offset_def Let_def]
  note flags = assms(2-4)
  show ?thesis
  proof (cases "cart_mapper c")
    case LoROM
    then have o: "B < 0x40 \<or> 0x80 \<le> B" "0x8000 \<le> W" "\<not> (ram_size c \<noteq> 0 \<and> 0xf0 \<le> B \<and> \<not> preserve_rom_mirror c)"
      "lorom_pos B W < min ?n 0x400000" "p = lorom_pos B W"
      using off by (simp_all only: memory_mapper.case if_Some up_to_Some simp_thms)
    have "xlat_board c a = xlat_lorom c a" using LoROM flags by (simp add: xlat_board_def)
    then show ?thesis using lorom_byte [OF assms(1) _ o(1,2,4)] o(3,5) LoROM flags by (simp add: board_db_def)
  next
    case HiROM
    then have o: "low_area B W \<or> 0x40 \<le> B \<and> B < 0x80 \<or> 0xc0 \<le> B" "hirom_pos B W < min ?n 0x400000" "p = hirom_pos B W"
      using off by (simp_all only: memory_mapper.case if_Some up_to_Some simp_thms)
    have "xlat_board c a = xlat_hirom c a" using HiROM flags by (simp add: xlat_board_def)
    then show ?thesis using hirom_byte [OF assms(1) _ o(1,2)] o(3) HiROM flags by (simp add: board_db_def)
  next
    case ExLoROM
    then have "xlat_board c a = xlat_exlorom c a" using flags by (simp add: xlat_board_def)
    then show ?thesis by (rule exlorom_byte [OF assms(1) _ flags ExLoROM assms(6) refl])
  next
    case ExHiROM
    then have bd: "xlat_board c a = xlat_exhirom c a" using flags by (simp add: xlat_board_def)
    have "preserve_rom_mirror c" using assms(5) flags ExHiROM by (simp add: cart_ok_def)
    then show ?thesis
      by (rule exhirom_byte [OF assms(1) bd _ off [unfolded ExHiROM memory_mapper.case] flags ExHiROM])
  next
    case SuperFXROM
    then have "xlat_board c a = xlat_superfxrom c a" using flags by (simp add: xlat_board_def)
    then show ?thesis by (rule superfx_byte [OF assms(1) _ flags SuperFXROM assms(6) refl])
  next
    case SA1ROM
    then have "xlat_board c a = xlat_sa1rom c a" using flags by (simp add: xlat_board_def)
    then show ?thesis by (rule sa1_byte [OF assms(1) _ flags SA1ROM assms(6) refl])
  qed (use off in simp_all)
qed

theorem board_byte:
  assumes "unat a < 2 ^ 24" "one_chip c" "cart_ok c"
    and off: "rom_offset c (unat (bank_of a)) (unat (addr_of a)) = Some p"
  shows "db_byte (board_db c s (unat (rom_size c)) d) (xlat c a) = Some (db_file d ! (s + p))"
proof -
  let ?B = "unat (bank_of a)" and ?W = "unat (addr_of a)"
  have b: "bus_address a ?B ?W"
    using assms(1) off by (auto simp: bus_address_def rom_offset_def)
  show ?thesis
  proof (cases "has_cx4 c \<or> has_spc7110 c \<or> has_sdd1 c")
    case True
    then show ?thesis
      using cx4_byte [OF b _ off] spc7110_byte [OF b _ _ assms(2) off] sdd1_byte [OF b _ _ _ off] by blast
  next
    case False
    then have "mapper_offset c (unat (rom_size c)) ?B ?W = Some p"
      using off by (simp add: rom_offset_def Let_def if_Some split: if_splits)
    then show ?thesis using mapper_byte [OF b _ _ _ assms(3)] False by simp
  qed
qed

end
