(* ===== verification/SnesRam.thy ===== *)
theory SnesRam
  imports SnesRom
begin

text \<open>
  Save RAM: the segments that the loader creates contain the cells that the translation
  leads to, and the cases where they do not.
\<close>

section \<open>The cells lie in the segments\<close>

lemma ram_bank_lt:
  fixes n x sz :: nat
  assumes "x < n" "0 < sz"
  shows "x div sz < (n + sz - 1) div sz"
proof -
  have "x div sz * sz \<le> x" by simp
  then have "x div sz * sz + sz \<le> n + sz - 1" using assms by linarith
  then have "(x div sz + 1) * sz \<le> n + sz - 1" by simp
  then have "x div sz + 1 \<le> (n + sz - 1) div sz" using assms(2) by (simp add: less_eq_div_iff_mult_less_eq)
  then show ?thesis by simp
qed

lemma bus_div: "p < 0x100 \<Longrightarrow> q < 0x10000 \<Longrightarrow> unat (bus p q) div 65536 = unat p \<and> unat (bus p q) mod 65536 = unat q"
  by (simp add: unat_bus word_less_nat_alt)

lemma ram_bits_size: "ram_bits c k \<Longrightarrow> unat (ram_size c) = 2 ^ k"
proof -
  assume r: "ram_bits c k"
  then have "k = 11 \<or> k = 12 \<or> k = 13 \<or> k = 14 \<or> k = 15 \<or> k = 16 \<or> k = 17" by (simp add: ram_bits_def) linarith
  then show ?thesis using r by (elim disjE) (simp_all add: ram_bits_def)
qed

lemma lorom_ram_segment:
  assumes "ram_ok c" "ram_size c \<noteq> 0"
  shows "db_segment (lorom_ram c d) (lorom_sram c b w)"
proof -
  obtain k where k: "ram_bits c k" using assms by (rule ram_okE)
  obtain p q where r: "lorom_sram c b w = bus p q"
    "unat p = 0x70 + lorom_off k b w div 32768" "unat q = lorom_off k b w mod 32768" "p < 0x100" "q < 0x10000"
    by (rule lorom_sram_bus [OF k])
  have "lorom_off k b w < 2 ^ k" by (simp add: lorom_off_def)
  then have "lorom_off k b w div 32768 < ram_banks c 0x8000"
    using ram_bank_lt [of "lorom_off k b w" "2 ^ k" 32768] by (simp add: ram_banks_def ram_bits_size [OF k])
  then show ?thesis using bus_div [OF r(4,5)] r(2,3) by (simp add: r(1) lorom_ram_def)
qed

lemma hirom_ram_segment:
  assumes "ram_ok c" "ram_size c \<noteq> 0" "base = 0 \<or> base = 0x20" "0x6000 \<le> w"
  shows "db_segment (hirom_ram (unat base) c d) (hirom_sram c base b w)"
proof -
  obtain k where k: "ram_bits c k" using assms(1,2) by (rule ram_okE)
  have base: "base \<le> 0x20" using assms(3) by auto
  obtain p q where r: "hirom_sram c base b w = bus p q"
    "unat p = unat base + hirom_off k b w div 8192" "unat q = 0x6000 + hirom_off k b w mod 8192" "p < 0x100" "q < 0x10000"
    by (rule hirom_sram_bus [OF k base assms(4)])
  have "hirom_off k b w < 2 ^ k" by (simp add: hirom_off_def)
  then have "hirom_off k b w div 8192 < ram_banks c 0x2000"
    using ram_bank_lt [of "hirom_off k b w" "2 ^ k" 8192] by (simp add: ram_banks_def ram_bits_size [OF k])
  then show ?thesis using bus_div [OF r(4,5)] r(2,3) by (simp add: r(1) hirom_ram_def)
qed

text \<open>
  The addresses that a board resolves to save RAM, for the styles of RAM that the loader
  creates segments for; the two highest banks of a LoROM board are left out.
\<close>

definition ram_area :: "cartridge \<Rightarrow> nat \<Rightarrow> nat \<Rightarrow> bool" where
  "ram_area c B W \<longleftrightarrow> ram_size c \<noteq> 0 \<and> \<not> has_cx4 c \<and>
     (if has_sdd1 c then 0x70 \<le> B \<and> B < 0x7e \<and> W < 0x8000
      else case cart_mapper c of
        LoROM \<Rightarrow> (0x70 \<le> B \<and> B < 0x7e \<or> 0xf0 \<le> B \<and> B < 0xfe) \<and> (W < 0x8000 \<or> \<not> preserve_rom_mirror c)
      | HiROM \<Rightarrow> (0x10 \<le> B \<and> B < 0x40 \<or> 0x90 \<le> B \<and> B < 0xc0) \<and> 0x6000 \<le> W \<and> W < 0x8000
      | ExLoROM \<Rightarrow> 0x70 \<le> B \<and> B < 0x7e \<and> W < 0x8000
      | ExHiROM \<Rightarrow> (0x20 \<le> B \<and> B < 0x40 \<or> 0xa0 \<le> B \<and> B < 0xc0) \<and> 0x6000 \<le> W \<and> W < 0x8000
      | SPC7110ROM \<Rightarrow> (B < 0x40 \<or> 0x80 \<le> B \<and> B < 0xc0) \<and> 0x6000 \<le> W \<and> W < 0x8000
      | _ \<Rightarrow> False)"

lemma system_ram:
  assumes "unat (bank_of a) \<noteq> 0x7e" "unat (bank_of a) \<noteq> 0x7f"
    "0x4380 \<le> unat (addr_of a) \<or> 64 \<le> unat (bank_of a) \<and> unat (bank_of a) < 128 \<or> 192 \<le> unat (bank_of a)"
  shows "\<not> snd (xlat_system a)"
proof
  assume "snd (xlat_system a)"
  then obtain r where "xlat_system a = (r, True)" by (cases "xlat_system a") simp
  then show False using assms by (cases rule: xlat_system_cases) auto
qed

text \<open>Where such an address is translated to.\<close>

lemma ram_area_xlat:
  assumes "ram_area c (unat (bank_of a)) (unat (addr_of a))"
  shows "xlat c a = (if has_sdd1 c \<or> cart_mapper c \<in> {LoROM, ExLoROM} then lorom_sram c (bank_of a) (addr_of a)
      else hirom_sram c (if cart_mapper c = SPC7110ROM then 0 else 0x20) (bank_of a) (addr_of a))"
    and "has_sdd1 c \<or> cart_mapper c \<in> {LoROM, ExLoROM} \<or> 0x6000 \<le> addr_of a \<and> cart_mapper c \<in> {HiROM, ExHiROM, SPC7110ROM}"
proof -
  have s: "\<not> snd (xlat_system a)"
    by (rule system_ram)
      (use assms in \<open>cases "cart_mapper c"; auto simp: ram_area_def split: if_splits\<close>)+
  have "xlat_board c a = ((if has_sdd1 c \<or> cart_mapper c \<in> {LoROM, ExLoROM} then lorom_sram c (bank_of a) (addr_of a)
      else hirom_sram c (if cart_mapper c = SPC7110ROM then 0 else 0x20) (bank_of a) (addr_of a)), True)"
  proof (cases "has_sdd1 c")
    case True
    then show ?thesis using assms by (auto simp: ram_area_def xlat_board_def xlat_sdd1_def Let_def bus_nat)
  next
    case False
    then show ?thesis using assms
      by (cases "cart_mapper c") (auto simp: ram_area_def xlat_board_def xlat_lorom_def xlat_hirom_def
        xlat_exlorom_def xlat_exhirom_def xlat_spc7110_def Let_def bus_nat)
  qed
  then show "xlat c a = (if has_sdd1 c \<or> cart_mapper c \<in> {LoROM, ExLoROM} then lorom_sram c (bank_of a) (addr_of a)
      else hirom_sram c (if cart_mapper c = SPC7110ROM then 0 else 0x20) (bank_of a) (addr_of a))"
    by (rule xlat_dispatched [OF s])
  show "has_sdd1 c \<or> cart_mapper c \<in> {LoROM, ExLoROM} \<or> 0x6000 \<le> addr_of a \<and> cart_mapper c \<in> {HiROM, ExHiROM, SPC7110ROM}"
    using assms by (cases "has_sdd1 c"; cases "cart_mapper c") (simp_all add: ram_area_def bus_nat)
qed

lemma segment_kept [simp]:
  "db_segment d a \<Longrightarrow> db_segment (with_image S b n base d) a"
  by (simp add: with_image_def)

text \<open>The loader has a segment at the translation of every such address.\<close>

lemma ram_segment:
  assumes "one_chip c" "ram_ok c" "ram_area c (unat (bank_of a)) (unat (addr_of a))"
  shows "db_segment (board_db c s n d) (xlat c a)"
proof -
  have c: "ram_size c \<noteq> 0" "\<not> has_cx4 c" using assms(3) by (simp_all add: ram_area_def)
  have spc: "has_spc7110 c \<longleftrightarrow> cart_mapper c = SPC7110ROM" "\<not> (has_spc7110 c \<and> has_sdd1 c)"
    using assms(1) by (auto simp: one_chip_def chips_def split: if_splits)
  note x = ram_area_xlat [OF assms(3)]
  show ?thesis
  proof (cases "has_sdd1 c \<or> cart_mapper c \<in> {LoROM, ExLoROM}")
    case True
    then show ?thesis using x(1) spc c(2) lorom_ram_segment [OF assms(2) c(1)]
      by (auto simp: board_db_def with_segment_def)
  next
    case False
    then have "0x6000 \<le> addr_of a" "cart_mapper c \<in> {HiROM, ExHiROM, SPC7110ROM}" using x(2) by auto
    then show ?thesis using False x(1) spc c(2) hirom_ram_segment [OF assms(2) c(1), of 0 "addr_of a"]
        hirom_ram_segment [OF assms(2) c(1), of "0x20" "addr_of a"]
      by (auto simp: board_db_def with_segment_def)
  qed
qed

section \<open>Where the translation and the segments do not agree\<close>

lemma common_segment:
  assumes "0x10000 \<le> unat a" "unat a div 65536 \<noteq> 0x7e" "unat a div 65536 \<noteq> 0x7f"
  shows "db_segment (common_db c d) a = db_segment d a"
proof -
  have "\<not> (0x7e0000 \<le> unat a \<and> unat a < 0x800000)"
  proof
    assume "0x7e0000 \<le> unat a \<and> unat a < 0x800000"
    then have "unat a div 65536 = 0x7e \<or> unat a div 65536 = 0x7f" by linarith
    then show False using assms(2,3) by simp
  qed
  then show ?thesis using assms(1)
    by (auto simp: common_db_def Let_def word_le_nat_alt word_less_nat_alt)
qed

lemma lorom_board_db:
  assumes "lorom_board c" "one_chip c"
  shows "board_db c s n d = lorom_ram c (with_image 32768 0x80 (min n 0x400000) s d)"
  using assms by (auto simp: board_db_def lorom_board_def one_chip_def)

lemma lorom_untouched:
  assumes "lorom_board c" "one_chip c" "ram_ok c"
    and x: "0x40 \<le> unat x div 65536" "unat x mod 65536 < 0x8000 \<and> 0x80 \<le> unat x div 65536 \<or> unat x div 65536 < 0x70"
  shows "db_segment (common_db c (board_db c s n d)) x = db_segment d x" "db_byte (board_db c s n d) x = db_byte d x"
proof -
  have "ram_banks c 0x8000 \<le> 4" by (rule ram_banks_bound(1) [OF assms(3)])
  then have "db_segment (board_db c s n d) x = db_segment d x" "db_byte (board_db c s n d) x = db_byte d x"
    using x by (auto simp: lorom_board_db [OF assms(1,2)] lorom_ram_def with_image_def rom_cell_def bank_cell_def Let_def)
  moreover have "0x10000 \<le> unat x" using x(1) by linarith
  moreover have "unat x div 65536 \<noteq> 0x7e" "unat x div 65536 \<noteq> 0x7f" using x by auto
  ultimately show "db_segment (common_db c (board_db c s n d)) x = db_segment d x"
    "db_byte (board_db c s n d) x = db_byte d x"
    by (simp_all add: common_segment)
qed

end
