(* ===== verification/SnesDemo.thy ===== *)
theory SnesDemo
  imports SnesRam
begin

text \<open>
  A kernel in memory, on which the contract of the loader is interpreted, and a small ROM for
  the witnesses.
\<close>

section \<open>A kernel in memory\<close>

type_synonym mem_state = "database \<times> nat \<times> (string \<Rightarrow> (u64 + string) option)"

definition mem_io :: "mem_state linput_ops" where
  "mem_io = \<lparr>
     qlsize = (\<lambda>(d, _, _). of_nat (length (db_file d))),
     qlseek = (\<lambda>(d, _, h) p. (p, d, unat p, h)),
     qlread = (\<lambda>(d, p, h) n. (Some (take n (drop p (db_file d))), d, p + min n (length (db_file d) - p), h))\<rparr>"

definition mem_word :: "database \<Rightarrow> u64 \<Rightarrow> u16" where
  "mem_word d x = (case (db_byte d x, db_byte d (x + 1)) of
     (Some lo, Some hi) \<Rightarrow> ucast lo OR push_bit 8 (ucast hi) | _ \<Rightarrow> 0xffff)"

definition mem_kernel :: "mem_state kernel_ops" where
  "mem_kernel = \<lparr>
     allocate_selector = (\<lambda>k p. (p, k)),
     add_segment_ex = (\<lambda>(d, r) s. (True, with_segment (start_ea s) (end_ea s) d, r)),
     add_segm = (\<lambda>(d, r) sel x y nm cl. (True, with_segment x y d, r)),
     file2base = (\<lambda>(d, r) p x y. (True, with_bytes (unat p) x y d, r)),
     get_word = (\<lambda>(d, _) x. mem_word d x),
     has_user_name = (\<lambda>_ _. False),
     perform = (\<lambda>(d, r) c. (case c of InfSetStartIp ip \<Rightarrow> d\<lparr>db_entry := ip\<rparr> | _ \<Rightarrow> d, r))\<rparr>"

definition mem_netnode :: "mem_state netnode_ops" where
  "mem_netnode = \<lparr>
     hashset_long = (\<lambda>(d, p, h) k v. (d, p, hashset_long map_netnode h k v)),
     hashset_str = (\<lambda>(d, p, h) k s. (d, p, hashset_str map_netnode h k s)),
     hashval_long = (\<lambda>(_, _, h) k. hashval_long map_netnode h k),
     hashstr = (\<lambda>(_, _, h) k. hashstr map_netnode h k)\<rparr>"

lemma mem_linput: "linput mem_io (\<lambda>k. db_file (fst k)) (\<lambda>k. fst (snd k))"
  by unfold_locales (auto simp: mem_io_def)

lemma mem_database: "database mem_io fst (\<lambda>k. fst (snd k)) mem_kernel mem_netnode"
  by (intro database.intro mem_linput, unfold_locales)
    (auto simp: mem_io_def mem_kernel_def mem_netnode_def mem_word_def split: call.split)

interpretation kern: database mem_io fst "\<lambda>k. fst (snd k)" mem_kernel mem_netnode
  by (rule mem_database)

section \<open>A ROM\<close>

definition demo_header :: "u8 list" where
  "demo_header = replicate 21 0x20 @ [0x20, 0, 8, 1, 1, 1, 0, 0xfe, 0xff, 1, 0] @ replicate 28 0 @ [0, 0x80, 0, 0]"

definition demo_rom :: "u8 list" where
  "demo_rom = 0x78 # replicate 32703 0 @ demo_header"

definition demo_cart :: cartridge where
  "demo_cart = cartridge_init\<lparr>rom_size := 0x8000, ram_size := 0x800, header_offset := 0x7fc0,
     cart_type := TypeNormal\<rparr>"

definition demo_db :: database where
  "demo_db = \<lparr>db_file = demo_rom, db_byte = (\<lambda>_. None), db_segment = (\<lambda>_. False), db_entry = 0\<rparr>"

definition demo_state :: mem_state where
  "demo_state = (demo_db, 0, Map.empty)"

lemma demo_length: "length demo_rom = 32768" "length demo_header = 64"
  by (simp_all add: demo_rom_def demo_header_def)

lemma demo_size: "db_file (fst k) = demo_rom \<Longrightarrow> qlsize mem_io k = 32768"
  by (cases k) (simp add: mem_io_def demo_length)

lemma demo_start:
  assumes "db_file (fst k) = demo_rom"
  shows "kern.rom_start k = 0" "kern.rom_bytes k = 32768"
  using demo_size [OF assms] by (simp_all add: kern.rom_start_def kern.rom_bytes_def copier_header_def)

lemma demo_fill:
  assumes "db_file (fst k) = demo_rom" "unat q + n \<le> 32768"
  obtains k' where "fill_at mem_io k q n = Some (take n (drop (unat q) demo_rom), k')" "db_file (fst k') = demo_rom"
  using kern.fill_at_bytes [of q n k] assms by (auto simp: demo_length)

lemma demo_index:
  assumes "db_file (fst k) = demo_rom"
  obtains k' where "find_header mem_io k = Some (0x7fc0, k')" "db_file (fst k') = demo_rom"
  using kern.find_header_total [of k] demo_start [OF assms] assms by auto

text \<open>The parts of the file that the constructor looks at.\<close>

lemma demo_parts:
  "take 0x140 (drop 0 demo_rom) = 0x78 # replicate 319 0" "take 32 (drop 0 demo_rom) = 0x78 # replicate 31 0"
  "take 80 (drop 0x7fb0 demo_rom) = replicate 16 0 @ demo_header"
  by (simp_all add: demo_rom_def drop_Cons' take_Cons' demo_length)

lemma demo_fields:
  fixes e :: "u8 list"
  defines "e \<equiv> replicate 16 0 @ demo_header"
  shows "e ! 2 = 0" "e ! 29 = 0x20" "e ! 35 = 0x20" "e ! 36 = 0x20" "e ! 37 = 0x20" "e ! 38 = 0" "e ! 39 = 8" "e ! 40 = 1" "e ! 41 = 1"
    "e ! 42 = 1" "e ! 16 = 0x20" "length e = 80"
  by (simp_all add: e_def demo_header_def nth_append nth_Cons' take_Cons')

text \<open>A text is not there when its first character is not.\<close>

lemma has_text_head:
  assumes "p < length bs" "bs ! p \<noteq> of_char ch"
  shows "\<not> has_text bs p (ch # s)"
proof
  assume "has_text bs p (ch # s)"
  then have "hd (take (length (ch # s)) (drop p bs)) = hd (map of_char (ch # s))"
    by (simp add: has_text_def)
  then show False using assms by (simp add: hd_drop_conv_nth)
qed

lemma demo_chips:
  assumes "e = replicate 16 0 @ demo_header" "\<not> has_dsp1 c"
  shows "detect_chips e n c = c"
proof -
  have h: "e ! 37 = 0x20" "e ! 38 = 0" using demo_fields assms(1) by simp_all
  have "detect_superfx 0x20 0 x c = c" "detect_sa1 0x20 0 c = c" "detect_sharprtc 0x20 0 c = c"
    "detect_sdd1 0x20 0 c = c" "detect_spc7110 0x20 0 c = c" "detect_cx4 0x20 0 c = c"
    "detect_dsp1 0x20 0 y n c = c" "detect_dsp234 0x20 0 y c = c" "detect_others 0x20 0 y c = c" for x y
    using assms(2) by (simp_all add: detect_superfx_def detect_sa1_def detect_sharprtc_def detect_sdd1_def
      detect_spc7110_def detect_cx4_def detect_dsp1_def detect_dsp234_def detect_others_def)
  then show ?thesis
    by (simp add: detect_chips_def Let_def h)
qed

lemma demo_apply:
  assumes e: "e = replicate 16 0 @ demo_header" and d: "d = 0x78 # replicate 31 0"
    and c: "c = reset_members 32768 (cartridge_init\<lparr>has_copier_header := False\<rparr>)"
  shows "\<exists>f. apply_header e 0x7fc0 32768 c = Inr f \<and> f d = demo_cart"
proof -
  note f = demo_fields [folded e]
  have "header_ram_size e = 0x800" "header_region e = NTSC"
    by (simp_all add: header_ram_size_def size_from_code_def header_region_def f Let_def push_bit_eq_mult)
  moreover have "\<not> is_bsx e" "\<not> bsx_slot e" by (simp_all add: is_bsx_def bsx_slot_def f)
  moreover have "\<not> has_text d 0 ''BANDAI SFC-ADX''" "\<not> has_text e 16 ''Super GAMEBOY2''" "\<not> has_text e 16 ''Super GAMEBOY''"
    by (rule has_text_head; simp add: f d)+
  ultimately show ?thesis
    by (simp add: apply_header_def detect_board_def demo_chips [OF e] c reset_members_def
      cartridge_init_def demo_cart_def standard_mapper_def f Let_def word_sle_eq)
qed

lemma demo_cartridge:
  assumes "db_file (fst k) = demo_rom"
  obtains k' where "cartridge_from mem_io k = Some (demo_cart, k')" "db_file (fst k') = demo_rom"
proof -
  let ?c = "cartridge_init\<lparr>firmware_appended := False\<rparr>"
  obtain k1 where 1: "fill_at mem_io k 0 0x140 = Some (0x78 # replicate 319 0, k1)" "db_file (fst k1) = demo_rom"
    using demo_fill [OF assms, of 0 "0x140"] demo_parts by auto
  obtain k2 where 2: "find_header mem_io k1 = Some (0x7fc0, k2)" "db_file (fst k2) = demo_rom"
    by (rule demo_index [OF 1(2)])
  obtain k3 where 3: "fill_at mem_io k2 0x7fb0 80 = Some (replicate 16 0 @ demo_header, k3)" "db_file (fst k3) = demo_rom"
    using demo_fill [OF 2(2), of "0x7fb0" 80] demo_parts by auto
  obtain k4 where 4: "fill_at mem_io k3 0 32 = Some (0x78 # replicate 31 0, k4)" "db_file (fst k4) = demo_rom"
    using demo_fill [OF 3(2), of 0 32] demo_parts by auto
  have gb: "\<not> is_game_boy (0x78 # replicate 319 0)"
  proof -
    have "replicate 8 (0 :: u8) = 0 # replicate 7 0" by (simp add: eval_nat_numeral)
    then show ?thesis by (simp add: is_game_boy_def)
  qed
  have c: "?c = cartridge_init" by (simp add: cartridge_init_def)
  obtain f where 5: "apply_header (replicate 16 0 @ demo_header) 0x7fc0 32768
      (reset_members 32768 (cartridge_init\<lparr>has_copier_header := False\<rparr>)) = Inr f" "f (0x78 # replicate 31 0) = demo_cart"
    using demo_apply [OF refl refl refl] by blast
  have no: "\<not> 32768 <s (0 :: u32)" by (simp add: sless_u32)
  have "read_header mem_io k ?c = Some (demo_cart, k4)"
    unfolding read_header_def demo_size [OF assms] Let_def c
    using 1 2 3 4 gb 5 by (simp add: copier_header_def no)
  then have "cartridge_from mem_io k = Some (demo_cart, k4)"
    unfolding cartridge_from_def demo_size [OF assms] Let_def
    by (simp add: no copier_header_def cartridge_init_def demo_cart_def strip_all_firmware_def strip_firmware_def)
  then show thesis using that 4(2) by blast
qed

end
