(* ===== verification/SnesWhole.thy ===== *)
theory SnesWhole
  imports SnesDemo
begin

text \<open>
  Detection and loading together: the cartridge that the constructor describes meets what the
  address translation and the board layout need, so loading a file succeeds and puts the ROM
  where the board has it.
\<close>

section \<open>Loading what was detected\<close>

definition start_of :: "cartridge \<Rightarrow> nat" where
  "start_of c = (if has_copier_header c then 512 else 0)"

context linput
begin

lemma cartridge_from_parts:
  assumes "cartridge_from io li = Some (c, li')" "rom_size c \<noteq> 0"
  shows "content li' = content li" "detected (rom_bytes li) c" "cart_ok c"
    and "start_of c + unat (rom_size c) \<le> length (content li)" "unat (rom_size c) < 2 ^ 31"
proof -
  have t: "content li' = content li" "detected (rom_bytes li) c" "rom_size c \<le> rom_bytes li"
    "unat (rom_bytes li) \<le> unat (rom_size c) + 0x28000" "unat (rom_bytes li) < 2 ^ 31"
    "(if has_copier_header c then 512 else 0) = rom_start li"
    using cartridge_from_total [of li] assms by auto
  have "unat (rom_start li) = start_of c" using t(6) by (simp add: start_of_def split: if_splits)
  then show "start_of c + unat (rom_size c) \<le> length (content li)"
    using rom_bounds(2) [of li] t(3) by (simp add: word_le_nat_alt)
  show "unat (rom_size c) < 2 ^ 31" using t(3,5) by (simp add: word_le_nat_alt)
  show "content li' = content li" "detected (rom_bytes li) c" by (fact t)+
  show "cart_ok c" using detected_cart_ok [OF t(2)] t(4) by simp
qed

lemma score_header_size:
  assumes "score_header io li addr = Some (s, li')" "s \<noteq> 0"
  shows "0x8000 \<le> length (content li)"
proof -
  have "\<not> ucast (qlsize io li) <s (0x8000 :: u32)" using assms by (auto simp: score_header_def Let_def)
  then have "0x8000 \<le> unat (ucast (qlsize io li) :: u32)" by (simp add: sless_u32)
  then show ?thesis using rom_bounds(2,3) [of li] by simp
qed

lemma accepted_size:
  assumes "accept_file io li = Some (b, li')" b
  shows "0x8000 \<le> length (content li)"
proof -
  obtain c li1 where c: "cartridge_from io li = Some (c, li1)" "content li1 = content li"
    using cartridge_from_total by blast
  obtain s li2 where s: "score_header io li1 (header_offset c) = Some (s, li2)" "9 \<le> s"
    using assms by (auto simp: accept_file_def c(1) split: bind_splits)
  have "s \<noteq> 0" using s(2) by auto
  then show ?thesis using score_header_size [OF s(1)] c(2) by simp
qed

end

sublocale database \<subseteq> frame: linput_frame io db
  by unfold_locales (rule seek_db, rule read_db)

context database
begin

lemma load_file_detected:
  assumes c: "cartridge_from io (perform K k (SetProcessorType ''m65816'')) = Some (c, k0)"
    and sup: "supported c" "rom_size c \<noteq> 0"
  obtains k' k1 where "load_file K io nn k = Inr ((), k')"
    "db k1 = common_db c (board_db c (start_of c) (unat (rom_size c)) (db k))"
    "db k' = (db k1)\<lparr>db_entry := xlat c (ucast (get_word K k1 (xlat c 0xfffc))) AND 0xffff\<rparr>"
    "one_chip c" "cart_ok c" "cart_type c = TypeNormal \<longrightarrow> mapper_header c"
proof -
  let ?k = "perform K k (SetProcessorType ''m65816'')"
  note p = cartridge_from_parts [OF c sup(2)]
  note d = detectedD [OF p(2)]
  have f: "db k0 = db k" using frame.cartridge_from_keeps [OF c] by (simp add: perform_plain)
  have at: "rom_at c (if has_copier_header c then 512 else 0) (start_of c) (length (db_file (db k0)))"
    using p(4,5) f by (simp add: rom_at_def start_of_def perform_plain)
  obtain k' k1 where l: "load_file K io nn k = Inr ((), k')"
    "db k1 = common_db c (board_db c (start_of c) (unat (rom_size c)) (db k0))"
    "db k' = (common_db c (board_db c (start_of c) (unat (rom_size c)) (db k0)))
       \<lparr>db_entry := xlat c (ucast (get_word K k1 (xlat c 0xfffc))) AND 0xffff\<rparr>"
    by (rule load_file_db [OF c d(2) sup(1) at order_refl])
  show thesis
    by (rule that [OF l(1) l(2) [unfolded f] l(3) [folded l(2)] d(1) p(3) impI [OF d(5)]])
qed

text \<open>The same for the bytes and segments alone.\<close>

lemma load_file_image:
  assumes "cartridge_from io (perform K k (SetProcessorType ''m65816'')) = Some (c, k0)" "supported c" "rom_size c \<noteq> 0"
  obtains k' where "load_file K io nn k = Inr ((), k')"
    "db_byte (db k') = db_byte (board_db c (start_of c) (unat (rom_size c)) (db k))"
    "db_segment (db k') = db_segment (common_db c (board_db c (start_of c) (unat (rom_size c)) (db k)))"
    "one_chip c" "cart_ok c"
proof -
  obtain k' k1 where l: "load_file K io nn k = Inr ((), k')"
    "db k1 = common_db c (board_db c (start_of c) (unat (rom_size c)) (db k))"
    "db k' = (db k1)\<lparr>db_entry := xlat c (ucast (get_word K k1 (xlat c 0xfffc))) AND 0xffff\<rparr>"
    "one_chip c" "cart_ok c" by (rule load_file_detected [OF assms])
  show thesis by (rule that [OF l(1) _ _ l(4,5)]) (simp_all add: l(2,3))
qed

lemma board_file: "db_file (board_db c s n d) = db_file d"
  by (simp add: board_db_def lorom_ram_def hirom_ram_def split: memory_mapper.split)

lemma load_file_rom:
  assumes "cartridge_from io (perform K k (SetProcessorType ''m65816'')) = Some (c, k0)" "supported c" "rom_size c \<noteq> 0"
  obtains k' where "load_file K io nn k = Inr ((), k')"
    "\<And>a p. unat a < 2 ^ 24 \<Longrightarrow> rom_offset c (unat (bank_of a)) (unat (addr_of a)) = Some p \<Longrightarrow>
       db_byte (db k') (xlat c a) = Some (db_file (db k) ! (start_of c + p))"
proof -
  obtain k' where l: "load_file K io nn k = Inr ((), k')"
    "db_byte (db k') = db_byte (board_db c (start_of c) (unat (rom_size c)) (db k))" "one_chip c" "cart_ok c"
    by (rule load_file_image [OF assms])
  show thesis
    by (rule that [OF l(1)]) (use board_byte l in simp)
qed

end

section \<open>The header and the reset vector\<close>

text \<open>The bank that bank 0 is a mirror of, on the four boards without a chip of their own.\<close>

definition plain_board :: "cartridge \<Rightarrow> bool" where
  "plain_board c \<longleftrightarrow> cart_mapper c \<in> {LoROM, HiROM, ExLoROM, ExHiROM} \<and> \<not> has_cx4 c \<and> \<not> has_sdd1 c \<and> \<not> has_spc7110 c"

definition bank0 :: "cartridge \<Rightarrow> u32" where
  "bank0 c = (case cart_mapper c of HiROM \<Rightarrow> 0xc0 | ExHiROM \<Rightarrow> 0x40 | _ \<Rightarrow> 0x80)"

lemma xlat_bank0:
  assumes "plain_board c" "0x8000 \<le> (w :: u16)"
  shows "xlat c (ucast w) = bus (bank0 c) (ucast w)"
proof (rule xlat_dispatched)
  have w: "32768 \<le> unat w" using assms(2) by (simp add: bus_nat)
  show "\<not> snd (xlat_system (ucast w))" by (rule system_rom) (simp_all add: view_reg w)
  have b: "xlat_board c (ucast w) = (case cart_mapper c of LoROM \<Rightarrow> xlat_lorom c (ucast w) | HiROM \<Rightarrow> xlat_hirom c (ucast w)
      | ExLoROM \<Rightarrow> xlat_exlorom c (ucast w) | ExHiROM \<Rightarrow> xlat_exhirom c (ucast w) | _ \<Rightarrow> (ucast w, False))"
    using assms(1) by (auto simp: plain_board_def xlat_board_def)
  have m: "ucast w + 0x800000 = bus 0x80 (ucast w)"
  proof (rule word_unat_eq_iff [THEN iffD2])
    show "unat (ucast w + 0x800000 :: u64) = unat (bus 0x80 (ucast w))"
      using u16_bound [of w] by (simp add: unat_bus bus_nat unat_word_ariths)
  qed
  show "xlat_board c (ucast w) = (bus (bank0 c) (ucast w), True)"
    unfolding b using assms(1) w m
    by (auto simp: plain_board_def bank0_def xlat_lorom_def xlat_hirom_def xlat_exlorom_def xlat_exhirom_def
      view_reg Let_def bus_nat)
qed

lemma bank0_next:
  assumes "w < 0xffff"
  shows "bus (bank0 c) (ucast (w :: u16)) + 1 = bus (bank0 c) (ucast (w + 1))"
proof -
  have "unat (w + 1) = unat w + 1" "unat w < 65535" using assms by (simp_all add: unat_word_ariths bus_nat)
  moreover have "bank0 c < 0x100" "unat (bank0 c) \<le> 0xc0" by (simp_all add: bank0_def split: memory_mapper.split)
  ultimately show ?thesis
    by (simp add: word_unat_eq_iff [where 'a = 64] unat_word_ariths unat_bus bus_nat)
qed

lemma and_mask65535: "ucast (ucast (x AND 0xffff) :: u16) = (x :: u64) AND 0xffff"
proof -
  have m: "(0xffff :: u64) = mask 16" by (simp add: mask_eq_exp_minus_1)
  show ?thesis unfolding m by (rule bit_word_eqI) (auto simp: bit_simps)
qed

lemma bank0_word:
  assumes "0 < bank0 c"
  shows "bus (bank0 c) (ucast (w :: u16)) AND 0xffff = ucast w"
proof -
  have "addr_of (bus (bank0 c) (ucast w)) = w"
    using u16_bound [of w] unat_addr_bus [of "bank0 c" "ucast w"]
    by (simp add: word_unat_eq_iff bank0_def bus_nat split: memory_mapper.splits)
  then have "ucast (addr_of (bus (bank0 c) (ucast w))) = (ucast w :: u64)" by simp
  then show ?thesis
    by (simp add: addr_of_def and_mask65535)
qed

text \<open>Where the header of a detected cartridge lies on the bus.\<close>

lemma header_offset_bank0:
  assumes "plain_board c" "mapper_header c" "cart_mapper c = ExHiROM \<Longrightarrow> header_offset c = 0x40ffc0"
    and "unat (header_offset c) + 64 \<le> unat (rom_size c)" "i < 64"
  shows "rom_offset c 0 (0xffc0 + i) = Some (unat (header_offset c) + i)"
  using assms by (auto simp: plain_board_def mapper_header_def rom_offset_def mapper_offset_def low_area_def up_to_def
    lorom_pos_def hirom_pos_def Let_def)

context database
begin

text \<open>The header appears at \<open>00:ffc0\<close>, and execution starts at the reset vector in it.\<close>

lemma load_file_header:
  assumes c: "cartridge_from io (perform K k (SetProcessorType ''m65816'')) = Some (c, k0)"
    and normal: "cart_type c = TypeNormal" "plain_board c" "unat (header_offset c) + 64 \<le> unat (rom_size c)"
  defines "h \<equiv> start_of c + unat (header_offset c)"
  obtains k' where "load_file K io nn k = Inr ((), k')"
    "\<And>i. i < 64 \<Longrightarrow> db_byte (db k') (xlat c (0xffc0 + of_nat i)) = Some (db_file (db k) ! (h + i))"
    "0x8000 \<le> word16_at (db_file (db k)) (h + 0x3c) \<Longrightarrow> db_entry (db k') = ucast (word16_at (db_file (db k)) (h + 0x3c))"
proof -
  have size: "rom_size c \<noteq> 0" using normal(3) by auto
  have sup: "supported c" using normal(2) by (auto simp: plain_board_def supported_def)
  obtain k' k1 where l: "load_file K io nn k = Inr ((), k')"
    "db k1 = common_db c (board_db c (start_of c) (unat (rom_size c)) (db k))"
    "db k' = (db k1)\<lparr>db_entry := xlat c (ucast (get_word K k1 (xlat c 0xfffc))) AND 0xffff\<rparr>"
    "one_chip c" "cart_ok c" "cart_type c = TypeNormal \<longrightarrow> mapper_header c"
    by (rule load_file_detected [OF c sup size])
  have ex: "cart_mapper c = ExHiROM \<Longrightarrow> header_offset c = 0x40ffc0"
    using detectedD(4) [OF cartridge_from_parts(2) [OF c size]] by blast
  have byte: "db_byte (db k1) (xlat c (0xffc0 + of_nat i)) = Some (db_file (db k) ! (h + i))" if "i < 64" for i
  proof -
    have a: "unat (0xffc0 + of_nat i :: u64) = 0xffc0 + i" using that by (simp add: unat_word_ariths unat_of_nat)
    have "unat (bank_of (0xffc0 + of_nat i)) = 0" "unat (addr_of (0xffc0 + of_nat i)) = 0xffc0 + i"
      using that by (simp_all add: bank_nat addr_nat a)
    then show ?thesis
      using board_byte [of "0xffc0 + of_nat i" c _ "start_of c" "db k", OF _ l(4,5)] header_offset_bank0 [OF normal(2) l(6) [THEN mp, OF normal(1)] ex normal(3) that] that
      by (simp add: a l(2) h_def add.assoc)
  qed
  have w: "xlat c 0xfffc = bus (bank0 c) 0xfffc" "xlat c 0xfffd = bus (bank0 c) 0xfffc + 1"
    using xlat_bank0 [OF normal(2), of "0xfffc"] xlat_bank0 [OF normal(2), of "0xfffd"] bank0_next [of "0xfffc" c] by simp_all
  have vec: "get_word K k1 (xlat c 0xfffc) = word16_at (db_file (db k)) (h + 0x3c)"
    using get_word [of k1 "xlat c 0xfffc"] byte [of 60] byte [of 61] w
    by (simp add: word16_at_def add.assoc add.commute [of 61])
  show thesis
  proof (rule that [OF l(1)])
    show "db_byte (db k') (xlat c (0xffc0 + of_nat i)) = Some (db_file (db k) ! (h + i))" if "i < 64" for i
      using byte [OF that] by (simp add: l(3))
    show "db_entry (db k') = ucast (word16_at (db_file (db k)) (h + 0x3c))"
      if "0x8000 \<le> word16_at (db_file (db k)) (h + 0x3c)"
      using bank0_word [of c] xlat_bank0 [OF normal(2) that] by (simp add: l(3) vec bank0_def split: memory_mapper.split)
  qed
qed

end

section \<open>Cells of RAM moved up\<close>

lemma lorom_cell_up:
  assumes "ram_ok c" "ram_size c \<noteq> 0"
  shows "0x40 \<le> unat (lorom_sram c b w + 0x800000) div 65536"
    and "unat (lorom_sram c b w + 0x800000) mod 65536 < 0x8000 \<and> 0x80 \<le> unat (lorom_sram c b w + 0x800000) div 65536 \<or>
      unat (lorom_sram c b w + 0x800000) div 65536 < 0x70"
proof -
  obtain k where k: "ram_bits c k" using assms by (rule ram_okE)
  obtain p q where r: "lorom_sram c b w = bus p q"
    "unat p = 0x70 + lorom_off k b w div 32768" "unat q = lorom_off k b w mod 32768" "p < 0x100" "q < 0x10000"
    by (rule lorom_sram_bus [OF k])
  have "lorom_off k b w < 131072" by (rule off_bound(1) [OF k])
  then have "unat p < 0x74" using r(2) by simp
  have "unat q < 32768" using r(3) by simp
  have m: "unat (lorom_sram c b w + 0x800000) = (unat p + 0x80) * 65536 + unat q"
    using unat_bus [OF r(4,5)] r(3) \<open>unat p < 0x74\<close> by (simp add: r(1) unat_word_ariths)
  have "(P * 65536 + Q) div 65536 = P \<and> (P * 65536 + Q) mod 65536 = Q" if "Q < 32768" for P Q :: nat
    using that by simp
  from this [OF \<open>unat q < 32768\<close>, of "unat p + 0x80", folded m]
  have "unat (lorom_sram c b w + 0x800000) div 65536 = unat p + 0x80"
    "unat (lorom_sram c b w + 0x800000) mod 65536 = unat q" by blast+
  then show "0x40 \<le> unat (lorom_sram c b w + 0x800000) div 65536"
    "unat (lorom_sram c b w + 0x800000) mod 65536 < 0x8000 \<and> 0x80 \<le> unat (lorom_sram c b w + 0x800000) div 65536 \<or>
      unat (lorom_sram c b w + 0x800000) div 65536 < 0x70"
    using \<open>unat q < 32768\<close> by simp_all
qed

section \<open>Boards that are not supported\<close>

lemma unsupported_board:
  "\<not> supported c \<Longrightarrow> map_board K start c k = Inl (UnsupportedMapper (mapper_to_string (cart_mapper c)))"
  by (cases "cart_mapper c") (simp_all add: supported_def map_board_def)

lemma unsupported_load:
  assumes "cartridge_from io (perform K k (SetProcessorType ''m65816'')) = Some (c, k0)" "\<not> supported c"
  shows "load_file K io nn k = Inl (UnsupportedMapper (mapper_to_string (cart_mapper c)))"
  by (simp add: load_file_def assms(1) Let_def addr_init_def andthen_def unsupported_board [OF assms(2)])

section \<open>More of the translation\<close>

lemma xlat_copier: "xlat (c\<lparr>has_copier_header := b\<rparr>) a = xlat c a"
proof -
  have p: "preserve_rom_mirror (c\<lparr>has_copier_header := b\<rparr>) = preserve_rom_mirror c"
    "lorom_sram (c\<lparr>has_copier_header := b\<rparr>) = lorom_sram c" "hirom_sram (c\<lparr>has_copier_header := b\<rparr>) = hirom_sram c"
    by (simp_all add: preserve_rom_mirror_def lorom_sram_def hirom_sram_def fun_eq_iff)
  have x: "xlat_cx4 (c\<lparr>has_copier_header := b\<rparr>) = xlat_cx4 c" "xlat_sdd1 (c\<lparr>has_copier_header := b\<rparr>) = xlat_sdd1 c"
    "xlat_lorom (c\<lparr>has_copier_header := b\<rparr>) = xlat_lorom c" "xlat_hirom (c\<lparr>has_copier_header := b\<rparr>) = xlat_hirom c"
    "xlat_exlorom (c\<lparr>has_copier_header := b\<rparr>) = xlat_exlorom c" "xlat_exhirom (c\<lparr>has_copier_header := b\<rparr>) = xlat_exhirom c"
    "xlat_superfxrom (c\<lparr>has_copier_header := b\<rparr>) = xlat_superfxrom c" "xlat_sa1rom (c\<lparr>has_copier_header := b\<rparr>) = xlat_sa1rom c"
    "xlat_spc7110 (c\<lparr>has_copier_header := b\<rparr>) = xlat_spc7110 c"
    by (simp_all add: fun_eq_iff xlat_cx4_def xlat_sdd1_def xlat_lorom_def xlat_hirom_def xlat_exlorom_def
      xlat_exhirom_def xlat_superfxrom_def xlat_sa1rom_def xlat_spc7110_def p Let_def cong: if_cong)
  have "xlat_board (c\<lparr>has_copier_header := b\<rparr>) a = xlat_board c a"
    by (cases "cart_mapper c") (simp_all add: xlat_board_def x)
  moreover have "xlat_chips (c\<lparr>has_copier_header := b\<rparr>) a = xlat_chips c a" by (simp add: xlat_chips_def)
  ultimately show ?thesis by (simp add: xlat_def split_beta Let_def)
qed

lemma xlat_unclaimed:
  assumes "\<not> snd (xlat_system a)" "\<not> snd (xlat_board c a)" "64 \<le> unat (bank_of a)" "unat (bank_of a) < 128"
  shows "xlat c a = a"
proof -
  have "filter snd (xlat_chips c a) = []"
    using assms(3,4) by (auto simp: xlat_chips_def xlat_sharprtc_def xlat_epsonrtc_def xlat_obc1_def xlat_dsp1_def xlat_dsp2_def
        xlat_dsp3_def xlat_dsp4_def xlat_st010_def xlat_st011_def xlat_st018_def Let_def bus_nat)
  then show ?thesis using assms(1,2) by (cases "xlat_system a"; cases "xlat_board c a") (simp add: xlat_def)
qed

lemma lorom_supported: "lorom_board c \<Longrightarrow> supported c"
  by (simp add: lorom_board_def supported_def)

lemma lorom_middle:
  assumes "lorom_board c" "64 \<le> unat (bank_of a)" "unat (bank_of a) < 112"
  shows "xlat c a = a"
proof (rule xlat_unclaimed)
  show "\<not> snd (xlat_system a)" by (rule system_rom) (use assms in simp_all)
  show "\<not> snd (xlat_board c a)"
    using assms by (simp add: xlat_board_def lorom_board_def xlat_lorom_def view_simps)
qed (use assms in simp_all)

lemma exhirom_top:
  assumes "cart_mapper c = ExHiROM" "\<not> has_cx4 c" "\<not> has_sdd1 c" "\<not> has_spc7110 c"
    and "unat a < 2 ^ 24" "0x3e \<le> bank_of a" "bank_of a \<le> 0x3f" "0x8000 \<le> addr_of a"
  shows "xlat c a = a + 0x400000 \<and> xlat_system (xlat c a) = (xlat c a, True) \<and>
    db_byte (board_db c s n d) (xlat c a) = db_byte d (xlat c a)"
proof -
  have b: "62 \<le> unat (bank_of a)" "unat (bank_of a) \<le> 63" "32768 \<le> unat (addr_of a)"
    using assms(6-8) by (simp_all add: bus_nat)
  have u: "unat a = 65536 * unat (bank_of a) + unat (addr_of a)" by (rule addr_split [OF assms(5)])
  have "\<not> snd (xlat_system a)" by (rule system_rom) (use b in simp_all)
  moreover have "xlat_board c a = (bus (ucast (bank_of a) + 0x40) (ucast (addr_of a)), True)"
    using assms(1-3) b by (simp add: xlat_board_def xlat_exhirom_def Let_def bus_nat)
  ultimately have x: "xlat c a = bus (ucast (bank_of a) + 0x40) (ucast (addr_of a))" by (rule xlat_dispatched)
  have p: "ucast (bank_of a) + 0x40 < (0x100 :: u32)" "unat (ucast (bank_of a) + 0x40 :: u32) = unat (bank_of a) + 64"
    using b by (simp_all add: bus_nat unat_word_ariths)
  have q: "ucast (addr_of a) < (0x10000 :: u32)" using u16_bound [of "addr_of a"] by (simp add: bus_nat)
  have ux: "unat (xlat c a) = (unat (bank_of a) + 64) * 65536 + unat (addr_of a)"
    unfolding x using unat_bus [OF p(1) q] p(2) by simp
  have e: "xlat c a = a + 0x400000"
    using ux u b u16_bound [of "addr_of a"] by (simp add: word_unat_eq_iff unat_word_ariths)
  have bank: "unat (xlat c a) div 65536 = unat (bank_of a) + 64"
    unfolding ux using u16_bound [of "addr_of a"] by simp
  have "xlat_system (xlat c a) = (xlat c a, True)"
    using bank b by (simp add: xlat_system_def bus_nat bank_nat Let_def)
  moreover have "db_byte (board_db c s n d) (xlat c a) = db_byte d (xlat c a)"
    using bank b assms(1-4) by (auto simp: board_db_def with_image_def rom_cell_def bank_cell_def Let_def)
  ultimately show ?thesis using e by blast
qed

lemma unat_bus_lt: "p < 0x100 \<Longrightarrow> q < 0x10000 \<Longrightarrow> unat (bus p q) < 0x1000000"
  by (simp add: unat_bus bus_nat)

lemma sram_24bit:
  assumes "ram_ok c" "ram_size c \<noteq> 0"
  shows "unat (lorom_sram c b w) < 0x1000000" "unat (lorom_sram c b w + 0x800000) < 0x1000000"
    and "base \<le> 0x20 \<Longrightarrow> 0x6000 \<le> w \<Longrightarrow> unat (hirom_sram c base b w) < 0x1000000"
proof -
  obtain k where k: "ram_bits c k" using assms by (rule ram_okE)
  obtain p q where r: "lorom_sram c b w = bus p q" "unat p = 0x70 + lorom_off k b w div 32768"
    "unat q = lorom_off k b w mod 32768" "p < 0x100" "q < 0x10000"
    by (rule lorom_sram_bus [OF k])
  have u: "unat (bus p q) = unat p * 65536 + unat q" "unat p < 0x74" "unat q < 0x8000"
    using unat_bus [OF r(4,5)] r(2,3) off_bound(1) [OF k, of b w] by simp_all
  then show "unat (lorom_sram c b w) < 0x1000000" "unat (lorom_sram c b w + 0x800000) < 0x1000000"
    by (simp_all add: r(1) unat_word_ariths)
  show "unat (hirom_sram c base b w) < 0x1000000" if "base \<le> 0x20" "0x6000 \<le> w"
    by (rule hirom_sram_bus [OF k that, of b]) (simp only: unat_bus_lt)
qed

lemma mirror_24bit: "unat a < 0x1000000 \<Longrightarrow> unat (bank_of a) \<le> 125 \<Longrightarrow> unat (a + 0x800000) < 0x1000000"
  "unat a < 0x1000000 \<Longrightarrow> 128 \<le> unat (bank_of a) \<Longrightarrow> unat (a - 0x800000) < 0x1000000"
  using addr_split [of a, simplified] unat_mirror [of a] unat_unmirror [of a] u16_bound [of "addr_of a"] by simp_all

lemma reg_24bit: "unat (ucast (w :: u16) :: u64) < 0x1000000"
  using u16_bound [of w] by simp

lemma bus_u8: "unat (bus (ucast (b :: u8)) (ucast (w :: u16))) < 0x1000000"
    "unat (bus (ucast b AND m) (ucast w)) < 0x1000000" "unat (bus 0 (ucast w)) < 0x1000000"
    "unat b < 192 \<Longrightarrow> unat (bus (ucast b + 0x40) (ucast w)) < 0x1000000"
    "unat (bus (0xc0 + ucast (b AND 0x3f)) (ucast w)) < 0x1000000"
proof -
  have w: "ucast w < (0x10000 :: u32)" using u16_bound [of w] by (simp add: bus_nat)
  have b: "unat (ucast b :: u32) < 256" using u8_bound [of b] by simp
  have "unat (ucast b AND m) \<le> unat (ucast b :: u32)" by (rule word_le_nat_alt [THEN iffD1, OF word_and_le2])
  then have "ucast b < (0x100 :: u32)" "ucast b AND m < (0x100 :: u32)" using b by (simp_all add: bus_nat)
  moreover have "0xc0 + ucast (b AND 0x3f) < (0x100 :: u32)" using unat_hi_bank [of b] by (simp add: bus_nat)
  moreover have "unat b < 192 \<Longrightarrow> ucast b + 0x40 < (0x100 :: u32)" by (simp add: bus_nat unat_word_ariths)
  ultimately show "unat (bus (ucast b) (ucast w)) < 0x1000000"
    "unat (bus (ucast b AND m) (ucast w)) < 0x1000000" "unat (bus 0 (ucast w)) < 0x1000000"
    "unat b < 192 \<Longrightarrow> unat (bus (ucast b + 0x40) (ucast w)) < 0x1000000"
    "unat (bus (0xc0 + ucast (b AND 0x3f)) (ucast w)) < 0x1000000"
    using w by (simp_all add: unat_bus_lt)
qed

lemma sa1_window:
  assumes "0x6000 \<le> unat w" "unat w \<le> 0x7fff"
  shows "unat (bus 0x40 (ucast ((w :: u16) AND 0x7fff) - 0x6000)) < 0x1000000"
proof -
  have "unat (w AND 0x7fff) = unat w" using unat_and_mask [of w 15] assms by (simp add: lit_masks)
  then have "unat (ucast (w AND 0x7fff) - 0x6000 :: u32) = unat w - 0x6000"
    using assms by (simp add: unat_sub word_le_nat_alt)
  then show ?thesis using assms by (intro unat_bus_lt) (simp_all add: bus_nat)
qed

text \<open>The range of every translation of a board.\<close>

definition on_bus :: "u64 \<times> bool \<Rightarrow> bool" where
  "on_bus x \<longleftrightarrow> (snd x \<longrightarrow> unat (fst x) < 0x1000000)"

lemmas on_bus_simps = on_bus_def Let_def split_beta bus_nat sram_24bit mirror_24bit reg_24bit bus_u8

lemma on_bus_boards:
  assumes "ram_ok c" "unat a < 0x1000000"
  shows "on_bus (xlat_sa1rom c a)" "on_bus (xlat_cx4 c a)" "on_bus (xlat_lorom c a)" "on_bus (xlat_sdd1 c a)" "on_bus (xlat_hirom c a)"
    "on_bus (xlat_exlorom c a)" "on_bus (xlat_exhirom c a)" "on_bus (xlat_superfxrom c a)" "on_bus (xlat_spc7110 c a)"
proof -
  show "on_bus (xlat_sa1rom c a)" using assms sa1_window [of "addr_of a"] by (auto simp: on_bus_simps xlat_sa1rom_def)
  show "on_bus (xlat_cx4 c a)" using assms by (auto simp: on_bus_simps xlat_cx4_def)
  show "on_bus (xlat_lorom c a)" using assms by (auto simp: on_bus_simps xlat_lorom_def)
  show "on_bus (xlat_sdd1 c a)" using assms by (auto simp: on_bus_simps xlat_sdd1_def)
  show "on_bus (xlat_hirom c a)" using assms by (auto simp: on_bus_simps xlat_hirom_def)
  show "on_bus (xlat_exlorom c a)" using assms by (auto simp: on_bus_simps xlat_exlorom_def)
  show "on_bus (xlat_exhirom c a)" using assms by (auto simp: on_bus_simps xlat_exhirom_def)
  show "on_bus (xlat_superfxrom c a)" using assms by (auto simp: on_bus_simps xlat_superfxrom_def)
  show "on_bus (xlat_spc7110 c a)" using assms by (auto simp: on_bus_simps xlat_spc7110_def)
qed

lemma xlat_24bit:
  assumes "ram_ok c" "unat a < 2 ^ 24"
  shows "unat (xlat c a) < 2 ^ 24"
proof -
  have a: "unat a < 0x1000000" using assms(2) by simp
  note b = on_bus_boards [OF assms(1) a]
  have "on_bus (xlat_board c a)"
    using b by (cases "cart_mapper c") (simp_all add: xlat_board_def on_bus_def)
  moreover have "unat r < 0x1000000" if "xlat_system a = (r, True)" for r
    using a by (cases rule: xlat_system_cases [OF that])
      (simp_all add: reg_24bit unat_bus_lt bus_nat less_trans [OF u16_bound])
  ultimately show ?thesis
    by (cases rule: xlat_cases [of a c]) (use a less_trans [OF u16_bound, of "0x1000000" "addr_of a"] in \<open>simp_all add: on_bus_def\<close>)
qed

end
