(* ===== verification/SnesProps.thy ===== *)
theory SnesProps
  imports SnesWhole
begin

text \<open>
  The properties of the SNES loader (\<open>src/src/ldr/snes\<close>).  \<open>database\<close> and
  \<open>linput\<close> are the laws of the kernel calls and of the open file; the witnesses use the
  kernel in memory and the 32 KB ROM of \<open>SnesDemo\<close>.
\<close>

section \<open>Loading\<close>

text \<open>The demonstration ROM is detected and its board is supported.\<close>

lemma demo_detected:
  "\<exists>k0. cartridge_from mem_io (perform mem_kernel demo_state (SetProcessorType ''m65816'')) = Some (demo_cart, k0)"
  by (rule demo_cartridge [of "perform mem_kernel demo_state (SetProcessorType ''m65816'')"])
    (auto simp: mem_kernel_def demo_state_def demo_db_def)

lemma demo_supported: "supported demo_cart" "rom_size demo_cart \<noteq> 0" "start_of demo_cart = 0"
  by (simp_all add: supported_def demo_cart_def cartridge_init_def start_of_def)

lemma demo_sizes: "rom_size demo_cart = 0x8000" "ram_size demo_cart = 0x800" "header_offset demo_cart = 0x7fc0"
    "cart_type demo_cart = TypeNormal" "cart_mapper demo_cart = LoROM" "plain_board demo_cart" "lorom_board demo_cart"
    "one_chip demo_cart"
  by (simp_all add: demo_cart_def cartridge_init_def plain_board_def lorom_board_def one_chip_def chips_def)

lemma demo_ok: "ram_ok demo_cart" "cart_ok demo_cart"
proof -
  show ram: "ram_ok demo_cart"
    unfolding ram_ok_def ram_bits_def by (intro disjI2 exI [of _ 11]) (simp add: demo_sizes)
  show "cart_ok demo_cart" using ram demo_sizes(5) by (simp add: cart_ok_def)
qed






text \<open>
  C21: once the constructor has read the file, loading succeeds exactly on the boards that
  the loader supports; for every other mapper it ends with the loader's own message naming
  the mapper.  No other failure is possible when the kernel calls keep their laws.
\<close>

theorem load_file_outcome:
  assumes "database io db pos K nn"
    and "cartridge_from io (perform K k (SetProcessorType ''m65816'')) = Some (c, k0)" "rom_size c \<noteq> 0"
  shows "if supported c then \<exists>k'. load_file K io nn k = Inr ((), k')
    else load_file K io nn k = Inl (UnsupportedMapper (mapper_to_string (cart_mapper c)))"
proof (cases "supported c")
  case True
  have "\<exists>k'. load_file K io nn k = Inr ((), k')" by (rule database.load_file_rom [OF assms(1,2) True assms(3)]) blast
  then show ?thesis using True by simp
next
  case False
  then show ?thesis using unsupported_load [OF assms(2)] by simp
qed

theorem load_file_outcome_witness: "\<exists>k'. load_file mem_kernel mem_io mem_netnode demo_state = Inr ((), k')"
  using demo_detected load_file_outcome [OF mem_database _ demo_supported(2), of demo_state] demo_supported(1) by auto

section \<open>Detection\<close>

text \<open>
  C22: the constructor of the cartridge description is safe on every file, of any size and
  content: it always returns and never uses a byte that the file did not give it (no
  \<^const>\<open>None\<close>).  What it returns is consistent: at most one coprocessor, and the mapper of
  a coprocessor goes with its flag; a RAM size that is 0 or a power of two from 2 KB to
  128 KB; and a ROM, if it found one, that lies in the file behind the copier header.
\<close>

theorem cartridge_from_safe:
  assumes "linput io content pos"
  shows "\<exists>c li'. cartridge_from io li = Some (c, li') \<and> content li' = content li \<and>
    one_chip c \<and> ram_ok c \<and> header_offset c \<in> {0, 0x7fc0, 0xffc0, 0x40ffc0} \<and>
    (rom_size c \<noteq> 0 \<longrightarrow> start_of c + unat (rom_size c) \<le> length (content li)) \<and>
    (rom_size c = 0 \<longrightarrow> cart_type c = TypeUnknown \<or> length (content li) mod 2 ^ 32 \<le> 0x28000 + 512)"
proof -
  obtain c li' where c: "cartridge_from io li = Some (c, li')" "content li' = content li"
    and d: "detected (linput.rom_bytes io li) c"
    and z: "rom_size c = 0 \<and> cart_type c = TypeUnknown \<or>
       unat (linput.rom_bytes io li) \<le> unat (rom_size c) + 0x28000 \<and> unat (linput.rom_bytes io li) < 2 ^ 31 \<and>
       (if has_copier_header c then 512 else 0) = linput.rom_start io li"
    using linput.cartridge_from_total [OF assms, of li] by blast
  have "unat (ucast (qlsize io li) :: u32) = length (content li) mod 2 ^ 32"
    using linput.size_content [OF assms, of li]
    by (simp add: unsigned_ucast_eq take_bit_eq_mod unat_of_nat mod_mod_cancel)
  then show ?thesis
    using c detectedD [OF d] z linput.cartridge_from_parts(4) [OF assms c(1)] linput.rom_bounds(1,3) [OF assms, of li]
    by auto
qed

theorem cartridge_from_safe_witness:
  "\<exists>c li'. cartridge_from file_linput (replicate 40000 7, 3) = Some (c, li') \<and> one_chip c"
  using cartridge_from_safe [OF file_linput_laws, of "(replicate 40000 7, 3)"] by blast

text \<open>
  C23: \<open>accept_file\<close> always returns and leaves the file as it is, and it takes no file
  of fewer than 32 KB.
\<close>

theorem accept_file_safe:
  assumes "linput io content pos"
  shows "\<exists>accepted li'. accept_file io li = Some (accepted, li') \<and> content li' = content li \<and>
    (accepted \<longrightarrow> 0x8000 \<le> length (content li))"
proof -
  obtain b li' where a: "accept_file io li = Some (b, li')" "content li' = content li"
    using linput.accept_file_total [OF assms, of li] by blast
  have "0x8000 \<le> length (content li)" if b
    by (rule linput.accepted_size [OF assms a(1) that])
  then show ?thesis using a by blast
qed

theorem accept_file_safe_witness:
  "\<exists>accepted li'. accept_file file_linput ([1, 2, 3], 0) = Some (accepted, li') \<and> \<not> accepted"
  using accept_file_safe [OF file_linput_laws, of "([1, 2, 3], 0)"] by fastforce

section \<open>Address translation\<close>

text \<open>
  C24: translated addresses are canonical: translating one again changes nothing, on every
  board and chip and for every address, save for the two RAM banks of C25.  The constructor
  delivers only cartridges with \<open>cart_ok\<close> (a RAM size as in C22, and an extended HiROM
  board only with a large ROM).
\<close>

theorem xlat_idempotent:
  assumes "cart_ok c" "\<not> (lorom_board c \<and> lorom_sram_high c a)"
  shows "xlat c (xlat c a) = xlat c a"
  by (rule xlat_fixed [OF assms])

theorem xlat_idempotent_witness: "xlat demo_cart (xlat demo_cart 0x708123) = xlat demo_cart 0x708123"
  by (rule xlat_idempotent [OF demo_ok(2)]) (simp add: lorom_sram_high_def bus_nat bank_nat)

text \<open>
  C25: the RAM of a LoROM board in banks \<open>fe\<close> and \<open>ff\<close> is translated to banks
  \<open>f0\<close> and up, not to the banks \<open>70\<close> and up where the loader has the RAM: the
  result is no canonical address (a second translation gives another, the cell itself), and
  loading leaves it without a segment and without a byte.
\<close>

theorem lorom_high_ram_misplaced:
  assumes "database io db pos K nn"
    and "cartridge_from io (perform K k (SetProcessorType ''m65816'')) = Some (c, k0)" "rom_size c \<noteq> 0"
    and "lorom_board c" "lorom_sram_high c a"
  shows "\<exists>k'. load_file K io nn k = Inr ((), k') \<and>
    xlat c a = lorom_sram c (bank_of a) (addr_of a) + 0x800000 \<and>
    xlat c (xlat c a) = lorom_sram c (bank_of a) (addr_of a) \<and>
    db_segment (db k') (xlat c a) = db_segment (db k) (xlat c a) \<and> db_byte (db k') (xlat c a) = db_byte (db k) (xlat c a)"
proof -
  obtain k' where l: "load_file K io nn k = Inr ((), k')"
    "db_byte (db k') = db_byte (board_db c (start_of c) (unat (rom_size c)) (db k))"
    "db_segment (db k') = db_segment (common_db c (board_db c (start_of c) (unat (rom_size c)) (db k)))"
    "one_chip c" "cart_ok c"
    by (rule database.load_file_image [OF assms(1,2) lorom_supported [OF assms(4)] assms(3)])
  note h = xlat_high [OF l(5) assms(4,5)]
  have ok: "ram_ok c" "ram_size c \<noteq> 0" using l(5) assms(5) by (simp_all add: cart_ok_def lorom_sram_high_def)
  note u = lorom_untouched [OF assms(4) l(4) ok(1) lorom_cell_up(1) [OF ok] lorom_cell_up(2) [OF ok]]
  show ?thesis using l(1) h(2) by (simp add: h(1) l(2,3) u)
qed

theorem lorom_high_ram_misplaced_witness:
  "\<exists>k'. load_file mem_kernel mem_io mem_netnode demo_state = Inr ((), k') \<and>
    xlat demo_cart 0xfe0000 = 0xf00000 \<and> \<not> db_segment (fst k') 0xf00000"
proof -
  obtain k0 where k0: "cartridge_from mem_io (perform mem_kernel demo_state (SetProcessorType ''m65816'')) = Some (demo_cart, k0)"
    using demo_detected by blast
  have a: "lorom_sram_high demo_cart 0xfe0000"
    by (simp add: lorom_sram_high_def demo_sizes bus_nat bank_nat addr_nat)
  have s: "lorom_sram demo_cart (bank_of 0xfe0000) (addr_of 0xfe0000) = 0x700000"
    by (simp add: lorom_sram_def demo_sizes bank_of_def addr_of_def bus_def Let_def)
  show ?thesis
    using lorom_high_ram_misplaced [OF mem_database k0 demo_supported(2) demo_sizes(7) a] s
    by (auto simp: demo_state_def demo_db_def)
qed

section \<open>The description saved for the processor module\<close>

text \<open>
  C26: what the loader writes to the netnode the processor module reads back: every member
  but \<open>has_copier_header\<close>, which is not saved and keeps the value it has in the reader.
  So the two parts, which each hold an object of the translation class, translate every
  address alike.
\<close>

theorem hash_roundtrip:
  assumes "netnode_hash nn"
  shows "read_hash nn (write_hash nn c n) c' = c\<lparr>has_copier_header := has_copier_header c'\<rparr> \<and>
    (\<forall>a. xlat (read_hash nn (write_hash nn c n) c') a = xlat c a)"
  by (simp add: netnode_hash.read_write_hash [OF assms] xlat_copier)

theorem hash_roundtrip_witness:
  "read_hash map_netnode (write_hash map_netnode demo_cart Map.empty) cartridge_init = demo_cart\<lparr>has_copier_header := False\<rparr>"
  using hash_roundtrip [OF map_nn.netnode_hash_axioms, of demo_cart Map.empty cartridge_init]
  by (simp add: cartridge_init_def)

section \<open>Save RAM and the edges of the boards\<close>



text \<open>
  On a LoROM board the banks \<open>40\<close> to \<open>6f\<close> are not treated as a mirror of
  \<open>c0\<close> to \<open>ef\<close>, where the loader puts the third and fourth megabyte of the ROM:
  their addresses are left alone, and loading puts neither a segment nor a byte there.
\<close>

theorem lorom_middle_unmapped:
  assumes "database io db pos K nn"
    and "cartridge_from io (perform K k (SetProcessorType ''m65816'')) = Some (c, k0)" "rom_size c \<noteq> 0"
    and "lorom_board c" "unat a < 2 ^ 24" "0x40 \<le> bank_of a" "bank_of a < 0x70"
  shows "\<exists>k'. load_file K io nn k = Inr ((), k') \<and> xlat c a = a \<and>
    db_segment (db k') a = db_segment (db k) a \<and> db_byte (db k') a = db_byte (db k) a"
proof -
  obtain k' where l: "load_file K io nn k = Inr ((), k')"
    "db_byte (db k') = db_byte (board_db c (start_of c) (unat (rom_size c)) (db k))"
    "db_segment (db k') = db_segment (common_db c (board_db c (start_of c) (unat (rom_size c)) (db k)))"
    "one_chip c" "cart_ok c"
    by (rule database.load_file_image [OF assms(1,2) lorom_supported [OF assms(4)] assms(3)])
  have b: "64 \<le> unat (bank_of a)" "unat (bank_of a) < 112" using assms(6,7) by (simp_all add: bus_nat)
  have "unat a div 65536 = unat (bank_of a)" using assms(5) by (simp add: bank_nat)
  then show ?thesis
    using lorom_untouched [OF assms(4) l(4), of a] l lorom_middle [OF assms(4) b] b by (simp add: cart_ok_def)
qed

theorem lorom_middle_unmapped_witness:
  "\<exists>k'. load_file mem_kernel mem_io mem_netnode demo_state = Inr ((), k') \<and> xlat demo_cart 0x408000 = 0x408000 \<and>
    \<not> db_segment (fst k') 0x408000"
proof -
  obtain k0 where k0: "cartridge_from mem_io (perform mem_kernel demo_state (SetProcessorType ''m65816'')) = Some (demo_cart, k0)"
    using demo_detected by blast
  show ?thesis
    using lorom_middle_unmapped [OF mem_database k0 demo_supported(2) demo_sizes(7), of "0x408000"]
    by (auto simp: bus_nat bank_nat demo_state_def demo_db_def)
qed

text \<open>
  On an extended HiROM board the upper halves of the banks \<open>3e\<close> and \<open>3f\<close>, the only
  bus addresses of the last 64 KB of an 8 MB ROM, are translated into the work RAM at
  \<open>7e\<close> and \<open>7f\<close>, and the layout that the loader produces has no byte of the ROM there.
\<close>

theorem exhirom_top_in_wram:
  assumes "cart_mapper c = ExHiROM" "\<not> has_cx4 c" "\<not> has_sdd1 c" "\<not> has_spc7110 c"
    and "unat a < 2 ^ 24" "0x3e \<le> bank_of a" "bank_of a \<le> 0x3f" "0x8000 \<le> addr_of a"
  shows "xlat c a = a + 0x400000 \<and> xlat_system (xlat c a) = (xlat c a, True) \<and>
    db_byte (board_db c s n d) (xlat c a) = db_byte d (xlat c a)"
  by (rule exhirom_top [OF assms])

theorem exhirom_top_in_wram_witness: "xlat (demo_cart\<lparr>cart_mapper := ExHiROM\<rparr>) 0x3e8000 = 0x7e8000"
  using exhirom_top_in_wram [of "demo_cart\<lparr>cart_mapper := ExHiROM\<rparr>" "0x3e8000"]
  by (simp add: bus_nat bank_nat addr_nat demo_cart_def cartridge_init_def)

text \<open>
  The translation stays on the bus: a 24-bit address is translated to a 24-bit address,
  for every cartridge the constructor can deliver.
\<close>

theorem xlat_on_bus:
  assumes "ram_ok c" "unat a < 2 ^ 24"
  shows "unat (xlat c a) < 2 ^ 24"
  by (rule xlat_24bit [OF assms])

theorem xlat_on_bus_witness: "unat (xlat demo_cart 0xffffff) < 2 ^ 24"
  by (rule xlat_on_bus [OF demo_ok(1)]) simp

end
