(* ===== verification/BinSearch.thy ===== *)
theory BinSearch
  imports Prelude
begin

text \<open>
  The memory search of the debugger modules, \<open>src/src/dbg/bin_search.cpp\<close>: patterns of
  bytes with masks are searched page by page, forward or backward, and a match that crosses
  the end of a page is carried over as a partial match.

  Pages and patterns are lists, and reading one out of its bounds is \<^const>\<open>None\<close>.
  Addresses are 64-bit words; offsets inside a page or a pattern are natural numbers, whose
  subtractions the code guards by \<open>qmin\<close>.  The debugged process is a state of type
  \<open>'w\<close>: reading its memory and asking whether the user cancelled are the members of
  \<open>debmod_ops\<close>.  Heartbeats and messages are left out.
\<close>

abbreviation PAGESZ :: nat where "PAGESZ \<equiv> 4096"

section \<open>Flags, patterns, bytes\<close>

definition sense_case :: "u32 \<Rightarrow> bool" where "sense_case f \<longleftrightarrow> f AND 0x01 \<noteq> 0"
definition check_break :: "u32 \<Rightarrow> bool" where "check_break f \<longleftrightarrow> f AND 0x02 = 0"
definition search_backward :: "u32 \<Rightarrow> bool" where "search_backward f \<longleftrightarrow> f AND 0x10 \<noteq> 0"
definition bitmask_search :: "u32 \<Rightarrow> bool" where "bitmask_search f \<longleftrightarrow> f AND 0x20 \<noteq> 0"

text \<open>\<open>compiled_binpat_t\<close>, without the two members that the search does not use.\<close>

record binpat =
  pat_bytes :: "u8 list"
  pat_mask :: "u8 list"

definition all_bytes_defined :: "binpat \<Rightarrow> bool" where
  "all_bytes_defined p \<longleftrightarrow> pat_mask p = []"

text \<open>\<open>toupper\<close> of the C locale.\<close>

definition qtoupper :: "u8 \<Rightarrow> u8" where
  "qtoupper c = (if 0x61 \<le> c \<and> c \<le> 0x7a then c - 0x20 else c)"

text \<open>
  \<open>m\<close> is the byte \<open>mask[i]\<close>, or \<^const>\<open>None\<close> for a null mask.  The search
  never passes the special pointer \<open>SKIP_FF_MASK\<close>.
\<close>

definition bytes_match_for_bin_search :: "u8 \<Rightarrow> u8 \<Rightarrow> u8 option \<Rightarrow> u32 \<Rightarrow> bool" where
  "bytes_match_for_bin_search c1 c2 mk f =
    (let c1 = (if sense_case f then c1 else qtoupper c1);
         c2 = (if sense_case f then c2 else qtoupper c2)
     in case mk of
          None \<Rightarrow> c1 = c2
        | Some m \<Rightarrow> if bitmask_search f then (c1 XOR c2) AND m = 0
                    else if m = 0 then True else c1 = c2)"

definition elem_at :: "'a list \<Rightarrow> nat \<Rightarrow> 'a option" where
  "elem_at xs i = (if i < length xs then Some (xs ! i) else None)"

text \<open>\<open>match_pattern\<close>: \<open>n\<close> bytes of the page from \<open>p\<close> on against the pattern from \<open>off\<close> on.\<close>

primrec match_pattern :: "u32 \<Rightarrow> u8 list \<Rightarrow> nat \<Rightarrow> binpat \<Rightarrow> nat \<Rightarrow> nat \<Rightarrow> bool option" where
  "match_pattern f page p ptn off 0 = Some True"
| "match_pattern f page p ptn off (Suc n) = do {
     c1 \<leftarrow> elem_at page p;
     c2 \<leftarrow> elem_at (pat_bytes ptn) off;
     mk \<leftarrow> (if all_bytes_defined ptn then Some None else map_option Some (elem_at (pat_mask ptn) off));
     if bytes_match_for_bin_search c1 c2 mk f then match_pattern f page (p + 1) ptn (off + 1) n
     else Some False }"

section \<open>Partial matches\<close>

record partmatch =
  match_ea :: ea
  ptn_idx :: nat
  ptn_off :: nat

text \<open>The two lists of pattern indexes that the constructor of the matcher makes.\<close>

definition simple_ptns :: "u32 \<Rightarrow> binpat list \<Rightarrow> nat list" where
  "simple_ptns f ptns = [i \<leftarrow> [0..<length ptns]. pat_bytes (ptns ! i) \<noteq> [] \<and>
     (sense_case f \<and> all_bytes_defined (ptns ! i))]"

definition complex_ptns :: "u32 \<Rightarrow> binpat list \<Rightarrow> nat list" where
  "complex_ptns f ptns = [i \<leftarrow> [0..<length ptns]. pat_bytes (ptns ! i) \<noteq> [] \<and>
     \<not> (sense_case f \<and> all_bytes_defined (ptns ! i))]"

datatype drc =
    DRC_EVENTS | DRC_CRC | DRC_OK | DRC_NONE | DRC_FAILED | DRC_NETERR | DRC_NOFILE | DRC_IDBSEG
  | DRC_NOPROC | DRC_NOCHG | DRC_ERROR

text \<open>
  The loop over the partial matches, the same in both directions: \<open>fin\<close> tries to finish
  one.  The result is the address of a match that was finished, if any, and the partial
  matches that are left.
\<close>

fun finalize_all ::
    "(partmatch \<Rightarrow> (drc \<times> partmatch) option) \<Rightarrow> partmatch list \<Rightarrow> (ea option \<times> partmatch list) option" where
  "finalize_all fin [] = Some (None, [])"
| "finalize_all fin (pm # pms) = do {
     (r, pm) \<leftarrow> fin pm;
     case r of
       DRC_OK \<Rightarrow> Some (Some (match_ea pm), pm # pms)
     | DRC_NONE \<Rightarrow> do { (r, pms) \<leftarrow> finalize_all fin pms; Some (r, pm # pms) }
     | _ \<Rightarrow> finalize_all fin pms }"

text \<open>\<open>memcmp(...) == 0\<close>, and \<open>memchr\<close> as the position found.\<close>

definition memcmp_eq :: "u8 list \<Rightarrow> nat \<Rightarrow> u8 list \<Rightarrow> nat \<Rightarrow> nat \<Rightarrow> bool option" where
  "memcmp_eq xs i ys j n =
     (if i + n \<le> length xs \<and> j + n \<le> length ys then Some (take n (drop i xs) = take n (drop j ys)) else None)"

primrec memchr :: "u8 list \<Rightarrow> nat \<Rightarrow> u8 \<Rightarrow> nat \<Rightarrow> nat option option" where
  "memchr xs i c 0 = Some None"
| "memchr xs i c (Suc n) = do {
     x \<leftarrow> elem_at xs i;
     if x = c then Some (Some i) else memchr xs (i + 1) c n }"

text \<open>\<open>memrchr\<close>: the last of the \<open>n\<close> bytes from \<open>i\<close> on that is \<open>c\<close>.\<close>

primrec memrchr :: "u8 list \<Rightarrow> nat \<Rightarrow> u8 \<Rightarrow> nat \<Rightarrow> nat option option" where
  "memrchr xs i c 0 = Some None"
| "memrchr xs i c (Suc n) = do {
     x \<leftarrow> elem_at xs (i + n);
     if x = c then Some (Some (i + n)) else memrchr xs i c n }"

text \<open>What a search of one page does in turn: partial matches, simple patterns, the others.\<close>

definition search_page ::
    "(partmatch \<Rightarrow> (drc \<times> partmatch) option) \<Rightarrow>
     (partmatch list \<Rightarrow> (ea option \<times> partmatch list) option) \<Rightarrow>
     (partmatch list \<Rightarrow> (ea option \<times> partmatch list) option) \<Rightarrow>
     partmatch list \<Rightarrow> (ea option \<times> partmatch list) option" where
  "search_page fin simple complex pms = do {
     (r, pms) \<leftarrow> finalize_all fin pms;
     if r \<noteq> None then Some (r, pms)
     else do {
       (r, pms) \<leftarrow> simple pms;
       if r \<noteq> None then Some (r, pms) else complex pms } }"

section \<open>The matcher\<close>

record 'w debmod_ops =
  dbg_read_memory :: "'w \<Rightarrow> ea \<Rightarrow> nat \<Rightarrow> u8 list \<times> 'w"
  user_cancelled :: "'w \<Rightarrow> bool \<times> 'w"

text \<open>\<open>found_ea\<close> is \<^const>\<open>None\<close> while the caller's variable was not written.\<close>

record matcher =
  found_ea :: "ea option"
  failed_ea :: ea
  pmatches :: "partmatch list"

definition new_matcher :: matcher where
  "new_matcher = \<lparr>found_ea = None, failed_ea = BADADDR, pmatches = []\<rparr>"

definition test_cancelled :: "'w debmod_ops \<Rightarrow> u32 \<Rightarrow> 'w \<Rightarrow> bool \<times> 'w" where
  "test_cancelled D f w = (if check_break f then user_cancelled D w else (False, w))"

section \<open>Searching forward\<close>

definition fwd_finalize ::
    "u32 \<Rightarrow> binpat list \<Rightarrow> u8 list \<Rightarrow> nat \<Rightarrow> partmatch \<Rightarrow> (drc \<times> partmatch) option" where
  "fwd_finalize f ptns page last_off pm = do {
     ptn \<leftarrow> elem_at ptns (ptn_idx pm);
     let ptn_rest = length (pat_bytes ptn) - ptn_off pm;
     let nbytes = min ptn_rest last_off;
     ok \<leftarrow> match_pattern f page 0 ptn (ptn_off pm) nbytes;
     Some (if \<not> ok then (DRC_FAILED, pm)
           else if ptn_rest \<le> last_off then (DRC_OK, pm)
           else if last_off \<noteq> PAGESZ then (DRC_FAILED, pm)
           else (DRC_NONE, pm\<lparr>ptn_off := ptn_off pm + PAGESZ\<rparr>)) }"

text \<open>\<open>match_at\<close>, over the complex patterns that are left.\<close>

fun match_at ::
    "u32 \<Rightarrow> binpat list \<Rightarrow> u8 list \<Rightarrow> ea \<Rightarrow> nat \<Rightarrow> nat list \<Rightarrow> nat \<Rightarrow> partmatch list \<Rightarrow>
     (ea option \<times> partmatch list) option" where
  "match_at f ptns page page_ea last_off [] page_off pms = Some (None, pms)"
| "match_at f ptns page page_ea last_off (i # is) page_off pms = do {
     ptn \<leftarrow> elem_at ptns i;
     let rest = last_off - page_off;
     let vecsize = length (pat_bytes ptn);
     let nbytes = min rest vecsize;
     ok \<leftarrow> match_pattern f page page_off ptn 0 nbytes;
     if \<not> ok then match_at f ptns page page_ea last_off is page_off pms
     else if vecsize \<le> rest then Some (Some (page_ea + of_nat page_off), pms)
     else match_at f ptns page page_ea last_off is page_off
            (pms @ [\<lparr>match_ea = page_ea + of_nat page_off, ptn_idx = i, ptn_off = nbytes\<rparr>]) }"

text \<open>The loop over the offsets of the page; \<open>n\<close> is how many are left.\<close>

primrec fwd_complex ::
    "u32 \<Rightarrow> binpat list \<Rightarrow> u8 list \<Rightarrow> ea \<Rightarrow> nat \<Rightarrow> nat list \<Rightarrow> nat \<Rightarrow> nat \<Rightarrow> partmatch list \<Rightarrow>
     (ea option \<times> partmatch list) option" where
  "fwd_complex f ptns page page_ea last_off is 0 page_off pms = Some (None, pms)"
| "fwd_complex f ptns page page_ea last_off is (Suc n) page_off pms = do {
     (r, pms) \<leftarrow> match_at f ptns page page_ea last_off is page_off pms;
     if r \<noteq> None then Some (r, pms)
     else fwd_complex f ptns page page_ea last_off is n (page_off + 1) pms }"

text \<open>The inner loop of \<open>match_simple_patterns\<close> for pattern \<open>i\<close>, with \<open>rest\<close> bytes left from \<open>pold\<close> on.\<close>

function fwd_simple_loop ::
    "u8 list \<Rightarrow> ea \<Rightarrow> nat \<Rightarrow> u8 list \<Rightarrow> u8 \<Rightarrow> nat \<Rightarrow> nat \<Rightarrow> partmatch list \<Rightarrow> (ea option \<times> partmatch list) option" where
  "fwd_simple_loop page page_ea i ptn_bytes ptn_ch pold rest pms =
     (if 0 < rest then
        case memchr page pold ptn_ch rest of
          None \<Rightarrow> None
        | Some None \<Rightarrow> Some (None, pms)
        | Some (Some pnew) \<Rightarrow>
            let rest' = rest - (pnew - pold);
                ptn_sz = length ptn_bytes;
                nbytes = min rest' ptn_sz in
            case memcmp_eq page pnew ptn_bytes 0 nbytes of
              None \<Rightarrow> None
            | Some eq \<Rightarrow>
                if eq \<and> ptn_sz \<le> rest' then Some (Some (page_ea + of_nat pnew), pms)
                else fwd_simple_loop page page_ea i ptn_bytes ptn_ch (pnew + 1) (rest' - 1)
                       (if eq then pms @ [\<lparr>match_ea = page_ea + of_nat pnew, ptn_idx = i, ptn_off = nbytes\<rparr>] else pms)
      else Some (None, pms))"
  by pat_completeness auto
termination
  by (relation "measure (\<lambda>(_, _, _, _, _, _, rest, _). rest)") auto

declare fwd_simple_loop.simps [simp del]

fun fwd_simple ::
    "binpat list \<Rightarrow> u8 list \<Rightarrow> ea \<Rightarrow> nat \<Rightarrow> nat list \<Rightarrow> nat \<Rightarrow> partmatch list \<Rightarrow> (ea option \<times> partmatch list) option" where
  "fwd_simple ptns page page_ea last_off [] page_off pms = Some (None, pms)"
| "fwd_simple ptns page page_ea last_off (i # is) page_off pms = do {
     ptn \<leftarrow> elem_at ptns i;
     ptn_ch \<leftarrow> elem_at (pat_bytes ptn) 0;
     (r, pms) \<leftarrow> fwd_simple_loop page page_ea i (pat_bytes ptn) ptn_ch page_off (last_off - page_off) pms;
     if r \<noteq> None then Some (r, pms)
     else fwd_simple ptns page page_ea last_off is page_off pms }"

definition fwd_page ::
    "u32 \<Rightarrow> binpat list \<Rightarrow> u8 list \<Rightarrow> ea \<Rightarrow> nat \<Rightarrow> nat \<Rightarrow> partmatch list \<Rightarrow> (ea option \<times> partmatch list) option" where
  "fwd_page f ptns page page_ea last_off page_off = search_page
     (fwd_finalize f ptns page last_off)
     (fwd_simple ptns page page_ea last_off (simple_ptns f ptns) page_off)
     (\<lambda>pms. if complex_ptns f ptns = [] then Some (None, pms)
            else fwd_complex f ptns page page_ea last_off (complex_ptns f ptns) (last_off - page_off) page_off pms)"

partial_function (option) fwd_loop ::
    "'w debmod_ops \<Rightarrow> u32 \<Rightarrow> binpat list \<Rightarrow> ea \<Rightarrow> ea \<Rightarrow> nat \<Rightarrow> matcher \<Rightarrow> 'w \<Rightarrow> (drc \<times> matcher \<times> 'w) option" where
  "fwd_loop D f ptns end_ea page_ea page_off m w =
     (if page_ea < end_ea then
        let (cancelled, w) = test_cancelled D f w in
        if cancelled then Some (DRC_ERROR, m, w)
        else
          let (page, w) = dbg_read_memory D w page_ea PAGESZ in
          if length page \<noteq> PAGESZ then Some (DRC_ERROR, m\<lparr>failed_ea := page_ea\<rparr>, w)
          else
            let last_off = min (unat (end_ea - page_ea)) PAGESZ in
            do {
              (r, pms) \<leftarrow> fwd_page f ptns page page_ea last_off page_off (pmatches m);
              if r \<noteq> None then Some (DRC_OK, m\<lparr>found_ea := r, pmatches := pms\<rparr>, w)
              else fwd_loop D f ptns end_ea (page_ea + of_nat PAGESZ) 0 (m\<lparr>pmatches := pms\<rparr>) w }
      else Some (DRC_FAILED, m, w))"

definition fwd_find ::
    "'w debmod_ops \<Rightarrow> u32 \<Rightarrow> binpat list \<Rightarrow> ea \<Rightarrow> ea \<Rightarrow> matcher \<Rightarrow> 'w \<Rightarrow> (drc \<times> matcher \<times> 'w) option" where
  "fwd_find D f ptns start_ea end_ea =
    (let page_ea = start_ea AND NOT 0xfff
     in fwd_loop D f ptns end_ea page_ea (unat (start_ea - page_ea)))"

end
