(* ===== verification/BinWalk.thy ===== *)
theory BinWalk
  imports BinSearch
begin

text \<open>
  The rest of the memory search of \<open>src/src/dbg/bin_search.cpp\<close>: the backward matcher,
  the walks over the memory ranges of the process, and \<open>dbg_bin_search\<close> itself.
\<close>

section \<open>Searching backward\<close>

definition bwd_finalize ::
    "u32 \<Rightarrow> binpat list \<Rightarrow> u8 list \<Rightarrow> nat \<Rightarrow> partmatch \<Rightarrow> (drc \<times> partmatch) option" where
  "bwd_finalize f ptns page page_off pm = do {
     ptn \<leftarrow> elem_at ptns (ptn_idx pm);
     let ptn_rest = length (pat_bytes ptn) - ptn_off pm;
     let nbytes = min ptn_rest (PAGESZ - page_off);
     ok \<leftarrow> match_pattern f page (PAGESZ - nbytes) ptn (ptn_rest - nbytes) nbytes;
     Some (if \<not> ok then (DRC_FAILED, pm)
           else if ptn_rest \<le> PAGESZ - page_off then (DRC_OK, pm)
           else if page_off \<noteq> 0 then (DRC_FAILED, pm)
           else (DRC_NONE, pm\<lparr>ptn_off := ptn_off pm + PAGESZ\<rparr>)) }"

fun match_before ::
    "u32 \<Rightarrow> binpat list \<Rightarrow> u8 list \<Rightarrow> ea \<Rightarrow> nat \<Rightarrow> nat list \<Rightarrow> nat \<Rightarrow> partmatch list \<Rightarrow>
     (ea option \<times> partmatch list) option" where
  "match_before f ptns page page_ea page_off [] last_off pms = Some (None, pms)"
| "match_before f ptns page page_ea page_off (i # is) last_off pms = do {
     ptn \<leftarrow> elem_at ptns i;
     let rest = last_off - page_off;
     let vecsize = length (pat_bytes ptn);
     let nbytes = min rest vecsize;
     ok \<leftarrow> match_pattern f page (last_off - nbytes) ptn (vecsize - nbytes) nbytes;
     if \<not> ok then match_before f ptns page page_ea page_off is last_off pms
     else if vecsize \<le> rest then Some (Some (page_ea + of_nat last_off - of_nat nbytes), pms)
     else match_before f ptns page page_ea page_off is last_off
            (pms @ [\<lparr>match_ea = page_ea + of_nat last_off - of_nat vecsize, ptn_idx = i, ptn_off = nbytes\<rparr>]) }"

text \<open>The loop down the offsets of the page; \<open>n\<close> is how many are left.\<close>

primrec bwd_complex ::
    "u32 \<Rightarrow> binpat list \<Rightarrow> u8 list \<Rightarrow> ea \<Rightarrow> nat \<Rightarrow> nat list \<Rightarrow> nat \<Rightarrow> nat \<Rightarrow> partmatch list \<Rightarrow>
     (ea option \<times> partmatch list) option" where
  "bwd_complex f ptns page page_ea page_off is 0 last_off pms = Some (None, pms)"
| "bwd_complex f ptns page page_ea page_off is (Suc n) last_off pms = do {
     (r, pms) \<leftarrow> match_before f ptns page page_ea page_off is last_off pms;
     if r \<noteq> None then Some (r, pms)
     else bwd_complex f ptns page page_ea page_off is n (last_off - 1) pms }"

lemma memrchr_less: "memrchr xs i c n = Some (Some p) \<Longrightarrow> p < i + n"
  by (induction n) (auto simp: bind_eq_Some_conv split: if_splits)

function bwd_simple_loop ::
    "u8 list \<Rightarrow> ea \<Rightarrow> nat \<Rightarrow> nat \<Rightarrow> u8 list \<Rightarrow> u8 \<Rightarrow> nat \<Rightarrow> partmatch list \<Rightarrow> (ea option \<times> partmatch list) option" where
  "bwd_simple_loop page page_ea page_off i ptn_bytes ptn_ch rest pms =
     (if 0 < rest then
        case memrchr page page_off ptn_ch rest of
          None \<Rightarrow> None
        | Some None \<Rightarrow> Some (None, pms)
        | Some (Some p) \<Rightarrow>
            let rest' = p + 1 - page_off;
                ptn_sz = length ptn_bytes;
                nbytes = min rest' ptn_sz in
            case memcmp_eq page (p + 1 - nbytes) ptn_bytes (ptn_sz - nbytes) nbytes of
              None \<Rightarrow> None
            | Some eq \<Rightarrow>
                let matched_ea = page_ea + of_nat (p + 1) - of_nat ptn_sz in
                if eq \<and> ptn_sz \<le> rest' then Some (Some matched_ea, pms)
                else bwd_simple_loop page page_ea page_off i ptn_bytes ptn_ch (rest' - 1)
                       (if eq then pms @ [\<lparr>match_ea = matched_ea, ptn_idx = i, ptn_off = nbytes\<rparr>] else pms)
      else Some (None, pms))"
  by pat_completeness auto
termination
  by (relation "measure (\<lambda>(_, _, _, _, _, _, rest, _). rest)") (auto dest!: memrchr_less)

declare bwd_simple_loop.simps [simp del]

fun bwd_simple ::
    "binpat list \<Rightarrow> u8 list \<Rightarrow> ea \<Rightarrow> nat \<Rightarrow> nat list \<Rightarrow> nat \<Rightarrow> partmatch list \<Rightarrow> (ea option \<times> partmatch list) option" where
  "bwd_simple ptns page page_ea page_off [] last_off pms = Some (None, pms)"
| "bwd_simple ptns page page_ea page_off (i # is) last_off pms = do {
     ptn \<leftarrow> elem_at ptns i;
     ptn_ch \<leftarrow> elem_at (pat_bytes ptn) (length (pat_bytes ptn) - 1);
     (r, pms) \<leftarrow> bwd_simple_loop page page_ea page_off i (pat_bytes ptn) ptn_ch (last_off - page_off) pms;
     if r \<noteq> None then Some (r, pms)
     else bwd_simple ptns page page_ea page_off is last_off pms }"

definition bwd_page ::
    "u32 \<Rightarrow> binpat list \<Rightarrow> u8 list \<Rightarrow> ea \<Rightarrow> nat \<Rightarrow> nat \<Rightarrow> partmatch list \<Rightarrow> (ea option \<times> partmatch list) option" where
  "bwd_page f ptns page page_ea page_off last_off = search_page
     (bwd_finalize f ptns page page_off)
     (bwd_simple ptns page page_ea page_off (simple_ptns f ptns) last_off)
     (\<lambda>pms. if complex_ptns f ptns = [] then Some (None, pms)
            else bwd_complex f ptns page page_ea page_off (complex_ptns f ptns) (last_off - page_off) last_off pms)"

partial_function (option) bwd_loop ::
    "'w debmod_ops \<Rightarrow> u32 \<Rightarrow> binpat list \<Rightarrow> ea \<Rightarrow> ea \<Rightarrow> nat \<Rightarrow> matcher \<Rightarrow> 'w \<Rightarrow> (drc \<times> matcher \<times> 'w) option" where
  "bwd_loop D f ptns start_ea page_ea last_off m w =
     (if start_ea < page_ea + of_nat PAGESZ then
        let (cancelled, w) = test_cancelled D f w in
        if cancelled then Some (DRC_ERROR, m, w)
        else
          let (page, w) = dbg_read_memory D w page_ea PAGESZ in
          if length page \<noteq> PAGESZ then Some (DRC_ERROR, m\<lparr>failed_ea := page_ea\<rparr>, w)
          else
            let page_off = (if page_ea < start_ea then unat (start_ea - page_ea) else 0) in
            do {
              (r, pms) \<leftarrow> bwd_page f ptns page page_ea page_off last_off (pmatches m);
              if r \<noteq> None then Some (DRC_OK, m\<lparr>found_ea := r, pmatches := pms\<rparr>, w)
              else bwd_loop D f ptns start_ea (page_ea - of_nat PAGESZ) PAGESZ (m\<lparr>pmatches := pms\<rparr>) w }
      else Some (DRC_FAILED, m, w))"

definition bwd_find ::
    "'w debmod_ops \<Rightarrow> u32 \<Rightarrow> binpat list \<Rightarrow> ea \<Rightarrow> ea \<Rightarrow> matcher \<Rightarrow> 'w \<Rightarrow> (drc \<times> matcher \<times> 'w) option" where
  "bwd_find D f ptns start_ea end_ea =
    (let page_ea = (end_ea - 1) AND NOT 0xfff
     in bwd_loop D f ptns start_ea page_ea (unat (end_ea - page_ea)))"

section \<open>Walking over the memory ranges\<close>

text \<open>A range of memory with its start and its end, which is not in it: \<open>range_t::contains\<close>.\<close>

definition range_contains :: "ea \<times> ea \<Rightarrow> ea \<Rightarrow> bool" where
  "range_contains r a \<longleftrightarrow> fst r \<le> a \<and> a < snd r"

definition search_memory_range ::
    "'w debmod_ops \<Rightarrow> (ea \<Rightarrow> ea \<Rightarrow> matcher \<Rightarrow> 'w \<Rightarrow> (drc \<times> matcher \<times> 'w) option) \<Rightarrow>
     ea \<Rightarrow> ea \<Rightarrow> matcher \<Rightarrow> 'w \<Rightarrow> (drc \<times> matcher \<times> 'w) option" where
  "search_memory_range D find_range range_start_ea range_end_ea m w =
    (let (dummy, w) = dbg_read_memory D w range_start_ea 1 in
     if length dummy \<noteq> 1 then Some (DRC_FAILED, m, w)
     else find_range range_start_ea range_end_ea m w)"

text \<open>The second loop of \<open>walk_memory_ranges\<close>, over the ranges that are left.\<close>

fun fwd_walk_rest ::
    "'w debmod_ops \<Rightarrow> u32 \<Rightarrow> binpat list \<Rightarrow> ea \<Rightarrow> (ea \<times> ea) list \<Rightarrow> matcher \<Rightarrow> 'w \<Rightarrow> (drc \<times> matcher \<times> 'w) option" where
  "fwd_walk_rest D f ptns srch_end [] m w = Some (DRC_FAILED, m, w)"
| "fwd_walk_rest D f ptns srch_end (r # rs) m w =
     (if snd r \<le> srch_end then do {
        (drc, m, w) \<leftarrow> search_memory_range D (fwd_find D f ptns) (fst r) (snd r) m w;
        if drc \<noteq> DRC_FAILED then Some (drc, m, w) else fwd_walk_rest D f ptns srch_end rs m w }
      else Some (DRC_FAILED, m, w))"

definition fwd_walk ::
    "'w debmod_ops \<Rightarrow> u32 \<Rightarrow> binpat list \<Rightarrow> (ea \<times> ea) list \<Rightarrow> ea \<Rightarrow> ea \<Rightarrow> matcher \<Rightarrow> 'w \<Rightarrow>
     (drc \<times> matcher \<times> 'w) option" where
  "fwd_walk D f ptns ranges srch_start srch_end m w =
    (case dropWhile (\<lambda>r. \<not> range_contains r srch_start \<and> \<not> srch_start < fst r) ranges of
       [] \<Rightarrow> Some (DRC_FAILED, m, w)
     | r # rs \<Rightarrow>
         let range_start = (if range_contains r srch_start then srch_start else BADADDR) in
         if range_start = BADADDR \<and> srch_end \<le> fst r then Some (DRC_FAILED, m, w)
         else
           let range_start = (if range_start = BADADDR then fst r else range_start);
               range_end = (if srch_end < snd r then srch_end else snd r) in
           do {
             (drc, m, w) \<leftarrow> search_memory_range D (fwd_find D f ptns) range_start range_end m w;
             if drc \<noteq> DRC_FAILED then Some (drc, m, w) else fwd_walk_rest D f ptns srch_end rs m w })"

text \<open>The backward walk goes through the ranges from the last one on.\<close>

fun bwd_walk_rest ::
    "'w debmod_ops \<Rightarrow> u32 \<Rightarrow> binpat list \<Rightarrow> ea \<Rightarrow> (ea \<times> ea) list \<Rightarrow> matcher \<Rightarrow> 'w \<Rightarrow> (drc \<times> matcher \<times> 'w) option" where
  "bwd_walk_rest D f ptns srch_start [] m w = Some (DRC_FAILED, m, w)"
| "bwd_walk_rest D f ptns srch_start (r # rs) m w =
     (if srch_start < snd r then do {
        (drc, m, w) \<leftarrow> search_memory_range D (bwd_find D f ptns)
          (if range_contains r srch_start then srch_start else fst r) (snd r) m w;
        if drc \<noteq> DRC_FAILED then Some (drc, m, w) else bwd_walk_rest D f ptns srch_start rs m w }
      else Some (DRC_FAILED, m, w))"

definition bwd_walk ::
    "'w debmod_ops \<Rightarrow> u32 \<Rightarrow> binpat list \<Rightarrow> (ea \<times> ea) list \<Rightarrow> ea \<Rightarrow> ea \<Rightarrow> matcher \<Rightarrow> 'w \<Rightarrow>
     (drc \<times> matcher \<times> 'w) option" where
  "bwd_walk D f ptns ranges srch_start srch_end m w =
    (case dropWhile (\<lambda>r. \<not> fst r < srch_end) (rev ranges) of
       [] \<Rightarrow> Some (DRC_FAILED, m, w)
     | r # rs \<Rightarrow>
         let range_end = (if srch_end < snd r then srch_end else snd r) in
         if range_end = BADADDR then Some (DRC_FAILED, m, w)
         else do {
           (drc, m, w) \<leftarrow> search_memory_range D (bwd_find D f ptns)
             (if range_contains r srch_start then srch_start else fst r) range_end m w;
           if drc \<noteq> DRC_FAILED then Some (drc, m, w) else bwd_walk_rest D f ptns srch_start rs m w })"

text \<open>\<open>forbidden\<close> is whether the environment variable \<open>IDA_IDB_BIN_SEARCH\<close> is set.\<close>

definition dbg_bin_search ::
    "'w debmod_ops \<Rightarrow> bool \<Rightarrow> (ea \<times> ea) list \<Rightarrow> ea \<Rightarrow> ea \<Rightarrow> binpat list \<Rightarrow> u32 \<Rightarrow> 'w \<Rightarrow> (drc \<times> matcher \<times> 'w) option" where
  "dbg_bin_search D forbidden old_ranges start_ea end_ea ptns srch_flags w =
    (if forbidden \<or> end_ea \<le> start_ea \<or> ptns = [] \<or> old_ranges = [] then Some (DRC_NONE, new_matcher, w)
     else if search_backward srch_flags then bwd_walk D srch_flags ptns old_ranges start_ea end_ea new_matcher w
     else fwd_walk D srch_flags ptns old_ranges start_ea end_ea new_matcher w)"

end
