(* ===== verification/BinMatch.thy ===== *)
theory BinMatch
  imports BinWalk
begin

text \<open>
  What a match is, independently of pages: \<open>part\<close> says that a stretch of a pattern placed at
  an address agrees with the memory, and \<open>hit\<close> that a whole pattern does inside the range
  searched.  \<open>scanned\<close> is the common contract of the scans over one page.
\<close>

section \<open>Matches in memory\<close>

definition byte_ok :: "u32 \<Rightarrow> binpat \<Rightarrow> nat \<Rightarrow> u8 \<Rightarrow> bool" where
  "byte_ok f ptn i c = bytes_match_for_bin_search c (pat_bytes ptn ! i)
     (if all_bytes_defined ptn then None else Some (pat_mask ptn ! i)) f"

definition part :: "u32 \<Rightarrow> (ea \<Rightarrow> u8) \<Rightarrow> binpat \<Rightarrow> ea \<Rightarrow> nat \<Rightarrow> nat \<Rightarrow> bool" where
  "part f mem ptn a lo hi \<longleftrightarrow> (\<forall>i. lo \<le> i \<longrightarrow> i < hi \<longrightarrow> byte_ok f ptn i (mem (a + of_nat i)))"

abbreviation pat_len :: "binpat \<Rightarrow> nat" where
  "pat_len ptn \<equiv> length (pat_bytes ptn)"

definition hit :: "u32 \<Rightarrow> (ea \<Rightarrow> u8) \<Rightarrow> binpat list \<Rightarrow> nat \<Rightarrow> nat \<Rightarrow> nat \<Rightarrow> ea \<Rightarrow> bool" where
  "hit f mem ptns S E i a \<longleftrightarrow> i < length ptns \<and> pat_bytes (ptns ! i) \<noteq> [] \<and>
     S \<le> unat a \<and> unat a + pat_len (ptns ! i) \<le> E \<and> part f mem (ptns ! i) a 0 (pat_len (ptns ! i))"

text \<open>A pattern with a mask has one mask byte for each of its bytes.\<close>

definition wf_pat :: "binpat \<Rightarrow> bool" where
  "wf_pat ptn \<longleftrightarrow> pat_mask ptn = [] \<or> length (pat_mask ptn) = length (pat_bytes ptn)"

definition page_of :: "(ea \<Rightarrow> u8) \<Rightarrow> ea \<Rightarrow> u8 list \<Rightarrow> bool" where
  "page_of mem P page \<longleftrightarrow> length page = PAGESZ \<and> (\<forall>i < PAGESZ. page ! i = mem (P + of_nat i))"

lemma unat_add_of_nat: "unat x + n < 2 ^ 64 \<Longrightarrow> unat (x + of_nat n :: ea) = unat x + n"
  by (simp add: unat_word_ariths unat_of_nat)

text \<open>\<open>align_down\<close>: the page of an address and its offset there.\<close>

lemma page_align:
  fixes a :: ea
  shows "unat (a AND NOT 0xfff) + unat (a - (a AND NOT 0xfff)) = unat a" "unat (a - (a AND NOT 0xfff)) < PAGESZ"
    "PAGESZ dvd unat (a AND NOT 0xfff)"
proof -
  have off: "a - (a AND NOT 0xfff) = a AND 0xfff"
    using and_add_and_not [of a "0xfff"] by (simp add: algebra_simps)
  have m: "unat (a AND 0xfff) = unat a mod 0x1000"
    using unat_and_mask [of a 12] by (simp add: mask_eq_exp_minus_1)
  then show "unat (a - (a AND NOT 0xfff)) < PAGESZ" by (simp only: off)
  have "a AND NOT 0xfff \<le> a" by (rule word_and_le2)
  then show *: "unat (a AND NOT 0xfff) + unat (a - (a AND NOT 0xfff)) = unat a" by (simp add: unat_sub word_le_nat_alt)
  have "unat (a AND NOT 0xfff) = unat a - unat a mod 0x1000" using * unfolding off m by linarith
  then show "PAGESZ dvd unat (a AND NOT 0xfff)" by (simp only: dvd_minus_mod)
qed

lemma part_empty [simp]: "part f mem ptn a lo lo"
  by (simp add: part_def)

lemma part_split: "lo \<le> mid \<Longrightarrow> mid \<le> hi \<Longrightarrow> part f mem ptn a lo hi \<longleftrightarrow> part f mem ptn a lo mid \<and> part f mem ptn a mid hi"
  unfolding part_def by (meson le_trans less_le_trans not_le)

lemma part_sub: "part f mem ptn a lo hi \<Longrightarrow> lo \<le> lo' \<Longrightarrow> hi' \<le> hi \<Longrightarrow> part f mem ptn a lo' hi'"
  unfolding part_def by (meson le_trans less_le_trans)

lemma part_Suc: "off < hi \<Longrightarrow> part f mem ptn a off hi \<longleftrightarrow>
    byte_ok f ptn off (mem (a + of_nat off)) \<and> part f mem ptn a (Suc off) hi"
  unfolding part_def by (metis Suc_le_eq le_eq_less_or_eq not_less_eq_eq)

text \<open>The comparison of the code decides \<open>part\<close>, and stays inside page and pattern.\<close>

lemma match_pattern_part:
  assumes "page_of mem P page" "wf_pat ptn" "p + n \<le> PAGESZ" "off + n \<le> pat_len ptn"
    and "a + of_nat off = P + of_nat p"
  shows "match_pattern f page p ptn off n = Some (part f mem ptn a off (off + n))"
  using assms(3-5)
proof (induction n arbitrary: p off)
  case (Suc n)
  have c: "elem_at page p = Some (mem (a + of_nat off))"
    using assms(1) Suc.prems by (simp add: elem_at_def page_of_def)
  have b: "elem_at (pat_bytes ptn) off = Some (pat_bytes ptn ! off)" using Suc.prems by (simp add: elem_at_def)
  have m: "(if all_bytes_defined ptn then Some None else map_option Some (elem_at (pat_mask ptn) off)) =
      Some (if all_bytes_defined ptn then None else Some (pat_mask ptn ! off))"
    using assms(2) Suc.prems by (auto simp: all_bytes_defined_def wf_pat_def elem_at_def)
  have "a + of_nat (off + 1) = P + of_nat (p + 1)" using Suc.prems(3) by (simp add: add.assoc [symmetric])
  then have "match_pattern f page (p + 1) ptn (off + 1) n = Some (part f mem ptn a (off + 1) (off + 1 + n))"
    using Suc.prems by (intro Suc.IH) simp_all
  then show ?case
    using part_Suc [of off "off + Suc n" f mem ptn a] by (simp add: c b m byte_ok_def)
qed simp

lemma byte_ok_simple:
  "sense_case f \<Longrightarrow> all_bytes_defined ptn \<Longrightarrow> byte_ok f ptn i c \<longleftrightarrow> c = pat_bytes ptn ! i"
  by (simp add: byte_ok_def bytes_match_for_bin_search_def)

text \<open>\<open>memcmp\<close> of the page against a stretch of a simple pattern decides \<open>part\<close>.\<close>

lemma memcmp_part:
  assumes "page_of mem P page" "sense_case f" "all_bytes_defined ptn"
    and "p + n \<le> PAGESZ" "off + n \<le> pat_len ptn" "a + of_nat off = P + of_nat p"
  shows "memcmp_eq page p (pat_bytes ptn) off n = Some (part f mem ptn a off (off + n))"
proof -
  have "page ! (p + j) = mem (a + of_nat (off + j))" if "j < n" for j
    using assms(1,4,6) that by (simp add: page_of_def add.assoc [symmetric])
  then have "take n (drop p page) = take n (drop off (pat_bytes ptn)) \<longleftrightarrow>
      (\<forall>j < n. mem (a + of_nat (off + j)) = pat_bytes ptn ! (off + j))"
    using assms(1,4,5) by (auto simp: list_eq_iff_nth_eq page_of_def)
  also have "\<dots> \<longleftrightarrow> part f mem ptn a off (off + n)"
    unfolding part_def byte_ok_simple [OF assms(2,3)]
    by (metis add_less_cancel_left le_add1 le_add_diff_inverse)
  finally show ?thesis using assms(1,4,5) by (simp add: memcmp_eq_def page_of_def)
qed

section \<open>Scanning one page\<close>

text \<open>
  A scan looks at a set of candidates, pairs of a pattern and an offset.  It ends at one that
  matches in full, or has found none and has added the partial match of every candidate that
  matches as far as the page goes.
\<close>

definition scanned ::
    "(nat \<times> nat \<Rightarrow> bool) \<Rightarrow> (nat \<times> nat \<Rightarrow> bool) \<Rightarrow> (nat \<times> nat \<Rightarrow> partmatch) \<Rightarrow> (nat \<times> nat) set \<Rightarrow>
     partmatch list \<Rightarrow> ea option \<times> partmatch list \<Rightarrow> bool" where
  "scanned full pref pm R pms x \<longleftrightarrow> (case fst x of
     Some a \<Rightarrow> \<exists>y \<in> R. full y \<and> a = match_ea (pm y)
   | None \<Rightarrow> (\<forall>y \<in> R. \<not> full y) \<and> set (snd x) = set pms \<union> pm ` {y \<in> R. pref y})"

lemma scanned_empty: "scanned full pref pm {} pms (None, pms)"
  by (simp add: scanned_def)

lemma scanned_one:
  "full y \<Longrightarrow> scanned full pref pm {y} pms (Some (match_ea (pm y)), pms')"
  "\<not> full y \<Longrightarrow> \<not> pref y \<Longrightarrow> scanned full pref pm {y} pms (None, pms)"
  "\<not> full y \<Longrightarrow> pref y \<Longrightarrow> scanned full pref pm {y} pms (None, pms @ [pm y])"
  by (auto simp: scanned_def)

lemma scanned_found:
  "scanned full pref pm R pms (Some a, pms1) \<Longrightarrow> R \<subseteq> R' \<Longrightarrow> scanned full pref pm R' pms' (Some a, pms2)"
  by (auto simp: scanned_def)

lemma scanned_union:
  assumes "scanned full pref pm R pms (None, pms1)" "scanned full pref pm R' pms1 x"
  shows "scanned full pref pm (R \<union> R') pms x"
  using assms by (cases x) (auto simp: scanned_def split: option.splits)

lemma scanned_skip:
  assumes "scanned full pref pm R pms x" "\<And>y. y \<in> R' \<Longrightarrow> \<not> full y \<and> \<not> pref y"
  shows "scanned full pref pm (R' \<union> R) pms x"
proof -
  have "scanned full pref pm R' pms (None, pms)" using assms(2) by (auto simp: scanned_def)
  then show ?thesis using assms(1) by (rule scanned_union)
qed

section \<open>The loop over the partial matches\<close>

lemma finalize_all_spec:
  assumes "\<And>pm. pm \<in> set pms \<Longrightarrow> \<exists>r pm'. fin pm = Some (r, pm') \<and> match_ea pm' = match_ea pm"
  obtains r pms' where "finalize_all fin pms = Some (r, pms')"
    "\<And>a. r = Some a \<Longrightarrow> \<exists>pm \<in> set pms. \<exists>pm'. fin pm = Some (DRC_OK, pm') \<and> a = match_ea pm"
    "r = None \<Longrightarrow> (\<forall>pm \<in> set pms. \<forall>pm'. fin pm \<noteq> Some (DRC_OK, pm')) \<and>
       set pms' = {pm'. \<exists>pm \<in> set pms. fin pm = Some (DRC_NONE, pm')}"
proof -
  have "\<exists>r pms'. finalize_all fin pms = Some (r, pms') \<and>
    (\<forall>a. r = Some a \<longrightarrow> (\<exists>pm \<in> set pms. \<exists>pm'. fin pm = Some (DRC_OK, pm') \<and> a = match_ea pm)) \<and>
    (r = None \<longrightarrow> (\<forall>pm \<in> set pms. \<forall>pm'. fin pm \<noteq> Some (DRC_OK, pm')) \<and>
       set pms' = {pm'. \<exists>pm \<in> set pms. fin pm = Some (DRC_NONE, pm')})"
    using assms
  proof (induction pms)
    case (Cons pm pms)
    obtain r pm' where f: "fin pm = Some (r, pm')" "match_ea pm' = match_ea pm" using Cons.prems [of pm] by auto
    obtain q qs where q: "finalize_all fin pms = Some (q, qs)"
      "\<And>a. q = Some a \<Longrightarrow> \<exists>pm \<in> set pms. \<exists>pm'. fin pm = Some (DRC_OK, pm') \<and> a = match_ea pm"
      "q = None \<Longrightarrow> (\<forall>pm \<in> set pms. \<forall>pm'. fin pm \<noteq> Some (DRC_OK, pm')) \<and>
         set qs = {pm'. \<exists>pm \<in> set pms. fin pm = Some (DRC_NONE, pm')}"
      using Cons.IH Cons.prems by auto
    show ?case using f q by (cases r) auto
  qed simp
  then show thesis using that by blast
qed

lemma search_page_found:
  "finalize_all fin pms = Some (Some a, pms') \<Longrightarrow> search_page fin simple complex pms = Some (Some a, pms')"
  by (simp add: search_page_def)

lemma search_page_scanned:
  assumes "finalize_all fin pms = Some (None, pms1)"
    and "\<exists>x. simple pms1 = Some x \<and> scanned full pref pm R1 pms1 x"
    and "\<And>pms. \<exists>x. complex pms = Some x \<and> scanned full pref pm R2 pms x"
  shows "\<exists>x. search_page fin simple complex pms = Some x \<and> scanned full pref pm (R1 \<union> R2) pms1 x"
proof -
  obtain r pms2 where x: "simple pms1 = Some (r, pms2)" "scanned full pref pm R1 pms1 (r, pms2)" using assms(2) by auto
  show ?thesis
  proof (cases r)
    case (Some a)
    then have "scanned full pref pm (R1 \<union> R2) pms1 (Some a, pms2)" using x(2) by (auto elim!: scanned_found)
    then show ?thesis using assms(1) x(1) Some by (simp add: search_page_def)
  next
    case None
    obtain z where "complex pms2 = Some z" "scanned full pref pm R2 pms2 z" using assms(3) by blast
    then show ?thesis
      using assms(1) x None scanned_union [OF x(2) [unfolded None]] by (auto simp: search_page_def)
  qed
qed

text \<open>The two lists of the matcher hold the indexes of all patterns that are not empty.\<close>

definition searched :: "binpat list \<Rightarrow> nat set" where
  "searched ptns = {i. i < length ptns \<and> pat_bytes (ptns ! i) \<noteq> []}"

lemma searched_split: "set (simple_ptns f ptns) \<union> set (complex_ptns f ptns) = searched ptns"
  by (auto simp: simple_ptns_def complex_ptns_def searched_def)

lemma simple_ptns_mem:
  "i \<in> set (simple_ptns f ptns) \<Longrightarrow> i < length ptns \<and> all_bytes_defined (ptns ! i) \<and> pat_bytes (ptns ! i) \<noteq> []"
  by (simp add: simple_ptns_def)

lemma simple_ptns_case: "sense_case f \<or> simple_ptns f ptns = []"
  by (simp add: simple_ptns_def filter_empty_conv)

end
