(* ===== verification/BinProcess.thy ===== *)
theory BinProcess
  imports BinMatch
begin

text \<open>
  The debugged process as the search relies on it: the locale \<open>debuggee\<close>.  What a
  result of a search means is \<open>search_result\<close>.  A process in memory satisfies the laws.
\<close>

text \<open>The states that reading memory and asking the user lead to.\<close>

inductive later :: "'w debmod_ops \<Rightarrow> 'w \<Rightarrow> 'w \<Rightarrow> bool" for D w where
  here: "later D w w"
| read: "later D w w1 \<Longrightarrow> later D w (snd (dbg_read_memory D w1 a n))"
| asked: "later D w w1 \<Longrightarrow> later D w (snd (user_cancelled D w1))"

lemma later_trans: "later D w1 w2 \<Longrightarrow> later D w w1 \<Longrightarrow> later D w w2"
  by (induction rule: later.induct) (auto intro: later.intros)

lemma later_test: "test_cancelled D f w = (c, w1) \<Longrightarrow> later D w w1"
  using later.asked [OF later.here] by (metis later.here prod.inject surjective_pairing test_cancelled_def)

lemma later_read: "dbg_read_memory D w a n = (bs, w1) \<Longrightarrow> later D w w1"
  using later.read [OF later.here, of D w a n] by simp

text \<open>
  \<open>mem w\<close> is the memory of the process.  It is suspended during the search: neither
  reading its memory nor asking the user changes it.  A read that returns as many bytes as
  were asked for returns the memory's; a read that returns fewer has failed.
\<close>

locale debuggee =
  fixes D :: "'w debmod_ops" and mem :: "'w \<Rightarrow> ea \<Rightarrow> u8"
  assumes read_content: "length (fst (dbg_read_memory D w a n)) = n \<Longrightarrow> i < n \<Longrightarrow>
      fst (dbg_read_memory D w a n) ! i = mem w (a + of_nat i)"
    and read_keeps: "mem (snd (dbg_read_memory D w a n)) = mem w"
    and cancel_keeps: "mem (snd (user_cancelled D w)) = mem w"
begin

lemma page_read: "dbg_read_memory D w P PAGESZ = (page, w') \<Longrightarrow> length page = PAGESZ \<Longrightarrow> page_of (mem w) P page"
  using read_content [of w P PAGESZ] by (simp add: page_of_def)

lemma memory_fixed: "later D w w' \<Longrightarrow> mem w' = mem w"
  by (induction rule: later.induct) (simp_all add: read_keeps cancel_keeps)

end

text \<open>
  \<^const>\<open>DRC_ERROR\<close> has one of two causes: the user cancelled, or a page that the range
  meets could not be read, whose address is \<open>failed_ea\<close>.
\<close>

definition search_failed :: "'w debmod_ops \<Rightarrow> u32 \<Rightarrow> 'w \<Rightarrow> nat \<Rightarrow> nat \<Rightarrow> matcher \<Rightarrow> bool" where
  "search_failed D f w S E m \<longleftrightarrow>
     check_break f \<and> (\<exists>w1. later D w w1 \<and> fst (user_cancelled D w1)) \<or>
     (\<exists>w1. later D w w1 \<and> length (fst (dbg_read_memory D w1 (failed_ea m) PAGESZ)) \<noteq> PAGESZ) \<and>
       S < unat (failed_ea m) + PAGESZ \<and> unat (failed_ea m) < E"

lemma search_stops:
  assumes "test_cancelled D f w = (c, w1)" "dbg_read_memory D w1 P PAGESZ = (page, w2)"
    and "S < unat P + PAGESZ" "unat P < E"
  shows "c \<Longrightarrow> search_failed D f w S E m"
    and "length page \<noteq> PAGESZ \<Longrightarrow> search_failed D f w S E (m\<lparr>failed_ea := P\<rparr>)"
proof -
  assume c
  then have "check_break f \<and> fst (user_cancelled D w)"
    using assms(1) by (simp add: test_cancelled_def split: if_splits)
  then show "search_failed D f w S E m" unfolding search_failed_def by (intro disjI1) (auto intro: later.here)
next
  assume "length page \<noteq> PAGESZ"
  then have "later D w w1 \<and> length (fst (dbg_read_memory D w1 P PAGESZ)) \<noteq> PAGESZ"
    using later_test [OF assms(1)] assms(2) by simp
  then have "\<exists>w1. later D w w1 \<and> length (fst (dbg_read_memory D w1 P PAGESZ)) \<noteq> PAGESZ" by blast
  then show "search_failed D f w S E (m\<lparr>failed_ea := P\<rparr>)"
    unfolding search_failed_def using assms(3,4) by simp
qed

definition search_result ::
    "'w debmod_ops \<Rightarrow> u32 \<Rightarrow> ('w \<Rightarrow> ea \<Rightarrow> u8) \<Rightarrow> 'w \<Rightarrow> binpat list \<Rightarrow> nat \<Rightarrow> nat \<Rightarrow> drc \<Rightarrow> matcher \<Rightarrow> bool" where
  "search_result D f mem w ptns S E r m = (case r of
     DRC_OK \<Rightarrow> (\<exists>i a. found_ea m = Some a \<and> hit f (mem w) ptns S E i a)
   | DRC_FAILED \<Rightarrow> (\<forall>i a. \<not> hit f (mem w) ptns S E i a)
   | DRC_ERROR \<Rightarrow> search_failed D f w S E m
   | _ \<Rightarrow> False)"

lemma search_result_later:
  assumes "search_result D f mem w1 ptns S E r m" "later D w w1" "mem w1 = mem w"
  shows "search_result D f mem w ptns S E r m"
  using assms(1,3) later_trans [OF _ assms(2)]
  by (auto simp: search_result_def search_failed_def split: drc.splits)

lemma search_result_hit:
  "search_result D f mem w ptns S E r m \<Longrightarrow> hit f (mem w) ptns S E i a \<Longrightarrow> \<not> search_failed D f w S E m \<Longrightarrow> r = DRC_OK"
  by (cases r) (auto simp: search_result_def)

section \<open>A process in memory\<close>

text \<open>
  Memory is readable below \<open>limit\<close>; the user cancels when \<open>patience\<close> is used up.
\<close>

record process =
  cells :: "(ea \<times> u8) list"
  limit :: ea
  patience :: nat

definition cell :: "process \<Rightarrow> ea \<Rightarrow> u8" where
  "cell w a = (case map_of (cells w) a of Some c \<Rightarrow> c | None \<Rightarrow> 0)"

definition read_cells :: "process \<Rightarrow> ea \<Rightarrow> nat \<Rightarrow> u8 list" where
  "read_cells w a n = (if unat a + n \<le> unat (limit w) then map (\<lambda>i. cell w (a + of_nat i)) [0..<n] else [])"

definition process_ops :: "process debmod_ops" where
  "process_ops = \<lparr>
     dbg_read_memory = (\<lambda>w a n. (read_cells w a n, w)),
     user_cancelled = (\<lambda>w. (patience w = 0, w\<lparr>patience := patience w - 1\<rparr>)) \<rparr>"

lemma process_ops_sel [simp]:
  "dbg_read_memory process_ops w a n = (read_cells w a n, w)"
  "user_cancelled process_ops w = (patience w = 0, w\<lparr>patience := patience w - 1\<rparr>)"
  by (simp_all add: process_ops_def)

lemma read_cells_inside:
  assumes "unat a + n \<le> unat (limit w)"
  shows "length (read_cells w a n) = n" "i < n \<Longrightarrow> read_cells w a n ! i = cell w (a + of_nat i)"
  using assms by (simp_all add: read_cells_def)

interpretation process: debuggee process_ops cell
  by unfold_locales (auto simp: read_cells_def cell_def fun_eq_iff split: if_splits)

lemma process_limit: "later process_ops w w' \<Longrightarrow> limit w' = limit w"
  by (induction rule: later.induct) simp_all

text \<open>Without interruptions, a search of readable memory does not fail.\<close>

lemma process_no_error:
  assumes "\<not> check_break f" "E + 2 * PAGESZ \<le> unat (limit w)"
  shows "\<not> search_failed process_ops f w S E m"
proof -
  have "length (read_cells w1 (failed_ea m) PAGESZ) = PAGESZ"
    if "later process_ops w w1" "unat (failed_ea m) < E" for w1
    using that assms(2) process_limit [OF that(1)] by (intro read_cells_inside) simp
  then show ?thesis using assms(1) by (auto simp: search_failed_def)
qed

end
