(* ===== verification/BinForward.thy ===== *)
theory BinForward
  imports BinProcess
begin

text \<open>
  The forward search is correct: what it reports is a match inside the range, and when it
  reports failure there is none.  Candidates of a page are pairs of a pattern and an offset
  of the page; \<open>L\<close> is \<open>last_off\<close>.
\<close>

section \<open>The scans of a page\<close>

definition fwd_full :: "u32 \<Rightarrow> (ea \<Rightarrow> u8) \<Rightarrow> binpat list \<Rightarrow> ea \<Rightarrow> nat \<Rightarrow> nat \<times> nat \<Rightarrow> bool" where
  "fwd_full f mem ptns P L y \<longleftrightarrow> pat_len (ptns ! fst y) \<le> L - snd y \<and>
     part f mem (ptns ! fst y) (P + of_nat (snd y)) 0 (pat_len (ptns ! fst y))"

definition fwd_pref :: "u32 \<Rightarrow> (ea \<Rightarrow> u8) \<Rightarrow> binpat list \<Rightarrow> ea \<Rightarrow> nat \<Rightarrow> nat \<times> nat \<Rightarrow> bool" where
  "fwd_pref f mem ptns P L y \<longleftrightarrow> L - snd y < pat_len (ptns ! fst y) \<and>
     part f mem (ptns ! fst y) (P + of_nat (snd y)) 0 (L - snd y)"

definition fwd_pm :: "ea \<Rightarrow> nat \<Rightarrow> nat \<times> nat \<Rightarrow> partmatch" where
  "fwd_pm P L y = \<lparr>match_ea = P + of_nat (snd y), ptn_idx = fst y, ptn_off = L - snd y\<rparr>"

lemma fwd_pm_pair:
  "fwd_pm P L (i, q) = \<lparr>match_ea = P + of_nat q, ptn_idx = i, ptn_off = L - q\<rparr>"
  by (simp add: fwd_pm_def)

abbreviation fwd_scanned where
  "fwd_scanned f mem ptns P L \<equiv> scanned (fwd_full f mem ptns P L) (fwd_pref f mem ptns P L) (fwd_pm P L)"

text \<open>Both are the same comparison, of as many bytes as there are.\<close>

lemma fwd_min:
  "fwd_full f mem ptns P L (i, q) \<longleftrightarrow> pat_len (ptns ! i) \<le> L - q \<and>
     part f mem (ptns ! i) (P + of_nat q) 0 (min (L - q) (pat_len (ptns ! i)))"
  "fwd_pref f mem ptns P L (i, q) \<longleftrightarrow> \<not> pat_len (ptns ! i) \<le> L - q \<and>
     part f mem (ptns ! i) (P + of_nat q) 0 (min (L - q) (pat_len (ptns ! i)))"
  by (auto simp: fwd_full_def fwd_pref_def min.absorb1 min.absorb2)

lemmas fwd_one = scanned_one [where full = "fwd_full f mem ptns P L" and pref = "fwd_pref f mem ptns P L"
  and pm = "fwd_pm P L" and y = "(i, q)" for f mem ptns P L i q]

lemma match_at_scanned:
  assumes "page_of mem P page" "\<And>i. i \<in> set js \<Longrightarrow> i < length ptns \<and> wf_pat (ptns ! i)" "q < L" "L \<le> PAGESZ"
  shows "\<exists>x. match_at f ptns page P L js q pms = Some x \<and> fwd_scanned f mem ptns P L (set js \<times> {q}) pms x"
  using assms(2)
proof (induction js arbitrary: pms)
  case Nil
  then show ?case by (simp add: scanned_empty)
next
  case (Cons i js)
  let ?ptn = "ptns ! i" and ?y = "(i, q)"
  let ?n = "min (L - q) (pat_len ?ptn)"
  have i: "elem_at ptns i = Some ?ptn" "wf_pat ?ptn" using Cons.prems [of i] by (simp_all add: elem_at_def)
  have n: "q + ?n \<le> PAGESZ" using assms(3,4) by linarith
  have m: "match_pattern f page q ?ptn 0 ?n = Some (part f mem ?ptn (P + of_nat q) 0 ?n)"
    using match_pattern_part [OF assms(1) i(2) n, of 0 "P + of_nat q" f] by simp
  have R: "set (i # js) \<times> {q} = {?y} \<union> set js \<times> {q}" by auto
  note IH = Cons.IH [OF Cons.prems [OF list.set_intros(2)]]
  show ?case
  proof (cases "part f mem ?ptn (P + of_nat q) 0 ?n")
    case False
    then have "\<not> fwd_full f mem ptns P L ?y" "\<not> fwd_pref f mem ptns P L ?y"
      by (simp_all add: fwd_min)
    moreover obtain x where x: "match_at f ptns page P L js q pms = Some x" "fwd_scanned f mem ptns P L (set js \<times> {q}) pms x"
      using IH by blast
    ultimately have "fwd_scanned f mem ptns P L (set (i # js) \<times> {q}) pms x"
      unfolding R by (intro scanned_skip) auto
    then show ?thesis using x(1) False by (simp add: i m)
  next
    case True
    show ?thesis
    proof (cases "pat_len ?ptn \<le> L - q")
      case fits: True
      then have "fwd_full f mem ptns P L ?y" using True by (simp add: fwd_min)
      then have "fwd_scanned f mem ptns P L (set (i # js) \<times> {q}) pms (Some (match_ea (fwd_pm P L ?y)), pms)"
        unfolding R by (intro scanned_found [OF fwd_one(1)]) auto
      moreover have "match_pattern f page q ?ptn 0 (pat_len ?ptn) = Some True"
        using m True fits by (simp add: min.absorb2)
      ultimately show ?thesis using fits by (simp add: i Let_def fwd_pm_pair)
    next
      case False
      then have y: "\<not> fwd_full f mem ptns P L ?y" "fwd_pref f mem ptns P L ?y"
        using True by (simp_all add: fwd_min)
      obtain x where x: "match_at f ptns page P L js q (pms @ [fwd_pm P L ?y]) = Some x"
        "fwd_scanned f mem ptns P L (set js \<times> {q}) (pms @ [fwd_pm P L ?y]) x"
        using IH by blast
      have "fwd_scanned f mem ptns P L (set (i # js) \<times> {q}) pms x"
        unfolding R by (rule scanned_union [OF fwd_one(3) [OF y] x(2)])
      moreover have "match_pattern f page q ?ptn 0 (L - q) = Some True" "min (L - q) (pat_len ?ptn) = L - q"
        using m True False by (simp_all add: min.absorb1)
      ultimately show ?thesis using x(1) False by (simp add: i Let_def fwd_pm_pair)
    qed
  qed
qed

lemma fwd_complex_scanned:
  assumes "page_of mem P page" "\<And>i. i \<in> set js \<Longrightarrow> i < length ptns \<and> wf_pat (ptns ! i)" "L \<le> PAGESZ" "q + n = L"
  shows "\<exists>x. fwd_complex f ptns page P L js n q pms = Some x \<and> fwd_scanned f mem ptns P L (set js \<times> {q..<L}) pms x"
  using assms(4)
proof (induction n arbitrary: q pms)
  case 0
  then show ?case by (simp add: scanned_empty)
next
  case (Suc n)
  have q: "q < L" using Suc.prems by simp
  have R: "set js \<times> {q..<L} = set js \<times> {q} \<union> set js \<times> {q + 1..<L}" using q by force
  obtain r pms1 where x: "match_at f ptns page P L js q pms = Some (r, pms1)"
    "fwd_scanned f mem ptns P L (set js \<times> {q}) pms (r, pms1)"
    using match_at_scanned [OF assms(1,2) q assms(3), where f = f and pms = pms] by force
  show ?case
  proof (cases r)
    case None
    obtain z where z: "fwd_complex f ptns page P L js n (q + 1) pms1 = Some z"
      "fwd_scanned f mem ptns P L (set js \<times> {q + 1..<L}) pms1 z"
      using Suc.IH [of "q + 1" pms1] Suc.prems by auto
    have "fwd_scanned f mem ptns P L (set js \<times> {q..<L}) pms z"
      unfolding R by (rule scanned_union [OF x(2) [unfolded None] z(2)])
    then show ?thesis using x(1) z(1) None by simp
  next
    case (Some a)
    have "fwd_scanned f mem ptns P L (set js \<times> {q..<L}) pms (Some a, pms1)"
      by (rule scanned_found [OF x(2) [unfolded Some]]) (use q in auto)
    then show ?thesis using x(1) Some by simp
  qed
qed

section \<open>Simple patterns\<close>

lemma memchr_spec:
  assumes "i + n \<le> length xs"
  obtains "memchr xs i c n = Some None" "\<And>j. i \<le> j \<Longrightarrow> j < i + n \<Longrightarrow> xs ! j \<noteq> c"
  | p where "memchr xs i c n = Some (Some p)" "i \<le> p" "p < i + n" "xs ! p = c" "\<And>j. i \<le> j \<Longrightarrow> j < p \<Longrightarrow> xs ! j \<noteq> c"
proof -
  have "memchr xs i c n = Some None \<and> (\<forall>j. i \<le> j \<longrightarrow> j < i + n \<longrightarrow> xs ! j \<noteq> c) \<or>
    (\<exists>p. memchr xs i c n = Some (Some p) \<and> i \<le> p \<and> p < i + n \<and> xs ! p = c \<and> (\<forall>j. i \<le> j \<longrightarrow> j < p \<longrightarrow> xs ! j \<noteq> c))"
    using assms
  proof (induction n arbitrary: i)
    case (Suc n)
    have e: "elem_at xs i = Some (xs ! i)" using Suc.prems by (simp add: elem_at_def)
    show ?case
    proof (cases "xs ! i = c")
      case False
      have step: "i \<le> j \<longleftrightarrow> j = i \<or> i + 1 \<le> j" for j by auto
      show ?thesis using Suc.IH [of "i + 1"] Suc.prems False by (auto simp: e step)
    qed (simp add: e)
  qed simp
  then show thesis using that by blast
qed

text \<open>A pattern does not begin where the first byte differs.\<close>

lemma fwd_no_first:
  assumes "page_of mem P page" "sense_case f" "all_bytes_defined (ptns ! i)" "pat_bytes (ptns ! i) \<noteq> []"
    and "q < L" "L \<le> PAGESZ" "page ! q \<noteq> pat_bytes (ptns ! i) ! 0"
  shows "\<not> fwd_full f mem ptns P L (i, q) \<and> \<not> fwd_pref f mem ptns P L (i, q)"
proof -
  have "\<not> part f mem (ptns ! i) (P + of_nat q) 0 n" if "0 < n" for n
    using assms that by (auto simp: part_def page_of_def byte_ok_simple intro!: exI [of _ 0])
  then show ?thesis using assms(4,5) by (simp add: fwd_full_def fwd_pref_def)
qed

lemma fwd_simple_loop_scanned:
  assumes "page_of mem P page" "sense_case f" "all_bytes_defined (ptns ! i)" "pat_bytes (ptns ! i) \<noteq> []"
    and "q + rest = L" "L \<le> PAGESZ"
  shows "\<exists>x. fwd_simple_loop page P i (pat_bytes (ptns ! i)) (pat_bytes (ptns ! i) ! 0) q rest pms = Some x \<and>
    fwd_scanned f mem ptns P L ({i} \<times> {q..<L}) pms x"
  using assms(5)
proof (induction rest arbitrary: q pms rule: less_induct)
  case (less rest)
  let ?ptn = "ptns ! i"
  let ?b = "pat_bytes ?ptn"
  note none = fwd_no_first [where ptns = ptns, OF assms(1-4) _ assms(6)]
  show ?case
  proof (cases "0 < rest")
    case False
    then show ?thesis using less.prems by (simp add: fwd_simple_loop.simps scanned_empty)
  next
    case True
    have len: "q + rest \<le> length page" using less.prems assms(1,6) by (simp add: page_of_def)
    show ?thesis
    proof (rule memchr_spec [OF len, of "?b ! 0"])
      assume m: "memchr page q (?b ! 0) rest = Some None" "\<And>j. q \<le> j \<Longrightarrow> j < q + rest \<Longrightarrow> page ! j \<noteq> ?b ! 0"
      have "fwd_scanned f mem ptns P L ({i} \<times> {q..<L} \<union> {}) pms (None, pms)"
        by (rule scanned_skip [OF scanned_empty]) (use none m(2) less.prems in auto)
      then show ?thesis using True m(1) by (simp add: fwd_simple_loop.simps)
    next
      fix p
      assume m: "memchr page q (?b ! 0) rest = Some (Some p)" "q \<le> p" "p < q + rest" "page ! p = ?b ! 0"
        "\<And>j. q \<le> j \<Longrightarrow> j < p \<Longrightarrow> page ! j \<noteq> ?b ! 0"
      have r': "rest - (p - q) = L - p" "p < L" using m less.prems by simp_all
      let ?n = "min (L - p) (length ?b)"
      let ?y = "(i, p)"
      have n: "p + ?n \<le> PAGESZ" using r'(2) assms(6) by linarith
      have mc: "memcmp_eq page p ?b 0 ?n = Some (part f mem ?ptn (P + of_nat p) 0 ?n)"
        using memcmp_part [OF assms(1-3) n, of 0 "P + of_nat p"] by simp
      have R: "{i} \<times> {q..<L} = {i} \<times> {q..<p} \<union> ({?y} \<union> {i} \<times> {p + 1..<L})" using m(2) r'(2) by force
      have skip: "\<And>y. y \<in> {i} \<times> {q..<p} \<Longrightarrow> \<not> fwd_full f mem ptns P L y \<and> \<not> fwd_pref f mem ptns P L y"
        using none m(5) r'(2) by auto
      have IH: "\<exists>x. fwd_simple_loop page P i ?b (?b ! 0) (p + 1) (L - p - 1) pms' = Some x \<and>
          fwd_scanned f mem ptns P L ({i} \<times> {p + 1..<L}) pms' x" for pms'
        by (rule less.IH) (use r' m in auto)
      note unf = fwd_simple_loop.simps [of page P i ?b "?b ! 0" q rest pms]
      show ?thesis
      proof (cases "part f mem ?ptn (P + of_nat p) 0 ?n")
        case False
        then have "\<not> fwd_full f mem ptns P L ?y" "\<not> fwd_pref f mem ptns P L ?y"
          by (simp_all add: fwd_min)
        moreover obtain x where x: "fwd_simple_loop page P i ?b (?b ! 0) (p + 1) (L - p - 1) pms = Some x"
          "fwd_scanned f mem ptns P L ({i} \<times> {p + 1..<L}) pms x" using IH by blast
        ultimately have "fwd_scanned f mem ptns P L ({i} \<times> {q..<L}) pms x"
          unfolding R by (intro scanned_skip [OF scanned_skip [OF x(2)]]) (use skip in auto)
        then show ?thesis using True m(1) mc False x(1) by (simp add: unf Let_def r')
      next
        case eq: True
        show ?thesis
        proof (cases "length ?b \<le> L - p")
          case fits: True
          then have "fwd_full f mem ptns P L ?y" using eq by (simp add: fwd_min)
          then have "fwd_scanned f mem ptns P L ({i} \<times> {q..<L}) pms (Some (match_ea (fwd_pm P L ?y)), pms)"
            unfolding R by (intro scanned_found [OF fwd_one(1)]) auto
          then show ?thesis using True m(1) mc eq fits by (simp add: unf Let_def r' fwd_pm_pair)
        next
          case False
          then have y: "\<not> fwd_full f mem ptns P L ?y" "fwd_pref f mem ptns P L ?y"
            using eq by (simp_all add: fwd_min)
          obtain x where x: "fwd_simple_loop page P i ?b (?b ! 0) (p + 1) (L - p - 1) (pms @ [fwd_pm P L ?y]) = Some x"
            "fwd_scanned f mem ptns P L ({i} \<times> {p + 1..<L}) (pms @ [fwd_pm P L ?y]) x" using IH by blast
          have "fwd_scanned f mem ptns P L ({i} \<times> {q..<L}) pms x"
            unfolding R by (rule scanned_skip [OF scanned_union [OF fwd_one(3) [OF y] x(2)] skip])
          then show ?thesis using True m(1) mc eq False x(1) by (simp add: unf Let_def r' fwd_pm_pair)
        qed
      qed
    qed
  qed
qed

lemma fwd_simple_scanned:
  assumes "page_of mem P page" "sense_case f \<or> js = []"
    and "\<And>i. i \<in> set js \<Longrightarrow> i < length ptns \<and> all_bytes_defined (ptns ! i) \<and> pat_bytes (ptns ! i) \<noteq> []"
    and "q \<le> L" "L \<le> PAGESZ"
  shows "\<exists>x. fwd_simple ptns page P L js q pms = Some x \<and> fwd_scanned f mem ptns P L (set js \<times> {q..<L}) pms x"
  using assms(2,3)
proof (induction js arbitrary: pms)
  case Nil
  then show ?case by (simp add: scanned_empty)
next
  case (Cons i js)
  have i: "i < length ptns" "all_bytes_defined (ptns ! i)" "pat_bytes (ptns ! i) \<noteq> []" "sense_case f"
    using Cons.prems(1) Cons.prems(2) [of i] by auto
  have e: "elem_at ptns i = Some (ptns ! i)" "elem_at (pat_bytes (ptns ! i)) 0 = Some (pat_bytes (ptns ! i) ! 0)"
    using i by (simp_all add: elem_at_def)
  have R: "set (i # js) \<times> {q..<L} = {i} \<times> {q..<L} \<union> set js \<times> {q..<L}" by auto
  have ql: "q + (L - q) = L" using assms(4) by simp
  obtain r pms1 where x: "fwd_simple_loop page P i (pat_bytes (ptns ! i)) (pat_bytes (ptns ! i) ! 0) q (L - q) pms = Some (r, pms1)"
    "fwd_scanned f mem ptns P L ({i} \<times> {q..<L}) pms (r, pms1)"
    using fwd_simple_loop_scanned [OF assms(1) i(4,2,3) ql assms(5), of pms] by force
  show ?case
  proof (cases r)
    case None
    obtain z where z: "fwd_simple ptns page P L js q pms1 = Some z" "fwd_scanned f mem ptns P L (set js \<times> {q..<L}) pms1 z"
      using Cons.IH [of pms1] Cons.prems by auto
    have "fwd_scanned f mem ptns P L (set (i # js) \<times> {q..<L}) pms z"
      unfolding R by (rule scanned_union [OF x(2) [unfolded None] z(2)])
    then show ?thesis using x(1) z(1) None by (simp add: e)
  next
    case (Some a)
    then show ?thesis
      using x scanned_found [OF x(2) [unfolded Some], of "set (i # js) \<times> {q..<L}"] by (auto simp: e)
  qed
qed

section \<open>The page\<close>

text \<open>
  The partial matches between two pages: each begins in the part of the range that was
  searched, agrees with the memory up to \<open>Q\<close> and goes on from there; and each match
  of the range that begins before \<open>Q\<close> is among them.
\<close>

definition carried_fwd :: "u32 \<Rightarrow> (ea \<Rightarrow> u8) \<Rightarrow> binpat list \<Rightarrow> nat \<Rightarrow> nat \<Rightarrow> partmatch \<Rightarrow> bool" where
  "carried_fwd f mem ptns S Q pm \<longleftrightarrow> ptn_idx pm < length ptns \<and> 0 < ptn_off pm \<and>
     ptn_off pm < pat_len (ptns ! ptn_idx pm) \<and> S \<le> unat (match_ea pm) \<and> unat (match_ea pm) + ptn_off pm = Q \<and>
     part f mem (ptns ! ptn_idx pm) (match_ea pm) 0 (ptn_off pm)"

definition tracked_fwd :: "u32 \<Rightarrow> (ea \<Rightarrow> u8) \<Rightarrow> binpat list \<Rightarrow> nat \<Rightarrow> nat \<Rightarrow> nat \<Rightarrow> partmatch list \<Rightarrow> bool" where
  "tracked_fwd f mem ptns S E Q pms \<longleftrightarrow> (\<forall>pm \<in> set pms. carried_fwd f mem ptns S Q pm) \<and>
     (\<forall>i a. hit f mem ptns S E i a \<longrightarrow> unat a < Q \<longrightarrow> (\<exists>pm \<in> set pms. match_ea pm = a \<and> ptn_idx pm = i))"

lemma tracked_fwd_done:
  assumes "tracked_fwd f mem ptns S E E pms"
  shows "\<not> hit f mem ptns S E i a"
proof
  assume h: "hit f mem ptns S E i a"
  then have "0 < pat_len (ptns ! i)" "unat a + pat_len (ptns ! i) \<le> E" by (simp_all add: hit_def)
  moreover from this h obtain pm where "pm \<in> set pms" "match_ea pm = a" "ptn_idx pm = i"
    using assms unfolding tracked_fwd_def by (metis less_add_same_cancel1 less_le_trans)
  ultimately show False using assms by (fastforce simp: tracked_fwd_def carried_fwd_def)
qed

lemma tracked_fwd_start: "tracked_fwd f mem ptns S E S []"
  by (auto simp: tracked_fwd_def hit_def)

lemma fwd_finalize_eq:
  assumes "page_of mem P page" "L \<le> PAGESZ" "carried_fwd f mem ptns S (unat P) pm" "wf_pat (ptns ! ptn_idx pm)"
  shows "fwd_finalize f ptns page L pm = Some
    (let ptn = ptns ! ptn_idx pm; rest = pat_len ptn - ptn_off pm in
     if \<not> part f mem ptn (match_ea pm) 0 (ptn_off pm + min rest L) then (DRC_FAILED, pm)
     else if rest \<le> L then (DRC_OK, pm)
     else if L \<noteq> PAGESZ then (DRC_FAILED, pm)
     else (DRC_NONE, pm\<lparr>ptn_off := ptn_off pm + PAGESZ\<rparr>))"
proof -
  let ?ptn = "ptns ! ptn_idx pm"
  let ?n = "min (pat_len ?ptn - ptn_off pm) L"
  have c: "ptn_idx pm < length ptns" "ptn_off pm < pat_len ?ptn" "unat (match_ea pm) + ptn_off pm = unat P"
    "part f mem ?ptn (match_ea pm) 0 (ptn_off pm)" using assms(3) by (simp_all add: carried_fwd_def)
  have a: "match_ea pm + of_nat (ptn_off pm) = P + of_nat 0"
    using arg_cong [OF c(3), of "of_nat :: nat \<Rightarrow> ea"] by simp
  have "match_pattern f page 0 ?ptn (ptn_off pm) ?n = Some (part f mem ?ptn (match_ea pm) (ptn_off pm) (ptn_off pm + ?n))"
    by (rule match_pattern_part [OF assms(1,4) _ _ a]) (use assms(2) c(2) in auto)
  moreover have "part f mem ?ptn (match_ea pm) 0 (ptn_off pm + ?n) \<longleftrightarrow> part f mem ?ptn (match_ea pm) (ptn_off pm) (ptn_off pm + ?n)"
    using part_split [of 0 "ptn_off pm" "ptn_off pm + ?n" f mem ?ptn "match_ea pm"] c(4) by simp
  ultimately show ?thesis by (simp add: fwd_finalize_def elem_at_def c(1) Let_def)
qed

lemma fwd_finalize_carry:
  assumes "page_of mem P page" "L \<le> PAGESZ" "\<And>i. i < length ptns \<Longrightarrow> wf_pat (ptns ! i)"
    and E: "unat P + L \<le> E" "L = PAGESZ \<or> unat P + L = E"
    and t: "tracked_fwd f mem ptns S E (unat P) pms"
  obtains a i pms' where "finalize_all (fwd_finalize f ptns page L) pms = Some (Some a, pms')" "hit f mem ptns S E i a"
  | pms' where "finalize_all (fwd_finalize f ptns page L) pms = Some (None, pms')"
      "\<And>pm. pm \<in> set pms' \<Longrightarrow> carried_fwd f mem ptns S (unat P + L) pm"
      "\<And>i a. hit f mem ptns S E i a \<Longrightarrow> unat a < unat P \<Longrightarrow> \<exists>pm \<in> set pms'. match_ea pm = a \<and> ptn_idx pm = i"
proof -
  let ?fin = "fwd_finalize f ptns page L"
  have c: "carried_fwd f mem ptns S (unat P) pm" "wf_pat (ptns ! ptn_idx pm)" if "pm \<in> set pms" for pm
    using t assms(3) that by (auto simp: tracked_fwd_def carried_fwd_def)
  note fin = fwd_finalize_eq [OF assms(1,2) c]
  have ex: "\<exists>r pm'. ?fin pm = Some (r, pm') \<and> match_ea pm' = match_ea pm" if "pm \<in> set pms" for pm
    by (simp add: fin [OF that that] Let_def)
  obtain r pms' where r: "finalize_all ?fin pms = Some (r, pms')"
    "\<And>a. r = Some a \<Longrightarrow> \<exists>pm \<in> set pms. \<exists>pm'. ?fin pm = Some (DRC_OK, pm') \<and> a = match_ea pm"
    "r = None \<Longrightarrow> (\<forall>pm \<in> set pms. \<forall>pm'. ?fin pm \<noteq> Some (DRC_OK, pm')) \<and>
       set pms' = {pm'. \<exists>pm \<in> set pms. ?fin pm = Some (DRC_NONE, pm')}"
    by (rule finalize_all_spec [of pms ?fin]) (erule ex, blast)
  show thesis
  proof (cases r)
    case (Some a)
    obtain pm pm' where pm: "pm \<in> set pms" "?fin pm = Some (DRC_OK, pm')" "a = match_ea pm" using r(2) Some by blast
    have "hit f mem ptns S E (ptn_idx pm) a"
      using pm(2) c(1) [OF pm(1)] E(1) by (auto simp: fin [OF pm(1) pm(1)] pm(3) hit_def carried_fwd_def Let_def min_def split: if_splits)
    then show thesis using that(1) r(1) Some by blast
  next
    case None
    have none: "?fin pm \<noteq> Some (DRC_OK, pm')" if "pm \<in> set pms" for pm pm' using r(3) None that by blast
    have left: "pm' \<in> set pms' \<longleftrightarrow> (\<exists>pm \<in> set pms. ?fin pm = Some (DRC_NONE, pm'))" for pm' using r(3) None by blast
    show thesis
    proof (rule that(2))
      show "finalize_all ?fin pms = Some (None, pms')" using r(1) None by simp
    next
      fix pm' assume "pm' \<in> set pms'"
      then obtain pm where "pm \<in> set pms" "?fin pm = Some (DRC_NONE, pm')" using left by blast
      then show "carried_fwd f mem ptns S (unat P + L) pm'"
        using c(1) [of pm] by (auto simp: fin carried_fwd_def Let_def min_def split: if_splits)
    next
      fix i a assume h: "hit f mem ptns S E i a" "unat a < unat P"
      then obtain pm where pm: "pm \<in> set pms" "match_ea pm = a" "ptn_idx pm = i" using t unfolding tracked_fwd_def by blast
      have p: "part f mem (ptns ! i) a 0 (ptn_off pm + min (pat_len (ptns ! i) - ptn_off pm) L)"
        using h(1) c(1) [OF pm(1)] pm(3) by (auto simp: hit_def carried_fwd_def elim!: part_sub)
      have "\<not> pat_len (ptns ! i) - ptn_off pm \<le> L"
        using none [OF pm(1), of pm] p by (auto simp: fin [OF pm(1) pm(1)] pm Let_def)
      moreover from this have "L = PAGESZ"
        using E(2) h(1) c(1) [OF pm(1)] pm by (auto simp: hit_def carried_fwd_def)
      ultimately have "?fin pm = Some (DRC_NONE, pm\<lparr>ptn_off := ptn_off pm + PAGESZ\<rparr>)"
        using pm(2,3) p unfolding fin [OF pm(1) pm(1)] by (simp add: Let_def)
      then have "pm\<lparr>ptn_off := ptn_off pm + PAGESZ\<rparr> \<in> set pms'" using pm(1) left by blast
      then show "\<exists>pm \<in> set pms'. match_ea pm = a \<and> ptn_idx pm = i" using pm(2,3)
        by (intro bexI [of _ "pm\<lparr>ptn_off := ptn_off pm + PAGESZ\<rparr>"]) simp_all
    qed
  qed
qed

lemma fwd_full_hit:
  assumes "i \<in> searched ptns" "fwd_full f mem ptns P L (i, q)" "S \<le> unat P + q" "q < L" "unat P + L \<le> E" "unat P + L \<le> 2 ^ 64"
  shows "hit f mem ptns S E i (P + of_nat q)"
proof -
  have "unat (P + of_nat q) = unat P + q" using assms(4,6) by (intro unat_add_of_nat) simp
  then show ?thesis using assms(1-5) by (auto simp: hit_def fwd_full_def searched_def)
qed

lemma fwd_new:
  assumes "page_of mem P page" "\<And>i. i < length ptns \<Longrightarrow> wf_pat (ptns ! i)" "q \<le> L" "L \<le> PAGESZ"
    and "finalize_all (fwd_finalize f ptns page L) pms = Some (None, pms1)"
  shows "\<exists>x. fwd_page f ptns page P L q pms = Some x \<and> fwd_scanned f mem ptns P L (searched ptns \<times> {q..<L}) pms1 x"
proof -
  let ?c = "complex_ptns f ptns" and ?s = "simple_ptns f ptns"
  have "\<exists>x. fwd_page f ptns page P L q pms = Some x \<and>
      fwd_scanned f mem ptns P L (set ?s \<times> {q..<L} \<union> set ?c \<times> {q..<L}) pms1 x"
    unfolding fwd_page_def
  proof (rule search_page_scanned [OF assms(5)])
    show "\<exists>x. fwd_simple ptns page P L ?s q pms1 = Some x \<and> fwd_scanned f mem ptns P L (set ?s \<times> {q..<L}) pms1 x"
      by (rule fwd_simple_scanned [OF assms(1) simple_ptns_case simple_ptns_mem assms(3,4)])
  next
    fix pms
    have "\<And>i. i \<in> set ?c \<Longrightarrow> i < length ptns \<and> wf_pat (ptns ! i)" using assms(2) by (simp add: complex_ptns_def)
    then have "\<exists>x. fwd_complex f ptns page P L ?c (L - q) q pms = Some x \<and> fwd_scanned f mem ptns P L (set ?c \<times> {q..<L}) pms x"
      using assms(3,4) by (intro fwd_complex_scanned [OF assms(1)]) simp_all
    then show "\<exists>x. (if ?c = [] then Some (None, pms) else fwd_complex f ptns page P L ?c (L - q) q pms) = Some x \<and>
        fwd_scanned f mem ptns P L (set ?c \<times> {q..<L}) pms x"
      by (auto simp: scanned_empty)
  qed
  then show ?thesis unfolding Sigma_Un_distrib1 [symmetric] searched_split .
qed

text \<open>What the scan of a page without a match adds keeps the tracking.\<close>

lemma fwd_tracked_new:
  assumes set: "set pms' = set pms1 \<union> fwd_pm P L ` {y \<in> searched ptns \<times> {q..<L}. fwd_pref f mem ptns P L y}"
    and new: "\<And>y. y \<in> searched ptns \<times> {q..<L} \<Longrightarrow> \<not> fwd_full f mem ptns P L y"
    and old: "\<And>pm. pm \<in> set pms1 \<Longrightarrow> carried_fwd f mem ptns S (unat P + L) pm"
      "\<And>i a. hit f mem ptns S E i a \<Longrightarrow> unat a < unat P + q \<Longrightarrow> \<exists>pm \<in> set pms1. match_ea pm = a \<and> ptn_idx pm = i"
    and bounds: "unat P + L \<le> 2 ^ 64" "S \<le> unat P + q"
  shows "tracked_fwd f mem ptns S E (unat P + L) pms'"
  unfolding tracked_fwd_def
proof (intro conjI ballI allI impI)
  fix pm assume "pm \<in> set pms'"
  then consider "pm \<in> set pms1"
    | i j where "pm = fwd_pm P L (i, j)" "i \<in> searched ptns" "q \<le> j" "j < L" "fwd_pref f mem ptns P L (i, j)"
    using set by auto
  then show "carried_fwd f mem ptns S (unat P + L) pm"
  proof cases
    case 2
    then have "unat (P + of_nat j) = unat P + j" using bounds(1) by (intro unat_add_of_nat) simp
    then show ?thesis using 2 bounds(2) by (simp add: carried_fwd_def fwd_pm_def fwd_pref_def searched_def)
  qed (rule old(1))
next
  fix i a assume h: "hit f mem ptns S E i a" "unat a < unat P + L"
  show "\<exists>pm \<in> set pms'. match_ea pm = a \<and> ptn_idx pm = i"
  proof (cases "unat a < unat P + q")
    case True
    then show ?thesis using old(2) [OF h(1)] set by blast
  next
    case False
    let ?j = "unat a - unat P"
    have a: "a = P + of_nat ?j" using False arg_cong [of "unat P + ?j" "unat a" "of_nat :: nat \<Rightarrow> ea"] by simp
    have y: "(i, ?j) \<in> searched ptns \<times> {q..<L}" using h False by (auto simp: hit_def searched_def)
    have "part f mem (ptns ! i) a 0 (pat_len (ptns ! i))" using h(1) by (simp add: hit_def)
    then have "fwd_pref f mem ptns P L (i, ?j)"
      using new [OF y] a by (auto simp: fwd_full_def fwd_pref_def elim: part_sub)
    then have "fwd_pm P L (i, ?j) \<in> set pms'" using set y by blast
    moreover have "match_ea (fwd_pm P L (i, ?j)) = a" "ptn_idx (fwd_pm P L (i, ?j)) = i" using a by (simp_all add: fwd_pm_def)
    ultimately show ?thesis by blast
  qed
qed

text \<open>One page: a match, or what is tracked moves to the end of the page.\<close>

lemma fwd_page_spec:
  assumes "page_of mem P page" "\<And>i. i < length ptns \<Longrightarrow> wf_pat (ptns ! i)" "q \<le> L" "L \<le> PAGESZ"
    and E: "unat P + L \<le> E" "L = PAGESZ \<or> unat P + L = E" "E \<le> 2 ^ 64"
    and t: "tracked_fwd f mem ptns S E (unat P + q) pms" "pms = [] \<or> q = 0" "S \<le> unat P + q"
  obtains a i pms' where "fwd_page f ptns page P L q pms = Some (Some a, pms')" "hit f mem ptns S E i a"
  | pms' where "fwd_page f ptns page P L q pms = Some (None, pms')" "tracked_fwd f mem ptns S E (unat P + L) pms'"
proof -
  let ?fin = "fwd_finalize f ptns page L"
  consider a i pms1 where "finalize_all ?fin pms = Some (Some a, pms1)" "hit f mem ptns S E i a"
    | pms1 where "finalize_all ?fin pms = Some (None, pms1)"
      "\<And>pm. pm \<in> set pms1 \<Longrightarrow> carried_fwd f mem ptns S (unat P + L) pm"
      "\<And>i a. hit f mem ptns S E i a \<Longrightarrow> unat a < unat P + q \<Longrightarrow> \<exists>pm \<in> set pms1. match_ea pm = a \<and> ptn_idx pm = i"
  proof (cases "pms = []")
    case True
    then show thesis using that(2) [of "[]"] t(1) by (simp add: tracked_fwd_def)
  next
    case False
    then have q: "q = 0" "tracked_fwd f mem ptns S E (unat P) pms" using t by simp_all
    show thesis
    proof (rule fwd_finalize_carry [OF assms(1,4,2) E(1,2) q(2)])
      fix pms1 assume "finalize_all ?fin pms = Some (None, pms1)"
        "\<And>pm. pm \<in> set pms1 \<Longrightarrow> carried_fwd f mem ptns S (unat P + L) pm"
        "\<And>i a. hit f mem ptns S E i a \<Longrightarrow> unat a < unat P \<Longrightarrow> \<exists>pm \<in> set pms1. match_ea pm = a \<and> ptn_idx pm = i"
      then show thesis using q(1) by (intro that(2)) simp_all
    qed (assumption, rule that(1))
  qed
  then show thesis
  proof cases
    case (1 a i pms1)
    have "fwd_page f ptns page P L q pms = Some (Some a, pms1)"
      unfolding fwd_page_def by (rule search_page_found [OF 1(1)])
    then show thesis using that(1) 1(2) by blast
  next
    case (2 pms1)
    obtain r pms' where x: "fwd_page f ptns page P L q pms = Some (r, pms')"
      "fwd_scanned f mem ptns P L (searched ptns \<times> {q..<L}) pms1 (r, pms')"
      using fwd_new [OF assms(1-4) 2(1)] by auto
    show thesis
    proof (cases r)
      case (Some a)
      then obtain i j where y: "i \<in> searched ptns" "q \<le> j" "j < L" "fwd_full f mem ptns P L (i, j)" "a = P + of_nat j"
        using x(2) by (auto simp: scanned_def fwd_pm_def)
      have "hit f mem ptns S E i a" unfolding y(5)
        by (rule fwd_full_hit [OF y(1,4) _ y(3) E(1)]) (use t(3) y(2) E in auto)
      then show thesis using that(1) x(1) Some by blast
    next
      case None
      have new: "\<not> fwd_full f mem ptns P L y" if "y \<in> searched ptns \<times> {q..<L}" for y
        using x(2) None that by (auto simp: scanned_def)
      have set: "set pms' = set pms1 \<union> fwd_pm P L ` {y \<in> searched ptns \<times> {q..<L}. fwd_pref f mem ptns P L y}"
        using x(2) None by (simp add: scanned_def)
      have "tracked_fwd f mem ptns S E (unat P + L) pms'"
        by (rule fwd_tracked_new [OF set new 2(2,3)]) (use assms(4) E t(3) in auto)
      then show thesis using that(2) x(1) None by blast
    qed
  qed
qed

section \<open>The loop over the pages\<close>

context debuggee
begin

lemma fwd_loop_spec:
  assumes wf: "\<And>i. i < length ptns \<Longrightarrow> wf_pat (ptns ! i)" and E: "unat end_ea \<le> 2 ^ 64 - PAGESZ"
    and "tracked_fwd f (mem w) ptns S (unat end_ea) (min (unat P + q) (unat end_ea)) (pmatches m)"
    and "pmatches m = [] \<or> q = 0" "S \<le> unat P + q" "P < end_ea \<Longrightarrow> unat P + q \<le> unat end_ea" "q < PAGESZ"
  shows "\<exists>r m' w'. fwd_loop D f ptns end_ea P q m w = Some (r, m', w') \<and>
    search_result D f mem w ptns S (unat end_ea) r m'"
  using assms(3-)
proof (induction "unat end_ea - unat P" arbitrary: P q m w rule: less_induct)
  case less
  note unf = fwd_loop.simps [of D f ptns end_ea P q m w]
  show ?case
  proof (cases "P < end_ea")
    case False
    then have "min (unat P + q) (unat end_ea) = unat end_ea" by (simp add: word_le_nat_alt not_less)
    then have "search_result D f mem w ptns S (unat end_ea) DRC_FAILED m"
      using less.prems(1) by (auto simp: search_result_def dest: tracked_fwd_done)
    then show ?thesis using False by (simp add: unf)
  next
    case True
    let ?L = "min (unat (end_ea - P)) PAGESZ"
    have L: "unat P + ?L = min (unat P + PAGESZ) (unat end_ea)" "q \<le> ?L" "unat P < unat end_ea"
      using True less.prems(4,5) by (auto simp: unat_sub word_less_nat_alt word_le_nat_alt)
    have P: "unat (P + of_nat PAGESZ) = unat P + PAGESZ" using L(3) E by (intro unat_add_of_nat) simp
    obtain c w1 where c: "test_cancelled D f w = (c, w1)" by fastforce
    obtain page w2 where r: "dbg_read_memory D w1 P PAGESZ = (page, w2)" by fastforce
    have later: "later D w w1" "later D w w2" using later_test [OF c] later_trans [OF later_read [OF r]] by blast+
    then have mem: "mem w1 = mem w" "mem w2 = mem w" by (blast intro: memory_fixed)+
    show ?thesis
    proof (cases "c \<or> length page \<noteq> PAGESZ")
      case stop: True
      note stops = search_stops [OF c r, of S "unat end_ea" m]
      show ?thesis using stop True stops L(3) less.prems(3,5) by (auto simp: unf c r search_result_def)
    next
      case False
      have page: "page_of (mem w) P page" using page_read [OF r] False mem by simp
      have t: "tracked_fwd f (mem w) ptns S (unat end_ea) (unat P + q) (pmatches m)"
        using less.prems(1,4) True by (simp add: min_def)
      have E': "unat P + ?L \<le> unat end_ea" "?L = PAGESZ \<or> unat P + ?L = unat end_ea" "unat end_ea \<le> 2 ^ 64"
        using L(1) E by (simp_all add: min_def split: if_splits)
      note spec = fwd_page_spec [OF page wf L(2) _ E' t less.prems(2,3)]
      show ?thesis
      proof (rule spec)
        fix a i pms'
        assume "fwd_page f ptns page P ?L q (pmatches m) = Some (Some a, pms')" "hit f (mem w) ptns S (unat end_ea) i a"
        then show ?thesis using True False by (auto simp: unf c r search_result_def Let_def)
      next
        fix pms'
        assume x: "fwd_page f ptns page P ?L q (pmatches m) = Some (None, pms')"
          "tracked_fwd f (mem w) ptns S (unat end_ea) (unat P + ?L) pms'"
        have "\<exists>r m' w'. fwd_loop D f ptns end_ea (P + of_nat PAGESZ) 0 (m\<lparr>pmatches := pms'\<rparr>) w2 = Some (r, m', w') \<and>
            search_result D f mem w2 ptns S (unat end_ea) r m'"
        proof (rule less.hyps)
          show "unat end_ea - unat (P + of_nat PAGESZ) < unat end_ea - unat P" using P L(3) by linarith
          show "tracked_fwd f (mem w2) ptns S (unat end_ea) (min (unat (P + of_nat PAGESZ) + 0) (unat end_ea)) (pmatches (m\<lparr>pmatches := pms'\<rparr>))"
            using x(2) L(1) P by (simp add: mem)
        qed (use P less.prems(3,5) in \<open>auto simp: word_less_nat_alt\<close>)
        then show ?thesis using True False x(1) search_result_later [OF _ later(2) mem(2)]
          by (auto simp: unf c r Let_def)
      qed simp_all
    qed
  qed
qed

lemma fwd_find_spec:
  assumes "\<And>i. i < length ptns \<Longrightarrow> wf_pat (ptns ! i)" "unat end_ea \<le> 2 ^ 64 - PAGESZ" "start_ea \<le> end_ea"
    and "pmatches m = []"
  shows "\<exists>r m' w'. fwd_find D f ptns start_ea end_ea m w = Some (r, m', w') \<and>
    search_result D f mem w ptns (unat start_ea) (unat end_ea) r m'"
proof -
  let ?P = "start_ea AND NOT 0xfff" and ?q = "unat (start_ea - (start_ea AND NOT 0xfff))"
  have q: "unat ?P + ?q = unat start_ea" "?q < PAGESZ" using page_align [of start_ea] by simp_all
  have se: "unat start_ea \<le> unat end_ea" using assms(3) by (simp add: word_le_nat_alt)
  have t: "tracked_fwd f (mem w) ptns (unat start_ea) (unat end_ea) (min (unat ?P + ?q) (unat end_ea)) (pmatches m)"
    unfolding q(1) min.absorb1 [OF se] assms(4) by (rule tracked_fwd_start)
  have "unat start_ea \<le> unat ?P + ?q" "unat ?P + ?q \<le> unat end_ea" using q(1) se by simp_all
  then show ?thesis
    unfolding fwd_find_def Let_def using fwd_loop_spec [OF assms(1,2) t disjI1 [OF assms(4)]] q(2) by blast
qed

end

end
