(* ===== verification/BinBackward.thy ===== *)
theory BinBackward
  imports BinProcess
begin

text \<open>
  The backward search is correct, like the forward one.  A candidate of a page is a pattern
  with the offset \<open>e\<close> of the page where it ends; \<open>k\<close> is \<open>page_off\<close>.
\<close>

section \<open>The scans of a page\<close>

definition bwd_ea :: "binpat list \<Rightarrow> ea \<Rightarrow> nat \<times> nat \<Rightarrow> ea" where
  "bwd_ea ptns P y = P + of_nat (snd y) - of_nat (pat_len (ptns ! fst y))"

definition bwd_full :: "u32 \<Rightarrow> (ea \<Rightarrow> u8) \<Rightarrow> binpat list \<Rightarrow> ea \<Rightarrow> nat \<Rightarrow> nat \<times> nat \<Rightarrow> bool" where
  "bwd_full f mem ptns P k y \<longleftrightarrow> pat_len (ptns ! fst y) \<le> snd y - k \<and>
     part f mem (ptns ! fst y) (bwd_ea ptns P y) 0 (pat_len (ptns ! fst y))"

definition bwd_pref :: "u32 \<Rightarrow> (ea \<Rightarrow> u8) \<Rightarrow> binpat list \<Rightarrow> ea \<Rightarrow> nat \<Rightarrow> nat \<times> nat \<Rightarrow> bool" where
  "bwd_pref f mem ptns P k y \<longleftrightarrow> snd y - k < pat_len (ptns ! fst y) \<and>
     part f mem (ptns ! fst y) (bwd_ea ptns P y) (pat_len (ptns ! fst y) - (snd y - k)) (pat_len (ptns ! fst y))"

definition bwd_pm :: "binpat list \<Rightarrow> ea \<Rightarrow> nat \<Rightarrow> nat \<times> nat \<Rightarrow> partmatch" where
  "bwd_pm ptns P k y = \<lparr>match_ea = bwd_ea ptns P y, ptn_idx = fst y, ptn_off = snd y - k\<rparr>"

lemma bwd_pm_pair:
  "bwd_pm ptns P k (i, e) =
    \<lparr>match_ea = P + of_nat e - of_nat (pat_len (ptns ! i)), ptn_idx = i, ptn_off = e - k\<rparr>"
  by (simp add: bwd_pm_def bwd_ea_def)

abbreviation bwd_scanned where
  "bwd_scanned f mem ptns P k \<equiv> scanned (bwd_full f mem ptns P k) (bwd_pref f mem ptns P k) (bwd_pm ptns P k)"

lemma bwd_min:
  "bwd_full f mem ptns P k (i, e) \<longleftrightarrow> pat_len (ptns ! i) \<le> e - k \<and>
     part f mem (ptns ! i) (bwd_ea ptns P (i, e)) (pat_len (ptns ! i) - min (e - k) (pat_len (ptns ! i))) (pat_len (ptns ! i))"
  "bwd_pref f mem ptns P k (i, e) \<longleftrightarrow> \<not> pat_len (ptns ! i) \<le> e - k \<and>
     part f mem (ptns ! i) (bwd_ea ptns P (i, e)) (pat_len (ptns ! i) - min (e - k) (pat_len (ptns ! i))) (pat_len (ptns ! i))"
  by (auto simp: bwd_full_def bwd_pref_def min.absorb1 min.absorb2)

lemmas bwd_one = scanned_one [where full = "bwd_full f mem ptns P k" and pref = "bwd_pref f mem ptns P k"
  and pm = "bwd_pm ptns P k" and y = "(i, e)" for f mem ptns P k i e]

text \<open>The last \<open>n\<close> bytes of a pattern that ends at \<open>e\<close>.\<close>

lemma bwd_ea_shift:
  "n \<le> e \<Longrightarrow> n \<le> pat_len (ptns ! i) \<Longrightarrow> bwd_ea ptns P (i, e) + of_nat (pat_len (ptns ! i) - n) = P + of_nat (e - n)"
  by (simp add: bwd_ea_def of_nat_diff algebra_simps)

lemma match_before_scanned:
  assumes "page_of mem P page" "\<And>i. i \<in> set js \<Longrightarrow> i < length ptns \<and> wf_pat (ptns ! i)" "k < e" "e \<le> PAGESZ"
  shows "\<exists>x. match_before f ptns page P k js e pms = Some x \<and> bwd_scanned f mem ptns P k (set js \<times> {e}) pms x"
  using assms(2)
proof (induction js arbitrary: pms)
  case Nil
  then show ?case by (simp add: scanned_empty)
next
  case (Cons i js)
  let ?ptn = "ptns ! i" and ?y = "(i, e)"
  let ?n = "min (e - k) (pat_len ?ptn)" and ?a = "bwd_ea ptns P (i, e)"
  have i: "elem_at ptns i = Some ?ptn" "wf_pat ?ptn" using Cons.prems [of i] by (simp_all add: elem_at_def)
  have n: "?n \<le> e" "?n \<le> pat_len ?ptn" "e - ?n + ?n \<le> PAGESZ" using assms(3,4) by auto
  have m: "match_pattern f page (e - ?n) ?ptn (pat_len ?ptn - ?n) ?n = Some (part f mem ?ptn ?a (pat_len ?ptn - ?n) (pat_len ?ptn))"
    using match_pattern_part [OF assms(1) i(2) n(3) _ bwd_ea_shift [OF n(1,2)], where f = f] n(2) by simp
  have R: "set (i # js) \<times> {e} = {?y} \<union> set js \<times> {e}" by auto
  note IH = Cons.IH [OF Cons.prems [OF list.set_intros(2)]]
  show ?case
  proof (cases "part f mem ?ptn ?a (pat_len ?ptn - ?n) (pat_len ?ptn)")
    case False
    then have "\<not> bwd_full f mem ptns P k ?y" "\<not> bwd_pref f mem ptns P k ?y" by (simp_all add: bwd_min)
    moreover obtain x where x: "match_before f ptns page P k js e pms = Some x" "bwd_scanned f mem ptns P k (set js \<times> {e}) pms x"
      using IH by blast
    ultimately have "bwd_scanned f mem ptns P k (set (i # js) \<times> {e}) pms x"
      unfolding R by (intro scanned_skip) auto
    then show ?thesis using x(1) False by (simp add: i m)
  next
    case True
    show ?thesis
    proof (cases "pat_len ?ptn \<le> e - k")
      case fits: True
      then have "bwd_full f mem ptns P k ?y" using True by (simp add: bwd_min)
      then have "bwd_scanned f mem ptns P k (set (i # js) \<times> {e}) pms (Some (match_ea (bwd_pm ptns P k ?y)), pms)"
        unfolding R by (intro scanned_found [OF bwd_one(1)]) auto
      moreover have "match_pattern f page (e - pat_len ?ptn) ?ptn 0 (pat_len ?ptn) = Some True"
        using m True fits by (simp add: min.absorb2)
      ultimately show ?thesis using fits by (simp add: i Let_def bwd_pm_pair min.absorb2)
    next
      case False
      then have y: "\<not> bwd_full f mem ptns P k ?y" "bwd_pref f mem ptns P k ?y" using True by (simp_all add: bwd_min)
      obtain x where x: "match_before f ptns page P k js e (pms @ [bwd_pm ptns P k ?y]) = Some x"
        "bwd_scanned f mem ptns P k (set js \<times> {e}) (pms @ [bwd_pm ptns P k ?y]) x"
        using IH by blast
      have "bwd_scanned f mem ptns P k (set (i # js) \<times> {e}) pms x"
        unfolding R by (rule scanned_union [OF bwd_one(3) [OF y] x(2)])
      moreover have "match_pattern f page (e - (e - k)) ?ptn (pat_len ?ptn - (e - k)) (e - k) = Some True"
        "min (e - k) (pat_len ?ptn) = e - k"
        using m True False by (simp_all add: min.absorb1)
      ultimately show ?thesis using x(1) False by (simp add: i Let_def bwd_pm_pair)
    qed
  qed
qed

lemma bwd_complex_scanned:
  assumes "page_of mem P page" "\<And>i. i \<in> set js \<Longrightarrow> i < length ptns \<and> wf_pat (ptns ! i)" "k + n \<le> PAGESZ"
  shows "\<exists>x. bwd_complex f ptns page P k js n (k + n) pms = Some x \<and> bwd_scanned f mem ptns P k (set js \<times> {k<..k + n}) pms x"
  using assms(3)
proof (induction n arbitrary: pms)
  case 0
  then show ?case by (simp add: scanned_empty)
next
  case (Suc n)
  have e: "k < k + Suc n" by simp
  have R: "set js \<times> {k<..k + Suc n} = set js \<times> {k + Suc n} \<union> set js \<times> {k<..k + n}" by force
  obtain r pms1 where x: "match_before f ptns page P k js (k + Suc n) pms = Some (r, pms1)"
    "bwd_scanned f mem ptns P k (set js \<times> {k + Suc n}) pms (r, pms1)"
    using match_before_scanned [OF assms(1,2) e Suc.prems, where f = f and pms = pms] by force
  show ?case
  proof (cases r)
    case None
    obtain z where z: "bwd_complex f ptns page P k js n (k + n) pms1 = Some z"
      "bwd_scanned f mem ptns P k (set js \<times> {k<..k + n}) pms1 z"
      using Suc.IH [of pms1] Suc.prems by auto
    have "bwd_scanned f mem ptns P k (set js \<times> {k<..k + Suc n}) pms z"
      unfolding R by (rule scanned_union [OF x(2) [unfolded None] z(2)])
    then show ?thesis using x(1) z(1) None by simp
  next
    case (Some a)
    have "bwd_scanned f mem ptns P k (set js \<times> {k<..k + Suc n}) pms (Some a, pms1)"
      by (rule scanned_found [OF x(2) [unfolded Some]]) auto
    then show ?thesis using x(1) Some by simp
  qed
qed

section \<open>Simple patterns\<close>

lemma memrchr_spec:
  assumes "i + n \<le> length xs"
  obtains "memrchr xs i c n = Some None" "\<And>j. i \<le> j \<Longrightarrow> j < i + n \<Longrightarrow> xs ! j \<noteq> c"
  | p where "memrchr xs i c n = Some (Some p)" "i \<le> p" "p < i + n" "xs ! p = c" "\<And>j. p < j \<Longrightarrow> j < i + n \<Longrightarrow> xs ! j \<noteq> c"
proof -
  have "memrchr xs i c n = Some None \<and> (\<forall>j. i \<le> j \<longrightarrow> j < i + n \<longrightarrow> xs ! j \<noteq> c) \<or>
    (\<exists>p. memrchr xs i c n = Some (Some p) \<and> i \<le> p \<and> p < i + n \<and> xs ! p = c \<and> (\<forall>j. p < j \<longrightarrow> j < i + n \<longrightarrow> xs ! j \<noteq> c))"
    using assms
  proof (induction n)
    case (Suc n)
    have e: "elem_at xs (i + n) = Some (xs ! (i + n))" using Suc.prems by (simp add: elem_at_def)
    show ?case
    proof (cases "xs ! (i + n) = c")
      case False
      have step: "j < Suc (i + n) \<longleftrightarrow> j = i + n \<or> j < i + n" for j by auto
      show ?thesis using Suc.IH Suc.prems False by (auto simp: e step)
    qed (simp add: e)
  qed simp
  then show thesis using that by blast
qed

text \<open>A pattern does not end where the last byte differs.\<close>

lemma bwd_no_last:
  assumes "page_of mem P page" "sense_case f" "all_bytes_defined (ptns ! i)" "pat_bytes (ptns ! i) \<noteq> []"
    and "k < e" "e \<le> PAGESZ" "page ! (e - 1) \<noteq> pat_bytes (ptns ! i) ! (pat_len (ptns ! i) - 1)"
  shows "\<not> bwd_full f mem ptns P k (i, e) \<and> \<not> bwd_pref f mem ptns P k (i, e)"
proof -
  let ?len = "pat_len (ptns ! i)"
  have "bwd_ea ptns P (i, e) + of_nat (?len - 1) = P + of_nat (e - 1)"
    using assms(4,5) by (intro bwd_ea_shift) (simp_all add: Suc_le_eq)
  moreover have "mem (P + of_nat (e - 1)) \<noteq> pat_bytes (ptns ! i) ! (?len - 1)"
    using assms(1,5-7) by (simp add: page_of_def)
  ultimately have "\<not> byte_ok f (ptns ! i) (?len - 1) (mem (bwd_ea ptns P (i, e) + of_nat (?len - 1)))"
    using assms(2,3) by (simp only: byte_ok_simple) simp
  then have "\<not> part f mem (ptns ! i) (bwd_ea ptns P (i, e)) n ?len" if "n < ?len" for n
    using that unfolding part_def by (metis Suc_diff_1 diff_less length_greater_0_conv assms(4) less_Suc_eq_le zero_less_one)
  then show ?thesis using assms(4,5) by (simp add: bwd_full_def bwd_pref_def)
qed

lemma bwd_simple_loop_scanned:
  assumes "page_of mem P page" "sense_case f" "all_bytes_defined (ptns ! i)" "pat_bytes (ptns ! i) \<noteq> []"
    and c: "c = pat_bytes (ptns ! i) ! (pat_len (ptns ! i) - 1)" and "k + rest \<le> PAGESZ"
  shows "\<exists>x. bwd_simple_loop page P k i (pat_bytes (ptns ! i)) c rest pms = Some x \<and>
    bwd_scanned f mem ptns P k ({i} \<times> {k<..k + rest}) pms x"
  using assms(6)
proof (induction rest arbitrary: pms rule: less_induct)
  case (less rest)
  let ?ptn = "ptns ! i"
  let ?b = "pat_bytes ?ptn"
  note none = bwd_no_last [where ptns = ptns, OF assms(1-4), folded c]
  show ?case
  proof (cases "0 < rest")
    case False
    then show ?thesis by (simp add: bwd_simple_loop.simps scanned_empty)
  next
    case True
    have len: "k + rest \<le> length page" using less.prems assms(1) by (simp add: page_of_def)
    show ?thesis
    proof (rule memrchr_spec [OF len, of c])
      assume m: "memrchr page k c rest = Some None" "\<And>j. k \<le> j \<Longrightarrow> j < k + rest \<Longrightarrow> page ! j \<noteq> c"
      have "page ! (e - 1) \<noteq> c" if "k < e" "e \<le> k + rest" for e using m(2) [of "e - 1"] that by simp
      then have "bwd_scanned f mem ptns P k ({i} \<times> {k<..k + rest} \<union> {}) pms (None, pms)"
        by (intro scanned_skip [OF scanned_empty]) (use none less.prems in auto)
      then show ?thesis using True m(1) by (simp add: bwd_simple_loop.simps)
    next
      fix p
      assume m: "memrchr page k c rest = Some (Some p)" "k \<le> p" "p < k + rest" "page ! p = c"
        "\<And>j. p < j \<Longrightarrow> j < k + rest \<Longrightarrow> page ! j \<noteq> c"
      let ?e = "p + 1"
      let ?n = "min (?e - k) (length ?b)" and ?y = "(i, ?e)"
      let ?a = "bwd_ea ptns P (i, ?e)"
      have n: "?n \<le> ?e" "?n \<le> pat_len ?ptn" "?e - ?n + ?n \<le> PAGESZ" using m(3) less.prems by auto
      have mc: "memcmp_eq page (?e - ?n) ?b (length ?b - ?n) ?n = Some (part f mem ?ptn ?a (length ?b - ?n) (length ?b))"
        using memcmp_part [OF assms(1-3) n(3) _ bwd_ea_shift [OF n(1,2)]] n(2) by simp
      have R: "{i} \<times> {k<..k + rest} = {i} \<times> {?e<..k + rest} \<union> ({?y} \<union> {i} \<times> {k<..k + (p - k)})" using m(2,3) by force
      have "page ! (e - 1) \<noteq> c" if "?e < e" "e \<le> k + rest" for e using m(5) [of "e - 1"] that by simp
      then have skip: "\<And>y. y \<in> {i} \<times> {?e<..k + rest} \<Longrightarrow> \<not> bwd_full f mem ptns P k y \<and> \<not> bwd_pref f mem ptns P k y"
        using none m(2) less.prems by auto
      have IH: "\<exists>x. bwd_simple_loop page P k i ?b c (p - k) pms' = Some x \<and>
          bwd_scanned f mem ptns P k ({i} \<times> {k<..k + (p - k)}) pms' x" for pms'
        by (rule less.IH) (use m less.prems in auto)
      have step: "bwd_simple_loop page P k i ?b c rest pms =
          (if part f mem ?ptn ?a (length ?b - ?n) (length ?b) \<and> length ?b \<le> ?e - k
           then Some (Some (match_ea (bwd_pm ptns P k ?y)), pms)
           else bwd_simple_loop page P k i ?b c (p - k)
             (if part f mem ?ptn ?a (length ?b - ?n) (length ?b)
              then pms @ [(bwd_pm ptns P k ?y) \<lparr>ptn_off := ?n\<rparr>] else pms))"
        unfolding bwd_simple_loop.simps [of page P k i ?b c rest pms] Let_def m(1) mc option.case if_P [OF True] bwd_pm_pair
        by (cases "part f mem ?ptn ?a (length ?b - ?n) (length ?b)") simp_all
      show ?thesis
      proof (cases "part f mem ?ptn ?a (length ?b - ?n) (length ?b)")
        case False
        then have "\<not> bwd_full f mem ptns P k ?y" "\<not> bwd_pref f mem ptns P k ?y" by (simp_all add: bwd_min)
        moreover obtain x where x: "bwd_simple_loop page P k i ?b c (p - k) pms = Some x"
          "bwd_scanned f mem ptns P k ({i} \<times> {k<..k + (p - k)}) pms x" using IH by blast
        ultimately have "bwd_scanned f mem ptns P k ({i} \<times> {k<..k + rest}) pms x"
          unfolding R by (intro scanned_skip [OF scanned_skip [OF x(2)]]) (use skip in auto)
        then show ?thesis unfolding step using False x(1) by simp
      next
        case eq: True
        show ?thesis
        proof (cases "length ?b \<le> ?e - k")
          case fits: True
          then have "bwd_full f mem ptns P k ?y" using eq by (simp add: bwd_min)
          then have "bwd_scanned f mem ptns P k ({i} \<times> {k<..k + rest}) pms (Some (match_ea (bwd_pm ptns P k ?y)), pms)"
            unfolding R by (intro scanned_found [OF bwd_one(1)]) auto
          then show ?thesis unfolding step using eq fits by simp
        next
          case False
          then have y: "\<not> bwd_full f mem ptns P k ?y" "bwd_pref f mem ptns P k ?y" using eq by (simp_all add: bwd_min)
          obtain x where x: "bwd_simple_loop page P k i ?b c (p - k) (pms @ [bwd_pm ptns P k ?y]) = Some x"
            "bwd_scanned f mem ptns P k ({i} \<times> {k<..k + (p - k)}) (pms @ [bwd_pm ptns P k ?y]) x" using IH by blast
          have "bwd_scanned f mem ptns P k ({i} \<times> {k<..k + rest}) pms x"
            unfolding R by (rule scanned_skip [OF scanned_union [OF bwd_one(3) [OF y] x(2)] skip])
          moreover have "(bwd_pm ptns P k ?y) \<lparr>ptn_off := ?n\<rparr> = bwd_pm ptns P k ?y"
            using False by (simp add: bwd_pm_pair)
          ultimately show ?thesis unfolding step using eq False x(1) by simp
        qed
      qed
    qed
  qed
qed

lemma bwd_simple_scanned:
  assumes "page_of mem P page" "sense_case f \<or> js = []"
    and "\<And>i. i \<in> set js \<Longrightarrow> i < length ptns \<and> all_bytes_defined (ptns ! i) \<and> pat_bytes (ptns ! i) \<noteq> []"
    and "k \<le> L" "L \<le> PAGESZ"
  shows "\<exists>x. bwd_simple ptns page P k js L pms = Some x \<and> bwd_scanned f mem ptns P k (set js \<times> {k<..L}) pms x"
  using assms(2,3)
proof (induction js arbitrary: pms)
  case Nil
  then show ?case by (simp add: scanned_empty)
next
  case (Cons i js)
  have i: "i < length ptns" "all_bytes_defined (ptns ! i)" "pat_bytes (ptns ! i) \<noteq> []" "sense_case f"
    using Cons.prems(1) Cons.prems(2) [of i] by auto
  define c where "c = pat_bytes (ptns ! i) ! (pat_len (ptns ! i) - 1)"
  have e: "elem_at ptns i = Some (ptns ! i)" "elem_at (pat_bytes (ptns ! i)) (pat_len (ptns ! i) - 1) = Some c"
    using i by (simp_all add: elem_at_def c_def)
  have R: "set (i # js) \<times> {k<..L} = {i} \<times> {k<..L} \<union> set js \<times> {k<..L}" by auto
  have kl: "k + (L - k) = L" "k + (L - k) \<le> PAGESZ" using assms(4,5) by simp_all
  obtain r pms1 where x: "bwd_simple_loop page P k i (pat_bytes (ptns ! i)) c (L - k) pms = Some (r, pms1)"
    "bwd_scanned f mem ptns P k ({i} \<times> {k<..L}) pms (r, pms1)"
    using bwd_simple_loop_scanned [OF assms(1) i(4,2,3) c_def kl(2), of pms] unfolding kl(1) by force
  show ?case
  proof (cases r)
    case None
    obtain z where z: "bwd_simple ptns page P k js L pms1 = Some z" "bwd_scanned f mem ptns P k (set js \<times> {k<..L}) pms1 z"
      using Cons.IH [of pms1] Cons.prems by auto
    have "bwd_scanned f mem ptns P k (set (i # js) \<times> {k<..L}) pms z"
      unfolding R by (rule scanned_union [OF x(2) [unfolded None] z(2)])
    then show ?thesis using x(1) z(1) None e by simp
  next
    case (Some a)
    have "bwd_scanned f mem ptns P k (set (i # js) \<times> {k<..L}) pms (Some a, pms1)"
      by (rule scanned_found [OF x(2) [unfolded Some]]) auto
    then show ?thesis using x(1) Some e by simp
  qed
qed

section \<open>The page\<close>

text \<open>
  The mirror of the forward search: a partial match agrees with the memory from \<open>Q\<close> on,
  and its beginning is still to be read.  Its address is known modulo \<open>2 ^ 64\<close> only,
  as it may lie before address 0.
\<close>

definition carried_bwd :: "u32 \<Rightarrow> (ea \<Rightarrow> u8) \<Rightarrow> binpat list \<Rightarrow> nat \<Rightarrow> nat \<Rightarrow> partmatch \<Rightarrow> bool" where
  "carried_bwd f mem ptns E Q pm \<longleftrightarrow> (let ptn = ptns ! ptn_idx pm in
     ptn_idx pm < length ptns \<and> 0 < ptn_off pm \<and> ptn_off pm < pat_len ptn \<and>
     match_ea pm + of_nat (pat_len ptn - ptn_off pm) = of_nat Q \<and> Q + ptn_off pm \<le> E \<and>
     part f mem ptn (match_ea pm) (pat_len ptn - ptn_off pm) (pat_len ptn))"

lemma carried_bwdD:
  assumes "carried_bwd f mem ptns E Q pm"
  shows "ptn_idx pm < length ptns" "0 < ptn_off pm" "ptn_off pm < pat_len (ptns ! ptn_idx pm)"
    "match_ea pm + of_nat (pat_len (ptns ! ptn_idx pm) - ptn_off pm) = of_nat Q" "Q + ptn_off pm \<le> E"
    "part f mem (ptns ! ptn_idx pm) (match_ea pm) (pat_len (ptns ! ptn_idx pm) - ptn_off pm) (pat_len (ptns ! ptn_idx pm))"
  using assms unfolding carried_bwd_def Let_def by blast+

definition tracked_bwd :: "u32 \<Rightarrow> (ea \<Rightarrow> u8) \<Rightarrow> binpat list \<Rightarrow> nat \<Rightarrow> nat \<Rightarrow> nat \<Rightarrow> partmatch list \<Rightarrow> bool" where
  "tracked_bwd f mem ptns S E Q pms \<longleftrightarrow> (\<forall>pm \<in> set pms. carried_bwd f mem ptns E Q pm) \<and>
     (\<forall>i a. hit f mem ptns S E i a \<longrightarrow> Q < unat a + pat_len (ptns ! i) \<longrightarrow>
       (\<exists>pm \<in> set pms. match_ea pm = a \<and> ptn_idx pm = i))"

lemma tracked_bwd_start: "tracked_bwd f mem ptns S E E []"
  by (auto simp: tracked_bwd_def hit_def)

text \<open>Inside the range, the address of a partial match is a number.\<close>

lemma carried_bwd_nat:
  assumes "carried_bwd f mem ptns E Q pm" "pat_len (ptns ! ptn_idx pm) - ptn_off pm \<le> Q" "E < 2 ^ 64"
  shows "unat (match_ea pm) = Q - (pat_len (ptns ! ptn_idx pm) - ptn_off pm)"
proof -
  let ?r = "pat_len (ptns ! ptn_idx pm) - ptn_off pm"
  note c = carried_bwdD [OF assms(1)]
  have "match_ea pm + of_nat ?r = of_nat Q" "Q < 2 ^ 64" using c(4,5) assms(3) by (blast, linarith)
  moreover from this have "match_ea pm = of_nat (Q - ?r)" using assms(2) by (simp add: of_nat_diff algebra_simps)
  ultimately show ?thesis by (simp add: unat_of_nat)
qed

lemma carried_bwd_hit:
  assumes "carried_bwd f mem ptns E Q pm" "hit f mem ptns S E (ptn_idx pm) (match_ea pm)" "E < 2 ^ 64"
  shows "unat (match_ea pm) + (pat_len (ptns ! ptn_idx pm) - ptn_off pm) = Q"
proof -
  let ?r = "pat_len (ptns ! ptn_idx pm) - ptn_off pm"
  have "unat (match_ea pm) + ?r < 2 ^ 64" using assms(2,3) unfolding hit_def by linarith
  then have "unat (match_ea pm + of_nat ?r) = unat (match_ea pm) + ?r" by (rule unat_add_of_nat)
  moreover have "match_ea pm + of_nat ?r = of_nat Q" "Q < 2 ^ 64"
    using carried_bwdD(4,5) [OF assms(1)] assms(3) by (blast, linarith)
  ultimately show ?thesis by (simp add: unat_of_nat)
qed

lemma tracked_bwd_done:
  assumes "tracked_bwd f mem ptns S E S pms" "E < 2 ^ 64"
  shows "\<not> hit f mem ptns S E i a"
proof
  assume h: "hit f mem ptns S E i a"
  then have S: "S < unat a + pat_len (ptns ! i)" "S \<le> unat a" by (auto simp: hit_def intro: add_le_less_mono [of S _ 0, simplified])
  from S(1) h obtain pm where pm: "pm \<in> set pms" "match_ea pm = a" "ptn_idx pm = i"
    using assms(1) unfolding tracked_bwd_def by blast
  have c: "carried_bwd f mem ptns E S pm" using assms(1) pm(1) by (simp add: tracked_bwd_def)
  have "unat a + (pat_len (ptns ! i) - ptn_off pm) = S"
    using carried_bwd_hit [OF c _ assms(2), of S] h pm by simp
  then show False using carried_bwdD(3) [OF c] S(2) pm(3) by simp
qed

lemma bwd_finalize_eq:
  assumes "page_of mem P page" "k \<le> PAGESZ" "carried_bwd f mem ptns E (unat P + PAGESZ) pm" "wf_pat (ptns ! ptn_idx pm)"
  shows "bwd_finalize f ptns page k pm = Some
    (let ptn = ptns ! ptn_idx pm; rest = pat_len ptn - ptn_off pm in
     if \<not> part f mem ptn (match_ea pm) (rest - min rest (PAGESZ - k)) (pat_len ptn) then (DRC_FAILED, pm)
     else if rest \<le> PAGESZ - k then (DRC_OK, pm)
     else if k \<noteq> 0 then (DRC_FAILED, pm)
     else (DRC_NONE, pm\<lparr>ptn_off := ptn_off pm + PAGESZ\<rparr>))"
proof -
  let ?ptn = "ptns ! ptn_idx pm"
  let ?rest = "pat_len ?ptn - ptn_off pm"
  let ?n = "min ?rest (PAGESZ - k)"
  have c: "ptn_idx pm < length ptns" "match_ea pm + of_nat ?rest = of_nat (unat P + PAGESZ)"
    "part f mem ?ptn (match_ea pm) ?rest (pat_len ?ptn)" using carried_bwdD [OF assms(3)] by blast+
  have n: "?n \<le> ?rest" "?n \<le> PAGESZ" "PAGESZ - ?n + ?n \<le> PAGESZ" "?rest - ?n + ?n \<le> pat_len ?ptn" by simp_all
  have a: "match_ea pm + of_nat (?rest - ?n) = P + of_nat (PAGESZ - ?n)"
    unfolding of_nat_diff [OF n(1)] of_nat_diff [OF n(2)] using c(2) by (simp add: algebra_simps)
  have "match_pattern f page (PAGESZ - ?n) ?ptn (?rest - ?n) ?n = Some (part f mem ?ptn (match_ea pm) (?rest - ?n) ?rest)"
    using match_pattern_part [OF assms(1,4) n(3,4) a, where f = f] unfolding le_add_diff_inverse2 [OF n(1)] .
  moreover have "part f mem ?ptn (match_ea pm) (?rest - ?n) (pat_len ?ptn) \<longleftrightarrow> part f mem ?ptn (match_ea pm) (?rest - ?n) ?rest"
    using part_split [of "?rest - ?n" ?rest "pat_len ?ptn" f mem ?ptn "match_ea pm"] c(3) by simp
  ultimately show ?thesis by (simp add: bwd_finalize_def elem_at_def c(1) Let_def)
qed

lemma bwd_finalize_carry:
  assumes "page_of mem P page" "k \<le> PAGESZ" "\<And>i. i < length ptns \<Longrightarrow> wf_pat (ptns ! i)"
    and S: "S \<le> unat P + k" "k = 0 \<or> unat P + k = S" "E < 2 ^ 64"
    and t: "tracked_bwd f mem ptns S E (unat P + PAGESZ) pms"
  obtains a i pms' where "finalize_all (bwd_finalize f ptns page k) pms = Some (Some a, pms')" "hit f mem ptns S E i a"
  | pms' where "finalize_all (bwd_finalize f ptns page k) pms = Some (None, pms')"
      "\<And>pm. pm \<in> set pms' \<Longrightarrow> carried_bwd f mem ptns E (unat P + k) pm"
      "\<And>i a. hit f mem ptns S E i a \<Longrightarrow> unat P + PAGESZ < unat a + pat_len (ptns ! i) \<Longrightarrow>
        \<exists>pm \<in> set pms'. match_ea pm = a \<and> ptn_idx pm = i"
proof -
  let ?fin = "bwd_finalize f ptns page k" and ?Q = "unat P + PAGESZ"
  have c: "carried_bwd f mem ptns E ?Q pm" "wf_pat (ptns ! ptn_idx pm)" if "pm \<in> set pms" for pm
    using t assms(3) that carried_bwdD(1) by (auto simp: tracked_bwd_def)
  note fin = bwd_finalize_eq [OF assms(1,2) c]
  have ex: "\<exists>r pm'. ?fin pm = Some (r, pm') \<and> match_ea pm' = match_ea pm" if "pm \<in> set pms" for pm
    by (simp add: fin [OF that that] Let_def)
  obtain r pms' where r: "finalize_all ?fin pms = Some (r, pms')"
    "\<And>a. r = Some a \<Longrightarrow> \<exists>pm \<in> set pms. \<exists>pm'. ?fin pm = Some (DRC_OK, pm') \<and> a = match_ea pm"
    "r = None \<Longrightarrow> (\<forall>pm \<in> set pms. \<forall>pm'. ?fin pm \<noteq> Some (DRC_OK, pm')) \<and>
       set pms' = {pm'. \<exists>pm \<in> set pms. ?fin pm = Some (DRC_NONE, pm')}"
    by (rule finalize_all_spec [of pms ?fin]) (erule ex, blast)
  show thesis
  proof (cases r)
    case (Some a)
    obtain pm pm' where pm: "pm \<in> set pms" "?fin pm = Some (DRC_OK, pm')" "a = match_ea pm" using r(2) Some by blast
    let ?rest = "pat_len (ptns ! ptn_idx pm) - ptn_off pm"
    have ok: "?rest \<le> PAGESZ - k" "part f mem (ptns ! ptn_idx pm) a (?rest - min ?rest (PAGESZ - k)) (pat_len (ptns ! ptn_idx pm))"
      using pm(2) unfolding fin [OF pm(1) pm(1)] pm(3) by (simp_all add: Let_def split: if_splits)
    have a: "unat a = ?Q - ?rest" unfolding pm(3) by (rule carried_bwd_nat [OF c(1) [OF pm(1)] _ S(3)]) (use ok(1) in simp)
    note d = carried_bwdD [OF c(1) [OF pm(1)]]
    have "hit f mem ptns S E (ptn_idx pm) a"
      unfolding hit_def using ok d(1-3,5) S(1) assms(2) a by (auto simp: min_def)
    then show thesis using that(1) r(1) Some by blast
  next
    case None
    have none: "?fin pm \<noteq> Some (DRC_OK, pm')" if "pm \<in> set pms" for pm pm' using r(3) None that by blast
    have left: "pm' \<in> set pms' \<longleftrightarrow> (\<exists>pm \<in> set pms. ?fin pm = Some (DRC_NONE, pm'))" for pm' using r(3) None by blast
    show thesis
    proof (rule that(2))
      show "finalize_all ?fin pms = Some (None, pms')" using r(1) None by simp
    next
      fix pm' assume "pm' \<in> set pms'"
      then obtain pm where pm: "pm \<in> set pms" "?fin pm = Some (DRC_NONE, pm')" using left by blast
      let ?rest = "pat_len (ptns ! ptn_idx pm) - ptn_off pm"
      have no: "k = 0" "PAGESZ < ?rest" "pm' = pm\<lparr>ptn_off := ptn_off pm + PAGESZ\<rparr>"
        "part f mem (ptns ! ptn_idx pm) (match_ea pm) (?rest - PAGESZ) (pat_len (ptns ! ptn_idx pm))"
        using pm(2) unfolding fin [OF pm(1) pm(1)] by (auto simp: Let_def min_def split: if_splits)
      note d = carried_bwdD [OF c(1) [OF pm(1)]]
      have le: "PAGESZ \<le> ?rest" using no(2) by simp
      have "match_ea pm + of_nat (?rest - PAGESZ) = of_nat (unat P)"
        using d(4) unfolding of_nat_diff [OF le] by (simp only: of_nat_add) (simp add: algebra_simps)
      then show "carried_bwd f mem ptns E (unat P + k) pm'"
        unfolding carried_bwd_def Let_def no(1,3) using d(1-3,5) no(2,4) by simp
    next
      fix i a assume h: "hit f mem ptns S E i a" "?Q < unat a + pat_len (ptns ! i)"
      then obtain pm where pm: "pm \<in> set pms" "match_ea pm = a" "ptn_idx pm = i" using t unfolding tracked_bwd_def by blast
      let ?rest = "pat_len (ptns ! i) - ptn_off pm"
      have p: "part f mem (ptns ! i) a (?rest - min ?rest (PAGESZ - k)) (pat_len (ptns ! i))"
        using h(1) by (auto simp: hit_def elim!: part_sub)
      have big: "\<not> ?rest \<le> PAGESZ - k"
        using none [OF pm(1), of pm] p by (auto simp: fin [OF pm(1) pm(1)] pm Let_def)
      have "unat a + ?rest = ?Q" using carried_bwd_hit [OF c(1) [OF pm(1)] _ S(3), of S] h(1) pm by simp
      moreover have "S \<le> unat a" using h(1) by (simp add: hit_def)
      ultimately have k: "k = 0" using S(2) big assms(2) by linarith
      have "?fin pm = Some (DRC_NONE, pm\<lparr>ptn_off := ptn_off pm + PAGESZ\<rparr>)"
        using pm(2,3) p big k unfolding fin [OF pm(1) pm(1)] by (simp add: Let_def)
      then have "pm\<lparr>ptn_off := ptn_off pm + PAGESZ\<rparr> \<in> set pms'" using pm(1) left by blast
      then show "\<exists>pm \<in> set pms'. match_ea pm = a \<and> ptn_idx pm = i" using pm(2,3)
        by (intro bexI [of _ "pm\<lparr>ptn_off := ptn_off pm + PAGESZ\<rparr>"]) simp_all
    qed
  qed
qed

lemma bwd_ea_nat:
  assumes "pat_len (ptns ! i) \<le> unat P + e" "unat P + e < 2 ^ 64"
  shows "unat (bwd_ea ptns P (i, e)) = unat P + e - pat_len (ptns ! i)"
proof -
  have "bwd_ea ptns P (i, e) = of_nat (unat P + e - pat_len (ptns ! i))"
    using assms(1) by (simp add: bwd_ea_def of_nat_diff)
  then show ?thesis using assms(2) by (simp add: unat_of_nat)
qed

lemma bwd_full_hit:
  assumes "i \<in> searched ptns" "bwd_full f mem ptns P k (i, e)" "S \<le> unat P + k" "k < e" "unat P + e \<le> E" "E < 2 ^ 64"
  shows "hit f mem ptns S E i (bwd_ea ptns P (i, e))"
proof -
  have "pat_len (ptns ! i) \<le> e - k" using assms(2) by (simp add: bwd_full_def)
  moreover from this have "unat (bwd_ea ptns P (i, e)) = unat P + e - pat_len (ptns ! i)" using assms(5,6) by (intro bwd_ea_nat) simp_all
  ultimately show ?thesis using assms(1-5) by (auto simp: hit_def bwd_full_def searched_def)
qed

lemma bwd_tracked_new:
  assumes set: "set pms' = set pms1 \<union> bwd_pm ptns P k ` {y \<in> searched ptns \<times> {k<..L}. bwd_pref f mem ptns P k y}"
    and new: "\<And>y. y \<in> searched ptns \<times> {k<..L} \<Longrightarrow> \<not> bwd_full f mem ptns P k y"
    and old: "\<And>pm. pm \<in> set pms1 \<Longrightarrow> carried_bwd f mem ptns E (unat P + k) pm"
      "\<And>i a. hit f mem ptns S E i a \<Longrightarrow> unat P + L < unat a + pat_len (ptns ! i) \<Longrightarrow> \<exists>pm \<in> set pms1. match_ea pm = a \<and> ptn_idx pm = i"
    and bounds: "unat P + L \<le> E" "E < 2 ^ 64"
  shows "tracked_bwd f mem ptns S E (unat P + k) pms'"
  unfolding tracked_bwd_def
proof (intro conjI ballI allI impI)
  fix pm assume "pm \<in> set pms'"
  then consider "pm \<in> set pms1"
    | i e where "pm = bwd_pm ptns P k (i, e)" "i \<in> searched ptns" "k < e" "e \<le> L" "bwd_pref f mem ptns P k (i, e)"
    using set by auto
  then show "carried_bwd f mem ptns E (unat P + k) pm"
  proof cases
    case (2 i e)
    have len: "e - k < pat_len (ptns ! i)" using 2(5) by (simp add: bwd_pref_def)
    have "bwd_ea ptns P (i, e) + of_nat (pat_len (ptns ! i) - (e - k)) = P + of_nat (e - (e - k))"
      using len by (intro bwd_ea_shift) simp_all
    then show ?thesis unfolding carried_bwd_def Let_def
      using 2 len bounds(1) by (simp add: bwd_pm_def bwd_pref_def searched_def)
  qed (rule old(1))
next
  fix i a assume h: "hit f mem ptns S E i a" "unat P + k < unat a + pat_len (ptns ! i)"
  show "\<exists>pm \<in> set pms'. match_ea pm = a \<and> ptn_idx pm = i"
  proof (cases "unat P + L < unat a + pat_len (ptns ! i)")
    case True
    then show ?thesis using old(2) [OF h(1)] set by blast
  next
    case False
    let ?e = "unat a + pat_len (ptns ! i) - unat P"
    have "(of_nat (unat P + ?e) :: ea) = of_nat (unat a + pat_len (ptns ! i))" using h(2) by simp
    then have a: "bwd_ea ptns P (i, ?e) = a" unfolding bwd_ea_def by (simp only: of_nat_add) (simp add: algebra_simps)
    have y: "(i, ?e) \<in> searched ptns \<times> {k<..L}" using h False by (auto simp: hit_def searched_def)
    have "part f mem (ptns ! i) a 0 (pat_len (ptns ! i))" using h(1) by (simp add: hit_def)
    then have "bwd_pref f mem ptns P k (i, ?e)"
      using new [OF y] a by (auto simp: bwd_full_def bwd_pref_def elim: part_sub)
    then have "bwd_pm ptns P k (i, ?e) \<in> set pms'" using set y by blast
    moreover have "match_ea (bwd_pm ptns P k (i, ?e)) = a" "ptn_idx (bwd_pm ptns P k (i, ?e)) = i" using a by (simp_all add: bwd_pm_def)
    ultimately show ?thesis by blast
  qed
qed

lemma bwd_new:
  assumes "page_of mem P page" "\<And>i. i < length ptns \<Longrightarrow> wf_pat (ptns ! i)" "k \<le> L" "L \<le> PAGESZ"
    and "finalize_all (bwd_finalize f ptns page k) pms = Some (None, pms1)"
  shows "\<exists>x. bwd_page f ptns page P k L pms = Some x \<and> bwd_scanned f mem ptns P k (searched ptns \<times> {k<..L}) pms1 x"
proof -
  let ?c = "complex_ptns f ptns" and ?s = "simple_ptns f ptns"
  have "\<exists>x. bwd_page f ptns page P k L pms = Some x \<and>
      bwd_scanned f mem ptns P k (set ?s \<times> {k<..L} \<union> set ?c \<times> {k<..L}) pms1 x"
    unfolding bwd_page_def
  proof (rule search_page_scanned [OF assms(5)])
    show "\<exists>x. bwd_simple ptns page P k ?s L pms1 = Some x \<and> bwd_scanned f mem ptns P k (set ?s \<times> {k<..L}) pms1 x"
      by (rule bwd_simple_scanned [OF assms(1) simple_ptns_case simple_ptns_mem assms(3,4)])
  next
    fix pms
    have "\<And>i. i \<in> set ?c \<Longrightarrow> i < length ptns \<and> wf_pat (ptns ! i)" using assms(2) by (simp add: complex_ptns_def)
    then have "\<exists>x. bwd_complex f ptns page P k ?c (L - k) (k + (L - k)) pms = Some x \<and>
        bwd_scanned f mem ptns P k (set ?c \<times> {k<..k + (L - k)}) pms x"
      using assms(3,4) by (intro bwd_complex_scanned [OF assms(1)]) simp_all
    then show "\<exists>x. (if ?c = [] then Some (None, pms) else bwd_complex f ptns page P k ?c (L - k) L pms) = Some x \<and>
        bwd_scanned f mem ptns P k (set ?c \<times> {k<..L}) pms x"
      using assms(3) by (auto simp: scanned_empty)
  qed
  then show ?thesis unfolding Sigma_Un_distrib1 [symmetric] searched_split .
qed

lemma bwd_page_spec:
  assumes "page_of mem P page" "\<And>i. i < length ptns \<Longrightarrow> wf_pat (ptns ! i)" "k \<le> L" "L \<le> PAGESZ"
    and S: "S \<le> unat P + k" "k = 0 \<or> unat P + k = S" and E: "unat P + L \<le> E" "E < 2 ^ 64"
    and t: "tracked_bwd f mem ptns S E (unat P + L) pms" "pms = [] \<or> L = PAGESZ"
  obtains a i pms' where "bwd_page f ptns page P k L pms = Some (Some a, pms')" "hit f mem ptns S E i a"
  | pms' where "bwd_page f ptns page P k L pms = Some (None, pms')" "tracked_bwd f mem ptns S E (unat P + k) pms'"
proof -
  let ?fin = "bwd_finalize f ptns page k"
  have k: "k \<le> PAGESZ" using assms(3,4) by simp
  consider a i pms1 where "finalize_all ?fin pms = Some (Some a, pms1)" "hit f mem ptns S E i a"
    | pms1 where "finalize_all ?fin pms = Some (None, pms1)"
      "\<And>pm. pm \<in> set pms1 \<Longrightarrow> carried_bwd f mem ptns E (unat P + k) pm"
      "\<And>i a. hit f mem ptns S E i a \<Longrightarrow> unat P + L < unat a + pat_len (ptns ! i) \<Longrightarrow>
        \<exists>pm \<in> set pms1. match_ea pm = a \<and> ptn_idx pm = i"
  proof (cases "pms = []")
    case True
    then show thesis using that(2) [of "[]"] t(1) by (simp add: tracked_bwd_def)
  next
    case False
    then have L: "L = PAGESZ" "tracked_bwd f mem ptns S E (unat P + PAGESZ) pms" using t by simp_all
    show thesis
    proof (rule bwd_finalize_carry [OF assms(1) k assms(2) S E(2) L(2)])
      fix pms1 assume "finalize_all ?fin pms = Some (None, pms1)"
        "\<And>pm. pm \<in> set pms1 \<Longrightarrow> carried_bwd f mem ptns E (unat P + k) pm"
        "\<And>i a. hit f mem ptns S E i a \<Longrightarrow> unat P + PAGESZ < unat a + pat_len (ptns ! i) \<Longrightarrow>
          \<exists>pm \<in> set pms1. match_ea pm = a \<and> ptn_idx pm = i"
      then show thesis using L(1) by (intro that(2)) simp_all
    qed (assumption, rule that(1))
  qed
  then show thesis
  proof cases
    case (1 a i pms1)
    have "bwd_page f ptns page P k L pms = Some (Some a, pms1)"
      unfolding bwd_page_def by (rule search_page_found [OF 1(1)])
    then show thesis using that(1) 1(2) by blast
  next
    case (2 pms1)
    obtain r pms' where x: "bwd_page f ptns page P k L pms = Some (r, pms')"
      "bwd_scanned f mem ptns P k (searched ptns \<times> {k<..L}) pms1 (r, pms')"
      using bwd_new [OF assms(1-4) 2(1)] by auto
    show thesis
    proof (cases r)
      case (Some a)
      then obtain i e where y: "i \<in> searched ptns" "k < e" "e \<le> L" "bwd_full f mem ptns P k (i, e)" "a = bwd_ea ptns P (i, e)"
        using x(2) by (auto simp: scanned_def bwd_pm_def)
      have "hit f mem ptns S E i a" unfolding y(5)
        by (rule bwd_full_hit [OF y(1,4) S(1) y(2) _ E(2)]) (use y(3) E(1) in simp)
      then show thesis using that(1) x(1) Some by blast
    next
      case None
      have new: "\<not> bwd_full f mem ptns P k y" if "y \<in> searched ptns \<times> {k<..L}" for y
        using x(2) None that by (auto simp: scanned_def)
      have set: "set pms' = set pms1 \<union> bwd_pm ptns P k ` {y \<in> searched ptns \<times> {k<..L}. bwd_pref f mem ptns P k y}"
        using x(2) None by (simp add: scanned_def)
      have "tracked_bwd f mem ptns S E (unat P + k) pms'"
        by (rule bwd_tracked_new [OF set new 2(2,3) E])
      then show thesis using that(2) x(1) None by blast
    qed
  qed
qed

section \<open>The loop over the pages\<close>

context debuggee
begin

lemma bwd_loop_stop:
  "\<not> start_ea < P + of_nat PAGESZ \<Longrightarrow> bwd_loop D f ptns start_ea P L m w = Some (DRC_FAILED, m, w)"
  by (simp add: bwd_loop.simps)

lemma bwd_loop_spec:
  assumes wf: "\<And>i. i < length ptns \<Longrightarrow> wf_pat (ptns ! i)" and E: "E < 2 ^ 64" and "4096 dvd unat P"
    and "start_ea < P + of_nat PAGESZ" "unat P + PAGESZ < 2 ^ 64" "unat P + L \<le> E" "unat start_ea < unat P + L"
    and "L \<le> PAGESZ" "tracked_bwd f (mem w) ptns (unat start_ea) E (unat P + L) (pmatches m)" "pmatches m = [] \<or> L = PAGESZ" "0 < L"
  shows "\<exists>r m' w'. bwd_loop D f ptns start_ea P L m w = Some (r, m', w') \<and>
    search_result D f mem w ptns (unat start_ea) E r m'"
  using assms(3-)
proof (induction "unat P" arbitrary: P L m w rule: less_induct)
  case less
  let ?S = "unat start_ea"
  let ?k = "if P < start_ea then unat (start_ea - P) else 0"
  note unf = bwd_loop.simps [of D f ptns start_ea P L m w]
  have k: "?k \<le> L" "?S \<le> unat P + ?k" "?k = 0 \<or> unat P + ?k = ?S"
    using less.prems(5) by (auto simp: unat_sub word_less_nat_alt word_le_nat_alt)
  obtain c w1 where c: "test_cancelled D f w = (c, w1)" by fastforce
  obtain page w2 where r: "dbg_read_memory D w1 P PAGESZ = (page, w2)" by fastforce
  have later: "later D w w1" "later D w w2" using later_test [OF c] later_trans [OF later_read [OF r]] by blast+
  then have mem: "mem w1 = mem w" "mem w2 = mem w" by (blast intro: memory_fixed)+
  show ?case
  proof (cases "c \<or> length page \<noteq> PAGESZ")
    case stop: True
    note stops = search_stops [OF c r, of ?S E m]
    show ?thesis using stop less.prems(2) stops less.prems(4-6,9) by (auto simp: unf c r search_result_def)
  next
    case False
    have page: "page_of (mem w) P page" using page_read [OF r] False mem by simp
    note spec = bwd_page_spec [OF page wf k(1) less.prems(6) k(2,3) less.prems(4) E less.prems(7,8)]
    show ?thesis
    proof (rule spec)
      fix a i pms'
      assume "bwd_page f ptns page P ?k L (pmatches m) = Some (Some a, pms')" "hit f (mem w) ptns ?S E i a"
      then show ?thesis using less.prems(2) False by (auto simp: unf c r search_result_def Let_def)
    next
      fix pms'
      assume x: "bwd_page f ptns page P ?k L (pmatches m) = Some (None, pms')"
        "tracked_bwd f (mem w) ptns ?S E (unat P + ?k) pms'"
      let ?P = "P - of_nat PAGESZ" and ?m = "m\<lparr>pmatches := pms'\<rparr>"
      have "\<exists>r m' w'. bwd_loop D f ptns start_ea ?P PAGESZ ?m w2 = Some (r, m', w') \<and>
          search_result D f mem w2 ptns ?S E r m'"
      proof (cases "start_ea < P")
        case False
        then have "unat P + ?k = ?S" using k(2,3) by (auto simp: word_less_nat_alt)
        then have "search_result D f mem w2 ptns ?S E DRC_FAILED ?m"
          using tracked_bwd_done [OF _ E] x(2) by (simp add: search_result_def mem)
        then show ?thesis using False by (simp add: bwd_loop_stop)
      next
        case True
        then have "0 < unat P" by (simp add: word_less_nat_alt)
        then have le: "PAGESZ \<le> unat P" using less.prems(1) by (intro dvd_imp_le) simp_all
        then have P: "unat ?P = unat P - PAGESZ" by (simp add: unat_sub word_le_nat_alt)
        have step: "unat P + ?k = unat ?P + PAGESZ" unfolding P using True le by auto
        show ?thesis
        proof (rule less.hyps)
          show "tracked_bwd f (mem w2) ptns ?S E (unat ?P + PAGESZ) (pmatches ?m)"
            using x(2) unfolding step mem(2) by simp
        qed (use le True less.prems(1,3,4) P in \<open>auto simp: word_less_nat_alt\<close>)
      qed
      then show ?thesis using less.prems(2) False x(1) search_result_later [OF _ later(2) mem(2)]
        by (auto simp: unf c r Let_def)
    qed simp_all
  qed
qed

lemma bwd_find_spec:
  assumes "\<And>i. i < length ptns \<Longrightarrow> wf_pat (ptns ! i)" "unat end_ea \<le> 2 ^ 64 - PAGESZ" "start_ea < end_ea"
    and "pmatches m = []"
  shows "\<exists>r m' w'. bwd_find D f ptns start_ea end_ea m w = Some (r, m', w') \<and>
    search_result D f mem w ptns (unat start_ea) (unat end_ea) r m'"
proof -
  let ?P = "(end_ea - 1) AND NOT 0xfff"
  have E: "unat (end_ea - 1) = unat end_ea - 1" "0 < unat end_ea" "unat start_ea < unat end_ea"
    using assms(3) by (auto simp: word_less_nat_alt unat_sub word_le_nat_alt)
  have q: "unat ?P + unat (end_ea - 1 - ?P) = unat end_ea - 1" "unat (end_ea - 1 - ?P) < PAGESZ" "4096 dvd unat ?P"
    using page_align [of "end_ea - 1"] E(1) by simp_all
  have "?P \<le> end_ea - 1" by (rule word_and_le2)
  then have "?P \<le> end_ea" using E q(1) by (simp add: word_le_nat_alt)
  then have L: "unat ?P + unat (end_ea - ?P) = unat end_ea" by (simp add: unat_sub word_le_nat_alt)
  then have "unat (end_ea - ?P) \<le> PAGESZ" "0 < unat (end_ea - ?P)" using q(1,2) E(2) by linarith+
  moreover obtain n where n: "unat ?P = PAGESZ * n" using q(3) by (elim dvdE)
  moreover have "unat ?P < 2 ^ 64 - PAGESZ" using q(1) E(2) assms(2) by linarith
  then have top: "unat ?P + PAGESZ < 2 ^ 64" by simp
  moreover have "start_ea < ?P + of_nat PAGESZ"
    using unat_add_of_nat [OF top] q(1,2) E(3) unfolding word_less_nat_alt by linarith
  moreover have "tracked_bwd f (mem w) ptns (unat start_ea) (unat end_ea) (unat ?P + unat (end_ea - ?P)) (pmatches m)"
    unfolding L assms(4) by (rule tracked_bwd_start)
  ultimately show ?thesis unfolding bwd_find_def Let_def
    using bwd_loop_spec [OF assms(1) _ q(3), of "unat end_ea"] E(3) L assms(4) unsigned_less [of end_ea, where 'a = nat] by simp
qed

end

end
