(* ===== verification/BinProps.thy ===== *)
theory BinProps
  imports BinForward BinBackward
begin

text \<open>
  Properties of the memory search.  A result is judged by \<open>search_result\<close>: an address
  that is reported is a \<open>hit\<close> inside the range, and failure means that there is none.
\<close>

section \<open>From the matchers to the search\<close>

text \<open>What the walks do with the one range that holds the addresses searched.\<close>

definition searched_range ::
    "'w debmod_ops \<Rightarrow> u32 \<Rightarrow> ('w \<Rightarrow> ea \<Rightarrow> u8) \<Rightarrow> 'w \<Rightarrow> binpat list \<Rightarrow> ea \<Rightarrow> ea \<Rightarrow> drc \<Rightarrow> matcher \<Rightarrow> bool" where
  "searched_range D f mem w ptns start_ea end_ea r m \<longleftrightarrow>
     search_result D f mem w ptns (unat start_ea) (unat end_ea) r m \<or>
     r = DRC_FAILED \<and> length (fst (dbg_read_memory D w start_ea 1)) \<noteq> 1"

context debuggee
begin

lemma search_memory_range_spec:
  assumes "\<And>w. \<exists>r m' w'. fnd start_ea end_ea m w = Some (r, m', w') \<and>
      search_result D f mem w ptns (unat start_ea) (unat end_ea) r m'"
  shows "\<exists>r m' w'. search_memory_range D fnd start_ea end_ea m w = Some (r, m', w') \<and>
    searched_range D f mem w ptns start_ea end_ea r m'"
proof -
  obtain bs w1 where r: "dbg_read_memory D w start_ea 1 = (bs, w1)" by fastforce
  have later: "later D w w1" by (rule later_read [OF r])
  obtain x m' w' where "fnd start_ea end_ea m w1 = Some (x, m', w')"
    "search_result D f mem w1 ptns (unat start_ea) (unat end_ea) x m'" using assms by blast
  then show ?thesis
    using search_result_later [OF _ later memory_fixed [OF later]]
    unfolding search_memory_range_def searched_range_def r Let_def
    by (cases "length bs = 1") auto
qed

lemma fwd_range_spec:
  assumes "\<And>i. i < length ptns \<Longrightarrow> wf_pat (ptns ! i)" "unat end_ea \<le> 2 ^ 64 - PAGESZ" "start_ea \<le> end_ea" "pmatches m = []"
  shows "\<exists>r m' w'. search_memory_range D (fwd_find D f ptns) start_ea end_ea m w = Some (r, m', w') \<and>
    searched_range D f mem w ptns start_ea end_ea r m'"
  by (rule search_memory_range_spec, rule fwd_find_spec) (use assms in auto)

lemma bwd_range_spec:
  assumes "\<And>i. i < length ptns \<Longrightarrow> wf_pat (ptns ! i)" "unat end_ea \<le> 2 ^ 64 - PAGESZ" "start_ea < end_ea" "pmatches m = []"
  shows "\<exists>r m' w'. search_memory_range D (bwd_find D f ptns) start_ea end_ea m w = Some (r, m', w') \<and>
    searched_range D f mem w ptns start_ea end_ea r m'"
  by (rule search_memory_range_spec, rule bwd_find_spec) (use assms in auto)

end

lemma search_memory_range_then:
  "(do { (r, m, w) \<leftarrow> search_memory_range D fnd a b m w;
         if r \<noteq> DRC_FAILED then Some (r, m, w) else Some (DRC_FAILED, m, w) }) = search_memory_range D fnd a b m w"
  by (cases "search_memory_range D fnd a b m w") (auto split: prod.splits)

lemma fwd_walk_rest_stop:
  assumes "\<And>r. r \<in> set rs \<Longrightarrow> srch_end < snd r"
  shows "fwd_walk_rest D f ptns srch_end rs m w = Some (DRC_FAILED, m, w)"
proof (cases rs)
  case (Cons r rs')
  then have "\<not> snd r \<le> srch_end" using assms [of r] by (simp add: not_le)
  then show ?thesis using Cons by simp
qed simp

lemma bwd_walk_rest_stop:
  assumes "\<And>r. r \<in> set rs \<Longrightarrow> snd r \<le> srch_start"
  shows "bwd_walk_rest D f ptns srch_start rs m w = Some (DRC_FAILED, m, w)"
proof (cases rs)
  case (Cons r rs')
  then have "\<not> srch_start < snd r" using assms [of r] by (simp add: not_less)
  then show ?thesis using Cons by simp
qed simp

lemma fwd_walk_one:
  assumes "\<And>r. r \<in> set pre \<Longrightarrow> fst r \<le> start_ea \<and> snd r \<le> start_ea" "lo \<le> start_ea" "start_ea < hi" "start_ea < end_ea"
    and "\<And>r. r \<in> set post \<Longrightarrow> end_ea < snd r"
  shows "fwd_walk D f ptns (pre @ (lo, hi) # post) start_ea end_ea m w =
    search_memory_range D (fwd_find D f ptns) start_ea (min end_ea hi) m w"
proof -
  have d: "dropWhile (\<lambda>r. \<not> range_contains r start_ea \<and> \<not> start_ea < fst r) (pre @ (lo, hi) # post) = (lo, hi) # post"
    using assms(1-3) by (subst dropWhile_append2) (auto simp: range_contains_def not_less)
  have "start_ea \<noteq> BADADDR" using assms(4) by (metis word_order.extremum not_le)
  moreover have "range_contains (lo, hi) start_ea" using assms(2,3) by (simp add: range_contains_def)
  ultimately show ?thesis
    unfolding fwd_walk_def d list.case Let_def
    by (simp add: fwd_walk_rest_stop [OF assms(5)] search_memory_range_then min_def not_le cong: if_cong) (auto simp: not_less)
qed

lemma bwd_walk_one:
  assumes "\<And>r. r \<in> set pre \<Longrightarrow> snd r \<le> start_ea" "lo \<le> start_ea" "start_ea < hi" "start_ea < end_ea"
    and "\<And>r. r \<in> set post \<Longrightarrow> end_ea \<le> fst r" "end_ea \<noteq> BADADDR"
  shows "bwd_walk D f ptns (pre @ (lo, hi) # post) start_ea end_ea m w =
    search_memory_range D (bwd_find D f ptns) start_ea (min end_ea hi) m w"
proof -
  have d: "dropWhile (\<lambda>r. \<not> fst r < end_ea) (rev (pre @ (lo, hi) # post)) = (lo, hi) # rev pre"
    using assms(2,4,5) by (simp add: dropWhile_append3 not_less)
  have e: "(if end_ea < snd (lo, hi) then end_ea else snd (lo, hi)) = min end_ea hi" by (auto simp: min_def)
  have "range_contains (lo, hi) start_ea" using assms(2,3) by (simp add: range_contains_def)
  moreover have stop: "bwd_walk_rest D f ptns start_ea (rev pre) m w = Some (DRC_FAILED, m, w)" for m w
    by (rule bwd_walk_rest_stop) (use assms(1) in simp)
  moreover have "min end_ea hi \<noteq> BADADDR" using assms(6) by (auto simp: min_def split: if_splits)
  ultimately show ?thesis
    unfolding bwd_walk_def d list.case Let_def e by (simp add: stop search_memory_range_then cong: if_cong)
qed

lemma below_bad: "unat e \<le> 2 ^ 64 - PAGESZ \<Longrightarrow> e \<noteq> BADADDR"
  by (auto simp: unsigned_minus_1_eq_mask mask_eq_exp_minus_1)

section \<open>The properties\<close>

text \<open>
  \<^bold>\<open>C31.\<close>  \<open>forward_matcher_t::find\<close> always returns, reads neither a page nor a
  pattern out of bounds, and is right: an address it reports holds a match inside the
  range, also one that crosses pages; when it reports failure there is none; and an error
  means a cancellation or a page that could not be read.
\<close>

theorem forward_find_correct:
  assumes "debuggee D mem" "\<forall>ptn \<in> set ptns. wf_pat ptn" "start_ea \<le> end_ea" "unat end_ea \<le> 2 ^ 64 - PAGESZ"
  shows "\<exists>r m w'. fwd_find D f ptns start_ea end_ea new_matcher w = Some (r, m, w') \<and>
    search_result D f mem w ptns (unat start_ea) (unat end_ea) r m"
  by (rule debuggee.fwd_find_spec [OF assms(1) _ assms(4,3)]) (use assms(2) in \<open>auto simp: new_matcher_def\<close>)

text \<open>\<^bold>\<open>C32.\<close>  So does and is \<open>backward_matcher_t::find\<close>.\<close>

theorem backward_find_correct:
  assumes "debuggee D mem" "\<forall>ptn \<in> set ptns. wf_pat ptn" "start_ea < end_ea" "unat end_ea \<le> 2 ^ 64 - PAGESZ"
  shows "\<exists>r m w'. bwd_find D f ptns start_ea end_ea new_matcher w = Some (r, m, w') \<and>
    search_result D f mem w ptns (unat start_ea) (unat end_ea) r m"
  by (rule debuggee.bwd_find_spec [OF assms(1) _ assms(4,3)]) (use assms(2) in \<open>auto simp: new_matcher_def\<close>)

text \<open>
  \<^bold>\<open>C33.\<close>  \<open>debmod_t::dbg_bin_search\<close>, in either direction: when one memory range of a
  sorted list holds all addresses asked for, the result is right, or the first byte could
  not be read and the range was skipped.
\<close>

theorem bin_search_in_range:
  assumes "debuggee D mem" "\<forall>ptn \<in> set ptns. wf_pat ptn" "ptns \<noteq> []"
    and "start_ea < end_ea" "unat end_ea \<le> 2 ^ 64 - PAGESZ"
    and "lo \<le> start_ea" "end_ea \<le> hi" "\<forall>r \<in> set pre. fst r \<le> snd r \<and> snd r \<le> lo" "\<forall>r \<in> set post. hi \<le> fst r \<and> fst r < snd r"
  shows "\<exists>r m w'. dbg_bin_search D False (pre @ (lo, hi) # post) start_ea end_ea ptns f w = Some (r, m, w') \<and>
    searched_range D f mem w ptns start_ea end_ea r m"
proof -
  have wf: "\<And>i. i < length ptns \<Longrightarrow> wf_pat (ptns ! i)" and m: "pmatches new_matcher = []"
    using assms(2) by (simp_all add: new_matcher_def)
  have pre: "fst r \<le> start_ea" "snd r \<le> start_ea" if "r \<in> set pre" for r using assms(6,8) that by fastforce+
  have post: "end_ea < snd r" "end_ea \<le> fst r" if "r \<in> set post" for r using assms(7,9) that by fastforce+
  have b: "start_ea < hi" "start_ea \<le> end_ea" "min end_ea hi = end_ea" "end_ea \<noteq> BADADDR"
    using assms(4,5,7) below_bad by (auto simp: min_def)
  have nle: "\<not> end_ea \<le> start_ea" using assms(4) by (simp add: not_le)
  note fwd = fwd_walk_one [where pre = pre and post = post, OF _ assms(6) b(1) assms(4), unfolded b(3)]
    and bwd = bwd_walk_one [where pre = pre and post = post, OF _ assms(6) b(1) assms(4) _ b(4), unfolded b(3)]
  show ?thesis
  proof (cases "search_backward f")
    case True
    then have "dbg_bin_search D False (pre @ (lo, hi) # post) start_ea end_ea ptns f w =
        search_memory_range D (bwd_find D f ptns) start_ea end_ea new_matcher w"
      using assms(3) nle pre post by (simp add: dbg_bin_search_def bwd)
    then show ?thesis using debuggee.bwd_range_spec [OF assms(1) wf assms(5,4) m] by simp
  next
    case False
    then have "dbg_bin_search D False (pre @ (lo, hi) # post) start_ea end_ea ptns f w =
        search_memory_range D (fwd_find D f ptns) start_ea end_ea new_matcher w"
      using assms(3) nle pre post by (simp add: dbg_bin_search_def fwd)
    then show ?thesis using debuggee.fwd_range_spec [OF assms(1) wf assms(5) b(2) m] by simp
  qed
qed

text \<open>
  The forward walk leaves its loop at a range that goes on after the end of
  the search (\<open>srch_end_ea >= p->end_ea\<close>), instead of searching its beginning: a
  match there is never found.
\<close>

theorem forward_walk_stops_early:
  assumes "debuggee D mem" "\<forall>ptn \<in> set ptns. wf_pat ptn" "ptns \<noteq> []" "\<not> search_backward f"
    and "a \<le> start_ea" "start_ea < b" "b \<le> c" "c < end_ea" "end_ea < d" "unat b \<le> 2 ^ 64 - PAGESZ"
    and "hit f (mem w) ptns (unat c) (unat end_ea) i found"
    and "\<forall>j x. \<not> hit f (mem w) ptns (unat start_ea) (unat b) j x"
  shows "\<exists>r m w'. dbg_bin_search D False [(a, b), (c, d)] start_ea end_ea ptns f w = Some (r, m, w') \<and> r \<noteq> DRC_OK"
proof -
  have se: "\<not> end_ea \<le> start_ea" "min end_ea b = b" "start_ea \<le> b" using assms(6-8) by (auto simp: min_def)
  have wf: "\<And>i. i < length ptns \<Longrightarrow> wf_pat (ptns ! i)" and m: "pmatches new_matcher = []"
    using assms(2) by (simp_all add: new_matcher_def)
  have "fwd_walk D f ptns ([] @ (a, b) # [(c, d)]) start_ea end_ea new_matcher w =
      search_memory_range D (fwd_find D f ptns) start_ea (min end_ea b) new_matcher w"
    by (rule fwd_walk_one) (use assms(5,6,9) se in auto)
  then have "dbg_bin_search D False [(a, b), (c, d)] start_ea end_ea ptns f w =
      search_memory_range D (fwd_find D f ptns) start_ea b new_matcher w"
    using assms(3,4) se by (simp add: dbg_bin_search_def)
  moreover obtain r m w' where "search_memory_range D (fwd_find D f ptns) start_ea b new_matcher w = Some (r, m, w')"
    "searched_range D f mem w ptns start_ea b r m"
    using debuggee.fwd_range_spec [OF assms(1) wf assms(10) se(3) m] by blast
  ultimately show ?thesis using assms(12) by (auto simp: searched_range_def search_result_def)
qed

text \<open>
  The backward walk searches the last range that begins before the end of the
  search without asking whether it ends before its start: it then searches that whole range,
  and what it reports lies outside the addresses asked for.
\<close>

theorem backward_walk_leaves_range:
  assumes "debuggee D mem" "\<forall>ptn \<in> set ptns. wf_pat ptn" "ptns \<noteq> []" "search_backward f"
    and "lo < hi" "hi \<le> start_ea" "start_ea < end_ea" "unat hi \<le> 2 ^ 64 - PAGESZ"
  shows "\<exists>r m w'. dbg_bin_search D False [(lo, hi)] start_ea end_ea ptns f w = Some (r, m, w') \<and>
    searched_range D f mem w ptns lo hi r m \<and> (r = DRC_OK \<longrightarrow> (\<exists>a. found_ea m = Some a \<and> a < start_ea))"
proof -
  have wf: "\<And>i. i < length ptns \<Longrightarrow> wf_pat (ptns ! i)" and m: "pmatches new_matcher = []"
    using assms(2) by (simp_all add: new_matcher_def)
  have "\<not> end_ea \<le> start_ea" "lo < end_ea" "\<not> end_ea < hi" "\<not> range_contains (lo, hi) start_ea" "hi \<noteq> BADADDR"
    using assms(5-8) below_bad by (auto simp: range_contains_def)
  then have "dbg_bin_search D False [(lo, hi)] start_ea end_ea ptns f w =
      search_memory_range D (bwd_find D f ptns) lo hi new_matcher w"
    using assms(3,4) by (simp add: dbg_bin_search_def bwd_walk_def search_memory_range_then Let_def cong: if_cong)
  moreover obtain r m w' where r: "search_memory_range D (bwd_find D f ptns) lo hi new_matcher w = Some (r, m, w')"
    "searched_range D f mem w ptns lo hi r m"
    using debuggee.bwd_range_spec [OF assms(1) wf assms(8,5) m] by blast
  moreover have "a < start_ea" if "hit f (mem w) ptns (unat lo) (unat hi) i a" for i a
  proof -
    have "0 < pat_len (ptns ! i)" "unat a + pat_len (ptns ! i) \<le> unat hi" using that by (simp_all add: hit_def)
    then show ?thesis using assms(6) unfolding word_less_nat_alt word_le_nat_alt by linarith
  qed
  then have "r = DRC_OK \<longrightarrow> (\<exists>a. found_ea m = Some a \<and> a < start_ea)"
    using r(2) by (auto simp: searched_range_def search_result_def)
  moreover have "dbg_bin_search D False [(lo, hi)] start_ea end_ea ptns f w = Some (r, m, w')"
    using calculation(1) r(1) by simp
  ultimately show ?thesis using r(2) by blast
qed

section \<open>Witnesses\<close>

definition pat_AB :: binpat where
  "pat_AB = \<lparr>pat_bytes = [0x41, 0x42], pat_mask = []\<rparr>"

definition two_ranges :: process where
  "two_ranges = \<lparr>cells = [(0x1000, 0x41), (0x3000, 0x42), (0x5000, 0x41), (0x5001, 0x42)], limit = 0x100000, patience = 0\<rparr>"

lemma pat_AB_simps [simp]: "pat_bytes pat_AB = [0x41, 0x42]" "wf_pat pat_AB" "all_bytes_defined pat_AB"
  by (simp_all add: pat_AB_def wf_pat_def all_bytes_defined_def)

lemma flags_simps [simp]:
  "sense_case 3" "sense_case 0x13" "\<not> check_break 3" "\<not> check_break 0x13" "\<not> search_backward 3" "search_backward 0x13"
  by (simp_all add: sense_case_def check_break_def search_backward_def)

lemma two_ranges_limit [simp]: "limit two_ranges = 0x100000"
  by (simp add: two_ranges_def)

lemma two_ranges_cell [simp]:
  "cell two_ranges 0x1000 = 0x41" "cell two_ranges 0x1001 = 0" "cell two_ranges 0x3000 = 0x42"
  "cell two_ranges 0x5000 = 0x41" "cell two_ranges 0x5001 = 0x42"
  by (simp_all add: two_ranges_def cell_def)

lemma hit_AB:
  "hit f mem [pat_AB] S E i a \<longleftrightarrow>
    i = 0 \<and> S \<le> unat a \<and> unat a + 2 \<le> E \<and> mem a = 0x41 \<and> mem (a + 1) = 0x42" if "sense_case f"
proof -
  have two: "(\<forall>j. j < Suc (Suc 0) \<longrightarrow> P j) \<longleftrightarrow> P 0 \<and> P (Suc 0)" for P :: "nat \<Rightarrow> bool"
    by (auto simp: less_Suc_eq)
  show ?thesis using that by (cases "i = 0") (simp_all add: hit_def part_def two byte_ok_simple)
qed

text \<open>The pattern is at \<open>0x5000\<close>, also for a search that begins in the page before.\<close>

lemma AB_at_5000:
  assumes "sense_case f" "unat lo \<le> 0x5000" "0x5002 \<le> unat hi"
  shows "hit f (cell two_ranges) [pat_AB] (unat (lo :: ea)) (unat (hi :: ea)) 0 0x5000"
  using assms by (simp add: hit_AB)

lemma AB_found:
  assumes "search_result process_ops f cell two_ranges [pat_AB] (unat (lo :: ea)) (unat (hi :: ea)) r m"
    and "sense_case f" "\<not> check_break f" "unat lo \<le> 0x5000" "0x5002 \<le> unat hi" "unat hi \<le> 0x10000"
  shows "r = DRC_OK"
  by (rule search_result_hit [OF assms(1) AB_at_5000 [OF assms(2,4,5)]])
    (use assms(6) in \<open>intro process_no_error [OF assms(3)], simp\<close>)

lemma AB_range_found:
  assumes "searched_range process_ops f cell two_ranges [pat_AB] lo hi r m"
    and "sense_case f" "\<not> check_break f" "unat lo \<le> 0x5000" "0x5002 \<le> unat hi" "unat hi \<le> 0x10000"
  shows "r = DRC_OK"
proof -
  have "length (read_cells two_ranges lo 1) = 1" using assms(4) by (intro read_cells_inside) simp
  then show ?thesis using assms(1) AB_found [OF _ assms(2-)] by (auto simp: searched_range_def)
qed

lemma forward_find_correct_witness:
  "\<exists>m w'. fwd_find process_ops 3 [pat_AB] 0x4fff 0x5002 new_matcher two_ranges = Some (DRC_OK, m, w')"
proof -
  obtain r m w' where r: "fwd_find process_ops 3 [pat_AB] 0x4fff 0x5002 new_matcher two_ranges = Some (r, m, w')"
    "search_result process_ops 3 cell two_ranges [pat_AB] (unat (0x4fff :: ea)) (unat (0x5002 :: ea)) r m"
    using forward_find_correct [OF process.debuggee_axioms, of "[pat_AB]" "0x4fff" "0x5002" 3 two_ranges] by auto
  then show ?thesis using AB_found [OF r(2)] by simp
qed

lemma backward_find_correct_witness:
  "\<exists>m w'. bwd_find process_ops 0x13 [pat_AB] 0x4fff 0x5002 new_matcher two_ranges = Some (DRC_OK, m, w')"
proof -
  obtain r m w' where r: "bwd_find process_ops 0x13 [pat_AB] 0x4fff 0x5002 new_matcher two_ranges = Some (r, m, w')"
    "search_result process_ops 0x13 cell two_ranges [pat_AB] (unat (0x4fff :: ea)) (unat (0x5002 :: ea)) r m"
    using backward_find_correct [OF process.debuggee_axioms, of "[pat_AB]" "0x4fff" "0x5002" "0x13" two_ranges] by auto
  then show ?thesis using AB_found [OF r(2)] by simp
qed

lemma bin_search_in_range_witness:
  "\<exists>m w'. dbg_bin_search process_ops False [(0x1000, 0x1001), (0x4000, 0x6000), (0x7000, 0x8000)] 0x4fff 0x5002 [pat_AB] 0x13 two_ranges =
    Some (DRC_OK, m, w')"
proof -
  obtain r m w' where r: "dbg_bin_search process_ops False ([(0x1000, 0x1001)] @ (0x4000, 0x6000) # [(0x7000, 0x8000)])
      0x4fff 0x5002 [pat_AB] 0x13 two_ranges = Some (r, m, w')"
    "searched_range process_ops 0x13 cell two_ranges [pat_AB] 0x4fff 0x5002 r m"
    using bin_search_in_range [OF process.debuggee_axioms, of "[pat_AB]" "0x4fff" "0x5002" "0x4000" "0x6000"
        "[(0x1000, 0x1001)]" "[(0x7000, 0x8000)]" "0x13" two_ranges] by auto
  then show ?thesis using AB_range_found [OF r(2)] by simp
qed

lemma forward_walk_stops_early_witness:
  "\<exists>r m w'. dbg_bin_search process_ops False [(0x1000, 0x1002), (0x5000, 0x6000)] 0x1000 0x5002 [pat_AB] 3 two_ranges =
    Some (r, m, w') \<and> r \<noteq> DRC_OK"
proof -
  have "x = 0x1000" if "unat x \<le> unat (0x1000 :: ea)" "unat (0x1000 :: ea) \<le> unat x" for x :: ea
    using that by (simp add: word_unat_eq_iff)
  then have "\<not> hit 3 (cell two_ranges) [pat_AB] (unat (0x1000 :: ea)) (unat (0x1002 :: ea)) j x" for j x
    by (cases "x = 0x1000") (auto simp: hit_AB)
  moreover have "hit 3 (cell two_ranges) [pat_AB] (unat (0x5000 :: ea)) (unat (0x5002 :: ea)) 0 0x5000"
    by (rule AB_at_5000) simp_all
  ultimately show ?thesis
    using forward_walk_stops_early [OF process.debuggee_axioms, of "[pat_AB]" 3 "0x1000" "0x1000" "0x1002" "0x5000" "0x5002" "0x6000"
        two_ranges 0 "0x5000"] by simp
qed

lemma backward_walk_leaves_range_witness:
  "\<exists>m w' a. dbg_bin_search process_ops False [(0x4000, 0x6000)] 0x8000 0x9000 [pat_AB] 0x13 two_ranges = Some (DRC_OK, m, w') \<and>
    found_ea m = Some a \<and> a < 0x8000"
proof -
  obtain r m w' where r: "dbg_bin_search process_ops False [(0x4000, 0x6000)] 0x8000 0x9000 [pat_AB] 0x13 two_ranges = Some (r, m, w')"
    "searched_range process_ops 0x13 cell two_ranges [pat_AB] 0x4000 0x6000 r m"
    "r = DRC_OK \<longrightarrow> (\<exists>a. found_ea m = Some a \<and> a < 0x8000)"
    using backward_walk_leaves_range [OF process.debuggee_axioms, of "[pat_AB]" "0x13" "0x4000" "0x6000" "0x8000" "0x9000" two_ranges]
    by auto
  then show ?thesis using AB_range_found [OF r(2)] by simp
qed

section \<open>A match across two ranges\<close>







end
