(* ===== verification/RegValue.thy ===== *)
theory RegValue
  imports Prelude "HOL-Library.Product_Lexorder"
begin

text \<open>
  The values of the register tracker, \<open>src/src/include/regfinder.hpp\<close>:
  \<open>reg_value_def_t\<close> and the accessors and setters of \<open>reg_value_base_t\<close>.

  Reading the first element of an empty vector is \<^const>\<open>None\<close>.  Values are 64-bit
  words; the signed members are words that are read with \<^const>\<open>sint\<close>.  The union of
  values and the printing are functions of the kernel and are left out.
\<close>

section \<open>Instructions\<close>

text \<open>The members of \<open>insn_t\<close> that the tracker reads.\<close>

record insn =
  insn_ea :: ea
  itype :: u16
  op2_type :: u8
  op3_type :: u8

definition o_void :: u8 where "o_void = 0"
definition o_imm :: u8 where "o_imm = 5"

section \<open>A value and its defining instruction\<close>

record reg_value_def =
  rval :: u64
  def_ea :: ea
  def_itype :: u16
  vflags :: u16

definition SHORT_INSN :: u16 where "SHORT_INSN = 0x0001"
definition PC_BASED :: u16 where "PC_BASED = 0x0010"
definition LIKE_GOT :: u16 where "LIKE_GOT = 0x0020"
definition HAD_DELTA :: u16 where "HAD_DELTA = 0x0040"

definition is_short_insn :: "insn \<Rightarrow> bool" where
  "is_short_insn insn \<longleftrightarrow> op2_type insn = o_imm \<and> op3_type insn = o_void"

definition def_at :: "u64 \<Rightarrow> ea \<Rightarrow> u16 \<Rightarrow> reg_value_def" where
  "def_at v a flags = \<lparr>rval = v, def_ea = a, def_itype = 0, vflags = flags\<rparr>"

definition def_insn :: "u64 \<Rightarrow> insn \<Rightarrow> u16 \<Rightarrow> reg_value_def" where
  "def_insn v insn flags = \<lparr>rval = v, def_ea = insn_ea insn, def_itype = itype insn,
     vflags = flags OR (if is_short_insn insn then SHORT_INSN else 0)\<rparr>"

definition def_eq :: "reg_value_def \<Rightarrow> reg_value_def \<Rightarrow> bool" where
  "def_eq d r \<longleftrightarrow> def_ea d = def_ea r \<and> rval d = rval r"

definition def_less :: "reg_value_def \<Rightarrow> reg_value_def \<Rightarrow> bool" where
  "def_less d r = (if def_ea d < def_ea r then True
                   else if def_ea r < def_ea d then False
                   else rval d < rval r)"

text \<open>Both operators compare the address and the value, in this order.\<close>

definition def_key :: "reg_value_def \<Rightarrow> ea \<times> u64" where
  "def_key d = (def_ea d, rval d)"

lemma def_eq_key: "def_eq d r \<longleftrightarrow> def_key d = def_key r"
  by (simp add: def_eq_def def_key_def)

lemma def_less_key: "def_less d r \<longleftrightarrow> def_key d < def_key r"
  by (auto simp: def_less_def def_key_def)

section \<open>Values of registers\<close>

datatype state_t =
    UNDEF | DEADEND | ABORTED | BADINSN | UNKINSN | UNKFUNC | UNKLOOP | UNKMULT | UNKXREF | UNKVALS
  | NUMINSN | NUMADDR | SPDINSN | SPDADDR | NUMLOOP

record reg_value =
  vals :: "reg_value_def list"
  state :: state_t
  stride :: u8

text \<open>The two constructors, and the default one, which is also what \<open>clear\<close> leaves.\<close>

definition value_at :: "state_t \<Rightarrow> ea \<Rightarrow> u64 \<Rightarrow> u16 \<Rightarrow> reg_value" where
  "value_at st a v flags = \<lparr>vals = [def_at v a flags], state = st, stride = 0\<rparr>"

definition value_insn :: "state_t \<Rightarrow> insn \<Rightarrow> u64 \<Rightarrow> u16 \<Rightarrow> reg_value" where
  "value_insn st insn v flags = \<lparr>vals = [def_insn v insn flags], state = st, stride = 0\<rparr>"

definition clear :: reg_value where
  "clear = \<lparr>vals = [], state = UNDEF, stride = 0\<rparr>"

definition make_dead_end :: "ea \<Rightarrow> reg_value" where "make_dead_end a = value_at DEADEND a BADADDR 0"
definition make_aborted :: "ea \<Rightarrow> u32 \<Rightarrow> reg_value" where "make_aborted a depth = value_at ABORTED a (ucast depth) 0"
definition make_badinsn :: "ea \<Rightarrow> reg_value" where "make_badinsn a = value_at BADINSN a BADADDR 0"
definition make_unkinsn :: "insn \<Rightarrow> reg_value" where "make_unkinsn insn = value_insn UNKINSN insn BADADDR 0"
definition make_unkfunc :: "ea \<Rightarrow> reg_value" where "make_unkfunc a = value_at UNKFUNC a BADADDR 0"
definition make_unkloop :: "ea \<Rightarrow> reg_value" where "make_unkloop a = value_at UNKLOOP a BADADDR 0"
definition make_unkmult :: "ea \<Rightarrow> reg_value" where "make_unkmult a = value_at UNKMULT a BADADDR 0"
definition make_unkxref :: "ea \<Rightarrow> reg_value" where "make_unkxref a = value_at UNKXREF a BADADDR 0"
definition make_unkvals :: "ea \<Rightarrow> reg_value" where "make_unkvals a = value_at UNKVALS a BADADDR 0"
definition make_num_insn :: "u64 \<Rightarrow> insn \<Rightarrow> u16 \<Rightarrow> reg_value" where "make_num_insn v insn flags = value_insn NUMINSN insn v flags"
definition make_num_at :: "u64 \<Rightarrow> ea \<Rightarrow> u16 \<Rightarrow> reg_value" where "make_num_at v a flags = value_at NUMADDR a v flags"
definition make_initial_sp :: "ea \<Rightarrow> reg_value" where "make_initial_sp a = value_at SPDADDR a 0 0"

subsection \<open>Accessors\<close>

definition is_empty :: "reg_value \<Rightarrow> bool" where "is_empty v \<longleftrightarrow> state v = UNDEF"
definition is_dead_end :: "reg_value \<Rightarrow> bool" where "is_dead_end v \<longleftrightarrow> state v = DEADEND"
definition aborted :: "reg_value \<Rightarrow> bool" where "aborted v \<longleftrightarrow> state v = ABORTED"
definition is_special :: "reg_value \<Rightarrow> bool" where "is_special v \<longleftrightarrow> is_dead_end v \<or> aborted v"

definition is_unknown :: "reg_value \<Rightarrow> bool" where
  "is_unknown v \<longleftrightarrow> state v = BADINSN \<or> state v = UNKINSN \<or> state v = UNKFUNC \<or> state v = UNKLOOP \<or>
     state v = UNKMULT \<or> state v = UNKXREF \<or> state v = UNKVALS"

definition is_num :: "reg_value \<Rightarrow> bool" where "is_num v \<longleftrightarrow> state v = NUMINSN \<or> state v = NUMADDR"
definition is_spd :: "reg_value \<Rightarrow> bool" where "is_spd v \<longleftrightarrow> state v = SPDINSN \<or> state v = SPDADDR"
definition is_known :: "reg_value \<Rightarrow> bool" where "is_known v \<longleftrightarrow> is_num v \<or> is_spd v"
definition is_numloop :: "reg_value \<Rightarrow> bool" where "is_numloop v \<longleftrightarrow> state v = NUMLOOP"

definition get_def_ea :: "reg_value \<Rightarrow> ea" where
  "get_def_ea v = (case vals v of [d] \<Rightarrow> def_ea d | _ \<Rightarrow> BADADDR)"

definition get_def_itype :: "reg_value \<Rightarrow> u16" where
  "get_def_itype v = (case vals v of [d] \<Rightarrow> def_itype d | _ \<Rightarrow> 0)"

definition get_aborting_depth :: "reg_value \<Rightarrow> u32" where
  "get_aborting_depth v = (if \<not> aborted v then - 1 else case vals v of [d] \<Rightarrow> ucast (rval d) | _ \<Rightarrow> - 1)"

definition set_def_itype_for_mov :: "reg_value \<Rightarrow> insn \<Rightarrow> bool \<times> reg_value" where
  "set_def_itype_for_mov v insn = (case vals v of
     [d] \<Rightarrow>
       if def_ea d \<noteq> insn_ea insn \<or> def_itype d \<noteq> 0 then (False, v)
       else if state v = NUMADDR then (True, v\<lparr>state := NUMINSN, vals := [d\<lparr>def_itype := itype insn\<rparr>]\<rparr>)
       else if state v = SPDADDR then (True, v\<lparr>state := SPDINSN, vals := [d\<lparr>def_itype := itype insn\<rparr>]\<rparr>)
       else (False, v)
   | _ \<Rightarrow> (False, v))"

definition is_value_unique :: "reg_value \<Rightarrow> bool option" where
  "is_value_unique v =
    (if is_empty v then Some False
     else if length (vals v) = 1 then Some True
     else case vals v of
       [] \<Rightarrow> None
     | p # ps \<Rightarrow> Some (\<forall>q \<in> set ps. rval q = rval p))"

definition have_all_vals_flag :: "reg_value \<Rightarrow> u16 \<Rightarrow> bool" where
  "have_all_vals_flag v flags \<longleftrightarrow> (\<forall>p \<in> set (vals v). vflags p AND flags \<noteq> 0)"

definition has_any_vals_flag :: "reg_value \<Rightarrow> u16 \<Rightarrow> bool" where
  "has_any_vals_flag v flags \<longleftrightarrow> (\<exists>p \<in> set (vals v). vflags p AND flags \<noteq> 0)"

definition set_all_vals_flag :: "reg_value \<Rightarrow> u16 \<Rightarrow> reg_value" where
  "set_all_vals_flag v flags = v\<lparr>vals := map (\<lambda>p. p\<lparr>vflags := vflags p OR flags\<rparr>) (vals v)\<rparr>"

subsection \<open>Setters\<close>

text \<open>Each of them overwrites all three members.\<close>

definition set_value :: "state_t \<Rightarrow> reg_value_def \<Rightarrow> reg_value \<Rightarrow> reg_value" where
  "set_value st d v = v\<lparr>state := st, stride := 0, vals := [d]\<rparr>"

definition set_dead_end :: "reg_value \<Rightarrow> ea \<Rightarrow> reg_value" where "set_dead_end v a = set_value DEADEND (def_at BADADDR a 0) v"
definition set_badinsn :: "reg_value \<Rightarrow> ea \<Rightarrow> reg_value" where "set_badinsn v a = set_value BADINSN (def_at BADADDR a 0) v"
definition set_unkinsn :: "reg_value \<Rightarrow> insn \<Rightarrow> reg_value" where "set_unkinsn v insn = set_value UNKINSN (def_insn BADADDR insn 0) v"
definition set_unkfunc :: "reg_value \<Rightarrow> ea \<Rightarrow> reg_value" where "set_unkfunc v a = set_value UNKFUNC (def_at BADADDR a 0) v"
definition set_unkloop :: "reg_value \<Rightarrow> ea \<Rightarrow> reg_value" where "set_unkloop v a = set_value UNKLOOP (def_at BADADDR a 0) v"
definition set_unkmult :: "reg_value \<Rightarrow> ea \<Rightarrow> reg_value" where "set_unkmult v a = set_value UNKMULT (def_at BADADDR a 0) v"
definition set_unkxref :: "reg_value \<Rightarrow> ea \<Rightarrow> reg_value" where "set_unkxref v a = set_value UNKXREF (def_at BADADDR a 0) v"
definition set_unkvals :: "reg_value \<Rightarrow> ea \<Rightarrow> reg_value" where "set_unkvals v a = set_value UNKVALS (def_at BADADDR a 0) v"
definition set_aborted :: "reg_value \<Rightarrow> ea \<Rightarrow> u32 \<Rightarrow> reg_value" where
  "set_aborted v a depth = set_value ABORTED (def_at (ucast depth) a 0) v"
definition set_num_insn :: "reg_value \<Rightarrow> u64 \<Rightarrow> insn \<Rightarrow> u16 \<Rightarrow> reg_value" where
  "set_num_insn v x insn flags = set_value NUMINSN (def_insn x insn flags) v"
definition set_num_at :: "reg_value \<Rightarrow> u64 \<Rightarrow> ea \<Rightarrow> u16 \<Rightarrow> reg_value" where
  "set_num_at v x a flags = set_value NUMADDR (def_at x a flags) v"

text \<open>
  \<open>loop_stride\<close> is a 32-bit \<open>int\<close>; a stride that an \<open>int8\<close> does not hold is refused.
\<close>

definition set_numloop :: "reg_value \<Rightarrow> u32 \<Rightarrow> reg_value" where
  "set_numloop v loop_stride =
    (if \<not> is_num v \<or> loop_stride = 0 \<or> loop_stride \<noteq> scast (ucast loop_stride :: u8) then v
     else v\<lparr>state := NUMLOOP, stride := ucast loop_stride\<rparr>)"

end
