(* ===== verification/RegArith.thy ===== *)
theory RegArith
  imports RegValue
begin

text \<open>
  The operations of \<open>reg_value_base_t\<close> that emulate instructions.  \<open>extend_sign\<close>
  is a function of the kernel and the parameter \<open>ext\<close>; shifting a 64-bit number by 64 or
  more is undefined behaviour, \<^const>\<open>None\<close>.
\<close>

section \<open>Sets of values\<close>

text \<open>\<open>std::unique\<close> keeps the first of each group of equal neighbours.\<close>

fun std_unique :: "('a \<Rightarrow> 'a \<Rightarrow> bool) \<Rightarrow> 'a list \<Rightarrow> 'a list" where
  "std_unique eq (x # y # xs) = (if eq x y then std_unique eq (x # xs) else x # std_unique eq (y # xs))"
| "std_unique eq xs = xs"

text \<open>
  \<open>std::sort\<close> leaves the order of equal elements open; here it is stable, which only the
  instruction code and the flags of an element that appears twice can show.
\<close>

definition sort_defs :: "reg_value_def list \<Rightarrow> reg_value_def list" where
  "sort_defs ds = sort_key def_key ds"

definition sort_multivals :: "reg_value \<Rightarrow> reg_value" where
  "sort_multivals v = v\<lparr>vals := std_unique def_eq (sort_defs (vals v))\<rparr>"

definition set_multivals :: "reg_value \<Rightarrow> u64 list \<Rightarrow> insn \<Rightarrow> reg_value" where
  "set_multivals v rvals insn = v\<lparr>vals := map (\<lambda>x. def_insn x insn 0) (std_unique (=) (sort rvals))\<rparr>"

definition set_num_vals :: "reg_value \<Rightarrow> u64 list \<Rightarrow> insn \<Rightarrow> reg_value" where
  "set_num_vals v rvals insn = (set_multivals v rvals insn)\<lparr>state := NUMINSN, stride := 0\<rparr>"

text \<open>\<open>is_pow2\<close> holds of 0 too.\<close>

definition is_mask :: "reg_value \<Rightarrow> bool option" where
  "is_mask v =
    (if \<not> is_num v then Some False
     else do {
       u \<leftarrow> is_value_unique v;
       if \<not> u then Some False
       else case vals v of
         [] \<Rightarrow> None
       | d # _ \<Rightarrow> Some ((rval d + 1 - 1) AND (rval d + 1) = 0 \<and> rval d \<le> 0x1f) })"

section \<open>Binary operations\<close>

datatype arith_op =
    aop_ADD | aop_SUB | aop_OR | aop_AND | aop_XOR | aop_AND_NOT | aop_SLL | aop_SLR | aop_SAR | aop_MOVT
  | aop_NEG | aop_NOT

fun binary_result :: "arith_op \<Rightarrow> u64 \<Rightarrow> u64 \<Rightarrow> u64 option" where
  "binary_result aop_ADD a b = Some (a + b)"
| "binary_result aop_SUB a b = Some (a - b)"
| "binary_result aop_OR a b = Some (a OR b)"
| "binary_result aop_AND a b = Some (a AND b)"
| "binary_result aop_XOR a b = Some (a XOR b)"
| "binary_result aop_AND_NOT a b = Some (a AND NOT b)"
| "binary_result aop_MOVT a b = Some ((a AND 0xffff) OR push_bit 16 (b AND 0xffff))"
| "binary_result aop_SLL a b = Some (if b < 64 then push_bit (unat b) a else 0)"
| "binary_result aop_SLR a b = Some (if b < 64 then drop_bit (unat b) a else 0)"
| "binary_result aop_SAR a b = Some (signed_drop_bit (if b < 64 then unat b else 63) a)"
| "binary_result _ a b = None"

text \<open>The loop of \<open>perform_binary_op\<close>; \<^const>\<open>None\<close> is its \<open>return false\<close>.\<close>

fun binary_results :: "arith_op \<Rightarrow> bool \<Rightarrow> u64 \<Rightarrow> reg_value_def list \<Rightarrow> u64 list option" where
  "binary_results aop single_lhs sv [] = Some []"
| "binary_results aop single_lhs sv (p # ps) = do {
     res \<leftarrow> (if single_lhs then binary_result aop sv (rval p) else binary_result aop (rval p) sv);
     rs \<leftarrow> binary_results aop single_lhs sv ps;
     Some (res # rs) }"

definition first_val :: "reg_value \<Rightarrow> u64 option" where
  "first_val v = (case vals v of [] \<Rightarrow> None | d # _ \<Rightarrow> Some (rval d))"

definition perform_binary_op :: "reg_value \<Rightarrow> reg_value \<Rightarrow> arith_op \<Rightarrow> insn \<Rightarrow> (bool \<times> reg_value) option" where
  "perform_binary_op v r aop insn = do {
     r_unique \<leftarrow> is_value_unique r;
     v_unique \<leftarrow> (if r_unique then Some False else is_value_unique v);
     if \<not> r_unique \<and> \<not> v_unique then Some (False, v)
     else do {
       let mv = (if r_unique then v else r);
       sv \<leftarrow> first_val (if r_unique then r else v);
       Some (case binary_results aop (\<not> r_unique) sv (vals mv) of
               None \<Rightarrow> (False, v)
             | Some rvals \<Rightarrow> (True, set_multivals v rvals insn)) } }"

text \<open>The end of most operations: the state on success, or the value that says nothing.\<close>

definition perform_binary_op_for_nums :: "reg_value \<Rightarrow> reg_value \<Rightarrow> arith_op \<Rightarrow> insn \<Rightarrow> reg_value option" where
  "perform_binary_op_for_nums v r aop insn =
    (if is_numloop v \<or> is_numloop r then Some (set_unkloop v (insn_ea insn))
     else if is_num v \<and> is_num r then do {
       (ok, v) \<leftarrow> perform_binary_op v r aop insn;
       Some (if ok then v\<lparr>state := NUMINSN\<rparr> else set_unkinsn v insn) }
     else Some (set_unkinsn v insn))"

definition give_up :: "reg_value \<Rightarrow> reg_value \<Rightarrow> insn \<Rightarrow> reg_value" where
  "give_up v r insn = (if is_numloop v \<or> is_numloop r then set_unkloop v (insn_ea insn) else set_unkinsn v insn)"

definition rv_add :: "reg_value \<Rightarrow> reg_value \<Rightarrow> insn \<Rightarrow> reg_value option" where
  "rv_add v r insn =
    (if is_numloop v \<and> is_num r \<or> is_num v \<and> is_numloop r then do {
       (ok, v) \<leftarrow> perform_binary_op v r aop_ADD insn;
       Some (if ok then (if is_numloop r then v\<lparr>state := state r, stride := stride r\<rparr> else v)
             else give_up v r insn) }
     else if is_spd v \<and> is_num r \<or> is_num v \<and> is_spd r \<or> is_num v \<and> is_num r then do {
       (ok, v) \<leftarrow> perform_binary_op v r aop_ADD insn;
       Some (if ok then v\<lparr>state := if is_spd v \<or> is_spd r then SPDINSN else NUMINSN\<rparr>
             else give_up v r insn) }
     else Some (give_up v r insn))"

definition rv_sub :: "reg_value \<Rightarrow> reg_value \<Rightarrow> insn \<Rightarrow> reg_value option" where
  "rv_sub v r insn =
    (if is_numloop v \<and> is_num r then do {
       (ok, v) \<leftarrow> perform_binary_op v r aop_SUB insn;
       Some (if ok then v else give_up v r insn) }
     else if is_spd v \<and> is_num r \<or> is_spd v \<and> is_spd r \<or> is_num v \<and> is_num r then do {
       (ok, v) \<leftarrow> perform_binary_op v r aop_SUB insn;
       Some (if ok then v\<lparr>state := if is_spd v \<and> is_num r then SPDINSN else NUMINSN\<rparr>
             else give_up v r insn) }
     else Some (give_up v r insn))"

definition rv_bor :: "reg_value \<Rightarrow> reg_value \<Rightarrow> insn \<Rightarrow> reg_value option" where
  "rv_bor v r insn = perform_binary_op_for_nums v r aop_OR insn"

definition rv_band :: "reg_value \<Rightarrow> reg_value \<Rightarrow> insn \<Rightarrow> reg_value option" where
  "rv_band v r insn = do {
     m \<leftarrow> (if is_spd v then is_mask r else Some False);
     if m \<or> is_num v \<and> is_num r then do {
       (ok, v) \<leftarrow> perform_binary_op v r aop_AND insn;
       Some (if ok then v\<lparr>state := NUMINSN\<rparr> else set_unkinsn v insn) }
     else Some (set_unkinsn v insn) }"

definition rv_bxor :: "reg_value \<Rightarrow> reg_value \<Rightarrow> insn \<Rightarrow> reg_value option" where
  "rv_bxor v r insn = perform_binary_op_for_nums v r aop_XOR insn"

definition rv_bandnot :: "reg_value \<Rightarrow> reg_value \<Rightarrow> insn \<Rightarrow> reg_value option" where
  "rv_bandnot v r insn = do {
     m \<leftarrow> (if is_spd v then is_mask r else Some False);
     if m \<or> is_num v \<and> is_num r then do {
       (ok, v) \<leftarrow> perform_binary_op v r aop_AND_NOT insn;
       Some (if ok then v\<lparr>state := if is_spd v then SPDINSN else NUMINSN\<rparr> else set_unkinsn v insn) }
     else Some (set_unkinsn v insn) }"

definition rv_sll :: "reg_value \<Rightarrow> reg_value \<Rightarrow> insn \<Rightarrow> reg_value option" where
  "rv_sll v r insn = perform_binary_op_for_nums v r aop_SLL insn"

definition rv_slr :: "reg_value \<Rightarrow> reg_value \<Rightarrow> insn \<Rightarrow> reg_value option" where
  "rv_slr v r insn = perform_binary_op_for_nums v r aop_SLR insn"

definition rv_sar :: "reg_value \<Rightarrow> reg_value \<Rightarrow> insn \<Rightarrow> reg_value option" where
  "rv_sar v r insn = perform_binary_op_for_nums v r aop_SAR insn"

definition rv_movt :: "reg_value \<Rightarrow> reg_value \<Rightarrow> insn \<Rightarrow> reg_value option" where
  "rv_movt v r insn = perform_binary_op_for_nums v r aop_MOVT insn"

section \<open>Unary operations\<close>

definition rv_neg :: "reg_value \<Rightarrow> insn \<Rightarrow> reg_value" where
  "rv_neg v insn =
    (if is_num v then (set_multivals v (map (\<lambda>p. 0 - rval p) (vals v)) insn)\<lparr>state := NUMINSN\<rparr>
     else if is_numloop v then set_unkloop v (insn_ea insn)
     else set_unkinsn v insn)"

definition rv_bnot :: "reg_value \<Rightarrow> insn \<Rightarrow> reg_value" where
  "rv_bnot v insn =
    (if is_num v then (set_multivals v (map (\<lambda>p. NOT (rval p)) (vals v)) insn)\<lparr>state := NUMINSN\<rparr>
     else if is_numloop v then set_unkloop v (insn_ea insn)
     else set_unkinsn v insn)"

definition rv_add_num_insn :: "reg_value \<Rightarrow> u64 \<Rightarrow> insn \<Rightarrow> reg_value" where
  "rv_add_num_insn v r insn =
    (if \<not> is_known v \<and> \<not> is_numloop v \<or> r = 0 then v
     else let v = set_multivals v (map (\<lambda>p. rval p + r) (vals v)) insn in
       if \<not> is_numloop v then v\<lparr>state := if is_spd v then SPDINSN else NUMINSN\<rparr> else v)"

section \<open>Operations in place\<close>

definition map_vals :: "(u64 \<Rightarrow> u64) \<Rightarrow> reg_value \<Rightarrow> reg_value" where
  "map_vals g v = v\<lparr>vals := map (\<lambda>p. p\<lparr>rval := g (rval p)\<rparr>) (vals v)\<rparr>"

definition rv_add_num :: "reg_value \<Rightarrow> u64 \<Rightarrow> reg_value" where
  "rv_add_num v r =
    (if \<not> is_known v \<and> \<not> is_numloop v \<or> r = 0 then v else sort_multivals (map_vals (\<lambda>x. x + r) v))"

definition first_def_ea :: "reg_value \<Rightarrow> ea option" where
  "first_def_ea v = (case vals v of [] \<Rightarrow> None | d # _ \<Rightarrow> Some (def_ea d))"

text \<open>
  \<open>stride << r\<close> and \<open>stride >> r\<close> are \<open>int\<close>s, that is 32-bit words; \<open>int8(...)\<close>
  truncates.
\<close>

definition stride32 :: "reg_value \<Rightarrow> u32" where
  "stride32 v = scast (stride v)"

definition int8_of :: "u32 \<Rightarrow> u32" where
  "int8_of x = scast (ucast x :: u8)"

definition rv_shift_left :: "reg_value \<Rightarrow> u64 \<Rightarrow> reg_value option" where
  "rv_shift_left v r =
    (if \<not> is_known v \<and> \<not> is_numloop v \<or> r = 0 then Some v
     else if is_numloop v \<and> (7 < r \<or> signed_drop_bit (unat r) (int8_of (push_bit (unat r) (stride32 v))) \<noteq> stride32 v)
     then do { a \<leftarrow> first_def_ea v; Some (set_unkloop v a) }
     else do {
       let v = (if is_numloop v then v\<lparr>stride := ucast (push_bit (unat r) (stride32 v))\<rparr> else v);
       if 64 \<le> r \<and> vals v \<noteq> [] then None
       else Some (sort_multivals (map_vals (push_bit (unat r)) v)) })"

definition rv_shift_right :: "(u64 \<Rightarrow> int \<Rightarrow> bool \<Rightarrow> u64) \<Rightarrow> reg_value \<Rightarrow> u64 \<Rightarrow> int \<Rightarrow> reg_value option" where
  "rv_shift_right ext v r nbytes =
    (if \<not> is_known v \<and> \<not> is_numloop v \<or> r = 0 then Some v
     else if is_numloop v \<and> (7 < r \<or> push_bit (unat r) (signed_drop_bit (unat r) (stride32 v)) \<noteq> stride32 v)
     then do { a \<leftarrow> first_def_ea v; Some (set_unkloop v a) }
     else do {
       let v = (if is_numloop v then v\<lparr>stride := ucast (signed_drop_bit (unat r) (stride32 v))\<rparr> else v);
       if 64 \<le> r \<and> vals v \<noteq> [] then None
       else Some (sort_multivals (map_vals
         (\<lambda>x. if nbytes \<noteq> 0 then signed_drop_bit (unat r) (ext x nbytes True) else drop_bit (unat r) x) v)) })"

definition rv_extend :: "(u64 \<Rightarrow> int \<Rightarrow> bool \<Rightarrow> u64) \<Rightarrow> reg_value \<Rightarrow> int \<Rightarrow> bool \<Rightarrow> reg_value" where
  "rv_extend ext v width is_signed =
    (if \<not> is_known v \<and> \<not> is_numloop v then v
     else sort_multivals (map_vals (\<lambda>x. ext x width is_signed) v))"

definition rv_truncate :: "(u64 \<Rightarrow> int \<Rightarrow> bool \<Rightarrow> u64) \<Rightarrow> reg_value \<Rightarrow> int \<Rightarrow> int \<Rightarrow> int \<Rightarrow> reg_value" where
  "rv_truncate ext v width slotsize addrsize =
    (if \<not> is_known v \<and> \<not> is_numloop v then v
     else let is_signed = is_spd v;
              width' = (if width = 0 then (if is_spd v then addrsize else slotsize) else width) in
       if width' = 0 then v
       else sort_multivals (map_vals (\<lambda>x. ext x width' is_signed) v))"

section \<open>Reading a value\<close>

text \<open>\<open>false\<close> is the inner \<^const>\<open>None\<close>.\<close>

definition get_unique :: "(u64 \<Rightarrow> int \<Rightarrow> bool \<Rightarrow> u64) \<Rightarrow> reg_value \<Rightarrow> bool \<Rightarrow> int \<Rightarrow> bool \<Rightarrow> u64 option option" where
  "get_unique ext v ok width is_signed =
    (if width = 0 \<or> \<not> ok then Some None
     else do {
       u \<leftarrow> is_value_unique v;
       if \<not> u then Some None
       else do { x \<leftarrow> first_val v; Some (Some (ext x width is_signed)) } })"

definition get_num :: "(u64 \<Rightarrow> int \<Rightarrow> bool \<Rightarrow> u64) \<Rightarrow> reg_value \<Rightarrow> int \<Rightarrow> u64 option option" where
  "get_num ext v slotsize = get_unique ext v (is_num v) slotsize False"

definition get_addr :: "(u64 \<Rightarrow> int \<Rightarrow> bool \<Rightarrow> u64) \<Rightarrow> reg_value \<Rightarrow> int \<Rightarrow> u64 option option" where
  "get_addr ext v addrsize = get_unique ext v (is_num v) addrsize False"

definition get_spd :: "(u64 \<Rightarrow> int \<Rightarrow> bool \<Rightarrow> u64) \<Rightarrow> reg_value \<Rightarrow> int \<Rightarrow> u64 option option" where
  "get_spd ext v addrsize = get_unique ext v (is_spd v) addrsize True"

end
