(* ===== verification/RegSound.thy ===== *)
theory RegSound
  imports RegArith
begin

text \<open>
  What an abstract value says of the contents of a register, \<open>denotes\<close>, and the
  well-formedness of values: the operations keep it and are sound.
\<close>

section \<open>Meaning and well-formedness\<close>

text \<open>
  \<open>sp0\<close> is the stack pointer at the start of the function.  A number is one of the
  values; a stack delta one of the values above \<open>sp0\<close>; a loop value starts at one of
  the values and has gone round the loop some times.  No execution reaches a dead end, and
  every other state says nothing.
\<close>

definition nums :: "reg_value \<Rightarrow> u64 set" where
  "nums v = rval ` set (vals v)"

definition denotes :: "u64 \<Rightarrow> reg_value \<Rightarrow> u64 set" where
  "denotes sp0 v =
    (if is_num v then nums v
     else if is_spd v then (\<lambda>d. sp0 + d) ` nums v
     else if is_numloop v then {x + of_nat k * scast (stride v) |x k. x \<in> nums v}
     else if is_dead_end v then {} else UNIV)"

definition wf_value :: "reg_value \<Rightarrow> bool" where
  "wf_value v \<longleftrightarrow>
     (vals v = [] \<longleftrightarrow> is_empty v) \<and> (\<not> is_known v \<longrightarrow> \<not> is_numloop v \<longrightarrow> length (vals v) \<le> 1) \<and>
     sorted_wrt (<) (map def_key (vals v)) \<and> (stride v = 0 \<longleftrightarrow> \<not> is_numloop v)"

lemmas state_defs = is_num_def is_spd_def is_known_def is_numloop_def is_dead_end_def is_empty_def

section \<open>Sorting\<close>

lemma std_unique_eq: "std_unique (=) xs = remdups_adj xs"
  by (induction "(=) :: 'a \<Rightarrow> 'a \<Rightarrow> bool" xs rule: std_unique.induct) simp_all

lemma map_std_unique: "map def_key (std_unique def_eq ds) = remdups_adj (map def_key ds)"
  by (induction def_eq ds rule: std_unique.induct) (simp_all add: def_eq_key)

lemma sorted_remdups: "sorted xs \<Longrightarrow> sorted_wrt (<) (remdups_adj (xs :: 'a::linorder list))"
proof (induction xs rule: remdups_adj.induct)
  case (3 x y xs)
  then show ?case by (cases "x = y") auto
qed simp_all

lemma std_unique_nonempty [simp]: "std_unique eq xs = [] \<longleftrightarrow> xs = []"
  by (induction eq xs rule: std_unique.induct) simp_all

lemma sort_key_Nil [simp]: "sort_key g xs = [] \<longleftrightarrow> xs = []"
  by (metis set_empty set_sort)

lemma sort_defs_simps [simp]: "set (sort_defs ds) = set ds" "sort_defs ds = [] \<longleftrightarrow> ds = []"
  "sorted (map def_key (sort_defs ds))"
  by (simp_all add: sort_defs_def)

text \<open>\<open>sort_multivals\<close> and \<open>set_multivals\<close> leave a strictly sorted list of the same numbers.\<close>

lemma sort_multivals_simps [simp]:
  "state (sort_multivals v) = state v" "stride (sort_multivals v) = stride v"
  "vals (sort_multivals v) = [] \<longleftrightarrow> vals v = []"
  "sorted_wrt (<) (map def_key (vals (sort_multivals v)))"
  "nums (sort_multivals v) = nums v"
proof -
  have "def_key ` set (vals (sort_multivals v)) = def_key ` set (vals v)"
    using arg_cong [OF map_std_unique [of "sort_defs (vals v)"], of set] by (simp add: sort_multivals_def)
  from arg_cong [OF this, of "image snd"] show "nums (sort_multivals v) = nums v"
    by (simp add: nums_def image_image def_key_def)
qed (simp_all add: sort_multivals_def map_std_unique sorted_remdups)

lemma set_multivals_simps [simp]:
  "state (set_multivals v xs insn) = state v" "stride (set_multivals v xs insn) = stride v"
  "vals (set_multivals v xs insn) = [] \<longleftrightarrow> xs = []"
  "sorted_wrt (<) (map def_key (vals (set_multivals v xs insn)))"
  "nums (set_multivals v xs insn) = set xs"
proof -
  have "sorted_wrt (<) (remdups_adj (sort xs))" by (simp add: sorted_remdups)
  then show "sorted_wrt (<) (map def_key (vals (set_multivals v xs insn)))"
    by (simp add: set_multivals_def std_unique_eq def_insn_def def_key_def sorted_wrt_map)
qed (simp_all add: set_multivals_def std_unique_eq nums_def def_insn_def image_image)

section \<open>Operations on two values\<close>

definition binary :: "arith_op \<Rightarrow> bool" where
  "binary aop \<longleftrightarrow> aop \<noteq> aop_NEG \<and> aop \<noteq> aop_NOT"

definition bin :: "arith_op \<Rightarrow> u64 \<Rightarrow> u64 \<Rightarrow> u64" where
  "bin aop a b = the (binary_result aop a b)"

lemma binary_result_some: "binary aop \<Longrightarrow> binary_result aop a b = Some (bin aop a b)"
  by (cases aop) (simp_all add: binary_def bin_def)

lemma binary_results_eq:
  "binary aop \<Longrightarrow> binary_results aop s sv ps = Some (map (\<lambda>p. if s then bin aop sv (rval p) else bin aop (rval p) sv) ps)"
  by (induction ps) (simp_all add: binary_result_some)

lemma unique_value:
  assumes "vals v \<noteq> []" "\<not> is_empty v"
  obtains x where "is_value_unique v = Some True" "nums v = {x}" "first_val v = Some x"
  | "is_value_unique v = Some False"
proof -
  obtain d ds where v: "vals v = d # ds" using assms(1) by (cases "vals v") auto
  have "is_value_unique v = Some (\<forall>q \<in> set ds. rval q = rval d)"
    using assms(2) v by (auto simp: is_value_unique_def)
  moreover have "nums v = {rval d}" if "\<forall>q \<in> set ds. rval q = rval d" using that v by (auto simp: nums_def)
  ultimately show thesis using that v by (cases "\<forall>q \<in> set ds. rval q = rval d") (auto simp: first_val_def)
qed

text \<open>When one side has a single value, the results are those of all pairs.\<close>

lemma perform_binary_op_spec:
  assumes "vals v \<noteq> []" "\<not> is_empty v" "vals r \<noteq> []" "\<not> is_empty r" "binary aop"
  obtains "perform_binary_op v r aop insn = Some (False, v)"
  | xs where "perform_binary_op v r aop insn = Some (True, set_multivals v xs insn)" "xs \<noteq> []"
      "set xs = (\<lambda>(a, b). bin aop a b) ` (nums v \<times> nums r)"
proof (rule unique_value [OF assms(3,4)])
  fix y assume r: "is_value_unique r = Some True" "nums r = {y}" "first_val r = Some y"
  show thesis
    by (rule that(2) [of "map (\<lambda>p. bin aop (rval p) y) (vals v)"])
      (use assms(1,5) r in \<open>auto simp: perform_binary_op_def binary_results_eq nums_def\<close>)
next
  assume r: "is_value_unique r = Some False"
  show thesis
  proof (rule unique_value [OF assms(1,2)])
    fix x assume v: "is_value_unique v = Some True" "nums v = {x}" "first_val v = Some x"
    show thesis
      by (rule that(2) [of "map (\<lambda>p. bin aop x (rval p)) (vals r)"])
        (use assms(3,5) r v in \<open>auto simp: perform_binary_op_def binary_results_eq nums_def\<close>)
  next
    assume "is_value_unique v = Some False"
    then show thesis using that(1) r by (simp add: perform_binary_op_def)
  qed
qed

lemma nums_update [simp]:
  "nums (v\<lparr>state := st\<rparr>) = nums v" "nums (v\<lparr>stride := n\<rparr>) = nums v"
  by (simp_all add: nums_def)

text \<open>Values that say nothing are well-formed, and never wrong.\<close>

lemma wf_set_value: "st \<noteq> UNDEF \<Longrightarrow> st \<noteq> NUMLOOP \<Longrightarrow> wf_value (set_value st d v)"
  by (simp add: wf_value_def set_value_def state_defs)

lemma unknown_values:
  "wf_value (set_unkinsn v insn)" "denotes sp0 (set_unkinsn v insn) = UNIV"
  "wf_value (set_unkloop v a)" "denotes sp0 (set_unkloop v a) = UNIV"
  "wf_value (give_up v r insn)" "denotes sp0 (give_up v r insn) = UNIV"
  by (simp_all add: set_unkinsn_def set_unkloop_def give_up_def wf_set_value)
    (simp_all add: set_value_def denotes_def state_defs)

lemma wf_known:
  assumes "xs \<noteq> []" "stride v = 0" "st \<in> {NUMINSN, NUMADDR, SPDINSN, SPDADDR}"
  shows "wf_value ((set_multivals v xs insn)\<lparr>state := st\<rparr>)"
  using assms by (auto simp: wf_value_def state_defs)

lemma wf_loop:
  assumes "xs \<noteq> []" "n \<noteq> 0"
  shows "wf_value ((set_multivals v xs insn)\<lparr>state := NUMLOOP, stride := n\<rparr>)"
  using assms by (auto simp: wf_value_def state_defs)

lemma wf_nonempty: "wf_value v \<Longrightarrow> is_known v \<or> is_numloop v \<Longrightarrow> vals v \<noteq> [] \<and> \<not> is_empty v"
  by (auto simp: wf_value_def state_defs)

lemma wf_stride: "wf_value v \<Longrightarrow> is_known v \<Longrightarrow> stride v = 0"
  by (auto simp: wf_value_def state_defs)

text \<open>
  One operation is sound: it has no undefined behaviour, keeps values well-formed, and what
  it says of the result holds of the results of all numbers described by its arguments.
\<close>

definition sound_result ::
    "(u64 \<Rightarrow> u64 \<Rightarrow> u64) \<Rightarrow> u64 \<Rightarrow> reg_value \<Rightarrow> reg_value \<Rightarrow> reg_value option \<Rightarrow> bool" where
  "sound_result g sp0 v r res \<longleftrightarrow> (\<exists>v'. res = Some v' \<and> wf_value v' \<and>
     (\<forall>x \<in> denotes sp0 v. \<forall>y \<in> denotes sp0 r. g x y \<in> denotes sp0 v'))"

lemma sound_unknown:
  "sound_result g sp0 v r (Some (set_unkinsn v insn))" "sound_result g sp0 v r (Some (set_unkloop v a))"
  "sound_result g sp0 v r (Some (give_up v r insn))"
  by (simp_all add: sound_result_def unknown_values)

text \<open>The common shape: the operation on the values, and then a new state.\<close>

lemma sound_perform:
  assumes "wf_value v" "is_known v \<or> is_numloop v" "wf_value r" "is_known r \<or> is_numloop r" "binary aop"
    and ok: "\<And>xs. xs \<noteq> [] \<Longrightarrow> set xs = (\<lambda>(a, b). bin aop a b) ` (nums v \<times> nums r) \<Longrightarrow>
        sound_result g sp0 v r (Some (k True (set_multivals v xs insn)))"
    and failed: "sound_result g sp0 v r (Some (k False v))"
  shows "sound_result g sp0 v r (do { (ok, v) \<leftarrow> perform_binary_op v r aop insn; Some (k ok v) })"
proof -
  have ne: "vals v \<noteq> []" "\<not> is_empty v" "vals r \<noteq> []" "\<not> is_empty r"
    using wf_nonempty assms(1-4) by blast+
  show ?thesis
    by (rule perform_binary_op_spec [OF ne assms(5), of insn]) (use ok failed in simp_all)
qed

text \<open>Numbers only.\<close>

lemma denotes_num: "is_num v \<Longrightarrow> denotes sp0 v = nums v"
  by (simp add: denotes_def)

lemma denotes_spd: "is_spd v \<Longrightarrow> denotes sp0 v = (\<lambda>d. sp0 + d) ` nums v"
  by (auto simp: denotes_def state_defs)

lemma denotes_numloop: "is_numloop v \<Longrightarrow> denotes sp0 v = {x + of_nat k * scast (stride v) |x k. x \<in> nums v}"
  by (auto simp: denotes_def state_defs)

lemma denotes_state [simp]:
  "st = NUMINSN \<or> st = NUMADDR \<Longrightarrow> denotes sp0 (v\<lparr>state := st\<rparr>) = nums v"
  "st = SPDINSN \<or> st = SPDADDR \<Longrightarrow> denotes sp0 (v\<lparr>state := st\<rparr>) = (\<lambda>d. sp0 + d) ` nums v"
  by (auto simp: denotes_def state_defs)

lemma state_exclusive:
  "is_num v \<Longrightarrow> \<not> is_spd v \<and> \<not> is_numloop v" "is_spd v \<Longrightarrow> \<not> is_num v \<and> \<not> is_numloop v"
  "is_numloop v \<Longrightarrow> \<not> is_num v \<and> \<not> is_spd v"
  by (auto simp: state_defs)

lemma set_multivals_state [simp]:
  "is_num (set_multivals v xs insn) = is_num v" "is_spd (set_multivals v xs insn) = is_spd v"
  "is_numloop (set_multivals v xs insn) = is_numloop v" "is_known (set_multivals v xs insn) = is_known v"
  by (simp_all add: state_defs)

lemma bin_simps [simp]:
  "bin aop_ADD a b = a + b" "bin aop_SUB a b = a - b" "bin aop_AND a b = a AND b" "bin aop_AND_NOT a b = a AND NOT b"
  "binary aop_ADD" "binary aop_SUB" "binary aop_AND" "binary aop_AND_NOT"
  by (simp_all add: bin_def binary_def)

lemma sound_resultI:
  assumes "wf_value v'" "\<And>x y. x \<in> denotes sp0 v \<Longrightarrow> y \<in> denotes sp0 r \<Longrightarrow> g x y \<in> denotes sp0 v'"
  shows "sound_result g sp0 v r (Some v')"
  using assms by (simp add: sound_result_def)

lemma numloopE:
  assumes "x \<in> denotes sp0 v" "is_numloop v"
  obtains a k where "a \<in> nums v" "x = a + of_nat k * scast (stride v)"
  using assms denotes_numloop by blast

lemma numloopI:
  "is_numloop v \<Longrightarrow> a \<in> nums v \<Longrightarrow> a + of_nat k * scast (stride v) \<in> denotes sp0 v"
  using denotes_numloop by blast

text \<open>
  Values without a loop stand for their numbers above a base: the initial stack pointer
  for a delta, 0 for a number.
\<close>

definition base :: "u64 \<Rightarrow> bool \<Rightarrow> u64" where
  "base sp0 spd = (if spd then sp0 else 0)"

lemma denotes_known: "is_known v \<Longrightarrow> denotes sp0 v = (\<lambda>d. base sp0 (is_spd v) + d) ` nums v"
  by (auto simp: base_def denotes_def state_defs)

lemma sound_known:
  assumes "wf_value v" "is_known v" "wf_value r" "is_known r" "binary aop"
    and bases: "\<And>a b. a \<in> nums v \<Longrightarrow> b \<in> nums r \<Longrightarrow>
      g (base sp0 (is_spd v) + a) (base sp0 (is_spd r) + b) = base sp0 spd + bin aop a b"
    and ok: "\<And>xs. k True (set_multivals v xs insn) =
      (set_multivals v xs insn)\<lparr>state := if spd then SPDINSN else NUMINSN\<rparr>"
    and failed: "sound_result g sp0 v r (Some (k False v))"
  shows "sound_result g sp0 v r (do { (ok, v) \<leftarrow> perform_binary_op v r aop insn; Some (k ok v) })"
proof (rule sound_perform [OF assms(1) _ assms(3) _ assms(5)])
  fix xs assume xs: "xs \<noteq> []" "set xs = (\<lambda>(a, b). bin aop a b) ` (nums v \<times> nums r)"
  let ?u = "(set_multivals v xs insn)\<lparr>state := if spd then SPDINSN else NUMINSN\<rparr>"
  have "sound_result g sp0 v r (Some ?u)"
  proof (rule sound_resultI)
    show "wf_value ?u" using xs(1) wf_stride [OF assms(1,2)] by (intro wf_known) auto
    fix x y assume "x \<in> denotes sp0 v" "y \<in> denotes sp0 r"
    then obtain a b where x: "x = base sp0 (is_spd v) + a" "a \<in> nums v"
      and y: "y = base sp0 (is_spd r) + b" "b \<in> nums r"
      using denotes_known assms(2,4) by blast
    have "bin aop a b \<in> nums ?u" using xs(2) x(2) y(2) by force
    then have "base sp0 (is_spd ?u) + bin aop a b \<in> denotes sp0 ?u"
      using denotes_known [of ?u sp0] by (simp add: state_defs)
    moreover have "is_spd ?u = spd" by (simp add: is_spd_def)
    ultimately show "g x y \<in> denotes sp0 ?u" using bases [OF x(2) y(2)] x(1) y(1) by simp
  qed
  then show "sound_result g sp0 v r (Some (k True (set_multivals v xs insn)))" using ok by simp
qed (use assms in simp_all)

lemma base_simps [simp]: "base sp0 False = 0" "base sp0 True = sp0"
  by (simp_all add: base_def)

lemma sound_nums:
  assumes "wf_value v" "is_num v" "wf_value r" "is_num r" "binary aop"
  shows "sound_result (bin aop) sp0 v r
    (do { (ok, v) \<leftarrow> perform_binary_op v r aop insn; Some (if ok then v\<lparr>state := NUMINSN\<rparr> else set_unkinsn v insn) })"
proof (rule sound_known [where spd = False])
  show "bin aop (base sp0 (is_spd v) + a) (base sp0 (is_spd r) + b) = base sp0 False + bin aop a b" for a b
    using assms state_exclusive(1) [of v] state_exclusive(1) [of r] by simp
qed (use assms in \<open>simp_all add: is_known_def sound_unknown\<close>)

lemma sound_for_nums:
  assumes "wf_value v" "wf_value r" "binary aop"
  shows "sound_result (bin aop) sp0 v r (perform_binary_op_for_nums v r aop insn)"
  unfolding perform_binary_op_for_nums_def
  using sound_nums [OF assms(1) _ assms(2) _ assms(3)] by (simp add: sound_unknown cong: if_cong)

lemma wf_loop_same:
  "wf_value v \<Longrightarrow> is_numloop v \<Longrightarrow> xs \<noteq> [] \<Longrightarrow> wf_value (set_multivals v xs insn)"
  by (auto simp: wf_value_def state_defs)

text \<open>All pairs of numbers are among the results.\<close>

lemma pairs_in:
  "set xs = (\<lambda>(a, b). bin aop a b) ` (nums v \<times> nums r) \<Longrightarrow> a \<in> nums v \<Longrightarrow> b \<in> nums r \<Longrightarrow>
    bin aop a b \<in> nums (set_multivals w xs insn)"
  by force

lemma sound_add_loop:
  assumes "wf_value v" "wf_value r" "is_numloop v \<and> is_num r \<or> is_num v \<and> is_numloop r"
  shows "sound_result (+) sp0 v r (do {
    (ok, v) \<leftarrow> perform_binary_op v r aop_ADD insn;
    Some (if ok then (if is_numloop r then v\<lparr>state := state r, stride := stride r\<rparr> else v) else give_up v r insn) })"
proof (rule sound_perform [OF assms(1) _ assms(2)])
  fix xs assume xs: "xs \<noteq> []" "set xs = (\<lambda>(a, b). bin aop_ADD a b) ` (nums v \<times> nums r)"
  let ?w = "set_multivals v xs insn"
  note pair = pairs_in [OF xs(2), where w = v and insn = insn, unfolded bin_simps]
  show "sound_result (+) sp0 v r (Some (if True then (if is_numloop r
      then ?w\<lparr>state := state r, stride := stride r\<rparr> else ?w) else give_up ?w r insn))"
    using assms(3)
  proof
    assume l: "is_numloop v \<and> is_num r"
    have "sound_result (+) sp0 v r (Some ?w)"
    proof (rule sound_resultI)
      show "wf_value ?w" using wf_loop_same [OF assms(1)] l xs(1) by blast
      fix x y assume "x \<in> denotes sp0 v" "y \<in> denotes sp0 r"
      moreover from this obtain a k where a: "a \<in> nums v" "x = a + of_nat k * scast (stride v)" using l numloopE by blast
      ultimately have "(a + y) + of_nat k * scast (stride ?w) \<in> denotes sp0 ?w"
        using l by (intro numloopI pair) (simp_all add: denotes_num)
      then show "x + y \<in> denotes sp0 ?w" using a(2) by (simp add: add_ac)
    qed
    then show ?thesis using l state_exclusive(1) [of r] by simp
  next
    assume l: "is_num v \<and> is_numloop r"
    let ?l = "?w\<lparr>state := NUMLOOP, stride := stride r\<rparr>"
    have "sound_result (+) sp0 v r (Some ?l)"
    proof (rule sound_resultI)
      show "wf_value ?l" using assms(2) l xs(1) by (intro wf_loop) (auto simp: wf_value_def)
      fix x y assume "x \<in> denotes sp0 v" "y \<in> denotes sp0 r"
      moreover from this obtain b k where b: "b \<in> nums r" "y = b + of_nat k * scast (stride r)" using l numloopE by blast
      ultimately have "(x + b) + of_nat k * scast (stride ?l) \<in> denotes sp0 ?l"
        using l pair by (intro numloopI) (simp_all add: denotes_num is_numloop_def)
      then show "x + y \<in> denotes sp0 ?l" using b(2) by (simp add: add_ac)
    qed
    then show ?thesis using l by (simp add: is_numloop_def)
  qed
qed (use assms in \<open>auto simp: is_known_def sound_unknown\<close>)

lemma sound_add:
  assumes "wf_value v" "wf_value r"
  shows "sound_result (+) sp0 v r (rv_add v r insn)"
proof -
  have known: "sound_result (+) sp0 v r (do {
      (ok, v) \<leftarrow> perform_binary_op v r aop_ADD insn;
      Some (if ok then v\<lparr>state := if is_spd v \<or> is_spd r then SPDINSN else NUMINSN\<rparr> else give_up v r insn) })"
    if s: "is_spd v \<and> is_num r \<or> is_num v \<and> is_spd r \<or> is_num v \<and> is_num r"
  proof (rule sound_known [where spd = "is_spd v \<or> is_spd r"])
    show "is_known v" "is_known r" using s by (auto simp only: is_known_def)
    show "base sp0 (is_spd v) + a + (base sp0 (is_spd r) + b) = base sp0 (is_spd v \<or> is_spd r) + bin aop_ADD a b" for a b
      using s by (auto simp: state_defs add_ac)
  qed (simp_all add: assms sound_unknown)
  show ?thesis
    unfolding rv_add_def using sound_add_loop [OF assms] known by (simp only: sound_unknown split: if_split) simp
qed

end
