(* ===== verification/RegBinary.thy ===== *)
theory RegBinary
  imports RegSound
begin

text \<open>
  Soundness of the operations on two values, for all of \<open>arith_op_t\<close>, and of
  sequences of them: the locale \<open>tracker\<close> holds what a processor module relies on.
\<close>

section \<open>Subtraction\<close>

lemma sound_sub_loop:
  assumes "wf_value v" "wf_value r" "is_numloop v" "is_num r"
  shows "sound_result (-) sp0 v r
    (do { (ok, v) \<leftarrow> perform_binary_op v r aop_SUB insn; Some (if ok then v else give_up v r insn) })"
proof (rule sound_perform [OF assms(1) _ assms(2)])
  fix xs assume xs: "xs \<noteq> []" "set xs = (\<lambda>(a, b). bin aop_SUB a b) ` (nums v \<times> nums r)"
  let ?w = "set_multivals v xs insn"
  note pair = pairs_in [OF xs(2), where w = v and insn = insn, unfolded bin_simps]
  have "sound_result (-) sp0 v r (Some ?w)"
  proof (rule sound_resultI)
    show "wf_value ?w" using wf_loop_same [OF assms(1,3) xs(1)] .
    fix x y assume xy: "x \<in> denotes sp0 v" "y \<in> denotes sp0 r"
    then obtain a k where a: "a \<in> nums v" "x = a + of_nat k * scast (stride v)" using assms(3) numloopE by blast
    have "(a - y) + of_nat k * scast (stride ?w) \<in> denotes sp0 ?w"
      using assms(3,4) a(1) xy(2) by (intro numloopI pair) (simp_all add: denotes_num)
    then show "x - y \<in> denotes sp0 ?w" using a(2) by (simp add: algebra_simps)
  qed
  then show "sound_result (-) sp0 v r (Some (if True then ?w else give_up ?w r insn))" by simp
qed (use assms in \<open>auto simp: is_known_def sound_unknown\<close>)

lemma sound_sub:
  assumes "wf_value v" "wf_value r"
  shows "sound_result (-) sp0 v r (rv_sub v r insn)"
proof -
  have known: "sound_result (-) sp0 v r (do {
      (ok, v) \<leftarrow> perform_binary_op v r aop_SUB insn;
      Some (if ok then v\<lparr>state := if is_spd v \<and> is_num r then SPDINSN else NUMINSN\<rparr> else give_up v r insn) })"
    if s: "is_spd v \<and> is_num r \<or> is_spd v \<and> is_spd r \<or> is_num v \<and> is_num r"
  proof (rule sound_known [where spd = "is_spd v \<and> is_num r"])
    show "is_known v" "is_known r" using s by (auto simp only: is_known_def)
    show "base sp0 (is_spd v) + a - (base sp0 (is_spd r) + b) = base sp0 (is_spd v \<and> is_num r) + bin aop_SUB a b" for a b
      using s by (auto simp: state_defs)
  qed (simp_all add: assms sound_unknown)
  show ?thesis
    unfolding rv_sub_def using sound_sub_loop [OF assms] known by (simp only: sound_unknown split: if_split) simp
qed

section \<open>Alignment masks\<close>

lemma mask_value:
  fixes m :: u64
  assumes "(m + 1 - 1) AND (m + 1) = 0" "m \<le> 0x1f"
  obtains k where "k \<le> 5" "m = mask k"
proof -
  have "unat m \<le> 31" using assms(2) by (simp add: word_le_nat_alt)
  then have "unat m \<in> set [0..<32]" by simp
  then have "m \<in> of_nat ` set [0..<32]" by (intro image_eqI [where x = "unat m"]) simp_all
  then have "m \<in> mask ` set [0..<6]" using assms(1) by (auto simp: upt_rec mask_eq_exp_minus_1)
  then obtain k where "k < 6" "m = mask k" by auto
  then show thesis using that [of k] by simp
qed

text \<open>An aligned base does not change the low bits, and is kept by clearing them.\<close>

lemma and_mask_base:
  assumes "(s :: u64) AND 0x1f = 0" "k \<le> 5"
  shows "(s + a) AND mask k = a AND mask k" "(s + a) AND NOT (mask k) = s + (a AND NOT (mask k))"
proof -
  have dvd: "(2::nat) ^ k dvd 2 ^ 5" "(2::nat) ^ k dvd 2 ^ 64" using assms(2) by (intro le_imp_power_dvd, simp)+
  have "unat s mod 2 ^ 5 = 0" using assms(1) unat_and_mask [of s 5] by (simp add: mask_eq_exp_minus_1)
  then have "unat s mod 2 ^ k = 0" using dvd(1) by (metis dvd_imp_mod_0 dvd_trans mod_0_imp_dvd)
  then have "unat (s + a) mod 2 ^ k = unat a mod 2 ^ k"
    using dvd(2) by (simp add: unat_word_ariths mod_mod_cancel) (metis add_0 mod_add_left_eq)
  then show and_mask: "(s + a) AND mask k = a AND mask k"
    by (simp only: word_unat_eq_iff unat_and_mask)
  have and_not: "x AND NOT (mask k) = x - (x AND mask k)" for x :: u64
    using and_add_and_not [of x "mask k"] by (simp only: eq_diff_eq) (simp only: add.commute)
  show "(s + a) AND NOT (mask k) = s + (a AND NOT (mask k))"
    by (simp only: and_not and_mask) simp
qed

lemma is_mask_some: "wf_value r \<Longrightarrow> \<exists>m. is_mask r = Some m"
  using wf_nonempty [of r]
  by (auto simp: is_mask_def is_known_def is_value_unique_def split: list.splits)

lemma is_mask_true:
  assumes "wf_value r" "is_mask r = Some True"
  obtains k where "k \<le> 5" "nums r = {mask k}" "is_num r"
proof -
  have n: "is_num r" using assms(2) by (simp add: is_mask_def split: if_splits)
  then have "vals r \<noteq> []" "\<not> is_empty r" using wf_nonempty assms(1) by (simp_all add: is_known_def)
  then show thesis
  proof (cases rule: unique_value)
    case (1 m)
    then have "(m + 1 - 1) AND (m + 1) = 0 \<and> m \<le> 0x1f"
      using assms(2) n by (auto simp: is_mask_def first_val_def split: list.splits)
    then show thesis using mask_value [of m] that n 1(2) by metis
  next
    case 2
    then show thesis using assms(2) n by (simp add: is_mask_def)
  qed
qed

lemma sound_masked:
  assumes "wf_value v" "wf_value r" "sp0 AND 0x1f = 0"
    and aop: "aop = aop_AND \<and> st = (\<lambda>v. NUMINSN) \<or> aop = aop_AND_NOT \<and> st = (\<lambda>v. if is_spd v then SPDINSN else NUMINSN)"
  shows "sound_result (bin aop) sp0 v r (do {
     m \<leftarrow> (if is_spd v then is_mask r else Some False);
     if m \<or> is_num v \<and> is_num r then do {
       (ok, v) \<leftarrow> perform_binary_op v r aop insn;
       Some (if ok then v\<lparr>state := st v\<rparr> else set_unkinsn v insn) }
     else Some (set_unkinsn v insn) })"
proof -
  have known: "sound_result (bin aop) sp0 v r (do {
       (ok, v) \<leftarrow> perform_binary_op v r aop insn;
       Some (if ok then v\<lparr>state := st v\<rparr> else set_unkinsn v insn) })"
    if s: "is_spd v \<and> is_mask r = Some True \<or> is_num v \<and> is_num r"
  proof (rule sound_known [where spd = "aop = aop_AND_NOT \<and> is_spd v"])
    have r: "is_num r" using s is_mask_true [OF assms(2)] by blast
    then show "is_known v" "is_known r" using s by (auto simp: is_known_def)
    show "bin aop (base sp0 (is_spd v) + a) (base sp0 (is_spd r) + b) =
        base sp0 (aop = aop_AND_NOT \<and> is_spd v) + bin aop a b" if "b \<in> nums r" for a b
      using s
    proof
      assume m: "is_spd v \<and> is_mask r = Some True"
      obtain k where "k \<le> 5" "nums r = {mask k}" by (rule is_mask_true [OF assms(2) conjunct2 [OF m]])
      then have "b = mask k" "is_spd v" using that m by simp_all
      moreover have "\<not> is_spd r" using state_exclusive(1) [OF r] by simp
      moreover note and_mask_base [OF assms(3) \<open>k \<le> 5\<close>]
      ultimately show ?thesis using aop by (elim disjE conjE) simp_all
    next
      assume "is_num v \<and> is_num r"
      then show ?thesis using state_exclusive(1) [of v] state_exclusive(1) [of r] by simp
    qed
  qed (use aop assms in \<open>auto simp: sound_unknown\<close>)
  obtain m where "is_mask r = Some m" using is_mask_some [OF assms(2)] by blast
  then show ?thesis
    using known by (cases "is_spd v"; cases m; cases "is_num v \<and> is_num r") (auto simp: sound_unknown)
qed

section \<open>All operations\<close>

text \<open>The method of each operation; the last two have no second operand.\<close>

fun emulate :: "arith_op \<Rightarrow> reg_value \<Rightarrow> reg_value \<Rightarrow> insn \<Rightarrow> reg_value option" where
  "emulate aop_ADD v r insn = rv_add v r insn"
| "emulate aop_SUB v r insn = rv_sub v r insn"
| "emulate aop_OR v r insn = rv_bor v r insn"
| "emulate aop_AND v r insn = rv_band v r insn"
| "emulate aop_XOR v r insn = rv_bxor v r insn"
| "emulate aop_AND_NOT v r insn = rv_bandnot v r insn"
| "emulate aop_SLL v r insn = rv_sll v r insn"
| "emulate aop_SLR v r insn = rv_slr v r insn"
| "emulate aop_SAR v r insn = rv_sar v r insn"
| "emulate aop_MOVT v r insn = rv_movt v r insn"
| "emulate aop_NEG v r insn = Some (rv_neg v insn)"
| "emulate aop_NOT v r insn = Some (rv_bnot v insn)"

text \<open>
  What the instructions of a processor compute, in arithmetic: the machine word of a
  number, with any shift count.  The bitwise operations are defined bit by bit.
\<close>

definition of_bits :: "(nat \<Rightarrow> bool) \<Rightarrow> u64" where
  "of_bits f = horner_sum of_bool 2 (map f [0..<64])"

fun alu :: "arith_op \<Rightarrow> u64 \<Rightarrow> u64 \<Rightarrow> u64" where
  "alu aop_ADD a b = word_of_int (uint a + uint b)"
| "alu aop_SUB a b = word_of_int (uint a - uint b)"
| "alu aop_OR a b = of_bits (\<lambda>i. bit a i \<or> bit b i)"
| "alu aop_AND a b = of_bits (\<lambda>i. bit a i \<and> bit b i)"
| "alu aop_XOR a b = of_bits (\<lambda>i. bit a i \<noteq> bit b i)"
| "alu aop_AND_NOT a b = of_bits (\<lambda>i. bit a i \<and> \<not> bit b i)"
| "alu aop_SLL a b = word_of_int (uint a * 2 ^ unat b)"
| "alu aop_SLR a b = word_of_nat (unat a div 2 ^ unat b)"
| "alu aop_SAR a b = word_of_int (sint a div 2 ^ unat b)"
| "alu aop_MOVT a b = word_of_nat (unat b mod 2 ^ 16 * 2 ^ 16 + unat a mod 2 ^ 16)"
| "alu aop_NEG a b = word_of_int (- uint a)"
| "alu aop_NOT a b = of_bits (\<lambda>i. \<not> bit a i)"

lemma of_bits_eq: "(\<And>i. i < 64 \<Longrightarrow> bit w i = f i) \<Longrightarrow> of_bits f = w"
  by (rule bit_word_eqI) (simp add: of_bits_def bit_horner_sum_bit_word_iff)

lemma alu_sll: "bin aop_SLL a b = alu aop_SLL a b"
proof -
  have "push_bit (unat b) a = word_of_int (uint a * 2 ^ unat b)"
    by (simp add: push_bit_eq_mult)
  moreover have "push_bit (unat b) a = 0" if "\<not> b < 64"
    using that by (intro bit_word_eqI) (simp add: bit_simps word_less_nat_alt)
  ultimately show ?thesis by (auto simp: bin_def)
qed

lemma alu_slr: "bin aop_SLR a b = alu aop_SLR a b"
proof -
  have "drop_bit (unat b) a = word_of_nat (unat a div 2 ^ unat b)"
  proof -
    have "drop_bit (unat b) a = word_of_nat (unat (drop_bit (unat b) a))" by simp
    also have "unat (drop_bit (unat b) a) = unat a div 2 ^ unat b"
      by (subst unat_drop_bit_eq) (rule drop_bit_eq_div)
    finally show ?thesis .
  qed
  moreover have "drop_bit (unat b) a = 0" if "\<not> b < 64"
    using that by (intro bit_word_eqI) (auto simp: bit_simps word_less_nat_alt dest: bit_imp_le_length)
  ultimately show ?thesis by (auto simp: bin_def)
qed

lemma alu_sar: "bin aop_SAR a b = alu aop_SAR a b"
proof -
  have "signed_drop_bit n a = word_of_int (sint a div 2 ^ n)" for n
  proof -
    have "signed_drop_bit n a = word_of_int (sint (signed_drop_bit n a))" by simp
    also have "sint (signed_drop_bit n a) = sint a div 2 ^ n"
      by (simp only: sint_signed_drop_bit_eq drop_bit_eq_div)
    finally show ?thesis .
  qed
  moreover have "signed_drop_bit 63 a = signed_drop_bit (unat b) a" if "\<not> b < 64"
    using that by (intro bit_word_eqI) (auto simp: bit_signed_drop_bit_iff word_less_nat_alt Suc_le_eq)
  ultimately show ?thesis by (auto simp: bin_def)
qed

lemma alu_movt: "bin aop_MOVT a b = alu aop_MOVT a b"
proof -
  let ?lo = "a AND mask 16" and ?hi = "push_bit 16 (b AND mask 16)"
  have "?lo AND ?hi = 0" by (rule bit_word_eqI) (simp add: bit_simps)
  then have "?lo OR ?hi = ?hi + ?lo" using word_plus_and_or [of ?lo ?hi] by (simp add: add.commute)
  also have "\<dots> = word_of_nat (unat b mod 2 ^ 16 * 2 ^ 16 + unat a mod 2 ^ 16)"
  proof -
    have "x AND mask 16 = word_of_nat (unat x mod 2 ^ 16)" for x :: u64
    proof -
      have "x AND mask 16 = word_of_nat (unat (x AND mask 16))" by simp
      then show ?thesis by (simp only: unat_and_mask)
    qed
    then show ?thesis by (simp add: push_bit_eq_mult)
  qed
  finally show ?thesis by (simp add: bin_def mask_eq_exp_minus_1)
qed

lemma bin_alu: "binary aop \<Longrightarrow> bin aop a b = alu aop a b"
proof (cases aop)
  case aop_OR then show ?thesis by (simp add: bin_def) (rule of_bits_eq [symmetric], simp add: bit_simps)
next
  case aop_AND then show ?thesis by (simp add: bin_def) (rule of_bits_eq [symmetric], simp add: bit_simps)
next
  case aop_XOR then show ?thesis by (simp add: bin_def) (rule of_bits_eq [symmetric], simp add: bit_simps)
next
  case aop_AND_NOT then show ?thesis by (simp add: bin_def) (rule of_bits_eq [symmetric], auto simp: bit_simps)
qed (simp_all only: alu_sll alu_slr alu_sar alu_movt, simp_all add: bin_def binary_def)

text \<open>The operations on one value, and their results on numbers.\<close>

definition sound_unary :: "(u64 \<Rightarrow> u64) \<Rightarrow> u64 \<Rightarrow> reg_value \<Rightarrow> reg_value \<Rightarrow> bool" where
  "sound_unary g sp0 v v' \<longleftrightarrow> wf_value v' \<and> (\<forall>x \<in> denotes sp0 v. g x \<in> denotes sp0 v')"

lemma sound_unary_unknown:
  "sound_unary g sp0 v (set_unkinsn v insn)" "sound_unary g sp0 v (set_unkloop v a)"
  by (simp_all add: sound_unary_def unknown_values)

lemma sound_num_map:
  assumes "wf_value v" "is_num v"
  shows "sound_unary g sp0 v ((set_multivals v (map (\<lambda>p. g (rval p)) (vals v)) insn)\<lparr>state := NUMINSN\<rparr>)"
proof -
  have "vals v \<noteq> []" "stride v = 0" using assms wf_nonempty wf_stride by (auto simp: is_known_def)
  then have "wf_value ((set_multivals v (map (\<lambda>p. g (rval p)) (vals v)) insn)\<lparr>state := NUMINSN\<rparr>)"
    by (intro wf_known) simp_all
  moreover have "set (map (\<lambda>p. g (rval p)) (vals v)) = g ` nums v" by (auto simp: nums_def)
  ultimately show ?thesis using assms(2) by (simp add: sound_unary_def denotes_num)
qed

lemma sound_neg:
  assumes "wf_value v"
  shows "sound_unary (\<lambda>x. - x) sp0 v (rv_neg v insn)"
  unfolding rv_neg_def using sound_num_map [OF assms, of "\<lambda>x. - x" sp0 insn]
  by (simp add: sound_unary_unknown cong: if_cong)

lemma sound_bnot:
  assumes "wf_value v"
  shows "sound_unary (\<lambda>x. NOT x) sp0 v (rv_bnot v insn)"
  unfolding rv_bnot_def using sound_num_map [OF assms, of "\<lambda>x. NOT x" sp0 insn]
  by (simp add: sound_unary_unknown cong: if_cong)

lemma sound_result_unary: "sound_unary g sp0 v v' \<Longrightarrow> sound_result (\<lambda>x y. g x) sp0 v r (Some v')"
  by (simp add: sound_unary_def sound_result_def)

text \<open>Every operation is sound when the stack is aligned at the start of the function.\<close>

lemma sound_emulate:
  assumes "wf_value v" "wf_value r" "sp0 AND 0x1f = 0"
  shows "sound_result (alu aop) sp0 v r (emulate aop v r insn)"
proof (cases "binary aop")
  case True
  have "sound_result (bin aop) sp0 v r (emulate aop v r insn)"
  proof (cases aop)
    case aop_ADD then show ?thesis using sound_add [OF assms(1,2)] by (simp add: sound_result_def)
  next
    case aop_SUB then show ?thesis using sound_sub [OF assms(1,2)] by (simp add: sound_result_def)
  next
    case aop_AND then show ?thesis using sound_masked [OF assms, of aop_AND] by (simp add: rv_band_def)
  next
    case aop_AND_NOT then show ?thesis using sound_masked [OF assms, of aop_AND_NOT] by (simp add: rv_bandnot_def)
  qed (use True sound_for_nums [OF assms(1,2)] in \<open>simp_all add: rv_bor_def rv_bxor_def rv_sll_def rv_slr_def
    rv_sar_def rv_movt_def binary_def\<close>)
  then show ?thesis using True by (simp add: bin_alu sound_result_def)
next
  case False
  then consider "aop = aop_NEG" | "aop = aop_NOT" by (auto simp: binary_def)
  then show ?thesis
  proof cases
    case 1
    then show ?thesis using sound_result_unary [OF sound_neg [OF assms(1)]] by (simp add: sound_result_def)
  next
    case 2
    have "alu aop_NOT x y = NOT x" for x y by (simp, rule of_bits_eq, simp add: bit_simps)
    then show ?thesis using 2 sound_result_unary [OF sound_bnot [OF assms(1)]] by (simp add: sound_result_def)
  qed
qed

section \<open>Code that is tracked\<close>

text \<open>
  A processor module tracks a value through the instructions that change it.  The client
  relies on one law: each operation returns a value that is valid and describes the
  results of the numbers that its arguments describe.
\<close>

fun run_alu :: "(arith_op \<times> u64) list \<Rightarrow> u64 \<Rightarrow> u64" where
  "run_alu [] x = x"
| "run_alu ((aop, y) # ops) x = run_alu ops (alu aop x y)"

fun track :: "(arith_op \<Rightarrow> 'v \<Rightarrow> 'v \<Rightarrow> 'i \<Rightarrow> 'v option) \<Rightarrow> (arith_op \<times> 'v \<times> 'i) list \<Rightarrow> 'v \<Rightarrow> 'v option" where
  "track step [] v = Some v"
| "track step ((aop, r, i) # ops) v = do { v \<leftarrow> step aop v r i; track step ops v }"

locale tracker =
  fixes valid :: "'v \<Rightarrow> bool" and describes :: "'v \<Rightarrow> u64 set"
    and step :: "arith_op \<Rightarrow> 'v \<Rightarrow> 'v \<Rightarrow> 'i \<Rightarrow> 'v option"
  assumes step_sound: "valid v \<Longrightarrow> valid r \<Longrightarrow>
    \<exists>v'. step aop v r i = Some v' \<and> valid v' \<and> (\<forall>x \<in> describes v. \<forall>y \<in> describes r. alu aop x y \<in> describes v')"
begin

lemma track_sound:
  assumes "valid v" "x \<in> describes v"
    and "list_all2 (\<lambda>(aop, r, i) (aop', y). aop = aop' \<and> valid r \<and> y \<in> describes r) ops ys"
  shows "\<exists>v'. track step ops v = Some v' \<and> valid v' \<and> run_alu ys x \<in> describes v'"
  using assms
proof (induction ops arbitrary: v x ys)
  case (Cons p ops)
  obtain aop r i where p: "p = (aop, r, i)" by (cases p)
  obtain y ys' where ys: "ys = (aop, y) # ys'" "valid r" "y \<in> describes r"
    and rest: "list_all2 (\<lambda>(aop, r, i) (aop', y). aop = aop' \<and> valid r \<and> y \<in> describes r) ops ys'"
    using Cons.prems(3) p by (auto simp: list_all2_Cons1)
  from step_sound [OF Cons.prems(1) ys(2), of aop i] obtain v' where
    v': "step aop v r i = Some v'" "valid v'" "alu aop x y \<in> describes v'"
    using Cons.prems(2) ys(3) by blast
  from Cons.IH [OF v'(2,3) rest] show ?case using p ys(1) v'(1) by simp
qed simp

end

text \<open>The values of the tracker, over an aligned stack.\<close>

interpretation reg: tracker wf_value "denotes (sp0 AND NOT 0x1f)" emulate for sp0
proof
  have "(sp0 AND NOT 0x1f) AND 0x1f = 0" by (rule bit_word_eqI) (simp add: bit_simps)
  then show "\<exists>v'. emulate aop v r i = Some v' \<and> wf_value v' \<and>
      (\<forall>x \<in> denotes (sp0 AND NOT 0x1f) v. \<forall>y \<in> denotes (sp0 AND NOT 0x1f) r. alu aop x y \<in> denotes (sp0 AND NOT 0x1f) v')"
    if "wf_value v" "wf_value r" for v r aop i
    using sound_emulate [OF that, of "sp0 AND NOT 0x1f" aop i] by (simp add: sound_result_def)
qed

end
