(* ===== verification/RegStride.thy ===== *)
theory RegStride
  imports RegBinary
begin

text \<open>
  The arithmetic of loop values: the numbers that a stride reaches are a residue class of
  a power of two, and shifting a stride moves the power.
\<close>

section \<open>Residue classes\<close>

text \<open>
  The multiples of a stride, round the 64-bit words, are those of its power of two: a
  loop value with a stride is a residue class.
\<close>

lemma two_power_odd:
  assumes "s \<noteq> (0 :: int)"
  obtains j m where "s = 2 ^ j * m" "odd m"
proof -
  have "\<exists>j m. s = 2 ^ j * m \<and> odd m" if "nat \<bar>s\<bar> = n" for n
    using that assms
  proof (induction n arbitrary: s rule: less_induct)
    case (less n)
    show ?case
    proof (cases "even s")
      case True
      then obtain t where t: "s = 2 * t" by (elim evenE)
      then have "nat \<bar>t\<bar> < n" "t \<noteq> 0" using less.prems by auto
      then obtain j m where "t = 2 ^ j * m" "odd m" using less.IH by blast
      then show ?thesis using t by (intro exI [of _ "Suc j"] exI [of _ m]) simp
    qed (use power_0 in \<open>metis mult_1\<close>)
  qed
  then show thesis using that by blast
qed

definition span :: "u8 \<Rightarrow> u64 set" where
  "span s = {of_nat k * scast s |k. True}"

lemma span_eq:
  assumes "sint s = 2 ^ j * m" "odd m" "j \<le> 64"
  shows "span s = {w. 2 ^ j dvd uint w}"
proof -
  have s: "scast s = (word_of_int (2 ^ j * m) :: u64)" using assms(1) by (metis scast_eq)
  have dvd: "(2 :: int) ^ j dvd 2 ^ 64" using assms(3) by (rule le_imp_power_dvd)
  show ?thesis
  proof (intro equalityI subsetI)
    fix w assume "w \<in> span s"
    then obtain k where "w = of_nat k * scast s" by (auto simp: span_def)
    then have "w = word_of_int (2 ^ j * (m * int k))" by (simp add: s ac_simps)
    then have "uint w = (2 ^ j * (m * int k)) mod 2 ^ 64" by (simp only: uint_word_of_int) simp
    then show "w \<in> {w. 2 ^ j dvd uint w}" using dvd by (simp add: dvd_mod)
  next
    fix w :: u64 assume "w \<in> {w. 2 ^ j dvd uint w}"
    then obtain q where q: "uint w = 2 ^ j * q" by auto
    have "coprime m 2" using assms(2) by simp
    then have "coprime m (2 ^ 64)" by (simp only: coprime_power_right_iff) simp
    then obtain u v where uv: "u * m + v * 2 ^ 64 = 1" using bezout_int [of m "2 ^ 64"] by (auto simp: coprime_iff_gcd_eq_1)
    have "uint w = (u * q) * (2 ^ j * m) + v * 2 ^ j * q * 2 ^ 64"
      using arg_cong [OF uv, of "\<lambda>x. 2 ^ j * q * x"] by (simp add: q algebra_simps)
    then have "w = word_of_int ((u * q) * (2 ^ j * m) + v * 2 ^ j * q * 2 ^ 64)" by (metis word_of_int_uint)
    also have "\<dots> = word_of_int (u * q) * scast s + word_of_int (v * 2 ^ j * q) * word_of_int (2 ^ 64)"
      unfolding s by (simp only: wi_hom_mult wi_hom_add)
    also have "(word_of_int (2 ^ 64) :: u64) = 0" by simp
    finally have "w = of_nat (unat (word_of_int (u * q) :: u64)) * scast s" by simp
    then show "w \<in> span s" unfolding span_def by blast
  qed
qed

lemma dvd_word_diff:
  fixes x a :: u64
  assumes "j \<le> 64"
  shows "2 ^ j dvd uint (x - a) \<longleftrightarrow> 2 ^ j dvd uint x - uint a"
proof -
  have "uint (x - a) = (uint x - uint a) mod 2 ^ 64" using uint_word_ariths(2) [of x a] by simp
  moreover have "(2 :: int) ^ j dvd 2 ^ 64" using assms by (rule le_imp_power_dvd)
  ultimately show ?thesis by (metis dvd_mod_iff)
qed

lemma uint_word_of_int_64: "uint (word_of_int k :: u64) = k mod 2 ^ 64"
  using uint_word_of_int [where 'a = 64] by simp

lemma dvd_sint_diff:
  fixes x a :: u64
  assumes "j \<le> 64"
  shows "2 ^ j dvd sint x - sint a \<longleftrightarrow> 2 ^ j dvd uint x - uint a"
proof -
  have "word_of_int (sint x - sint a) = x - a" by (simp only: wi_hom_sub [symmetric]) simp
  then have "uint (x - a) = (sint x - sint a) mod 2 ^ 64" by (metis uint_word_of_int_64)
  moreover have "(2 :: int) ^ j dvd 2 ^ 64" using assms by (rule le_imp_power_dvd)
  ultimately have "2 ^ j dvd uint (x - a) \<longleftrightarrow> 2 ^ j dvd sint x - sint a" by (metis dvd_mod_iff)
  then show ?thesis using dvd_word_diff [OF assms] by blast
qed

lemma in_loop:
  assumes "is_numloop v" "sint (stride v) = 2 ^ j * m" "odd m" "j \<le> 64"
  shows "x \<in> denotes sp0 v \<longleftrightarrow> (\<exists>a \<in> nums v. 2 ^ j dvd uint x - uint a)"
proof -
  have "x \<in> denotes sp0 v \<longleftrightarrow> (\<exists>a \<in> nums v. x - a \<in> span (stride v))"
    using assms(1) by (auto simp: denotes_numloop span_def algebra_simps)
  then show ?thesis by (simp add: span_eq [OF assms(2-4)] dvd_word_diff [OF assms(4)])
qed

section \<open>Shifted strides\<close>

lemma sint_stride32: "sint (stride32 v) = sint (stride v)"
  by (simp add: stride32_def sint_up_scast is_up)

lemma sint_u8: "- 128 \<le> sint (s :: u8)" "sint (s :: u8) < 128"
  using sint_ge [of s] sint_lt [of s] by simp_all

lemma upto_7: "n \<le> 7 \<Longrightarrow> n \<in> {0, 1, 2, 3, 4, 5, 6, 7 :: nat}"
  by auto

lemma sint_word_u32: "- 32768 \<le> k \<Longrightarrow> k < 32768 \<Longrightarrow> sint (word_of_int k :: u32) = k"
  by (simp add: signed_of_int signed_take_bit_int_eq_self)

lemma sint_word_u8: "- 128 \<le> k \<Longrightarrow> k < 128 \<Longrightarrow> sint (word_of_int k :: u8) = k"
  by (simp add: signed_of_int signed_take_bit_int_eq_self)

lemma ucast_word_of_int: "ucast (word_of_int k :: u32) = (word_of_int k :: u8)"
  by (rule bit_word_eqI) (simp add: bit_simps)

lemma shifted_right_stride:
  assumes "push_bit n (signed_drop_bit n (stride32 v)) = stride32 v" "n \<le> 7"
  shows "sint (stride v) = 2 ^ n * sint (ucast (signed_drop_bit n (stride32 v)) :: u8)"
proof -
  let ?q = "sint (stride v) div 2 ^ n"
  have range: "- 128 \<le> ?q" "?q < 128" "- 32768 \<le> ?q * 2 ^ n" "?q * 2 ^ n < 32768"
    using sint_u8 [of "stride v"] upto_7 [OF assms(2)] by (elim insertE emptyE; simp; presburger)+
  have q: "signed_drop_bit n (stride32 v) = word_of_int ?q"
  proof -
    have "signed_drop_bit n (stride32 v) = word_of_int (sint (signed_drop_bit n (stride32 v)))" by simp
    then show ?thesis by (simp only: sint_signed_drop_bit_eq drop_bit_eq_div sint_stride32)
  qed
  then have "word_of_int (?q * 2 ^ n) = stride32 v" using assms(1) by (simp add: push_bit_eq_mult)
  then have "?q * 2 ^ n = sint (stride v)" using sint_word_u32 range(3,4) sint_stride32 by metis
  moreover have "sint (ucast (signed_drop_bit n (stride32 v)) :: u8) = ?q"
    using q sint_word_u8 [OF range(1,2)] ucast_word_of_int [of ?q] by simp
  ultimately show ?thesis by (simp only: mult.commute)
qed

lemma shifted_left_stride:
  assumes "signed_drop_bit n (int8_of (push_bit n (stride32 v))) = stride32 v" "n \<le> 7"
  shows "sint (ucast (push_bit n (stride32 v)) :: u8) = 2 ^ n * sint (stride v)"
proof -
  let ?s = "ucast (push_bit n (stride32 v)) :: u8"
  have "sint (signed_drop_bit n (int8_of (push_bit n (stride32 v)))) = sint ?s div 2 ^ n"
    by (simp add: sint_signed_drop_bit_eq drop_bit_eq_div int8_of_def sint_up_scast is_up)
  then have "sint ?s div 2 ^ n = sint (stride v)" using assms(1) sint_stride32 by metis
  moreover have "2 ^ n dvd sint ?s"
  proof -
    have dvd: "(2 :: int) ^ n dvd 2 ^ 8" "(2 :: int) ^ n dvd 2 ^ 32" using assms(2) by (intro le_imp_power_dvd, simp)+
    have "uint (push_bit n (stride32 v)) = uint (stride32 v) * 2 ^ n mod 2 ^ 32"
    proof -
      have "push_bit n (stride32 v) = word_of_int (uint (stride32 v) * 2 ^ n)" by (simp add: push_bit_eq_mult)
      then show ?thesis by (simp only: uint_word_of_int) simp
    qed
    moreover have "uint ?s = uint (push_bit n (stride32 v)) mod 2 ^ 8" by (simp add: unsigned_ucast_eq take_bit_eq_mod)
    ultimately have "2 ^ n dvd uint ?s" using dvd by (metis dvd_mod dvd_triv_right)
    moreover have "uint ?s = sint ?s mod 2 ^ 8"
      using uint_word_of_int [where 'a = 8 and k = "sint ?s"] by simp
    ultimately show ?thesis using dvd(1) by (metis dvd_mod_iff)
  qed
  ultimately show ?thesis by (metis dvd_mult_div_cancel)
qed

end
