(* ===== verification/RegInplace.thy ===== *)
theory RegInplace
  imports RegStride
begin

text \<open>
  Soundness of the operations that keep the defining instructions: additions, shifts,
  extension and truncation, of numbers and of loop values.
\<close>

section \<open>Mapping the values\<close>

lemma map_vals_simps [simp]:
  "state (map_vals g v) = state v" "stride (map_vals g v) = stride v" "vals (map_vals g v) = [] \<longleftrightarrow> vals v = []"
  "nums (map_vals g v) = g ` nums v"
  by (simp_all add: map_vals_def nums_def image_image)

lemma wf_sort_map:
  assumes "wf_value v" "is_known v \<or> is_numloop v"
  shows "wf_value (sort_multivals (map_vals g v))"
  using assms by (auto simp: wf_value_def state_defs)

lemma sound_sort_map_num:
  assumes "wf_value v" "is_num v"
  shows "sound_unary g sp0 v (sort_multivals (map_vals g v))"
proof -
  have "is_num (sort_multivals (map_vals g v))" using assms(2) by (simp add: is_num_def)
  then show ?thesis
    using wf_sort_map [OF assms(1), of g] assms(2) by (simp add: sound_unary_def denotes_num is_known_def)
qed

text \<open>
  A loop value is sound when the new stride has a power of two that divides the
  differences of the results.
\<close>

lemma sound_sort_map_loop:
  assumes v: "wf_value v" "is_numloop v"
    and s: "sint (stride v) = 2 ^ i * m" "odd m" "i \<le> 64" and t: "sint t = 2 ^ j * k" "odd k" "j \<le> 64"
    and step: "\<And>x a. 2 ^ i dvd uint x - uint a \<Longrightarrow> 2 ^ j dvd uint (g x) - uint (g a)"
  shows "sound_unary g sp0 v (sort_multivals (map_vals g (v\<lparr>stride := t\<rparr>)))"
proof -
  let ?w = "sort_multivals (map_vals g (v\<lparr>stride := t\<rparr>))"
  have "t \<noteq> 0" using t(1,2) by auto
  then have "wf_value (v\<lparr>stride := t\<rparr>)" using v by (auto simp: wf_value_def state_defs)
  then have wf: "wf_value ?w" using v(2) by (intro wf_sort_map) (auto simp: state_defs)
  have w: "is_numloop ?w" "stride ?w = t" "nums ?w = g ` nums v" using v(2) by (simp_all add: is_numloop_def)
  have "g x \<in> denotes sp0 ?w" if x: "x \<in> denotes sp0 v" for x
  proof -
    obtain a where "a \<in> nums v" "2 ^ i dvd uint x - uint a" using x in_loop [OF v(2) s] by blast
    then show ?thesis using in_loop [OF w(1), of j k "g x" sp0] t w(2,3) step by auto
  qed
  then show ?thesis using wf by (simp add: sound_unary_def)
qed

lemma stride_power:
  assumes "sint (s :: u8) = 2 ^ i * m" "odd m"
  shows "i \<le> 7"
proof (rule ccontr)
  assume "\<not> i \<le> 7"
  then have "(2 :: int) ^ 8 dvd 2 ^ i" by (intro le_imp_power_dvd) simp
  then have "256 dvd sint s" using assms(1) by (simp add: dvd_mult2)
  moreover have "sint s \<noteq> 0" using assms by auto
  ultimately show False using sint_u8 [of s] by (auto elim!: dvdE)
qed

lemma loop_stride:
  assumes "wf_value v" "is_numloop v"
  obtains i m where "sint (stride v) = 2 ^ i * m" "odd m" "i \<le> 7"
proof -
  have "stride v \<noteq> 0" using assms by (auto simp: wf_value_def)
  moreover have "stride v = word_of_int (sint (stride v))" by simp
  ultimately have "sint (stride v) \<noteq> 0" by (metis of_int_0)
  then obtain i m where "sint (stride v) = 2 ^ i * m" "odd m" by (rule two_power_odd)
  then show thesis using that stride_power by blast
qed

section \<open>Additions\<close>

lemma sound_same: "wf_value v \<Longrightarrow> \<not> is_known v \<Longrightarrow> \<not> is_numloop v \<Longrightarrow> sound_unary g sp0 v v"
  by (simp add: sound_unary_def denotes_def is_known_def)

lemma sound_zero: "wf_value v \<Longrightarrow> sound_unary (\<lambda>x. x + 0) sp0 v v"
  by (simp add: sound_unary_def)

lemma sound_add_shape:
  assumes "wf_value v" "wf_value w" "is_known v \<or> is_numloop v" "nums w = (\<lambda>x. x + y) ` nums v"
    and "is_num w = is_num v" "is_spd w = is_spd v" "is_numloop w = is_numloop v" "stride w = stride v"
  shows "sound_unary (\<lambda>x. x + y) sp0 v w"
proof -
  consider "is_num v" | "is_spd v" | "is_numloop v" using assms(3) by (auto simp: is_known_def)
  then have "\<forall>x \<in> denotes sp0 v. x + y \<in> denotes sp0 w"
  proof cases
    case 1
    then show ?thesis using assms by (simp add: denotes_num)
  next
    case 2
    then show ?thesis using assms by (auto simp: denotes_spd add.assoc)
  next
    case 3
    show ?thesis
    proof
      fix x assume "x \<in> denotes sp0 v"
      then obtain a k where a: "a \<in> nums v" "x = a + of_nat k * scast (stride v)" using 3 numloopE by blast
      then have "(a + y) + of_nat k * scast (stride w) \<in> denotes sp0 w"
        using assms(4,7) 3 by (intro numloopI) simp_all
      then show "x + y \<in> denotes sp0 w" using a(2) assms(8) by (simp add: add_ac)
    qed
  qed
  then show ?thesis using assms(2) by (simp add: sound_unary_def)
qed

lemma sound_add_num:
  assumes "wf_value v"
  shows "sound_unary (\<lambda>x. x + y) sp0 v (rv_add_num v y)"
proof -
  have "sound_unary (\<lambda>x. x + y) sp0 v (sort_multivals (map_vals (\<lambda>x. x + y) v))" if "is_known v \<or> is_numloop v"
    by (rule sound_add_shape [OF assms wf_sort_map [OF assms that] that]) (simp_all add: state_defs)
  then show ?thesis
    using sound_same [OF assms] sound_zero [OF assms] by (auto simp: rv_add_num_def)
qed

lemma sound_add_num_insn:
  assumes "wf_value v"
  shows "sound_unary (\<lambda>x. x + y) sp0 v (rv_add_num_insn v y insn)"
proof -
  let ?xs = "map (\<lambda>p. rval p + y) (vals v)"
  let ?w = "set_multivals v ?xs insn"
  have set: "set ?xs = (\<lambda>x. x + y) ` nums v" by (auto simp: nums_def)
  have "sound_unary (\<lambda>x. x + y) sp0 v (?w\<lparr>state := if is_spd v then SPDINSN else NUMINSN\<rparr>)" if k: "is_known v"
    using k wf_nonempty [OF assms] wf_stride [OF assms k] set
    by (intro sound_add_shape assms wf_known) (auto simp: state_defs)
  moreover have "\<not> is_numloop v" if "is_known v" using that by (auto simp: state_defs)
  moreover have "sound_unary (\<lambda>x. x + y) sp0 v ?w" if l: "is_numloop v"
    using l wf_nonempty [OF assms] set by (intro sound_add_shape wf_loop_same assms) simp_all
  ultimately show ?thesis
    using sound_same [OF assms] sound_zero [OF assms]
    by (cases "y = 0"; cases "is_known v"; cases "is_numloop v") (simp_all add: rv_add_num_insn_def Let_def)
qed

section \<open>Shifts\<close>

text \<open>All in-place operations keep unknown values, and need no more than one step on numbers.\<close>

lemma sound_loop_unknown:
  assumes "wf_value v" "is_numloop v"
  shows "\<exists>v'. do { a \<leftarrow> first_def_ea v; Some (set_unkloop v a) } = Some v' \<and> sound_unary g sp0 v v'"
  using wf_nonempty [OF assms(1)] assms(2)
  by (auto simp: first_def_ea_def sound_unary_unknown split: list.splits)

lemma uint_push_bit: "uint (push_bit n (x :: u64)) = uint x * 2 ^ n mod 2 ^ 64"
proof -
  have "push_bit n x = word_of_int (uint x * 2 ^ n)" by (simp add: push_bit_eq_mult)
  then show ?thesis by (simp only: uint_word_of_int_64)
qed

lemma dvd_mod_diff:
  assumes "j \<le> 64" "2 ^ j dvd x - (y :: int)"
  shows "2 ^ j dvd x mod 2 ^ 64 - y mod 2 ^ 64"
proof -
  have "(2 :: int) ^ j dvd 2 ^ 64" using assms(1) by (rule le_imp_power_dvd)
  then show ?thesis using assms(2) by (metis mod_diff_eq mod_eq_dvd_iff mod_mod_cancel)
qed

lemma push_bit_step:
  fixes x a :: u64
  assumes "2 ^ i dvd uint x - uint a" "n + i \<le> 64"
  shows "2 ^ (n + i) dvd uint (push_bit n x) - uint (push_bit n a)"
proof -
  obtain q where "uint x - uint a = 2 ^ i * q" using assms(1) by (elim dvdE)
  then have "uint x * 2 ^ n - uint a * 2 ^ n = 2 ^ (n + i) * q"
    by (simp only: left_diff_distrib [symmetric]) (simp add: power_add)
  then show ?thesis unfolding uint_push_bit using assms(2) by (intro dvd_mod_diff) simp_all
qed

lemma div_step:
  assumes "2 ^ (n + j) dvd x - (a :: int)"
  shows "2 ^ j dvd x div 2 ^ n - a div 2 ^ n"
proof -
  obtain q where "x = a + 2 ^ n * (2 ^ j * q)" using assms by (auto elim!: dvdE simp: power_add algebra_simps)
  then show ?thesis by simp
qed

lemma sound_shift_left:
  assumes "wf_value v" "\<not> is_spd v" "r < 64"
  shows "\<exists>v'. rv_shift_left v r = Some v' \<and> sound_unary (push_bit (unat r)) sp0 v v'"
proof -
  have r: "\<not> 64 \<le> r" using assms(3) by simp
  consider "r = 0" | "\<not> is_known v" "\<not> is_numloop v" | "r \<noteq> 0" "is_num v" | "r \<noteq> 0" "is_numloop v"
    using assms(2) by (auto simp: is_known_def)
  then show ?thesis
  proof cases
    case 1
    then show ?thesis using assms(1) by (simp add: rv_shift_left_def sound_unary_def)
  next
    case 2
    then show ?thesis using sound_same [OF assms(1)] by (simp add: rv_shift_left_def)
  next
    case 3
    then have "rv_shift_left v r = Some (sort_multivals (map_vals (push_bit (unat r)) v))"
      using r state_exclusive(1) [of v] by (simp add: rv_shift_left_def is_known_def)
    then show ?thesis using sound_sort_map_num [OF assms(1) 3(2)] by blast
  next
    case 4
    let ?bad = "7 < r \<or> signed_drop_bit (unat r) (int8_of (push_bit (unat r) (stride32 v))) \<noteq> stride32 v"
    show ?thesis
    proof (cases ?bad)
      case True
      then have "rv_shift_left v r = do { a \<leftarrow> first_def_ea v; Some (set_unkloop v a) }"
        using 4 by (simp add: rv_shift_left_def cong: if_cong)
      then show ?thesis using sound_loop_unknown [OF assms(1) 4(2)] by simp
    next
      case False
      let ?t = "ucast (push_bit (unat r) (stride32 v)) :: u8"
      have r7: "unat r \<le> 7" using False by (simp add: word_less_nat_alt not_less)
      obtain i m where im: "sint (stride v) = 2 ^ i * m" "odd m" "i \<le> 7" using loop_stride [OF assms(1) 4(2)] .
      have t: "sint ?t = 2 ^ (unat r + i) * m"
        using shifted_left_stride [OF _ r7, of v] False im(1) by (simp add: power_add)
      have "sound_unary (push_bit (unat r)) sp0 v (sort_multivals (map_vals (push_bit (unat r)) (v\<lparr>stride := ?t\<rparr>)))"
      proof (rule sound_sort_map_loop [OF assms(1) 4(2) im(1,2) _ t im(2)])
        show "2 ^ (unat r + i) dvd uint (push_bit (unat r) x) - uint (push_bit (unat r) a)"
          if "2 ^ i dvd uint x - uint a" for x a :: u64
          by (rule push_bit_step [OF that]) (use im(3) r7 in simp)
      qed (use im(3) r7 in simp_all)
      moreover have "rv_shift_left v r = Some (sort_multivals (map_vals (push_bit (unat r)) (v\<lparr>stride := ?t\<rparr>)))"
        using False 4 r by (simp add: rv_shift_left_def)
      ultimately show ?thesis by simp
    qed
  qed
qed

text \<open>
  \<open>extend_sign\<close> reads a number of some bytes, and keeps the lowest of them.  The shift to the
  right is logical, or arithmetic on a number of \<open>nbytes\<close> bytes.
\<close>

definition keeps_low_byte :: "(u64 \<Rightarrow> int \<Rightarrow> bool \<Rightarrow> u64) \<Rightarrow> bool" where
  "keeps_low_byte ext \<longleftrightarrow> (\<forall>x n signed. 0 < n \<longrightarrow> (ucast (ext x n signed) :: u8) = ucast x)"

definition right_shifted :: "(u64 \<Rightarrow> int \<Rightarrow> bool \<Rightarrow> u64) \<Rightarrow> nat \<Rightarrow> int \<Rightarrow> u64 \<Rightarrow> u64" where
  "right_shifted ext n nbytes x =
    (if nbytes \<noteq> 0 then signed_drop_bit n (ext x nbytes True) else drop_bit n x)"

lemma uint_drop_bit: "uint (drop_bit n (x :: u64)) = uint x div 2 ^ n"
proof -
  have "unat (drop_bit n x) = unat x div 2 ^ n" by (subst unat_drop_bit_eq) (rule drop_bit_eq_div)
  then have "int (unat (drop_bit n x)) = int (unat x) div 2 ^ n" by (simp add: zdiv_int)
  then show ?thesis by simp
qed

lemma low_byte_dvd:
  assumes "keeps_low_byte ext" "j \<le> 8" "0 < n"
  shows "2 ^ j dvd uint (ext x n sg) - uint (ext a n sg) \<longleftrightarrow> 2 ^ j dvd uint x - uint a"
proof -
  have "uint (ext x n sg) mod 2 ^ 8 = uint x mod 2 ^ 8" for x
  proof -
    have "uint (ucast (ext x n sg) :: u8) = uint (ucast x :: u8)" using assms(1,3) by (simp add: keeps_low_byte_def)
    then show ?thesis by (simp add: unsigned_ucast_eq take_bit_eq_mod)
  qed
  moreover have "(2 :: int) ^ j dvd 2 ^ 8" using assms(2) by (rule le_imp_power_dvd)
  ultimately have "uint (ext x n sg) mod 2 ^ j = uint x mod 2 ^ j" for x
    using mod_mod_cancel [of "2 ^ j" "2 ^ 8" "uint (ext x n sg)"] mod_mod_cancel [of "2 ^ j" "2 ^ 8" "uint x"] by simp
  then show ?thesis unfolding mod_eq_dvd_iff [symmetric] by simp
qed

lemma right_step:
  assumes "keeps_low_byte ext" "n + j \<le> 8" "0 \<le> nbytes" "2 ^ (n + j) dvd uint x - uint a"
  shows "2 ^ j dvd uint (right_shifted ext n nbytes x) - uint (right_shifted ext n nbytes a)"
proof (cases "nbytes = 0")
  case True
  then show ?thesis using div_step [OF assms(4)] by (simp add: right_shifted_def uint_drop_bit)
next
  case False
  have "2 ^ (n + j) dvd sint (ext x nbytes True) - sint (ext a nbytes True)"
    using assms False by (subst dvd_sint_diff) (simp_all add: low_byte_dvd)
  then have "2 ^ j dvd sint (ext x nbytes True) div 2 ^ n - sint (ext a nbytes True) div 2 ^ n" by (rule div_step)
  moreover have "right_shifted ext n nbytes y = signed_drop_bit n (ext y nbytes True)" for y
    using False by (simp add: right_shifted_def)
  ultimately have "2 ^ j dvd sint (right_shifted ext n nbytes x) - sint (right_shifted ext n nbytes a)"
    by (simp only: sint_signed_drop_bit_eq drop_bit_eq_div)
  then show ?thesis using assms(2) by (subst (asm) dvd_sint_diff) simp_all
qed

lemma sound_shift_right:
  assumes "wf_value v" "\<not> is_spd v" "r < 64" "keeps_low_byte ext" "0 \<le> nbytes"
  shows "\<exists>v'. rv_shift_right ext v r nbytes = Some v' \<and>
    (r \<noteq> 0 \<longrightarrow> sound_unary (right_shifted ext (unat r) nbytes) sp0 v v') \<and> (r = 0 \<longrightarrow> v' = v)"
proof -
  let ?g = "right_shifted ext (unat r) nbytes"
  have r: "\<not> 64 \<le> r" using assms(3) by simp
  have g: "(\<lambda>x. if nbytes \<noteq> 0 then signed_drop_bit (unat r) (ext x nbytes True) else drop_bit (unat r) x) = ?g"
    by (simp add: fun_eq_iff right_shifted_def)
  consider "r = 0" | "r \<noteq> 0" "\<not> is_known v" "\<not> is_numloop v" | "r \<noteq> 0" "is_num v" | "r \<noteq> 0" "is_numloop v"
    using assms(2) by (auto simp: is_known_def)
  then show ?thesis
  proof cases
    case 1
    then show ?thesis by (simp add: rv_shift_right_def)
  next
    case 2
    then show ?thesis using sound_same [OF assms(1)] by (simp add: rv_shift_right_def)
  next
    case 3
    then have "rv_shift_right ext v r nbytes = Some (sort_multivals (map_vals ?g v))"
      using r state_exclusive(1) [of v] by (simp add: rv_shift_right_def is_known_def g del: if_not_P)
    then show ?thesis using sound_sort_map_num [OF assms(1) 3(2)] 3(1) by simp
  next
    case 4
    let ?bad = "7 < r \<or> push_bit (unat r) (signed_drop_bit (unat r) (stride32 v)) \<noteq> stride32 v"
    show ?thesis
    proof (cases ?bad)
      case True
      then have "rv_shift_right ext v r nbytes = do { a \<leftarrow> first_def_ea v; Some (set_unkloop v a) }"
        using 4 by (simp add: rv_shift_right_def cong: if_cong)
      then show ?thesis using sound_loop_unknown [OF assms(1) 4(2)] 4(1) by simp
    next
      case False
      let ?t = "ucast (signed_drop_bit (unat r) (stride32 v)) :: u8"
      have r7: "unat r \<le> 7" using False by (simp add: word_less_nat_alt not_less)
      have s: "sint (stride v) = 2 ^ unat r * sint ?t" using shifted_right_stride [OF _ r7, of v] False by simp
      have "sint (stride v) \<noteq> 0" using loop_stride [OF assms(1) 4(2)] by (metis dvd_0_right mult_eq_0_iff power_not_zero zero_neq_numeral)
      then obtain j k where jk: "sint ?t = 2 ^ j * k" "odd k" using two_power_odd [of "sint ?t"] s by auto
      have i: "sint (stride v) = 2 ^ (unat r + j) * k" using s jk(1) by (simp add: power_add)
      have i7: "unat r + j \<le> 7" by (rule stride_power [OF i jk(2)])
      have sound: "sound_unary ?g sp0 v (sort_multivals (map_vals ?g (v\<lparr>stride := ?t\<rparr>)))"
      proof (rule sound_sort_map_loop [OF assms(1) 4(2) i jk(2) _ jk])
        show "2 ^ j dvd uint (?g x) - uint (?g a)" if "2 ^ (unat r + j) dvd uint x - uint a" for x a
          by (rule right_step [OF assms(4) _ assms(5) that]) (use i7 in simp)
      qed (use i7 in simp_all)
      have "rv_shift_right ext v r nbytes = Some (sort_multivals (map_vals ?g (v\<lparr>stride := ?t\<rparr>)))"
        using False 4 r by (simp add: rv_shift_right_def g del: if_not_P)
      then show ?thesis using sound 4(1) by simp
    qed
  qed
qed

section \<open>Extension and truncation\<close>

lemma sound_ext:
  assumes "wf_value v" "\<not> is_spd v" "keeps_low_byte ext" "0 < w" "is_known v \<or> is_numloop v"
  shows "sound_unary (\<lambda>x. ext x w sg) sp0 v (sort_multivals (map_vals (\<lambda>x. ext x w sg) v))"
proof (cases "is_num v")
  case True
  then show ?thesis using sound_sort_map_num [OF assms(1)] by blast
next
  case False
  then have l: "is_numloop v" using assms(2,5) by (simp add: is_known_def)
  obtain i m where im: "sint (stride v) = 2 ^ i * m" "odd m" "i \<le> 7" using loop_stride [OF assms(1) l] .
  have "sound_unary (\<lambda>x. ext x w sg) sp0 v (sort_multivals (map_vals (\<lambda>x. ext x w sg) (v\<lparr>stride := stride v\<rparr>)))"
  proof (rule sound_sort_map_loop [OF assms(1) l im(1,2) _ im(1,2)])
    show "2 ^ i dvd uint (ext x w sg) - uint (ext a w sg)" if "2 ^ i dvd uint x - uint a" for x a
      using low_byte_dvd [OF assms(3), of i w x sg a] that im(3) assms(4) by simp
  qed (use im(3) in simp_all)
  then show ?thesis by simp
qed

lemma sound_extend:
  assumes "wf_value v" "\<not> is_spd v" "keeps_low_byte ext" "0 < w"
  shows "sound_unary (\<lambda>x. ext x w sg) sp0 v (rv_extend ext v w sg)"
  using sound_ext [OF assms] sound_same [OF assms(1)] by (auto simp: rv_extend_def)

text \<open>A number is truncated to the width, or to the size of a slot.\<close>

definition truncated :: "(u64 \<Rightarrow> int \<Rightarrow> bool \<Rightarrow> u64) \<Rightarrow> int \<Rightarrow> int \<Rightarrow> u64 \<Rightarrow> u64" where
  "truncated ext width slotsize x =
    (if width \<noteq> 0 then ext x width False else if slotsize \<noteq> 0 then ext x slotsize False else x)"

lemma sound_truncate:
  assumes "wf_value v" "\<not> is_spd v" "keeps_low_byte ext" "0 \<le> width" "0 \<le> slotsize"
  shows "sound_unary (truncated ext width slotsize) sp0 v (rv_truncate ext v width slotsize addrsize)"
proof -
  have "truncated ext width slotsize = (\<lambda>x. ext x width False)" if "width \<noteq> 0"
    using that by (simp add: fun_eq_iff truncated_def)
  moreover have "truncated ext 0 slotsize = (\<lambda>x. ext x slotsize False)" if "slotsize \<noteq> 0"
    using that by (simp add: fun_eq_iff truncated_def)
  moreover have "truncated ext 0 0 = (\<lambda>x. x)" by (simp add: fun_eq_iff truncated_def)
  moreover have "sound_unary (\<lambda>x. x) sp0 v v" using assms(1) by (simp add: sound_unary_def)
  ultimately show ?thesis
    using sound_ext [OF assms(1-3)] sound_same [OF assms(1)] assms(2,4,5)
    by (cases "width = 0"; cases "slotsize = 0"; cases "is_known v \<or> is_numloop v")
      (auto simp: rv_truncate_def Let_def)
qed

section \<open>All in-place operations\<close>

datatype inplace =
    Add_Insn u64 insn | Add_Num u64 | Shift_Left u64 | Shift_Right u64 int | Extend int bool | Truncate int int int

fun apply_inplace :: "(u64 \<Rightarrow> int \<Rightarrow> bool \<Rightarrow> u64) \<Rightarrow> inplace \<Rightarrow> reg_value \<Rightarrow> reg_value option" where
  "apply_inplace ext (Add_Insn y insn) v = Some (rv_add_num_insn v y insn)"
| "apply_inplace ext (Add_Num y) v = Some (rv_add_num v y)"
| "apply_inplace ext (Shift_Left r) v = rv_shift_left v r"
| "apply_inplace ext (Shift_Right r nbytes) v = rv_shift_right ext v r nbytes"
| "apply_inplace ext (Extend w sg) v = Some (rv_extend ext v w sg)"
| "apply_inplace ext (Truncate w slotsize addrsize) v = Some (rv_truncate ext v w slotsize addrsize)"

text \<open>What each does to a number; a shift by 0 is no shift at all.\<close>

fun inplace_value :: "(u64 \<Rightarrow> int \<Rightarrow> bool \<Rightarrow> u64) \<Rightarrow> inplace \<Rightarrow> u64 \<Rightarrow> u64" where
  "inplace_value ext (Add_Insn y insn) x = x + y"
| "inplace_value ext (Add_Num y) x = x + y"
| "inplace_value ext (Shift_Left r) x = push_bit (unat r) x"
| "inplace_value ext (Shift_Right r nbytes) x = (if r = 0 then x else right_shifted ext (unat r) nbytes x)"
| "inplace_value ext (Extend w sg) x = ext x w sg"
| "inplace_value ext (Truncate w slotsize addrsize) x = truncated ext w slotsize x"

text \<open>Only additions treat stack deltas as such; a shift by 64 or more is undefined.\<close>

fun inplace_ok :: "inplace \<Rightarrow> reg_value \<Rightarrow> bool" where
  "inplace_ok (Add_Insn y insn) v \<longleftrightarrow> True"
| "inplace_ok (Add_Num y) v \<longleftrightarrow> True"
| "inplace_ok (Shift_Left r) v \<longleftrightarrow> \<not> is_spd v \<and> r < 64"
| "inplace_ok (Shift_Right r nbytes) v \<longleftrightarrow> \<not> is_spd v \<and> r < 64 \<and> 0 \<le> nbytes"
| "inplace_ok (Extend w sg) v \<longleftrightarrow> \<not> is_spd v \<and> 0 < w"
| "inplace_ok (Truncate w slotsize addrsize) v \<longleftrightarrow> \<not> is_spd v \<and> 0 \<le> w \<and> 0 \<le> slotsize"

lemma sound_inplace:
  assumes "wf_value v" "inplace_ok m v" "keeps_low_byte ext"
  shows "\<exists>v'. apply_inplace ext m v = Some v' \<and> sound_unary (inplace_value ext m) sp0 v v'"
proof (cases m)
  case (Shift_Left r)
  then show ?thesis using sound_shift_left [OF assms(1)] assms(2) by (simp add: sound_unary_def)
next
  case (Shift_Right r nbytes)
  then show ?thesis
    using sound_shift_right [OF assms(1) _ _ assms(3), of r nbytes sp0] assms(1,2) by (cases "r = 0") (auto simp: sound_unary_def)
qed (use assms sound_add_num_insn sound_add_num sound_extend sound_truncate in \<open>simp_all add: sound_unary_def\<close>)

text \<open>On numbers nothing is lost.\<close>

lemma nums_sort_map: "is_num v \<Longrightarrow> is_num (sort_multivals (map_vals g v)) \<and> nums (sort_multivals (map_vals g v)) = g ` nums v"
  by (simp add: is_num_def)

lemma exact_inplace:
  assumes "is_num v" "apply_inplace ext m v = Some v'"
  shows "is_num v' \<and> nums v' = inplace_value ext m ` nums v"
proof (cases m)
  case (Add_Insn y insn)
  have "set (map (\<lambda>p. rval p + y) (vals v)) = (\<lambda>x. x + y) ` nums v" by (auto simp: nums_def)
  moreover have "is_num (w\<lparr>state := NUMINSN\<rparr>)" for w by (simp add: is_num_def)
  ultimately show ?thesis
    using assms Add_Insn state_exclusive(1) [of v] by (auto simp: rv_add_num_insn_def is_known_def Let_def split: if_splits)
next
  case (Add_Num y)
  then show ?thesis
    using assms nums_sort_map [of v "\<lambda>x. x + y"] by (auto simp: rv_add_num_def is_known_def split: if_splits)
next
  case (Shift_Left r)
  then show ?thesis
    using assms nums_sort_map [of v "push_bit (unat r)"] state_exclusive(1) [of v]
    by (auto simp: rv_shift_left_def is_known_def split: if_splits)
next
  case (Shift_Right r nbytes)
  have "(\<lambda>x. if nbytes \<noteq> 0 then signed_drop_bit (unat r) (ext x nbytes True) else drop_bit (unat r) x)
      = right_shifted ext (unat r) nbytes" by (simp add: fun_eq_iff right_shifted_def)
  then show ?thesis
    using assms Shift_Right nums_sort_map [of v "right_shifted ext (unat r) nbytes"] state_exclusive(1) [of v]
    by (cases "r = 0") (auto simp: rv_shift_right_def is_known_def split: if_splits)
next
  case (Extend w sg)
  then show ?thesis
    using assms nums_sort_map [of v "\<lambda>x. ext x w sg"] by (auto simp: rv_extend_def is_known_def split: if_splits)
next
  case (Truncate w slotsize addrsize)
  then show ?thesis
    using assms nums_sort_map [of v "\<lambda>x. ext x w False"] nums_sort_map [of v "\<lambda>x. ext x slotsize False"] state_exclusive(1) [of v]
    by (cases "w = 0"; cases "slotsize = 0") (auto simp: rv_truncate_def is_known_def truncated_def Let_def)
qed

end
