(* ===== verification/RegReach.thy ===== *)
theory RegReach
  imports RegInplace
begin

text \<open>
  The values that a processor module can build with the public methods, and the exact
  results of operations on numbers.
\<close>

section \<open>Values that methods build\<close>

text \<open>
  One step is a call of a method that changes the value, other than the operations on two
  values; \<open>vals_union\<close> is a function of the kernel and is left out.  The vector of numbers
  of \<open>set_num\<close> has an element.
\<close>

inductive call :: "(u64 \<Rightarrow> int \<Rightarrow> bool \<Rightarrow> u64) \<Rightarrow> reg_value \<Rightarrow> reg_value \<Rightarrow> bool" for ext where
  m_clear: "call ext v clear"
| m_set: "st \<notin> {UNDEF, NUMLOOP} \<Longrightarrow> call ext v (set_value st d v)"
| m_set_nums: "rvals \<noteq> [] \<Longrightarrow> call ext v (set_num_vals v rvals insn)"
| m_set_loop: "call ext v (set_numloop v n)"
| m_flags: "call ext v (set_all_vals_flag v fl)"
| m_mov: "set_def_itype_for_mov v insn = (ok, v') \<Longrightarrow> call ext v v'"
| m_add_num_insn: "call ext v (rv_add_num_insn v y insn)"
| m_add_num: "call ext v (rv_add_num v y)"
| m_left: "rv_shift_left v y = Some v' \<Longrightarrow> call ext v v'"
| m_right: "rv_shift_right ext v y nbytes = Some v' \<Longrightarrow> call ext v v'"
| m_extend: "call ext v (rv_extend ext v width sg)"
| m_truncate: "call ext v (rv_truncate ext v width slotsize addrsize)"

text \<open>Objects start as one of the values that the constructors make; the operands of an
  operation are built themselves.\<close>

inductive built :: "(u64 \<Rightarrow> int \<Rightarrow> bool \<Rightarrow> u64) \<Rightarrow> reg_value \<Rightarrow> bool" for ext where
  b_empty: "built ext clear"
| b_at: "st \<notin> {UNDEF, NUMLOOP} \<Longrightarrow> built ext (value_at st a x fl)"
| b_insn: "st \<notin> {UNDEF, NUMLOOP} \<Longrightarrow> built ext (value_insn st insn x fl)"
| b_emulate: "built ext v \<Longrightarrow> built ext r \<Longrightarrow> emulate aop v r insn = Some v' \<Longrightarrow> built ext v'"
| b_call: "built ext v \<Longrightarrow> call ext v v' \<Longrightarrow> built ext v'"

lemma wf_same_keys:
  assumes "wf_value v" "map def_key (vals w) = map def_key (vals v)" "stride w = stride v"
    and "is_empty w = is_empty v" "is_known w = is_known v" "is_numloop w = is_numloop v"
  shows "wf_value w"
  using assms by (metis (no_types, lifting) length_map map_is_Nil_conv wf_value_def)

lemma wf_flags: "wf_value v \<Longrightarrow> wf_value (set_all_vals_flag v fl)"
  by (rule wf_same_keys) (simp_all add: set_all_vals_flag_def def_key_def state_defs comp_def)

lemma wf_mov: "wf_value v \<Longrightarrow> set_def_itype_for_mov v insn = (ok, v') \<Longrightarrow> wf_value v'"
  by (erule wf_same_keys)
    (auto simp: set_def_itype_for_mov_def def_key_def state_defs split: list.splits if_splits)

lemma wf_numloop: "wf_value v \<Longrightarrow> wf_value (set_numloop v n)"
proof -
  assume wf: "wf_value v"
  have "(ucast n :: u8) \<noteq> 0" if "n \<noteq> 0" "n = scast (ucast n :: u8)" using that by auto
  then show ?thesis using wf by (auto simp: set_numloop_def wf_value_def state_defs)
qed

text \<open>A shifted loop value keeps a stride that is not 0.\<close>

lemma wf_new_stride: "wf_value v \<Longrightarrow> is_numloop v \<Longrightarrow> sint t \<noteq> 0 \<Longrightarrow> wf_value (v\<lparr>stride := t\<rparr>)"
  by (auto simp: wf_value_def state_defs)

lemma loop_sint: "wf_value v \<Longrightarrow> is_numloop v \<Longrightarrow> sint (stride v) \<noteq> 0"
  by (metis loop_stride dvd_0_right mult_eq_0_iff power_not_zero zero_neq_numeral)

lemma wf_map_stride:
  assumes "wf_value v" "is_known v \<or> is_numloop v" "is_numloop v \<longrightarrow> sint t \<noteq> 0"
  shows "wf_value (sort_multivals (map_vals g (if is_numloop v then v\<lparr>stride := t\<rparr> else v)))"
proof (rule wf_sort_map)
  show "wf_value (if is_numloop v then v\<lparr>stride := t\<rparr> else v)" using assms wf_new_stride by simp
qed (use assms(2) in \<open>auto simp: state_defs\<close>)

lemma wf_shift_left:
  assumes "wf_value v" "rv_shift_left v r = Some v'"
  shows "wf_value v'"
proof -
  let ?t = "ucast (push_bit (unat r) (stride32 v)) :: u8"
  have "sint ?t \<noteq> 0" if "is_numloop v" "\<not> 7 < r" "signed_drop_bit (unat r) (int8_of (push_bit (unat r) (stride32 v))) = stride32 v"
  proof -
    have "unat r \<le> 7" using that(2) by (simp add: word_less_nat_alt not_less)
    then show ?thesis using shifted_left_stride [OF that(3)] loop_sint [OF assms(1) that(1)] by simp
  qed
  then show ?thesis
    using assms wf_map_stride [OF assms(1), of ?t "push_bit (unat r)"]
    by (auto simp: rv_shift_left_def Let_def first_def_ea_def unknown_values split: if_splits list.splits)
qed

lemma wf_shift_right:
  assumes "wf_value v" "rv_shift_right ext v r nbytes = Some v'"
  shows "wf_value v'"
proof -
  let ?t = "ucast (signed_drop_bit (unat r) (stride32 v)) :: u8"
  have "sint ?t \<noteq> 0" if "is_numloop v" "\<not> 7 < r" "push_bit (unat r) (signed_drop_bit (unat r) (stride32 v)) = stride32 v"
  proof -
    have "unat r \<le> 7" using that(2) by (simp add: word_less_nat_alt not_less)
    then show ?thesis using shifted_right_stride [OF that(3)] loop_sint [OF assms(1) that(1)] by auto
  qed
  then show ?thesis
    using assms wf_map_stride [OF assms(1), of ?t]
    by (auto simp: rv_shift_right_def Let_def first_def_ea_def unknown_values split: if_splits list.splits)
qed

lemma wf_ext: "wf_value v \<Longrightarrow> wf_value (rv_extend ext v width sg)" "wf_value v \<Longrightarrow> wf_value (rv_truncate ext v width slotsize addrsize)"
  by (auto simp: rv_extend_def rv_truncate_def Let_def wf_sort_map)

lemma wf_emulate:
  assumes "wf_value v" "wf_value r" "emulate aop v r insn = Some v'"
  shows "wf_value v'"
  using sound_emulate [OF assms(1,2), of 0 aop insn] assms(3) by (simp add: sound_result_def)

lemma wf_call:
  assumes "call ext v v'" "wf_value v"
  shows "wf_value v'"
  using assms
proof cases
  case (m_set_nums rvals insn)
  then show ?thesis by (simp add: set_num_vals_def) (simp add: wf_value_def state_defs)
next
  case (m_add_num_insn y insn)
  then show ?thesis using sound_add_num_insn [OF assms(2)] by (simp add: sound_unary_def)
next
  case (m_add_num y)
  then show ?thesis using sound_add_num [OF assms(2)] by (simp add: sound_unary_def)
qed (use assms(2) in \<open>auto intro: wf_set_value wf_numloop wf_flags wf_mov wf_shift_left wf_shift_right wf_ext
  simp: clear_def wf_value_def [of "\<lparr>vals = [], state = UNDEF, stride = 0\<rparr>"] state_defs\<close>)

lemma built_wf: "built ext v \<Longrightarrow> wf_value v"
proof (induction rule: built.induct)
  case (b_emulate v r aop insn v')
  then show ?case using wf_emulate by blast
next
  case (b_call v v')
  then show ?case using wf_call by blast
qed (simp_all add: clear_def value_at_def value_insn_def wf_value_def state_defs)

section \<open>Exact results\<close>

text \<open>Numbers, one of them with one value: the results are those of all pairs, and nothing else.\<close>

lemma emulate_exact:
  assumes "wf_value v" "wf_value r" "is_num v" "is_num r" "binary aop"
    and "is_value_unique v = Some True \<or> is_value_unique r = Some True"
  shows "\<exists>v'. emulate aop v r insn = Some v' \<and> is_num v' \<and> nums v' = {alu aop a b |a b. a \<in> nums v \<and> b \<in> nums r}"
proof -
  have ne: "vals v \<noteq> []" "\<not> is_empty v" "vals r \<noteq> []" "\<not> is_empty r"
    using wf_nonempty assms(1-4) by (simp_all add: is_known_def)
  have "perform_binary_op v r aop insn \<noteq> Some (False, v)"
    using assms(5,6) ne by (auto simp: perform_binary_op_def binary_results_eq first_val_def
      is_value_unique_def split: list.splits if_splits)
  then obtain xs where xs: "perform_binary_op v r aop insn = Some (True, set_multivals v xs insn)"
      "set xs = (\<lambda>(a, b). bin aop a b) ` (nums v \<times> nums r)"
    using perform_binary_op_spec [OF ne assms(5), of insn] by metis
  have set: "set xs = {alu aop a b |a b. a \<in> nums v \<and> b \<in> nums r}"
    unfolding xs(2) bin_alu [OF assms(5)] by auto
  have no: "\<not> is_numloop v" "\<not> is_numloop r" "\<not> is_spd v" "\<not> is_spd r"
    using state_exclusive(1) assms(3,4) by blast+
  have "emulate aop v r insn = Some ((set_multivals v xs insn)\<lparr>state := NUMINSN\<rparr>)"
    using assms(3-5) xs(1) no by (cases aop) (simp_all add: rv_add_def rv_sub_def rv_bor_def rv_band_def rv_bxor_def
      rv_bandnot_def rv_sll_def rv_slr_def rv_sar_def rv_movt_def perform_binary_op_for_nums_def binary_def)
  then show ?thesis using set by (simp add: is_num_def)
qed

end
