(* ===== verification/RegOp.thy ===== *)
theory RegOp
  imports Prelude
begin

text \<open>
  The tracked operand, \<open>reg_finder_op_t\<close> of \<open>src/src/include/regfinder.hpp\<close>: a
  register or a stack variable, its width and its signedness, packed in 32 bits.
  The \<open>int\<close>s and the stack offset are mathematical integers.
\<close>

section \<open>The packed word\<close>

type_synonym rfop = u32

definition REG :: u32 where "REG = 0"
definition STKVAR :: u32 where "STKVAR = 0x80000000"
definition WIDTH_SHIFT :: nat where "WIDTH_SHIFT = 29"
definition WIDTH_MASK :: u32 where "WIDTH_MASK = 0x60000000"
definition SIGNED :: u32 where "SIGNED = 0x10000000"
definition STKOFF_SIGNBIT :: u32 where "STKOFF_SIGNBIT = 0x8000000"
definition STKOFF_MASK :: u32 where "STKOFF_MASK = 0x7FFFFFF"
definition BADREG :: u32 where "BADREG = 0x10000"

lemmas rfop_consts = REG_def STKVAR_def WIDTH_SHIFT_def WIDTH_MASK_def SIGNED_def STKOFF_SIGNBIT_def
  STKOFF_MASK_def BADREG_def

definition op_empty :: "rfop \<Rightarrow> bool" where "op_empty p \<longleftrightarrow> p = BADREG"

definition is_valid_reg :: "int \<Rightarrow> bool" where "is_valid_reg reg \<longleftrightarrow> 0 \<le> reg \<and> reg < uint BADREG"

definition is_valid_stkoff :: "int \<Rightarrow> bool" where
  "is_valid_stkoff stkoff \<longleftrightarrow> - uint STKOFF_MASK \<le> stkoff \<and> stkoff \<le> uint STKOFF_MASK"

definition pack_width :: "int \<Rightarrow> u32" where
  "pack_width width =
    (if width = 1 then push_bit WIDTH_SHIFT 0
     else if width = 2 then push_bit WIDTH_SHIFT 1
     else if width = 4 then push_bit WIDTH_SHIFT 2
     else if width = 8 then push_bit WIDTH_SHIFT 3
     else BADREG)"

definition make_reg :: "int \<Rightarrow> int \<Rightarrow> rfop" where
  "make_reg reg width =
    (let packed_width = pack_width width in
     if packed_width = BADREG \<or> \<not> is_valid_reg reg then BADREG
     else REG OR packed_width OR ucast (word_of_int reg :: u16))"

definition make_stkoff :: "int \<Rightarrow> int \<Rightarrow> rfop" where
  "make_stkoff stkoff width =
    (let packed_width = pack_width width in
     if packed_width = BADREG \<or> \<not> is_valid_stkoff stkoff then BADREG
     else let negative = stkoff < 0 in
       STKVAR OR packed_width OR (if negative then STKOFF_SIGNBIT else 0)
         OR word_of_int (if negative then - stkoff else stkoff))"

definition set_width :: "rfop \<Rightarrow> int \<Rightarrow> rfop" where
  "set_width p width =
    (let packed_width = pack_width width in
     if packed_width = BADREG then BADREG else (p AND NOT WIDTH_MASK) OR packed_width)"

definition set_signness :: "rfop \<Rightarrow> bool \<Rightarrow> rfop" where
  "set_signness p is_signed = (let p = p AND NOT SIGNED in if is_signed then p OR SIGNED else p)"

definition set_width_signness :: "rfop \<Rightarrow> int \<Rightarrow> bool \<Rightarrow> rfop" where
  "set_width_signness p width is_signed =
    (let packed_width = pack_width width in
     if packed_width = BADREG then BADREG
     else let p = (p AND NOT WIDTH_MASK) OR packed_width; p = p AND NOT SIGNED in
       if is_signed then p OR SIGNED else p)"

definition is_reg :: "rfop \<Rightarrow> bool" where "is_reg p \<longleftrightarrow> \<not> op_empty p \<and> p AND STKVAR = 0"
definition is_stkvar :: "rfop \<Rightarrow> bool" where "is_stkvar p \<longleftrightarrow> p AND STKVAR \<noteq> 0"
definition op_is_signed :: "rfop \<Rightarrow> bool" where "op_is_signed p \<longleftrightarrow> p AND SIGNED \<noteq> 0"

definition get_width :: "rfop \<Rightarrow> int" where
  "get_width p = 2 ^ unat (drop_bit WIDTH_SHIFT (p AND WIDTH_MASK))"

definition get_reg :: "rfop \<Rightarrow> int" where "get_reg p = uint (ucast p :: u16)"

definition get_stkoff :: "rfop \<Rightarrow> int" where
  "get_stkoff p = (let stkoff = uint (p AND STKOFF_MASK) in if p AND STKOFF_SIGNBIT = 0 then stkoff else - stkoff)"

definition is_reg_of :: "rfop \<Rightarrow> int \<Rightarrow> bool" where "is_reg_of p reg \<longleftrightarrow> is_reg p \<and> get_reg p = reg"

definition op_compare :: "rfop \<Rightarrow> rfop \<Rightarrow> int" where
  "op_compare p r =
    (if op_empty p then (if op_empty r then 0 else - 1)
     else if op_empty r then 1
     else if p < r then - 1 else if r < p then 1 else 0)"

section \<open>What an operand says\<close>

text \<open>The fields as the accessors read them.\<close>

datatype location = Register int | Stack int

record operand =
  op_location :: location
  op_width :: int
  op_signed :: bool

definition view :: "rfop \<Rightarrow> operand option" where
  "view p =
    (if op_empty p then None
     else Some \<lparr>op_location = (if is_stkvar p then Stack (get_stkoff p) else Register (get_reg p)),
       op_width = get_width p, op_signed = op_is_signed p\<rparr>)"

definition valid_width :: "int \<Rightarrow> bool" where "valid_width w \<longleftrightarrow> w \<in> {1, 2, 4, 8}"

lemma pack_width_valid: "pack_width w = BADREG \<longleftrightarrow> \<not> valid_width w"
  by (simp add: pack_width_def rfop_consts valid_width_def)

text \<open>
  Words that the methods make, other than the empty one: a stack variable has its bit, and a
  register has no bit from the 16th to the 27th.
\<close>

definition packed_ok :: "rfop \<Rightarrow> bool" where
  "packed_ok p \<longleftrightarrow> p AND STKVAR \<noteq> 0 \<or> p AND 0xFFF0000 = 0"

lemma packed_ok_nonempty: "packed_ok p \<Longrightarrow> \<not> op_empty p"
  by (auto simp: packed_ok_def op_empty_def rfop_consts)

text \<open>Overwriting a field leaves the others.\<close>

lemma other_field: "c AND m = 0 \<Longrightarrow> m' AND m = 0 \<Longrightarrow> ((p AND NOT m') OR c) AND m = p AND (m :: 'a::len word)"
  by (rule bit_word_eqI) (auto simp: bit_simps bit_eq_iff)

lemma same_field: "c AND m = c \<Longrightarrow> ((p AND NOT m) OR c) AND m = (c :: 'a::len word)"
  by (rule bit_word_eqI) (auto simp: bit_simps bit_eq_iff)

lemma sign_field: "set_signness p b = (p AND NOT SIGNED) OR (if b then SIGNED else 0)"
  by (simp add: set_signness_def)

lemma width_field: "valid_width w \<Longrightarrow> set_width p w = (p AND NOT WIDTH_MASK) OR pack_width w"
  by (simp add: set_width_def pack_width_valid)

lemma set_both: "set_width_signness p w b = (if valid_width w then set_signness (set_width p w) b else BADREG)"
  by (simp add: set_width_signness_def set_width_def set_signness_def pack_width_valid Let_def)

lemma pack_width_cases:
  assumes "valid_width w"
  obtains "pack_width w = 0" "w = 1" | "pack_width w = 0x20000000" "w = 2"
  | "pack_width w = 0x40000000" "w = 4" | "pack_width w = 0x60000000" "w = 8"
  using assms by (auto simp: valid_width_def pack_width_def rfop_consts)

lemma pack_width_masks:
  assumes "valid_width w"
  shows "pack_width w AND WIDTH_MASK = pack_width w" "pack_width w AND STKVAR = 0" "pack_width w AND SIGNED = 0"
    "pack_width w AND STKOFF_SIGNBIT = 0" "pack_width w AND STKOFF_MASK = 0" "pack_width w AND mask 16 = 0"
    "pack_width w AND 0xFFF0000 = 0" "2 ^ unat (drop_bit WIDTH_SHIFT (pack_width w)) = w"
  by (rule pack_width_cases [OF assms]; simp add: rfop_consts mask_eq_exp_minus_1)+

lemma get_reg_mask: "get_reg p = uint (p AND mask 16)"
  by (simp add: get_reg_def unsigned_ucast_eq take_bit_eq_mask [symmetric] unsigned_take_bit_eq)

lemma set_width_fields:
  assumes "valid_width w"
  shows "set_width p w AND STKVAR = p AND STKVAR" "set_width p w AND SIGNED = p AND SIGNED"
    "set_width p w AND STKOFF_SIGNBIT = p AND STKOFF_SIGNBIT" "set_width p w AND STKOFF_MASK = p AND STKOFF_MASK"
    "set_width p w AND mask 16 = p AND mask 16" "set_width p w AND 0xFFF0000 = p AND 0xFFF0000"
    "get_width (set_width p w) = w"
proof -
  note m = pack_width_masks [OF assms]
  have d: "WIDTH_MASK AND STKVAR = 0" "WIDTH_MASK AND SIGNED = 0" "WIDTH_MASK AND STKOFF_SIGNBIT = 0"
    "WIDTH_MASK AND STKOFF_MASK = 0" "WIDTH_MASK AND mask 16 = 0" "WIDTH_MASK AND 0xFFF0000 = 0"
    by (simp_all add: rfop_consts mask_eq_exp_minus_1)
  show "set_width p w AND STKVAR = p AND STKVAR" "set_width p w AND SIGNED = p AND SIGNED"
    "set_width p w AND STKOFF_SIGNBIT = p AND STKOFF_SIGNBIT" "set_width p w AND STKOFF_MASK = p AND STKOFF_MASK"
    "set_width p w AND mask 16 = p AND mask 16" "set_width p w AND 0xFFF0000 = p AND 0xFFF0000"
    unfolding width_field [OF assms] by (rule other_field, rule m, rule d)+
  show "get_width (set_width p w) = w"
    unfolding get_width_def width_field [OF assms] same_field [OF m(1)] by (rule m(8))
qed

lemma set_signness_fields:
  "set_signness p b AND STKVAR = p AND STKVAR" "set_signness p b AND WIDTH_MASK = p AND WIDTH_MASK"
  "set_signness p b AND STKOFF_SIGNBIT = p AND STKOFF_SIGNBIT" "set_signness p b AND STKOFF_MASK = p AND STKOFF_MASK"
  "set_signness p b AND mask 16 = p AND mask 16" "set_signness p b AND 0xFFF0000 = p AND 0xFFF0000"
  "op_is_signed (set_signness p b) = b"
proof -
  have d: "(if b then SIGNED else 0) AND STKVAR = 0" "(if b then SIGNED else 0) AND WIDTH_MASK = 0"
    "(if b then SIGNED else 0) AND STKOFF_SIGNBIT = 0" "(if b then SIGNED else 0) AND STKOFF_MASK = 0"
    "(if b then SIGNED else 0) AND mask 16 = 0" "(if b then SIGNED else 0) AND 0xFFF0000 = 0"
    "SIGNED AND STKVAR = 0" "SIGNED AND WIDTH_MASK = 0" "SIGNED AND STKOFF_SIGNBIT = 0"
    "SIGNED AND STKOFF_MASK = 0" "SIGNED AND mask 16 = 0" "SIGNED AND 0xFFF0000 = 0"
    by (simp_all add: rfop_consts mask_eq_exp_minus_1)
  show "set_signness p b AND STKVAR = p AND STKVAR" "set_signness p b AND WIDTH_MASK = p AND WIDTH_MASK"
    "set_signness p b AND STKOFF_SIGNBIT = p AND STKOFF_SIGNBIT" "set_signness p b AND STKOFF_MASK = p AND STKOFF_MASK"
    "set_signness p b AND mask 16 = p AND mask 16" "set_signness p b AND 0xFFF0000 = p AND 0xFFF0000"
    unfolding sign_field by (rule other_field, rule d, rule d)+
  have "(if b then SIGNED else 0) AND SIGNED = (if b then SIGNED else 0)" by simp
  from same_field [OF this] show "op_is_signed (set_signness p b) = b"
    by (simp add: op_is_signed_def sign_field) (simp add: rfop_consts)
qed

lemmas accessors = view_def is_stkvar_def op_is_signed_def get_width_def get_reg_mask get_stkoff_def Let_def

lemma view_set_width:
  assumes "valid_width w" "packed_ok p" "view p = Some d"
  shows "packed_ok (set_width p w)" "view (set_width p w) = Some (d\<lparr>op_width := w\<rparr>)"
proof -
  show ok: "packed_ok (set_width p w)" using assms(2) by (simp add: packed_ok_def set_width_fields [OF assms(1)])
  have "get_width (set_width p w) = w" by (rule set_width_fields(7) [OF assms(1)])
  then show "view (set_width p w) = Some (d\<lparr>op_width := w\<rparr>)"
    using assms(3) packed_ok_nonempty [OF assms(2)] packed_ok_nonempty [OF ok]
    by (auto simp: view_def is_stkvar_def op_is_signed_def get_reg_mask get_stkoff_def set_width_fields(1-5) [OF assms(1)])
qed

lemma view_set_signness:
  assumes "packed_ok p" "view p = Some d"
  shows "packed_ok (set_signness p b)" "view (set_signness p b) = Some (d\<lparr>op_signed := b\<rparr>)"
proof -
  show ok: "packed_ok (set_signness p b)" using assms(1) by (simp add: packed_ok_def set_signness_fields)
  have "op_is_signed (set_signness p b) = b" by (rule set_signness_fields(7))
  then show "view (set_signness p b) = Some (d\<lparr>op_signed := b\<rparr>)"
    using assms(2) packed_ok_nonempty [OF assms(1)] packed_ok_nonempty [OF ok]
    by (auto simp: view_def is_stkvar_def get_width_def get_reg_mask get_stkoff_def set_signness_fields(1-5))
qed

text \<open>The two ways to make an operand.\<close>

lemma view_make_reg:
  assumes "is_valid_reg reg" "valid_width w"
  shows "packed_ok (make_reg reg w)" "view (make_reg reg w) = Some \<lparr>op_location = Register reg, op_width = w, op_signed = False\<rparr>"
proof -
  let ?r = "ucast (word_of_int reg :: u16) :: u32"
  note m = pack_width_masks [OF assms(2)]
  have p: "make_reg reg w = pack_width w OR ?r"
    using assms by (simp add: make_reg_def pack_width_valid Let_def REG_def)
  have low: "?r AND mask 16 = ?r" by (rule bit_word_eqI) (auto simp: bit_simps)
  have r: "?r AND x = 0" if "mask 16 AND x = 0" for x
    using arg_cong [OF low, of "\<lambda>y. y AND x"] that by (simp only: and.assoc and_zero_eq)
  have masks: "mask 16 AND STKVAR = 0" "mask 16 AND SIGNED = 0" "mask 16 AND WIDTH_MASK = 0" "mask 16 AND (0xFFF0000 :: u32) = 0"
    by (simp_all add: rfop_consts mask_eq_exp_minus_1)
  have reads: "make_reg reg w AND STKVAR = 0" "make_reg reg w AND SIGNED = 0" "make_reg reg w AND WIDTH_MASK = pack_width w"
    "make_reg reg w AND 0xFFF0000 = 0" "make_reg reg w AND mask 16 = ?r"
    unfolding p word_ao_dist by (simp_all only: m masks [THEN r] low) simp_all
  show ok: "packed_ok (make_reg reg w)" by (simp add: packed_ok_def reads)
  have "uint ?r = reg"
    using assms(1) by (simp add: is_valid_reg_def BADREG_def unsigned_ucast_eq take_bit_int_eq_self uint_word_of_int)
  then show "view (make_reg reg w) = Some \<lparr>op_location = Register reg, op_width = w, op_signed = False\<rparr>"
    using packed_ok_nonempty [OF ok] m(8) by (simp add: accessors reads)
qed

lemma small_and_mask:
  assumes "uint (x :: 'a::len word) < 2 ^ k"
  shows "x AND mask k = x"
proof -
  have "int (unat x) < int (2 ^ k)" using assms by simp
  then have "unat x < 2 ^ k" by (simp only: of_nat_less_iff)
  then show ?thesis by (simp only: word_unat_eq_iff unat_and_mask mod_less)
qed

lemma view_make_stkoff:
  assumes "is_valid_stkoff off" "valid_width w"
  shows "packed_ok (make_stkoff off w)" "view (make_stkoff off w) = Some \<lparr>op_location = Stack off, op_width = w, op_signed = False\<rparr>"
proof -
  let ?sg = "if off < 0 then STKOFF_SIGNBIT else 0" and ?k = "if off < 0 then - off else off"
  let ?m = "word_of_int ?k :: u32"
  note m = pack_width_masks [OF assms(2)]
  have p: "make_stkoff off w = STKVAR OR pack_width w OR ?sg OR ?m"
    using assms by (simp add: make_stkoff_def pack_width_valid Let_def)
  have k: "0 \<le> ?k" "?k < 2 ^ 27" using assms(1) by (auto simp: is_valid_stkoff_def STKOFF_MASK_def)
  have um: "uint ?m = ?k" using k by (simp add: uint_word_of_int take_bit_int_eq_self)
  have low: "?m AND STKOFF_MASK = ?m"
  proof -
    have "?m AND mask 27 = ?m" by (rule small_and_mask) (simp only: um k(2))
    then show ?thesis by (simp only: STKOFF_MASK_def) (simp add: mask_eq_exp_minus_1)
  qed
  have r: "?m AND x = 0" if "STKOFF_MASK AND x = 0" for x
    using arg_cong [OF low, of "\<lambda>y. y AND x"] that by (simp only: and.assoc and_zero_eq)
  have masks: "STKOFF_MASK AND STKVAR = 0" "STKOFF_MASK AND SIGNED = 0" "STKOFF_MASK AND WIDTH_MASK = 0"
    "STKOFF_MASK AND STKOFF_SIGNBIT = 0"
    by (simp_all add: rfop_consts)
  have reads: "make_stkoff off w AND STKVAR = STKVAR" "make_stkoff off w AND SIGNED = 0"
    "make_stkoff off w AND WIDTH_MASK = pack_width w" "make_stkoff off w AND STKOFF_SIGNBIT = ?sg"
    "make_stkoff off w AND STKOFF_MASK = ?m"
    unfolding p word_ao_dist
    by (simp_all only: m masks [THEN r] low) (simp_all add: rfop_consts)
  show ok: "packed_ok (make_stkoff off w)" by (simp add: packed_ok_def reads(1)) (simp add: STKVAR_def)
  have "STKVAR \<noteq> 0" "?sg = 0 \<longleftrightarrow> \<not> off < 0" by (simp_all add: STKVAR_def STKOFF_SIGNBIT_def)
  then show "view (make_stkoff off w) = Some \<lparr>op_location = Stack off, op_width = w, op_signed = False\<rparr>"
    using packed_ok_nonempty [OF ok] m(8) um by (simp add: accessors reads)
qed

section \<open>Sequences of calls\<close>

datatype op_call = Set_Width int | Set_Sign bool | Set_Both int bool

fun op_step :: "rfop \<Rightarrow> op_call \<Rightarrow> rfop" where
  "op_step p (Set_Width w) = set_width p w"
| "op_step p (Set_Sign b) = set_signness p b"
| "op_step p (Set_Both w b) = set_width_signness p w b"

fun view_step :: "operand \<Rightarrow> op_call \<Rightarrow> operand" where
  "view_step d (Set_Width w) = d\<lparr>op_width := w\<rparr>"
| "view_step d (Set_Sign b) = d\<lparr>op_signed := b\<rparr>"
| "view_step d (Set_Both w b) = d\<lparr>op_width := w, op_signed := b\<rparr>"

fun valid_call :: "op_call \<Rightarrow> bool" where
  "valid_call (Set_Width w) = valid_width w"
| "valid_call (Set_Sign b) = True"
| "valid_call (Set_Both w b) = valid_width w"

fun make_op :: "location \<Rightarrow> int \<Rightarrow> rfop" where
  "make_op (Register reg) w = make_reg reg w"
| "make_op (Stack off) w = make_stkoff off w"

fun valid_location :: "location \<Rightarrow> bool" where
  "valid_location (Register reg) = is_valid_reg reg"
| "valid_location (Stack off) = is_valid_stkoff off"

lemma view_op_step:
  assumes "packed_ok p" "view p = Some d" "valid_call c"
  shows "packed_ok (op_step p c) \<and> view (op_step p c) = Some (view_step d c)"
proof (cases c)
  case (Set_Width w)
  then show ?thesis using view_set_width [OF _ assms(1,2), of w] assms(3) by simp
next
  case (Set_Sign b)
  then show ?thesis using view_set_signness [OF assms(1,2), of b] by simp
next
  case (Set_Both w b)
  then show ?thesis
    using view_set_width [OF _ assms(1,2), of w] view_set_signness [of "set_width p w" _ b] assms(3) by (simp add: set_both)
qed

lemma view_op_steps:
  "packed_ok p \<Longrightarrow> view p = Some d \<Longrightarrow> \<forall>c \<in> set cs. valid_call c \<Longrightarrow> view (foldl op_step p cs) = Some (foldl view_step d cs)"
proof (induction cs arbitrary: p d)
  case (Cons c cs)
  then show ?case using view_op_step [of p d c] by simp
qed simp

lemma view_make_op:
  assumes "valid_location l" "valid_width w"
  shows "packed_ok (make_op l w)" "view (make_op l w) = Some \<lparr>op_location = l, op_width = w, op_signed = False\<rparr>"
  using assms view_make_reg view_make_stkoff by (cases l; simp)+

lemma make_op_invalid: "\<not> valid_location l \<or> \<not> valid_width w \<Longrightarrow> op_empty (make_op l w)"
  by (cases l) (auto simp: make_reg_def make_stkoff_def pack_width_valid op_empty_def Let_def)

text \<open>
  \<open>set_width\<close> does not look for the empty operand: the width bits make it register 0.
\<close>

lemma set_width_of_empty:
  "op_empty BADREG \<and> view (set_width BADREG 4) = Some \<lparr>op_location = Register 0, op_width = 4, op_signed = False\<rparr>"
  by (simp add: op_empty_def set_width_def pack_width_def accessors rfop_consts mask_eq_exp_minus_1)

end
