(* ===== verification/RegProps.thy ===== *)
theory RegProps
  imports RegReach RegOp
begin

text \<open>The properties of the register tracker's values and operands, with their witnesses.\<close>

section \<open>Instructions and values of the witnesses\<close>

definition demo_insn :: insn where
  "demo_insn = \<lparr>insn_ea = 0x400100, itype = 7, op2_type = 5, op3_type = 0\<rparr>"

definition demo_sp :: reg_value where "demo_sp = make_initial_sp 0x400000"
definition demo_num :: "u64 \<Rightarrow> reg_value" where "demo_num n = make_num_insn n demo_insn 0"


lemma demo_values:
  "wf_value demo_sp" "wf_value (demo_num n)" "denotes sp0 demo_sp = {sp0}" "denotes sp0 (demo_num n) = {n}"
  "is_num (demo_num n)" "\<not> is_spd (demo_num n)" "nums (demo_num n) = {n}" "is_value_unique (demo_num n) = Some True"
  by (simp_all add: demo_sp_def demo_num_def make_initial_sp_def make_num_insn_def value_at_def value_insn_def
    wf_value_def state_defs denotes_def nums_def def_at_def def_insn_def is_value_unique_def)


section \<open>Properties\<close>





text \<open>
  C38: nothing is lost on numbers.  When both operands are numbers and one of them has a
  single value, the result is a number whose values are exactly those of all pairs.
\<close>

theorem binary_exact:
  assumes "wf_value v" "wf_value r" "is_num v" "is_num r" "aop \<noteq> aop_NEG" "aop \<noteq> aop_NOT"
    and "is_value_unique v = Some True \<or> is_value_unique r = Some True"
  shows "\<exists>v'. emulate aop v r insn = Some v' \<and> is_num v' \<and> nums v' = {alu aop a b |a b. a \<in> nums v \<and> b \<in> nums r}"
  using emulate_exact [OF assms(1-4) _ assms(7)] assms(5,6) by (simp add: binary_def)

theorem binary_exact_witness:
  "\<exists>v'. emulate aop_MOVT (demo_num 0x1234) (demo_num 0x5678) demo_insn = Some v' \<and> is_num v' \<and>
    nums v' = {alu aop_MOVT a b |a b. a \<in> nums (demo_num 0x1234) \<and> b \<in> nums (demo_num 0x5678)}"
  by (rule binary_exact) (simp_all add: demo_values)



text \<open>
  C40: an operand reads back.  A register or a stack variable with a valid width, after any
  sequence of changes of its width and signedness, is not empty and its accessors return
  the register number or the stack offset it was made with, and the last width and
  signedness; with an invalid number, offset or width it is empty.
\<close>

theorem operand_roundtrip:
  "(valid_location l \<and> valid_width w \<and> (\<forall>c \<in> set cs. valid_call c) \<longrightarrow>
      view (foldl op_step (make_op l w) cs) =
        Some (foldl view_step \<lparr>op_location = l, op_width = w, op_signed = False\<rparr> cs)) \<and>
    (\<not> (valid_location l \<and> valid_width w) \<longrightarrow> view (make_op l w) = None)"
  using view_op_steps [OF view_make_op] make_op_invalid by (auto simp: view_def)

theorem operand_roundtrip_witness:
  "view (foldl op_step (make_op (Stack (- 8)) 4) [Set_Sign True, Set_Width 8]) =
    Some \<lparr>op_location = Stack (- 8), op_width = 8, op_signed = True\<rparr>"
  using operand_roundtrip [of "Stack (- 8)" 4 "[Set_Sign True, Set_Width 8]"]
  by (simp add: is_valid_stkoff_def valid_width_def STKOFF_MASK_def)

section \<open>Stack deltas that are shifted\<close>

text \<open>
  The shifts in place treat a stack delta as a number: the result stays a delta, although
  twice the stack pointer is not at a fixed distance from it.
\<close>

lemma shifted_delta_unsound:
  "rv_shift_left demo_sp 1 = Some demo_sp \<and> push_bit 1 0x1000 \<notin> denotes 0x1000 demo_sp"
proof -
  have "\<not> (64 :: u64) \<le> 1" by (simp add: word_le_nat_alt)
  then show ?thesis by (simp add: demo_values) (simp add: demo_sp_def make_initial_sp_def value_at_def rv_shift_left_def state_defs
    sort_multivals_def sort_defs_def map_vals_def def_at_def)
qed

end
