(* ===== verification/Wide.thy ===== *)
theory Wide
  imports Prelude
begin

text \<open>
  The 128-bit numbers of \<open>src/src/include/llong.hpp\<close> for compilers without
  \<open>__int128\<close>: \<open>uint128\<close> and \<open>int128\<close> as two 64-bit halves, against the words of 128
  bits.  The signed half is a word that is read with \<^const>\<open>sint\<close>; a signed overflow is
  \<^const>\<open>None\<close>.  The division, and the other operators of \<open>uint128\<close> that the header only
  declares, are not in the repository.
\<close>

section \<open>The halves\<close>

record wide =
  wl :: u64
  wh :: u64

type_synonym u128 = "128 word"

definition wide_of :: "u64 \<Rightarrow> u64 \<Rightarrow> wide" where "wide_of ll hh = \<lparr>wl = ll, wh = hh\<rparr>"

definition wide_uint :: "u32 \<Rightarrow> wide" where "wide_uint x = wide_of (ucast x) 0"
definition wide_int :: "u32 \<Rightarrow> wide" where "wide_int x = wide_of (scast x) (if sint x < 0 then - 1 else 0)"
definition wide_uint64 :: "u64 \<Rightarrow> wide" where "wide_uint64 x = wide_of x 0"
definition wide_int64 :: "u64 \<Rightarrow> wide" where "wide_int64 x = wide_of x (if sint x < 0 then - 1 else 0)"

subsection \<open>Unsigned\<close>

definition u128_add :: "wide \<Rightarrow> wide \<Rightarrow> wide" where
  "u128_add x y =
    (let h = wh x + wh y; l = wl x + wl y in
     wide_of l (if l < wl x then h + 1 else h))"

definition u128_sub :: "wide \<Rightarrow> wide \<Rightarrow> wide" where
  "u128_sub x y =
    (let h = wh x - wh y; l = wl x - wl y in
     wide_of l (if wl x < l then h - 1 else h))"

definition u128_or :: "wide \<Rightarrow> wide \<Rightarrow> wide" where "u128_or x y = wide_of (wl x OR wl y) (wh x OR wh y)"
definition u128_and :: "wide \<Rightarrow> wide \<Rightarrow> wide" where "u128_and x y = wide_of (wl x AND wl y) (wh x AND wh y)"
definition u128_xor :: "wide \<Rightarrow> wide \<Rightarrow> wide" where "u128_xor x y = wide_of (wl x XOR wl y) (wh x XOR wh y)"
definition u128_not :: "wide \<Rightarrow> wide" where "u128_not x = wide_of (NOT (wl x)) (NOT (wh x))"
definition u128_neg :: "wide \<Rightarrow> wide" where "u128_neg x = u128_add (u128_not x) (wide_int 1)"

definition u128_inc :: "wide \<Rightarrow> wide" where
  "u128_inc x = (let l = wl x + 1 in wide_of l (if l = 0 then wh x + 1 else wh x))"

definition u128_dec :: "wide \<Rightarrow> wide" where
  "u128_dec x = wide_of (wl x - 1) (if wl x = 0 then wh x - 1 else wh x)"

definition u128_eq :: "wide \<Rightarrow> wide \<Rightarrow> bool" where "u128_eq x y \<longleftrightarrow> wl x = wl y \<and> wh x = wh y"
definition u128_less :: "wide \<Rightarrow> wide \<Rightarrow> bool" where
  "u128_less x y \<longleftrightarrow> wh x < wh y \<or> wh x = wh y \<and> wl x < wl y"
definition u128_le :: "wide \<Rightarrow> wide \<Rightarrow> bool" where
  "u128_le x y \<longleftrightarrow> wh x < wh y \<or> wh x = wh y \<and> wl x \<le> wl y"

subsection \<open>Signed\<close>

definition i128_add :: "wide \<Rightarrow> wide \<Rightarrow> wide" where
  "i128_add x y = (let l = wl x + wl y in wide_of l (wh x + wh y + (if l < wl x then 1 else 0)))"

definition i128_sub :: "wide \<Rightarrow> wide \<Rightarrow> wide" where
  "i128_sub x y = (let l = wl x - wl y in wide_of l (wh x - wh y - (if wl x < wl y then 1 else 0)))"

definition i128_neg :: "wide \<Rightarrow> wide" where "i128_neg x = i128_add (u128_not x) (wide_int 1)"

text \<open>The product of two words, from the products of their halves.\<close>

definition umul :: "u64 \<Rightarrow> u64 \<Rightarrow> u64 \<times> u64" where
  "umul a b =
    (let a0 = ucast (ucast a :: u32); b0 = ucast (ucast b :: u32);
         a1 = drop_bit 32 a; b1 = drop_bit 32 b;
         ll = a0 * b0; lh = a0 * ucast (ucast b1 :: u32); hl = a1 * b0; hh = a1 * b1;
         mid = drop_bit 32 ll + ucast (ucast lh :: u32) + ucast (ucast hl :: u32) in
     (hh + drop_bit 32 lh + drop_bit 32 hl + drop_bit 32 mid,
      push_bit 32 mid OR ucast (ucast ll :: u32)))"

definition i128_mul :: "wide \<Rightarrow> wide \<Rightarrow> wide" where
  "i128_mul x y =
    (case umul (wl x) (wl y) of (hi, lo) \<Rightarrow> wide_of lo (hi + (wl x * wh y + wh x * wl y)))"

definition i128_shl :: "wide \<Rightarrow> int \<Rightarrow> wide" where
  "i128_shl x cnt =
    (if cnt \<le> 0 then x
     else if 128 \<le> cnt then wide_of 0 0
     else if cnt < 64 then
       wide_of (push_bit (nat cnt) (wl x)) (push_bit (nat cnt) (wh x) OR drop_bit (nat (64 - cnt)) (wl x))
     else wide_of 0 (push_bit (nat (cnt - 64)) (wl x)))"

definition i128_shr :: "wide \<Rightarrow> int \<Rightarrow> wide" where
  "i128_shr x cnt =
    (if cnt \<le> 0 then x
     else let sign = (if sint (wh x) < 0 then - 1 else 0) in
       if 128 \<le> cnt then wide_of sign sign
       else if cnt < 64 then
         wide_of (drop_bit (nat cnt) (wl x) OR push_bit (nat (64 - cnt)) (wh x)) (signed_drop_bit (nat cnt) (wh x))
       else wide_of (signed_drop_bit (nat (cnt - 64)) (wh x)) sign)"

text \<open>\<open>++\<close> and \<open>--\<close> step the signed half itself.\<close>

definition i128_inc :: "wide \<Rightarrow> wide option" where
  "i128_inc x =
    (let l = wl x + 1 in
     if l = 0 then (if sint (wh x) = 2 ^ 63 - 1 then None else Some (wide_of l (wh x + 1)))
     else Some (wide_of l (wh x)))"

definition i128_dec :: "wide \<Rightarrow> wide option" where
  "i128_dec x =
    (if wl x = 0 then (if sint (wh x) = - (2 ^ 63) then None else Some (wide_of (wl x - 1) (wh x - 1)))
     else Some (wide_of (wl x - 1) (wh x)))"

definition i128_less :: "wide \<Rightarrow> wide \<Rightarrow> bool" where
  "i128_less x y \<longleftrightarrow> sint (wh x) < sint (wh y) \<or> wh x = wh y \<and> wl x < wl y"
definition i128_le :: "wide \<Rightarrow> wide \<Rightarrow> bool" where
  "i128_le x y \<longleftrightarrow> sint (wh x) < sint (wh y) \<or> wh x = wh y \<and> wl x \<le> wl y"

section \<open>The number of two halves\<close>

definition W :: "wide \<Rightarrow> u128" where "W x = push_bit 64 (ucast (wh x)) OR ucast (wl x)"

lemma bit_W: "bit (W x) n \<longleftrightarrow> (if n < 64 then bit (wl x) n else n < 128 \<and> bit (wh x) (n - 64))"
  by (auto simp: W_def bit_simps not_less dest: bit_imp_le_length)

lemma wide_of_simps [simp]: "wl (wide_of a b) = a" "wh (wide_of a b) = b"
  by (simp_all add: wide_of_def)

definition B :: u128 where "B = 2 ^ 64"

abbreviation U :: "u64 \<Rightarrow> u128" where "U \<equiv> ucast"

lemma W_sum: "W x = U (wh x) * B + U (wl x)"
proof -
  have "push_bit 64 (U (wh x)) AND U (wl x) = 0"
    by (rule bit_word_eqI) (auto simp: bit_simps dest: bit_imp_le_length)
  then have "W x = push_bit 64 (U (wh x)) + U (wl x)"
    unfolding W_def using word_plus_and_or [of "push_bit 64 (U (wh x))" "U (wl x)"] by simp
  then show ?thesis by (simp add: B_def push_bit_eq_mult)
qed

lemma B_B: "B * B = 0"
  by (simp add: B_def)

lemma U_of_int: "U a = word_of_int (uint a)"
  by (rule bit_word_eqI) (simp add: bit_simps bit_uint_iff)

lemma uint_add_wrap: "uint (a + b :: u64) = uint a + uint b - (if a + b < a then 2 ^ 64 else 0)"
  using uint_bounded [of a] uint_bounded [of b] by (auto simp: uint_plus_if' word_less_def)

lemma uint_sub_wrap: "uint (a - b :: u64) = uint a - uint b + (if a < b then 2 ^ 64 else 0)"
  by (auto simp: uint_sub_if' word_less_def)

text \<open>A carry out of the low half is one in the high half, where sums wrap around.\<close>

lemma U_add: "U (a + b) = U a + U b - (if a + b < a then B else 0)"
  unfolding U_of_int uint_add_wrap by (simp add: B_def)

lemma U_sub: "U (a - b) = U a - U b + (if a < b then B else 0)"
  unfolding U_of_int uint_sub_wrap by (simp add: B_def)

lemma U_add_B: "U (a + b) * B = U a * B + U b * B"
  by (simp add: U_add ring_distribs B_B)

lemma U_sub_B: "U (a - b) * B = U a * B - U b * B"
  by (simp add: U_sub ring_distribs B_B)

lemma U_1 [simp]: "U 1 = 1" "U 0 = 0"
  by simp_all

lemma U_mult_B: "U (a * b) * B = U a * U b * B"
proof -
  have "uint (a * b) = uint a * uint b - uint a * uint b div 2 ^ 64 * 2 ^ 64"
    using uint_word_ariths(3) [of a b] by (simp add: minus_div_mult_eq_mod)
  then have "U (a * b) = U a * U b - word_of_int (uint a * uint b div 2 ^ 64) * B"
    unfolding U_of_int by (simp add: B_def)
  then show ?thesis by (simp only: left_diff_distrib mult.assoc B_B) simp
qed

lemma W_add: "W (u128_add x y) = W x + W y"
proof (cases "wl x + wl y < wl x")
  case True
  then show ?thesis
    by (simp add: u128_add_def Let_def W_sum U_add_B) (simp add: U_add algebra_simps)
next
  case False
  then show ?thesis
    by (simp add: u128_add_def Let_def W_sum U_add_B) (simp add: U_add algebra_simps)
qed

lemma sub_borrow: "a < a - b \<longleftrightarrow> a < (b :: u64)"
  using uint_bounded [of b] by (simp add: word_less_def uint_sub_wrap)

lemma W_sub: "W (u128_sub x y) = W x - W y"
proof (cases "wl x < wl y")
  case True
  then show ?thesis
    by (simp add: u128_sub_def Let_def sub_borrow W_sum U_sub_B) (simp add: U_sub algebra_simps)
next
  case False
  then show ?thesis
    by (simp add: u128_sub_def Let_def sub_borrow W_sum U_sub_B) (simp add: U_sub algebra_simps)
qed

lemma signed_same: "i128_add x y = u128_add x y" "i128_sub x y = u128_sub x y" "i128_neg x = u128_neg x"
  by (simp_all add: i128_add_def u128_add_def i128_sub_def u128_sub_def i128_neg_def u128_neg_def sub_borrow Let_def)

lemma W_bits:
  "W (u128_or x y) = W x OR W y" "W (u128_and x y) = W x AND W y" "W (u128_xor x y) = W x XOR W y"
  "W (u128_not x) = NOT (W x)"
  by (rule bit_word_eqI; auto simp: bit_W u128_or_def u128_and_def u128_xor_def u128_not_def bit_simps)+

lemma W_1: "W (wide_int 1) = 1"
  by (simp add: wide_int_def W_sum)

lemma W_neg: "W (u128_neg x) = - W x"
  by (simp add: u128_neg_def W_add W_bits W_1 not_eq_complement)

lemma carry_inc: "a + 1 < a \<longleftrightarrow> a + 1 = (0 :: u64)"
proof
  assume "a + 1 < a"
  then have "uint (a + 1) = uint a + 1 - 2 ^ 64" using uint_add_wrap [of a 1] by simp
  then show "a + 1 = 0" using uint_bounded [of a] uint_ge_0 [of "a + 1"] by (simp add: uint_0_iff [symmetric])
next
  assume 0: "a + 1 = 0"
  then have "a \<noteq> 0" by auto
  then show "a + 1 < a" using 0 by (simp add: word_gt_0)
qed

lemma u128_inc_add: "u128_inc x = u128_add x (wide_int 1)"
  by (simp add: u128_inc_def u128_add_def wide_int_def Let_def carry_inc)

lemma u128_dec_sub: "u128_dec x = u128_sub x (wide_int 1)"
proof -
  have "wl x < 1 \<longleftrightarrow> wl x = 0" by (simp add: word_less_nat_alt unat_eq_0)
  then show ?thesis by (simp add: u128_dec_def u128_sub_def wide_int_def Let_def sub_borrow)
qed

lemma W_steps: "W (u128_inc x) = W x + 1" "W (u128_dec x) = W x - 1"
  by (simp_all add: u128_inc_add u128_dec_sub W_add W_sub W_1)

lemma W_const: "W (wide_uint a) = ucast a" "W (wide_int a) = scast a" "W (wide_uint64 b) = ucast b" "W (wide_int64 b) = scast b"
proof -
  have neg: "(if sint b < 0 then - 1 else 0 :: u64) = (if bit b (LENGTH('a) - 1) then - 1 else 0)" for b :: "'a::len word"
    by (simp add: bit_last_iff)
  show "W (wide_uint a) = ucast a" by (rule bit_word_eqI) (auto simp: bit_W wide_uint_def bit_simps dest: bit_imp_le_length)
  show "W (wide_uint64 b) = ucast b" by (rule bit_word_eqI) (auto simp: bit_W wide_uint64_def bit_simps dest: bit_imp_le_length)
  show "W (wide_int a) = scast a" unfolding wide_int_def neg by (rule bit_word_eqI) (auto simp: bit_W bit_simps min_def)
  show "W (wide_int64 b) = scast b"
  proof (rule bit_word_eqI)
    show "bit (W (wide_int64 b)) n = bit (scast b :: u128) n" for n
      unfolding wide_int64_def neg by (cases "n = 63") (auto simp: bit_W bit_simps min_def)
  qed
qed

section \<open>Comparison\<close>

lemma uint_W: "uint (W x) = uint (wh x) * 2 ^ 64 + uint (wl x)"
proof -
  have "W x = word_of_int (uint (wh x) * 2 ^ 64 + uint (wl x))"
    unfolding W_sum U_of_int B_def by simp
  moreover have "0 \<le> uint (wh x) * 2 ^ 64 + uint (wl x)" "uint (wh x) * 2 ^ 64 + uint (wl x) < 2 ^ 128"
    using uint_bounded [of "wh x"] uint_bounded [of "wl x"] by simp_all
  ultimately show ?thesis by (simp only: uint_word_of_int) (simp add: mod_pos_pos_trivial)
qed

lemma power_64: "(2 :: int) ^ 64 = 18446744073709551616" and power_127: "(2 :: int) ^ 127 = 170141183460469231731687303715884105728"
  by simp_all

lemma sint_word_128: "- (2 ^ 127) \<le> k \<Longrightarrow> k < 2 ^ 127 \<Longrightarrow> sint (word_of_int k :: u128) = k"
  by (simp add: signed_of_int signed_take_bit_int_eq_self)

lemma sint_W: "sint (W x) = sint (wh x) * 2 ^ 64 + uint (wl x)"
proof -
  have "uint (wh x) = sint (wh x) mod 2 ^ 64" using uint_word_of_int [where 'a = 64 and k = "sint (wh x)"] by simp
  then obtain q where q: "sint (wh x) = uint (wh x) + q * 2 ^ 64"
    using div_mult_mod_eq [of "sint (wh x)" "2 ^ 64"] by (metis add.commute)
  have "word_of_int (sint (wh x)) = U (wh x) + word_of_int q * B"
    unfolding q U_of_int B_def by (simp only: of_int_add of_int_mult of_int_power of_int_numeral)
  then have "word_of_int (sint (wh x)) * B = U (wh x) * B" by (simp add: ring_distribs mult.assoc B_B)
  then have "W x = word_of_int (sint (wh x)) * B + U (wl x)" unfolding W_sum by simp
  then have "W x = word_of_int (sint (wh x) * 2 ^ 64 + uint (wl x))" unfolding U_of_int B_def by simp
  moreover have "- (2 ^ 127) \<le> sint (wh x) * 2 ^ 64 + uint (wl x)" "sint (wh x) * 2 ^ 64 + uint (wl x) < 2 ^ 127"
  proof -
    have "- 9223372036854775808 \<le> sint (wh x)" "sint (wh x) < 9223372036854775808"
      using sint_ge [of "wh x"] sint_lt [of "wh x"] by simp_all
    moreover have "0 \<le> uint (wl x)" "uint (wl x) < 18446744073709551616" using uint_bounded [of "wl x"] by simp_all
    ultimately show "- (2 ^ 127) \<le> sint (wh x) * 2 ^ 64 + uint (wl x)" "sint (wh x) * 2 ^ 64 + uint (wl x) < 2 ^ 127"
      unfolding power_64 power_127 by linarith+
  qed
  ultimately show ?thesis by (simp only: sint_word_128)
qed

lemma halves_less:
  assumes "0 \<le> (a :: int)" "a < 2 ^ 64" "0 \<le> b" "b < 2 ^ 64"
  shows "h * 2 ^ 64 + a < k * 2 ^ 64 + b \<longleftrightarrow> h < k \<or> h = k \<and> a < b"
    "h * 2 ^ 64 + a \<le> k * 2 ^ 64 + b \<longleftrightarrow> h < k \<or> h = k \<and> a \<le> b"
  using assms by (cases h k rule: linorder_cases; simp)+

lemma W_less: "u128_less x y \<longleftrightarrow> W x < W y" "u128_le x y \<longleftrightarrow> W x \<le> W y"
  "i128_less x y \<longleftrightarrow> W x <s W y" "i128_le x y \<longleftrightarrow> W x \<le>s W y"
proof -
  note bounds = uint_ge_0 [of "wl x"] uint_bounded [of "wl x", simplified] uint_ge_0 [of "wl y"] uint_bounded [of "wl y", simplified]
  show "u128_less x y \<longleftrightarrow> W x < W y" "u128_le x y \<longleftrightarrow> W x \<le> W y"
    using halves_less [of "uint (wl x)" "uint (wl y)" "uint (wh x)" "uint (wh y)"] bounds
    by (simp_all add: u128_less_def u128_le_def word_less_def word_le_def uint_W word_uint_eq_iff)
  have sint_eq: "sint a = sint b \<longleftrightarrow> a = b" for a b :: u64
  proof -
    have "word_of_int (sint c) = c" for c :: u64 by simp
    then show ?thesis by metis
  qed
  show "i128_less x y \<longleftrightarrow> W x <s W y" "i128_le x y \<longleftrightarrow> W x \<le>s W y"
    using halves_less [of "uint (wl x)" "uint (wl y)" "sint (wh x)" "sint (wh y)"] bounds
    by (simp_all add: i128_less_def i128_le_def word_less_def word_le_def word_sless_alt word_sle_eq sint_W sint_eq)
qed

lemma W_inj: "W x = W y \<longleftrightarrow> x = y"
proof
  assume "W x = W y"
  then have "bit (wl x) n = bit (wl y) n" "bit (wh x) n = bit (wh y) n" if "n < 64" for n
    using that bit_W [of x n] bit_W [of y n] bit_W [of x "n + 64"] bit_W [of y "n + 64"] by simp_all
  then show "x = y" by (cases x; cases y) (auto intro!: bit_word_eqI)
qed simp

lemma W_eq: "u128_eq x y \<longleftrightarrow> W x = W y"
  by (cases x; cases y) (simp add: u128_eq_def W_inj)

section \<open>Shifts\<close>

lemma W_shl: "W (i128_shl x cnt) = push_bit (nat cnt) (W x)"
proof (rule bit_word_eqI)
  fix n assume "n < LENGTH(128)"
  then show "bit (W (i128_shl x cnt)) n = bit (push_bit (nat cnt) (W x)) n"
    by (auto simp: i128_shl_def bit_W bit_simps nat_diff_distrib add.commute dest: bit_imp_le_length)
qed

lemma bit_shr_64:
  assumes "0 < m" "m < 64" "n < 128"
  shows "bit (W (wide_of (drop_bit m l OR push_bit (64 - m) h) (signed_drop_bit m h))) n =
    bit (W (wide_of l h)) (if 127 \<le> m + n then 127 else m + n)"
proof (cases "n < 64")
  case True
  have "64 - m \<le> n \<longleftrightarrow> 64 \<le> m + n" "64 - m \<le> n \<Longrightarrow> n - (64 - m) = m + n - 64" using assms by auto
  then show ?thesis using True assms by (auto simp: bit_W bit_simps dest: bit_imp_le_length)
next
  case False
  show ?thesis
  proof (cases "127 \<le> m + n")
    case True
    then show ?thesis using False assms by (cases "m + n = 127") (auto simp: bit_W bit_signed_drop_bit_iff)
  next
    case less: False
    then have "m + (n - 64) = m + n - 64" "\<not> 64 - m \<le> n - 64" using False by auto
    then show ?thesis using False less assms by (auto simp: bit_W bit_signed_drop_bit_iff)
  qed
qed

lemma bit_shr_128:
  assumes "64 \<le> m" "n < 128"
  shows "bit (W (wide_of (signed_drop_bit (m - 64) h) (if bit h 63 then - 1 else 0))) n =
    bit (W (wide_of l h)) (if 127 \<le> m + n then 127 else m + n)"
proof (cases "n < 64")
  case True
  then show ?thesis using assms by (cases "m + n = 127") (auto simp: bit_W bit_signed_drop_bit_iff)
next
  case False
  then show ?thesis using assms by (auto simp: bit_W bit_simps)
qed

lemma W_shr: "W (i128_shr x cnt) = signed_drop_bit (nat cnt) (W x)"
proof (rule bit_word_eqI)
  fix n assume "n < LENGTH(128)"
  then have n: "n < 128" by simp
  have sign: "sint (wh x) < 0 \<longleftrightarrow> bit (wh x) 63" using bit_last_iff [of "wh x"] by simp
  have rhs: "bit (signed_drop_bit (nat cnt) (W x)) n = bit (W x) (if 127 \<le> nat cnt + n then 127 else nat cnt + n)"
    using n by (cases "nat cnt + n = 127") (auto simp: bit_signed_drop_bit_iff)
  have x: "W (wide_of (wl x) (wh x)) = W x" by (cases x) (simp add: wide_of_def)
  consider "cnt \<le> 0" | "0 < cnt" "cnt < 64" | "64 \<le> cnt" "cnt < 128" | "128 \<le> cnt" by linarith
  then show "bit (W (i128_shr x cnt)) n = bit (signed_drop_bit (nat cnt) (W x)) n"
  proof cases
    case 1
    then show ?thesis by (simp add: i128_shr_def)
  next
    case 2
    then show ?thesis
      using bit_shr_64 [of "nat cnt" n "wl x" "wh x"] n
      unfolding rhs x by (simp add: i128_shr_def Let_def nat_diff_distrib)
  next
    case 3
    then show ?thesis
      using bit_shr_128 [of "nat cnt" n "wh x" "wl x"] n
      unfolding rhs x by (simp add: i128_shr_def Let_def nat_diff_distrib sign)
  next
    case 4
    then show ?thesis
      unfolding rhs using n by (auto simp: i128_shr_def Let_def sign bit_W bit_simps)
  qed
qed

section \<open>Products\<close>

text \<open>The parts of \<open>umul\<close> as natural numbers, none of which overflows.\<close>

lemma unat_low: "unat (ucast (ucast (a :: u64) :: u32) :: u64) = unat a mod 2 ^ 32"
proof -
  have "ucast (ucast a :: u32) = a AND mask 32" by (rule bit_word_eqI) (auto simp: bit_simps)
  then show ?thesis by (simp only: unat_and_mask)
qed

lemma unat_high: "unat (drop_bit 32 (a :: u64)) = unat a div 2 ^ 32"
  by (subst unat_drop_bit_eq) (rule drop_bit_eq_div)

lemma half_bounds: "unat (a :: u64) mod 2 ^ 32 < 2 ^ 32" "unat (a :: u64) div 2 ^ 32 < 2 ^ 32"
proof -
  have "unat a < 2 ^ 64" using unsigned_less [of a, where 'a = nat] by simp
  then show "unat a div 2 ^ 32 < 2 ^ 32" by (intro less_mult_imp_div_less) simp
qed simp

lemma unat_mult_small: "unat a * unat b < 2 ^ 64 \<Longrightarrow> unat (a * b :: u64) = unat a * unat b"
  by (simp add: unat_word_ariths)

lemma product_bound: "p < 2 ^ 32 \<Longrightarrow> q < 2 ^ 32 \<Longrightarrow> p * q \<le> (2 ^ 32 - 1) * (2 ^ 32 - 1 :: nat)"
  by (intro mult_le_mono) simp_all

text \<open>Schoolbook multiplication with digits of 32 bits.\<close>

lemma schoolbook:
  fixes a0 a1 b0 b1 :: nat
  defines "mid \<equiv> a0 * b0 div 2 ^ 32 + a0 * b1 mod 2 ^ 32 + a1 * b0 mod 2 ^ 32"
  shows "(a1 * b1 + a0 * b1 div 2 ^ 32 + a1 * b0 div 2 ^ 32 + mid div 2 ^ 32) * 2 ^ 64 +
    (mid mod 2 ^ 32 * 2 ^ 32 + a0 * b0 mod 2 ^ 32) = (a1 * 2 ^ 32 + a0) * (b1 * 2 ^ 32 + b0)"
proof -
  have split: "x = x div 2 ^ 32 * 2 ^ 32 + x mod 2 ^ 32" for x :: nat by simp
  have shifted: "x * 2 ^ 32 = x div 2 ^ 32 * 2 ^ 64 + x mod 2 ^ 32 * 2 ^ 32" for x :: nat
  proof -
    have "x * 2 ^ 32 = (x div 2 ^ 32 * 2 ^ 32 + x mod 2 ^ 32) * 2 ^ 32" by simp
    also have "\<dots> = x div 2 ^ 32 * (2 ^ 32 * 2 ^ 32) + x mod 2 ^ 32 * 2 ^ 32" by (simp only: distrib_right mult.assoc)
    finally show ?thesis by simp
  qed
  have "(a1 * 2 ^ 32 + a0) * (b1 * 2 ^ 32 + b0) = a1 * b1 * 2 ^ 64 + a0 * b1 * 2 ^ 32 + a1 * b0 * 2 ^ 32 + a0 * b0"
    by (simp add: algebra_simps)
  moreover have "a0 * b1 * 2 ^ 32 = a0 * b1 div 2 ^ 32 * 2 ^ 64 + a0 * b1 mod 2 ^ 32 * 2 ^ 32"
    "a1 * b0 * 2 ^ 32 = a1 * b0 div 2 ^ 32 * 2 ^ 64 + a1 * b0 mod 2 ^ 32 * 2 ^ 32"
    by (rule shifted)+
  moreover have "a0 * b0 = a0 * b0 div 2 ^ 32 * 2 ^ 32 + a0 * b0 mod 2 ^ 32" by (rule split)
  moreover have "mid * 2 ^ 32 = mid div 2 ^ 32 * 2 ^ 64 + mid mod 2 ^ 32 * 2 ^ 32" by (rule shifted)
  moreover have "mid * 2 ^ 32 = a0 * b0 div 2 ^ 32 * 2 ^ 32 + a0 * b1 mod 2 ^ 32 * 2 ^ 32 + a1 * b0 mod 2 ^ 32 * 2 ^ 32"
    by (simp add: mid_def algebra_simps)
  ultimately show ?thesis by (simp add: algebra_simps)
qed

lemma word_of_unat: "unat w = n \<Longrightarrow> w = word_of_nat n"
  by auto

lemma unat_small: "w = word_of_nat n \<Longrightarrow> n < 2 ^ 64 \<Longrightarrow> unat (w :: u64) = n"
  by (simp add: unat_of_nat)

lemma unat_shifted: "unat (push_bit 32 (w :: u64)) = unat w mod 2 ^ 32 * 2 ^ 32"
proof -
  have "push_bit 32 w = word_of_nat (unat w * 2 ^ 32)" by (simp add: push_bit_eq_mult)
  then have "unat (push_bit 32 w) = unat w * 2 ^ 32 mod 2 ^ 64" by (simp only: unat_of_nat) simp
  also have "\<dots> = unat w mod 2 ^ 32 * 2 ^ 32" using mod_mult_mult2 [of "unat w" "2 ^ 32" "2 ^ 32"] by simp
  finally show ?thesis .
qed

lemma umul_nat:
  assumes "umul a b = (hi, lo)"
  shows "unat hi * 2 ^ 64 + unat lo = unat a * unat b"
proof -
  define a0 a1 b0 b1 where parts: "a0 = unat a mod 2 ^ 32" "a1 = unat a div 2 ^ 32" "b0 = unat b mod 2 ^ 32" "b1 = unat b div 2 ^ 32"
  define ll lh hl hh :: u64 where words: "ll = ucast (ucast a :: u32) * ucast (ucast b :: u32)"
    "lh = ucast (ucast a :: u32) * ucast (ucast (drop_bit 32 b) :: u32)"
    "hl = drop_bit 32 a * ucast (ucast b :: u32)" "hh = drop_bit 32 a * drop_bit 32 b"
  define mid :: u64 where mid: "mid = drop_bit 32 ll + ucast (ucast lh :: u32) + ucast (ucast hl :: u32)"
  have result: "hi = hh + drop_bit 32 lh + drop_bit 32 hl + drop_bit 32 mid" "lo = push_bit 32 mid OR ucast (ucast ll :: u32)"
    using assms by (simp_all add: umul_def Let_def words mid)
  have small: "a0 < 2 ^ 32" "a1 < 2 ^ 32" "b0 < 2 ^ 32" "b1 < 2 ^ 32" unfolding parts by (rule half_bounds)+
  note bounds = product_bound [OF small(1,3)] product_bound [OF small(1,4)] product_bound [OF small(2,3)] product_bound [OF small(2,4)]
  have digits: "unat (ucast (ucast a :: u32) :: u64) = a0" "unat (drop_bit 32 a) = a1" "unat (ucast (ucast b :: u32) :: u64) = b0"
    "unat (drop_bit 32 b) = b1" "unat (ucast (ucast (drop_bit 32 b) :: u32) :: u64) = b1"
    using small(4) by (simp_all only: unat_low unat_high parts mod_less)
  have product: "unat (x * y) = p * q" if "unat x = p" "unat y = q" "p * q \<le> (2 ^ 32 - 1) * (2 ^ 32 - 1)" for x y :: u64 and p q
    using that unat_mult_small [of x y] by simp
  have products: "unat ll = a0 * b0" "unat lh = a0 * b1" "unat hl = a1 * b0" "unat hh = a1 * b1"
    unfolding words by (rule product, rule digits, rule digits, rule bounds)+
  let ?mid = "a0 * b0 div 2 ^ 32 + a0 * b1 mod 2 ^ 32 + a1 * b0 mod 2 ^ 32"
  let ?hi = "a1 * b1 + a0 * b1 div 2 ^ 32 + a1 * b0 div 2 ^ 32 + ?mid div 2 ^ 32"
  let ?lo = "?mid mod 2 ^ 32 * 2 ^ 32 + a0 * b0 mod 2 ^ 32"
  have "mid = word_of_nat ?mid"
    unfolding mid using products by (simp add: word_of_unat [OF unat_high] word_of_unat [OF unat_low])
  moreover have "?mid < 2 ^ 64"
  proof -
    have "a0 * b0 div 2 ^ 32 < 2 ^ 32" using bounds(1) by (intro less_mult_imp_div_less) simp
    moreover have "a0 * b1 mod 2 ^ 32 < 2 ^ 32" "a1 * b0 mod 2 ^ 32 < 2 ^ 32" by simp_all
    ultimately show ?thesis by simp
  qed
  ultimately have unat_mid: "unat mid = ?mid" by (rule unat_small)
  have "hi = word_of_nat ?hi"
  proof -
    have "drop_bit 32 lh = word_of_nat (a0 * b1 div 2 ^ 32)" "drop_bit 32 hl = word_of_nat (a1 * b0 div 2 ^ 32)"
      "drop_bit 32 mid = word_of_nat (?mid div 2 ^ 32)"
      by (rule word_of_unat, simp only: unat_high products unat_mid)+
    then show ?thesis unfolding result word_of_unat [OF products(4)] by (simp only: of_nat_add)
  qed
  moreover have "?hi < 2 ^ 64"
  proof -
    have "?hi * 2 ^ 64 \<le> (a1 * 2 ^ 32 + a0) * (b1 * 2 ^ 32 + b0)" using schoolbook [of a1 b1 a0 b0] by simp
    also have "\<dots> = unat a * unat b" unfolding parts div_mult_mod_eq ..
    also have "\<dots> < 2 ^ 64 * 2 ^ 64"
      using unsigned_less [of a, where 'a = nat] unsigned_less [of b, where 'a = nat] by (intro mult_strict_mono) simp_all
    finally show ?thesis by simp
  qed
  ultimately have hi: "unat hi = ?hi" by (rule unat_small)
  have lo: "unat lo = ?lo"
  proof -
    let ?h = "push_bit 32 mid" and ?l = "ucast (ucast ll :: u32) :: u64"
    have "?h AND ?l = 0" by (rule bit_word_eqI) (auto simp: bit_simps dest: bit_imp_le_length)
    then have "lo = ?h + ?l" using word_plus_and_or [of ?h ?l] result by simp
    moreover have "?h = word_of_nat (?mid mod 2 ^ 32 * 2 ^ 32)"
      by (rule word_of_unat) (simp only: unat_shifted unat_mid)
    ultimately have "lo = word_of_nat ?lo" using products(1) by (simp add: word_of_unat [OF unat_low])
    moreover have "?lo < 2 ^ 64"
    proof -
      have "?mid mod 2 ^ 32 \<le> 2 ^ 32 - 1" "a0 * b0 mod 2 ^ 32 < 2 ^ 32" by (simp_all add: less_eq_Suc_le [symmetric] less_Suc_eq_le [symmetric])
      then show ?thesis by simp
    qed
    ultimately show ?thesis by (rule unat_small)
  qed
  have "a1 * 2 ^ 32 + a0 = unat a" "b1 * 2 ^ 32 + b0 = unat b" unfolding parts by (rule div_mult_mod_eq)+
  then show ?thesis using schoolbook [of a1 b1 a0 b0] by (simp only: hi lo)
qed

lemma W_mul: "W (i128_mul x y) = W x * W y"
proof -
  obtain hi lo where u: "umul (wl x) (wl y) = (hi, lo)" by (cases "umul (wl x) (wl y)")
  have U_nat: "U a = word_of_nat (unat a)" for a by (metis U_of_int of_int_of_nat_eq of_nat_unat)
  have "U hi * B + U lo = word_of_nat (unat hi * 2 ^ 64 + unat lo)"
    by (simp only: U_nat B_def of_nat_add of_nat_mult of_nat_power of_nat_numeral)
  also have "\<dots> = U (wl x) * U (wl y)" unfolding umul_nat [OF u] by (simp only: U_nat of_nat_mult)
  finally have low: "U hi * B + U lo = U (wl x) * U (wl y)" .
  have "W (i128_mul x y) = U (hi + (wl x * wh y + wh x * wl y)) * B + U lo"
    by (simp add: i128_mul_def u W_sum)
  also have "\<dots> = (U hi * B + U lo) + (U (wl x) * U (wh y) * B + U (wh x) * U (wl y) * B)"
    by (simp only: U_add_B U_mult_B) (simp add: algebra_simps)
  also have "\<dots> = W x * W y"
  proof -
    have "U (wh x) * B * (U (wh y) * B) = U (wh x) * U (wh y) * (B * B)" by (simp only: ac_simps)
    then have "U (wh x) * B * (U (wh y) * B) = 0" by (simp only: B_B mult_zero_right)
    then show ?thesis unfolding low W_sum by (simp add: algebra_simps)
  qed
  finally show ?thesis .
qed

section \<open>Stepping the signed number\<close>

lemma last_word: "a + 1 = 0 \<longleftrightarrow> uint a = 2 ^ 64 - 1" for a :: u64
proof -
  have last: "uint (- 1 :: u64) = 2 ^ 64 - 1" by (simp add: unsigned_minus_1_eq_mask mask_eq_exp_minus_1)
  have "a + 1 = 0 \<longleftrightarrow> a = - 1" by (simp add: eq_neg_iff_add_eq_0)
  then show ?thesis by (simp only: word_uint_eq_iff [of a "- 1"] last)
qed

lemma halves_eq:
  assumes "0 \<le> (a :: int)" "a < 2 ^ 64" "0 \<le> b" "b < 2 ^ 64"
  shows "h * 2 ^ 64 + a = k * 2 ^ 64 + b \<longleftrightarrow> h = k \<and> a = b"
  using assms by (cases h k rule: linorder_cases; simp)

text \<open>Only the largest number cannot be stepped up, and only the least one not down.\<close>

lemma i128_inc_eq: "i128_inc x = (if sint (W x) = 2 ^ 127 - 1 then None else Some (u128_inc x))"
proof -
  have "sint (W x) = 2 ^ 127 - 1 \<longleftrightarrow> sint (wh x) = 2 ^ 63 - 1 \<and> uint (wl x) = 2 ^ 64 - 1"
    using halves_eq [of "uint (wl x)" "2 ^ 64 - 1" "sint (wh x)" "2 ^ 63 - 1"] uint_bounded [of "wl x"]
    unfolding sint_W by simp
  then show ?thesis unfolding i128_inc_def u128_inc_def Let_def last_word by auto
qed

lemma i128_dec_eq: "i128_dec x = (if sint (W x) = - (2 ^ 127) then None else Some (u128_dec x))"
proof -
  have "sint (W x) = - (2 ^ 127) \<longleftrightarrow> sint (wh x) = - (2 ^ 63) \<and> wl x = 0"
    using halves_eq [of "uint (wl x)" 0 "sint (wh x)" "- (2 ^ 63)"] uint_bounded [of "wl x"]
    unfolding sint_W by (simp add: uint_0_iff)
  then show ?thesis unfolding i128_dec_def u128_dec_def by auto
qed

section \<open>The property\<close>

text \<open>
  C30: the two halves implement 128-bit arithmetic.  With \<open>W\<close> the word of 128 bits that
  two halves make up, every operator of \<open>uint128\<close> and \<open>int128\<close> that the header defines is
  the operator of words: sums, differences, the product from four products of 32-bit digits,
  negation, the bitwise operators, shifts by any count (a count that is not positive is no
  shift), the signed and unsigned orders, and the conversions of the smaller integers.
  \<open>++\<close> and \<open>--\<close> of \<open>int128\<close> are undefined at the ends of its range only.
\<close>

theorem wide_implements_words:
  "(W (u128_add x y) = W x + W y \<and> W (u128_sub x y) = W x - W y \<and> W (u128_neg x) = - W x \<and>
     W (i128_add x y) = W x + W y \<and> W (i128_sub x y) = W x - W y \<and> W (i128_neg x) = - W x \<and>
     W (i128_mul x y) = W x * W y) \<and>
   (W (u128_or x y) = W x OR W y \<and> W (u128_and x y) = W x AND W y \<and> W (u128_xor x y) = W x XOR W y \<and>
     W (u128_not x) = NOT (W x)) \<and>
   (W (i128_shl x cnt) = push_bit (nat cnt) (W x) \<and> W (i128_shr x cnt) = signed_drop_bit (nat cnt) (W x)) \<and>
   ((u128_eq x y \<longleftrightarrow> W x = W y) \<and> (u128_less x y \<longleftrightarrow> W x < W y) \<and> (u128_le x y \<longleftrightarrow> W x \<le> W y) \<and>
     (i128_less x y \<longleftrightarrow> W x <s W y) \<and> (i128_le x y \<longleftrightarrow> W x \<le>s W y)) \<and>
   (W (wide_uint a) = ucast a \<and> W (wide_int a) = scast a \<and> W (wide_uint64 b) = ucast b \<and> W (wide_int64 b) = scast b) \<and>
   (W (u128_inc x) = W x + 1 \<and> W (u128_dec x) = W x - 1 \<and>
     map_option W (i128_inc x) = (if sint (W x) = 2 ^ 127 - 1 then None else Some (W x + 1)) \<and>
     map_option W (i128_dec x) = (if sint (W x) = - (2 ^ 127) then None else Some (W x - 1)))"
  by (simp only: W_add W_sub W_neg W_mul signed_same W_bits W_shl W_shr W_eq W_less W_const W_steps
      i128_inc_eq i128_dec_eq if_distrib [of "map_option W"] option.map simp_thms)

end
