(* ===== verification/HexLoad.thy ===== *)
theory HexLoad
  imports Prelude
begin

text \<open>
  The loader of hexadecimal object files, \<open>src/src/ldr/hex/hex.cpp\<close>: records of Intel,
  MOS Technology and Motorola files are read from text lines into the database.

  The line buffer is a list of \<open>BUFFSIZE\<close> bytes that holds the text of a line, a zero and
  whatever was there before; the loader reads the digits from it and writes the data back
  into it.  An access outside the buffer is the error \<open>Out_of_buffer\<close>.  \<open>qlgets\<close> is a
  function of the kernel: the loader is given the buffers that its calls deliver.  The calls
  of the kernel that change the database are collected in a list.
\<close>

section \<open>State\<close>

datatype filetype = F_HEX | F_MEX | F_SREC

datatype processor = PLFM_PIC | PLFM_TMS320C28 | PLFM_386 | PLFM_other

definition BUFFSIZE :: nat where "BUFFSIZE = (255 + 6) * 2 + 76"
definition SEGMENTGAP :: u64 where "SEGMENTGAP = 1 * 1024 * 1024"
definition SPARSE_GAP :: u64 where "SPARSE_GAP = 256 * 1024"

text \<open>What the loader asks the kernel, the processor module and the user.\<close>

record hexcfg =
  ftype :: filetype
  mk_segs :: bool
  iscode :: bool
  cbsize :: u32
  dbsize :: u32
  procid :: processor
  procname :: string
  answer :: int
  code16 :: bool
  baseaddr :: u64
  sel_of :: "u64 \<Rightarrow> u64"
  add_ok :: "u64 \<Rightarrow> u64 \<Rightarrow> bool"

datatype hexcall =
    Set_64bit bool
  | Set_start_ip u64
  | Set_start_ea u64
  | Set_code16_mode u64
  | Show_addr u64
  | Add_segm u64 u64 u64 string
  | Set_segm_end u64 u64 bool
  | Set_segm_start u64 u64 bool
  | Mem2base "u8 list" u64 u64
  | Warn_checksum u32
  | Set_segment_addressing
  | Set_pc_flat
  | Set_default_dataseg u64
  | Set_start_cs u64
  | Enable_flags u64 u64
  | Clear_af_final
  | Create_filename_cmt

datatype hex_error =
    Bad_format u32
  | Load_failed
  | Out_of_buffer

text \<open>\<open>local_data\<close>, the buffer with the position of \<open>ptr\<close>, and the variables of \<open>load_file\<close>.\<close>

record hexst =
  buf :: "u8 list"
  hptr :: nat
  hlen :: u32
  hsum :: u16
  ln :: u32
  segment_created :: bool
  hend_ea :: u64
  seg_start :: u64
  subs_addr20 :: u64
  subs_addr32 :: u64
  bigaddr :: bool
  displayed :: bool
  calls :: "hexcall list"

type_synonym 'a hex = "hexst \<Rightarrow> hex_error + ('a \<times> hexst)"

definition hret :: "'a \<Rightarrow> 'a hex" where "hret x s = Inr (x, s)"

definition hbind :: "'a hex \<Rightarrow> ('a \<Rightarrow> 'b hex) \<Rightarrow> 'b hex" where
  "hbind m f s = (case m s of Inl e \<Rightarrow> Inl e | Inr (x, s) \<Rightarrow> f x s)"

definition emit :: "hexcall \<Rightarrow> hexst \<Rightarrow> hexst" where "emit c s = s\<lparr>calls := calls s @ [c]\<rparr>"

definition errfmt :: "'a hex" where "errfmt s = Inl (Bad_format (ln s))"

section \<open>Digits\<close>

definition hex_digit :: "u8 \<Rightarrow> u32 option" where
  "hex_digit c =
    (if 0x30 \<le> c \<and> c \<le> 0x39 then Some (ucast c - 0x30)
     else if 0x41 \<le> c \<and> c \<le> 0x46 then Some (ucast c - 0x41 + 10)
     else if 0x61 \<le> c \<and> c \<le> 0x66 then Some (ucast c - 0x61 + 10)
     else None)"

definition is_hex :: "u8 \<Rightarrow> bool" where "is_hex c \<longleftrightarrow> hex_digit c \<noteq> None"

definition is_space :: "u8 \<Rightarrow> bool" where "is_space c \<longleftrightarrow> c = 0x20 \<or> 9 \<le> c \<and> c \<le> 13"

definition digits_value :: "u8 list \<Rightarrow> u32" where
  "digits_value ds = foldl (\<lambda>v d. v * 16 + the (hex_digit d)) 0 ds"

text \<open>
  \<open>strtoul\<close> of the C library for base 16 on a text that ends with the list: the value and
  the number of characters used, which is 0 when there are no digits.  The loader never
  passes more than eight characters, so the value does not overflow.
\<close>

definition strtoul16 :: "u8 list \<Rightarrow> u32 \<times> nat" where
  "strtoul16 n =
    (let ws = length (takeWhile is_space n); n1 = drop ws n;
         neg = (n1 \<noteq> [] \<and> hd n1 = 0x2d);
         sg = (if neg \<or> n1 \<noteq> [] \<and> hd n1 = 0x2b then 1 else 0); n2 = drop sg n1;
         pre = (if 2 < length n2 \<and> n2 ! 0 = 0x30 \<and> (n2 ! 1 = 0x78 \<or> n2 ! 1 = 0x58) \<and> is_hex (n2 ! 2) then 2 else 0);
         ds = takeWhile is_hex (drop pre n2)
     in if ds = [] then (0, 0)
        else ((if neg then - digits_value ds else digits_value ds), ws + sg + pre + length ds))"

text \<open>The bytes that \<open>hexdata\<close> adds to the checksum; the cases of its switch fall through.\<close>

definition sum_bytes :: "nat \<Rightarrow> u32 \<Rightarrow> u16 \<Rightarrow> u16" where
  "sum_bytes sz data acc =
    (let add = (\<lambda>k acc. acc + ucast (ucast (drop_bit k data) :: u8));
         acc = (if sz = 4 then add 24 acc else acc);
         acc = (if sz = 3 \<or> sz = 4 then add 16 acc else acc);
         acc = (if sz = 2 \<or> sz = 3 \<or> sz = 4 then add 8 acc else acc)
     in add 0 acc)"

definition hexdata :: "nat \<Rightarrow> u32 hex" where
  "hexdata sz s =
    (if sz \<noteq> 0 \<and> hlen s < of_nat sz then errfmt s
     else let s = (if sz = 0 then s else s\<lparr>hlen := hlen s - of_nat sz\<rparr>);
              i = (if sz = 0 then 2 else 2 * sz) in
       if length (buf s) < hptr s + i then Inl Out_of_buffer
       else let n = take i (drop (hptr s) (buf s)); s = s\<lparr>hptr := hptr s + i\<rparr> in
         case strtoul16 n of (data, used) \<Rightarrow>
           if used \<noteq> i then errfmt s
           else if sz = 0 then
             let l = ucast (ucast data :: u8) in Inr (data, s\<lparr>hlen := l, hsum := ucast l\<rparr>)
           else Inr (data, s\<lparr>hsum := sum_bytes sz data (hsum s)\<rparr>))"

section \<open>Data\<close>

definition bytesz :: "hexcfg \<Rightarrow> u32" where "bytesz c = (if iscode c then cbsize c else dbsize c)"

definition start_addr :: "hexcfg \<Rightarrow> u64" where "start_addr c = push_bit 4 (baseaddr c)"

definition trunc_uval :: "u64 \<Rightarrow> u64" where "trunc_uval v = v AND 0xFFFFFFFF"

definition bs_addr_scale :: "hexcfg \<Rightarrow> bool" where "bs_addr_scale c \<longleftrightarrow> procid c \<noteq> PLFM_TMS320C28"

text \<open>The question about the flavor of PIC files: \<open>cvt_to_bytes\<close>.\<close>

definition ask_flavor :: "hexcfg \<Rightarrow> hex_error + bool" where
  "ask_flavor c =
    (if procid c = PLFM_PIC \<and> take 5 (procname c) \<noteq> ''PIC18'' then
       if answer c = 1 then Inr False else if answer c = 0 then Inr True else Inl Load_failed
     else Inr False)"

text \<open>\<open>*p++ = b\<close> at position \<open>w\<close> of the buffer.\<close>

definition poke :: "nat \<Rightarrow> u8 \<Rightarrow> unit hex" where
  "poke w b s = (if w < length (buf s) then Inr ((), s\<lparr>buf := (buf s)[w := b]\<rparr>) else Inl Out_of_buffer)"

text \<open>The loop over the data bytes; every iteration takes one from \<open>len\<close>.\<close>

primrec data_loop :: "bool \<Rightarrow> nat \<Rightarrow> nat \<Rightarrow> unit hex" where
  "data_loop cvt 0 w = hret ()"
| "data_loop cvt (Suc n) w =
    hbind (hexdata 1) (\<lambda>b. hbind (poke w (ucast b)) (\<lambda>_.
      if cvt then hbind (poke (w + 1) 0) (\<lambda>_. data_loop cvt n (w + 2))
      else data_loop cvt n (w + 1)))"

definition extend_segment :: "hexcfg \<Rightarrow> u64 \<Rightarrow> u64 \<Rightarrow> unit hex" where
  "extend_segment c addr top_ea s =
    (let delta = addr - hend_ea s;
         s = (if SEGMENTGAP \<le> delta then s\<lparr>segment_created := False\<rparr> else s);
         s = s\<lparr>hend_ea := top_ea\<rparr> in
     if \<not> mk_segs c then Inr ((), s)
     else if \<not> segment_created s then
       if add_ok c addr top_ea then
         Inr ((), (emit (Add_segm (sel_of c (drop_bit 4 (start_addr c))) addr top_ea
           (if iscode c then ''CODE'' else ''DATA'')) s)\<lparr>segment_created := True, seg_start := addr\<rparr>)
       else Inl Load_failed
     else Inr ((), emit (Set_segm_end (seg_start s) top_ea (SPARSE_GAP < delta)) s))"

definition lower_segment :: "hexcfg \<Rightarrow> u64 \<Rightarrow> hexst \<Rightarrow> hexst" where
  "lower_segment c addr s =
    (if addr < seg_start s then
       let s = (if mk_segs c then emit (Set_segm_start (seg_start s) addr (SPARSE_GAP < seg_start s - addr)) s else s)
       in s\<lparr>seg_start := addr\<rparr>
     else s)"

definition place_data :: "hexcfg \<Rightarrow> u64 \<Rightarrow> u64 \<Rightarrow> unit hex" where
  "place_data c addr top_ea s =
    (let s = (if 0x10000 \<le> top_ea then s\<lparr>bigaddr := True\<rparr> else s);
         addr = trunc_uval (addr + start_addr c);
         s = emit (Show_addr addr) s;
         top_ea = trunc_uval (top_ea + start_addr c) in
     hbind (if hend_ea s < top_ea \<or> \<not> segment_created s then extend_segment c addr top_ea else hret ())
       (\<lambda>_ s. let s = lower_segment c addr s in Inr ((), emit (Mem2base (buf s) addr top_ea) s)) s)"

definition load_data :: "hexcfg \<Rightarrow> bool \<Rightarrow> u64 \<Rightarrow> unit hex" where
  "load_data c cvt addr s =
    (let top_ea = trunc_uval (addr + ucast (hlen s div bytesz c)) in
     hbind (data_loop cvt (unat (hlen s)) 0) (\<lambda>_. place_data c addr top_ea) s)"

text \<open>What is left of the sum after the checksum of the record.\<close>

definition checksum :: "hexcfg \<Rightarrow> u16 hex" where
  "checksum c s =
    (let s = s\<lparr>hlen := hlen s + 1\<rparr> in
     case ftype c of
       F_SREC \<Rightarrow> hbind (hexdata 1) (\<lambda>v. hret (ucast (ucast (NOT (hsum s)) :: u8) XOR ucast (ucast v :: u8))) s
     | F_HEX \<Rightarrow> hbind (hexdata 1) (\<lambda>_ s. Inr (ucast (ucast (hsum s) :: u8), s)) s
     | F_MEX \<Rightarrow> hbind (hexdata 2) (\<lambda>v. hret (hsum s - ucast v)) (s\<lparr>hlen := hlen s + 1\<rparr>))"

definition warn_checksum :: "u16 \<Rightarrow> hexst \<Rightarrow> hexst" where
  "warn_checksum chi s =
    (if chi \<noteq> 0 \<and> \<not> displayed s then emit (Warn_checksum (ln s)) (s\<lparr>displayed := True\<rparr>) else s)"

section \<open>Records\<close>

datatype flow = Next_line | Stop_file

definition data_record :: "hexcfg \<Rightarrow> bool \<Rightarrow> u64 \<Rightarrow> flow hex" where
  "data_record c cvt addr s =
    (let addr = addr + subs_addr20 s + subs_addr32 s in
     hbind (if hlen s \<noteq> 0 then load_data c cvt addr else hret ()) (\<lambda>_.
     hbind (checksum c) (\<lambda>chi s. Inr (Next_line, warn_checksum chi s))) s)"

text \<open>The record types of Intel files; type 0 is data.\<close>

definition seg_addr :: "hexcfg \<Rightarrow> nat \<Rightarrow> u32 hex" where
  "seg_addr c sh =
    hbind (hexdata 2) (\<lambda>v. let a = push_bit sh v in hret (if bs_addr_scale c then a div bytesz c else a))"

definition start_record :: "hexcfg \<Rightarrow> unit hex" where
  "start_record c =
    hbind (hexdata 4) (\<lambda>a s.
      let (a, s) = (if code16 c \<and> a AND 1 \<noteq> 0 then (a AND NOT 1, emit (Set_code16_mode (ucast a)) s) else (a, s))
      in Inr ((), emit (Set_start_ea (ucast a)) (emit (Set_start_ip (ucast a)) s)))"

definition typed_record :: "hexcfg \<Rightarrow> bool \<Rightarrow> u64 \<Rightarrow> u32 \<Rightarrow> flow hex" where
  "typed_record c cvt addr ty =
    hbind
      (if ty = 0xFF \<or> ty = 4 then hbind (seg_addr c 16) (\<lambda>a s. Inr ((), s\<lparr>subs_addr32 := ucast a\<rparr>))
       else if ty = 2 then hbind (seg_addr c 4) (\<lambda>a s. Inr ((), s\<lparr>subs_addr20 := ucast a\<rparr>))
       else if ty = 5 then start_record c
       else hret ())
      (\<lambda>_. if ty = 1 then hret Stop_file else if ty \<noteq> 0 then hret Next_line else data_record c cvt addr)"

definition address_record :: "hexcfg \<Rightarrow> bool \<Rightarrow> nat \<Rightarrow> u32 \<Rightarrow> flow hex" where
  "address_record c cvt sz mode =
    hbind (hexdata sz) (\<lambda>v.
      let addr = (if ftype c \<noteq> F_SREC \<and> bs_addr_scale c then ucast v div ucast (bytesz c) else ucast v) in
      if mode = 0 then (\<lambda>s. Inr (Next_line, emit (Set_start_ip addr) s))
      else if ftype c = F_HEX then hbind (hexdata 1) (typed_record c cvt addr)
      else data_record c cvt addr)"

definition plain_record :: "hexcfg \<Rightarrow> bool \<Rightarrow> flow hex" where
  "plain_record c cvt s =
    (if hlen s = 0 then Inr (Stop_file, s)
     else address_record c cvt 2 0x100 (s\<lparr>hlen := hlen s + (if ftype c = F_HEX then 3 else 2)\<rparr>))"

definition s_record :: "hexcfg \<Rightarrow> bool \<Rightarrow> u32 \<Rightarrow> flow hex" where
  "s_record c cvt mode s =
    (if mode = 0x30 \<or> mode = 0x35 then Inr (Next_line, s)
     else if mode \<in> {0x31, 0x32, 0x33, 0x37, 0x38, 0x39} then
       address_record c cvt (if mode = 0x33 \<or> mode = 0x37 then 4 else if mode = 0x32 \<or> mode = 0x38 then 3 else 2)
         (if 0x33 < mode then 0 else mode) (s\<lparr>hlen := hlen s - 1\<rparr>)
     else errfmt s)"

definition rstart :: "filetype \<Rightarrow> u8" where
  "rstart t = (case t of F_SREC \<Rightarrow> 0x53 | F_HEX \<Rightarrow> 0x3a | F_MEX \<Rightarrow> 0x3b)"

definition read_mode :: "hexcfg \<Rightarrow> u32 hex" where
  "read_mode c s =
    (if ftype c \<noteq> F_SREC then Inr (0x100, s)
     else if hptr s < length (buf s) then Inr (ucast (buf s ! hptr s), s\<lparr>hptr := hptr s + 1\<rparr>)
     else Inl Out_of_buffer)"

definition load_line :: "hexcfg \<Rightarrow> bool \<Rightarrow> flow hex" where
  "load_line c cvt s =
    (let p = length (takeWhile (\<lambda>x. x = 0x20) (buf s)) in
     if length (buf s) \<le> p then Inl Out_of_buffer
     else if buf s ! p = 0x0a \<or> buf s ! p = 0x0d then Inr (Next_line, s)
     else if buf s ! p \<noteq> rstart (ftype c) then errfmt s
     else hbind (read_mode c) (\<lambda>mode. hbind (hexdata 0) (\<lambda>_.
       if mode = 0x100 then plain_record c cvt else s_record c cvt mode)) (s\<lparr>hptr := p + 1\<rparr>))"

section \<open>Files\<close>

fun load_lines :: "hexcfg \<Rightarrow> bool \<Rightarrow> u8 list list \<Rightarrow> unit hex" where
  "load_lines c cvt [] s = Inr ((), s)"
| "load_lines c cvt (b # bs) s =
    (case load_line c cvt (s\<lparr>buf := b\<rparr>) of
       Inl e \<Rightarrow> Inl e
     | Inr (Stop_file, s) \<Rightarrow> Inr ((), s)
     | Inr (Next_line, s) \<Rightarrow> load_lines c cvt bs (s\<lparr>ln := ln s + 1\<rparr>))"

definition finish_load :: "hexcfg \<Rightarrow> hexst \<Rightarrow> hexst" where
  "finish_load c s =
    (let sel = sel_of c (drop_bit 4 (start_addr c));
         s = (if mk_segs c then
                let s = (if bigaddr s then
                           let s = emit Set_segment_addressing s in if procid c = PLFM_386 then emit Set_pc_flat s else s
                         else s)
                in emit (Set_start_cs sel) (emit (Set_default_dataseg sel) s)
              else emit (Enable_flags (start_addr c) (hend_ea s)) s)
     in emit Create_filename_cmt (emit Clear_af_final s))"

text \<open>\<open>shown\<close> is the static variable that remembers the warning of an earlier file.\<close>

definition init_hex :: "bool \<Rightarrow> hexst" where
  "init_hex shown = \<lparr>buf = [], hptr = 0, hlen = 0, hsum = 0, ln = 1, segment_created = False, hend_ea = 0,
     seg_start = 0, subs_addr20 = 0, subs_addr32 = 0, bigaddr = False, displayed = shown,
     calls = [Set_64bit False, Set_start_ip BADADDR]\<rparr>"

definition hex_load_file :: "hexcfg \<Rightarrow> bool \<Rightarrow> u8 list list \<Rightarrow> hex_error + hexst" where
  "hex_load_file c shown bufs =
    (case ask_flavor c of
       Inl e \<Rightarrow> Inl e
     | Inr cvt \<Rightarrow>
         (case load_lines c cvt bufs (init_hex shown) of
            Inl e \<Rightarrow> Inl e
          | Inr (_, s) \<Rightarrow> Inr (finish_load c s)))"

text \<open>\<open>accept_file\<close> on the buffer of its first line; \<^const>\<open>None\<close> when it reads outside it.\<close>

definition hex_accept_file :: "u8 list \<Rightarrow> (filetype \<times> string) option option" where
  "hex_accept_file str =
    (let p = length (takeWhile (\<lambda>x. x = 0x20) str) in
     if length str \<le> p + 1 then None
     else if \<not> is_hex (str ! (p + 1)) then Some None
     else if length str \<le> p + 2 then None
     else if \<not> is_hex (str ! (p + 2)) then Some None
     else Some
      (if str ! p = 0x3a then Some (F_HEX, ''Intel Hex Object Format'')
       else if str ! p = 0x3b then Some (F_MEX, ''MOS Technology Hex Object Format'')
       else if str ! p = 0x53 then Some (F_SREC, ''Motorola S-record Format'')
       else None))"

end
