(* ===== verification/HexRead.thy ===== *)
theory HexRead
  imports HexLoad
begin

text \<open>
  What the record reader of \<open>HexLoad\<close> does with digits: pairs of digits are bytes, a number
  is its bytes with the most significant first, and the checksum is their sum.
\<close>

section \<open>Bytes in digits\<close>

definition pair_byte :: "u32 \<Rightarrow> u32 \<Rightarrow> u8" where "pair_byte h l = ucast (push_bit 4 h OR l)"

fun unhex :: "u8 list \<Rightarrow> u8 list option" where
  "unhex [] = Some []"
| "unhex [c] = None"
| "unhex (c # d # cs) =
    do { h \<leftarrow> hex_digit c; l \<leftarrow> hex_digit d; bs \<leftarrow> unhex cs; Some (pair_byte h l # bs) }"

definition usum :: "u8 list \<Rightarrow> u16" where "usum bs = sum_list (map ucast bs)"

definition be :: "u8 list \<Rightarrow> u32" where "be bs = foldl (\<lambda>v b. push_bit 8 v OR ucast b) 0 bs"

lemma usum_simps [simp]: "usum [] = 0" "usum (b # bs) = ucast b + usum bs" "usum (bs @ cs) = usum bs + usum cs"
  by (simp_all add: usum_def)

lemma unhex_append: "unhex cs = Some bs \<Longrightarrow> unhex (cs @ ds) = (case unhex ds of None \<Rightarrow> None | Some bs' \<Rightarrow> Some (bs @ bs'))"
proof (induction cs arbitrary: bs rule: unhex.induct)
  case (3 c d cs)
  then show ?case by (cases "unhex ds") (auto simp: bind_split_asm_Some)
qed (auto split: option.splits)

lemma unhex_length: "unhex cs = Some bs \<Longrightarrow> length cs = 2 * length bs"
  by (induction cs arbitrary: bs rule: unhex.induct) (auto simp: bind_split_asm_Some)

lemma unhex_split: "unhex cs = Some (bs @ bs') \<Longrightarrow>
    unhex (take (2 * length bs) cs) = Some bs \<and> unhex (drop (2 * length bs) cs) = Some bs'"
proof (induction bs arbitrary: cs)
  case (Cons b bs)
  then obtain c d ds where "cs = c # d # ds" by (cases cs rule: unhex.cases) auto
  then show ?case using Cons by (auto simp: bind_split_asm_Some)
qed simp

lemma unhex_hex: "unhex cs = Some bs \<Longrightarrow> list_all is_hex cs"
  by (induction cs arbitrary: bs rule: unhex.induct) (auto simp: bind_split_asm_Some is_hex_def)

lemma u8_to_u32: "unat (ucast (c :: u8) :: u32) = unat c"
  using unsigned_less [of c, where 'a = nat] by (simp add: unsigned_ucast_eq take_bit_nat_eq_self_iff)

text \<open>A digit has four bits.\<close>

lemma hex_digit_bits: "hex_digit c = Some v \<Longrightarrow> bit v n \<Longrightarrow> n < 4"
proof -
  assume a: "hex_digit c = Some v" and n: "bit v n"
  have le: "(ucast d :: u32) \<le> ucast c \<longleftrightarrow> d \<le> c" for d :: u8
    by (simp only: word_le_nat_alt u8_to_u32)
  have sub: "unat (ucast c - ucast d :: u32) = unat c - unat d" if "d \<le> c" for d :: u8
    using that by (simp only: unat_sub le u8_to_u32)
  have "unat v < 2 ^ 4"
    using a sub [of "0x30"] sub [of "0x41"] sub [of "55"] sub [of "87"]
    by (auto simp: hex_digit_def word_le_nat_alt unat_word_ariths split: if_splits)
  then have "take_bit 4 v = v" by (simp add: word_unat_eq_iff unsigned_take_bit_eq take_bit_nat_eq_self_iff)
  then show ?thesis using n by (metis bit_take_bit_iff)
qed

lemma is_hex_plain: "is_hex c \<Longrightarrow> \<not> is_space c \<and> c \<noteq> 0x2d \<and> c \<noteq> 0x2b \<and> c \<noteq> 0x78 \<and> c \<noteq> 0x58 \<and> c \<noteq> 0x20 \<and> c \<noteq> 0"
  by (auto simp: is_hex_def hex_digit_def is_space_def word_le_nat_alt split: if_splits)

lemma strtoul16_hex:
  assumes "list_all is_hex cs" "cs \<noteq> []"
  shows "strtoul16 cs = (digits_value cs, length cs)"
proof -
  obtain c ds where c: "cs = c # ds" "is_hex c" using assms by (cases cs) auto
  have "takeWhile is_hex cs = cs" using assms(1) by (simp add: list_all_iff)
  moreover have "\<not> (cs ! 1 = 0x78 \<or> cs ! 1 = 0x58)" if "2 < length cs"
    using that assms(1) is_hex_plain by (metis list_all_length One_nat_def Suc_lessD numeral_2_eq_2)
  ultimately show ?thesis using is_hex_plain [OF c(2)] c(1) by (auto simp: strtoul16_def Let_def)
qed

lemma digit_step:
  assumes "\<And>n. bit h n \<Longrightarrow> n < 4"
  shows "v * 16 + h = push_bit 4 v OR (h :: u32)"
proof -
  have "push_bit 4 v AND h = 0"
  proof (rule bit_word_eqI)
    show "bit (push_bit 4 v AND h) n = bit (0 :: u32) n" for n using assms [of n] by (auto simp: bit_simps)
  qed
  then show ?thesis using word_plus_and_or [of "push_bit 4 v" h] by (simp add: push_bit_eq_mult)
qed

lemma digits_step:
  assumes "hex_digit c = Some h" "hex_digit d = Some l"
  shows "(v * 16 + h) * 16 + l = push_bit 8 v OR ucast (pair_byte h l)"
proof -
  have "(v * 16 + h) * 16 + l = push_bit 4 (push_bit 4 v OR h) OR l"
    using assms by (simp only: digit_step [OF hex_digit_bits])
  also have "\<dots> = push_bit 8 v OR ucast (pair_byte h l)"
    by (rule bit_word_eqI)
      (auto simp: bit_simps pair_byte_def dest: hex_digit_bits [OF assms(1)] hex_digit_bits [OF assms(2)])
  finally show ?thesis .
qed

lemma digits_fold: "unhex cs = Some bs \<Longrightarrow>
    foldl (\<lambda>v d. v * 16 + the (hex_digit d)) v cs = foldl (\<lambda>v b. push_bit 8 v OR ucast b) v bs"
proof (induction cs arbitrary: v bs rule: unhex.induct)
  case (3 c d cs)
  then obtain h l bs' where d: "hex_digit c = Some h" "hex_digit d = Some l" "unhex cs = Some bs'" "bs = pair_byte h l # bs'"
    by (auto simp: bind_split_asm_Some)
  show ?case using 3(1) [OF d(1,2,3)] d(1,2) by (simp only: d(4) foldl.simps option.sel digits_step)
qed auto

lemma digits_be: "unhex cs = Some bs \<Longrightarrow> digits_value cs = be bs"
  by (simp add: digits_value_def be_def digits_fold)

text \<open>The low bytes of a number.\<close>

lemma be_snoc: "be (bs @ [b]) = push_bit 8 (be bs) OR ucast b"
  by (simp add: be_def)

lemma low_byte: "ucast (push_bit 8 v OR ucast (b :: u8) :: u32) = b"
  by (rule bit_word_eqI) (auto simp: bit_simps)

lemma high_bytes:
  "ucast (drop_bit 8 (push_bit 8 v OR ucast (b :: u8))) = (ucast (v :: u32) :: u8)"
  "ucast (drop_bit 16 (push_bit 8 v OR ucast b)) = (ucast (drop_bit 8 v) :: u8)"
  "ucast (drop_bit 24 (push_bit 8 v OR ucast b)) = (ucast (drop_bit 16 v) :: u8)"
  by (rule bit_word_eqI; auto simp: bit_simps dest: bit_imp_le_length)+

lemma be_bytes:
  "ucast (be (bs @ [b])) = b"
  "ucast (drop_bit 8 (be (bs @ [b]))) = (ucast (be bs) :: u8)"
  "ucast (drop_bit 16 (be (bs @ [b]))) = (ucast (drop_bit 8 (be bs)) :: u8)"
  "ucast (drop_bit 24 (be (bs @ [b]))) = (ucast (drop_bit 16 (be bs)) :: u8)"
  unfolding be_snoc by (rule low_byte high_bytes)+

lemma sum_bytes_be:
  assumes "0 < length bs" "length bs \<le> 4"
  shows "sum_bytes (length bs) (be bs) acc = acc + usum bs"
proof -
  note b = be_bytes [of "[]", unfolded append.simps] be_bytes [of "[a]" for a, unfolded append.simps]
    be_bytes [of "[a, b]" for a b, unfolded append.simps] be_bytes [of "[a, b, c]" for a b c, unfolded append.simps]
  consider a where "bs = [a]" | a b where "bs = [a, b]" | a b c where "bs = [a, b, c]" | a b c d where "bs = [a, b, c, d]"
    using assms by (cases bs; cases "tl bs"; cases "tl (tl bs)"; cases "tl (tl (tl bs))") auto
  then show ?thesis by cases (simp_all add: sum_bytes_def b)
qed

section \<open>Reading a number\<close>

definition rest :: "hexst \<Rightarrow> u8 list" where "rest s = drop (hptr s) (buf s)"

text \<open>\<open>reads s cs r\<close>: the digits \<open>cs\<close> are next in the buffer, then comes \<open>r\<close>.\<close>

lemma rest_step: "rest s = cs @ r \<Longrightarrow> cs \<noteq> [] \<Longrightarrow>
    hptr s + length cs \<le> length (buf s) \<and> take (length cs) (drop (hptr s) (buf s)) = cs \<and>
    drop (hptr s + length cs) (buf s) = r"
proof -
  assume r: "rest s = cs @ r" and cs: "cs \<noteq> []"
  have "length (buf s) - hptr s = length cs + length r" using arg_cong [OF r, of length] by (simp add: rest_def)
  moreover have "drop (length cs) (drop (hptr s) (buf s)) = r" using r by (simp add: rest_def)
  ultimately show ?thesis using r cs by (cases cs) (auto simp: rest_def add.commute)
qed

lemma hexdata_digits:
  assumes "rest s = cs @ r" "unhex cs = Some bs" "0 < length bs" "length bs \<le> 4" "length bs \<le> unat (hlen s)"
  shows "hexdata (length bs) s = Inr (be bs,
    s\<lparr>hlen := hlen s - of_nat (length bs), hptr := hptr s + length cs, hsum := hsum s + usum bs\<rparr>)"
proof -
  have len: "length cs = 2 * length bs" using unhex_length [OF assms(2)] .
  then have cs: "cs \<noteq> []" using assms(3) by auto
  have "unat (of_nat (length bs) :: u32) = length bs" using assms(4) by (simp add: unsigned_of_nat take_bit_nat_eq_self)
  then have "\<not> hlen s < of_nat (length bs)" using assms(5) by (simp add: word_less_nat_alt)
  then show ?thesis
    using rest_step [OF assms(1) cs] strtoul16_hex [OF unhex_hex [OF assms(2)] cs] assms(3)
    by (simp add: hexdata_def Let_def len digits_be [OF assms(2)] sum_bytes_be [OF assms(3,4)])
qed

lemma hexdata_length:
  assumes "rest s = cs @ r" "unhex cs = Some [b]"
  shows "hexdata 0 s = Inr (be [b], s\<lparr>hptr := hptr s + 2, hlen := ucast b, hsum := ucast b\<rparr>)"
proof -
  have len: "length cs = 2" using unhex_length [OF assms(2)] by simp
  then have cs: "cs \<noteq> []" by auto
  have "ucast (be [b]) = b" using be_bytes(1) [of "[]" b] by simp
  moreover have "ucast (ucast b :: u32) = (ucast b :: u16)" by (rule bit_word_eqI) (auto simp: bit_simps dest: bit_imp_le_length)
  ultimately show ?thesis
    using rest_step [OF assms(1) cs] strtoul16_hex [OF unhex_hex [OF assms(2)] cs]
    by (simp add: hexdata_def Let_def len digits_be [OF assms(2)])
qed

section \<open>The data\<close>

definition overwrite :: "nat \<Rightarrow> 'a list \<Rightarrow> 'a list \<Rightarrow> 'a list" where
  "overwrite w ds xs = take w xs @ ds @ drop (w + length ds) xs"

lemma overwrite_Cons: "w < length xs \<Longrightarrow> overwrite (Suc w) ds (xs[w := d]) = overwrite w (d # ds) xs"
  by (simp add: overwrite_def take_Suc_conv_app_nth)

text \<open>
  The data are written where the digits have been read already, so they do not disturb the
  digits to come.
\<close>

lemma data_loop_digits:
  assumes "rest s = cs @ r" "unhex cs = Some bs" "w \<le> hptr s" "length bs \<le> unat (hlen s)"
  shows "data_loop False (length bs) w s = Inr ((),
    s\<lparr>buf := overwrite w bs (buf s), hlen := hlen s - of_nat (length bs), hptr := hptr s + length cs,
      hsum := hsum s + usum bs\<rparr>)"
  using assms
proof (induction bs arbitrary: s cs w)
  case Nil
  then show ?case using unhex_length [of cs "[]"] by (simp add: hret_def overwrite_def)
next
  case (Cons b bs)
  obtain ds es where cs: "cs = ds @ es" "unhex ds = Some [b]" "unhex es = Some bs" "length ds = 2"
    using unhex_split [of cs "[b]" bs] unhex_length [OF Cons.prems(2)] Cons.prems(2)
    by (metis append.simps append_take_drop_id length_Cons list.size(3) unhex_length mult.right_neutral One_nat_def)
  have r: "rest s = ds @ (es @ r)" using Cons.prems(1) cs(1) by simp
  let ?s1 = "s\<lparr>hlen := hlen s - 1, hptr := hptr s + 2, hsum := hsum s + ucast b\<rparr>"
  have one: "hexdata 1 s = Inr (be [b], ?s1)"
    using hexdata_digits [OF r cs(2)] Cons.prems(4) cs(4) by simp
  have byte: "ucast (be [b]) = b" using be_bytes(1) [of "[]" b] by simp
  note in_buf = rest_step [OF r, unfolded cs(4)]
  have w: "w < length (buf s)" using in_buf Cons.prems(3) cs(4) by fastforce
  let ?s2 = "?s1\<lparr>buf := (buf s)[w := b]\<rparr>"
  have "rest ?s2 = es @ r" using in_buf Cons.prems(3) cs(4) by (fastforce simp: rest_def)
  moreover have "unat (hlen s - 1) = unat (hlen s) - 1" using Cons.prems(4) by (simp add: unat_sub word_le_nat_alt)
  ultimately have "data_loop False (length bs) (w + 1) ?s2 = Inr ((),
    ?s2\<lparr>buf := overwrite (w + 1) bs ((buf s)[w := b]), hlen := hlen s - 1 - of_nat (length bs),
      hptr := hptr s + 2 + length es, hsum := hsum s + ucast b + usum bs\<rparr>)"
    using Cons.IH [of ?s2 es "w + 1"] cs(3) Cons.prems(3,4) by simp
  then show ?case using w one byte cs(1,4) by (simp add: hbind_def poke_def overwrite_Cons algebra_simps)
qed

section \<open>The database\<close>

text \<open>What \<open>mem2base\<close> leaves in the database, for bytes of eight bits, and the other calls.\<close>

fun put_call :: "hexcall \<Rightarrow> (u64 \<Rightarrow> u8 option) \<Rightarrow> u64 \<Rightarrow> u8 option" where
  "put_call (Mem2base b x y) m = (\<lambda>a. if x \<le> a \<and> a < y then Some (b ! unat (a - x)) else m a)"
| "put_call _ m = m"

definition mem_image :: "hexcall list \<Rightarrow> u64 \<Rightarrow> u8 option" where "mem_image cs = fold put_call cs (\<lambda>_. None)"

fun placement :: "hexcall \<Rightarrow> bool" where
  "placement (Show_addr _) = True"
| "placement (Add_segm _ _ _ _) = True"
| "placement (Set_segm_end _ _ _) = True"
| "placement (Set_segm_start _ _ _) = True"
| "placement (Mem2base _ _ _) = True"
| "placement _ = False"

definition others :: "hexcall list \<Rightarrow> hexcall list" where "others cs = filter (\<lambda>c. \<not> placement c) cs"

lemma calls_snoc [simp]: "mem_image (cs @ [c]) = put_call c (mem_image cs)" "others (cs @ [c]) = others cs @ (if placement c then [] else [c])"
  by (simp_all add: mem_image_def others_def)

text \<open>The members that placing data leaves alone.\<close>

definition kept :: "hexst \<Rightarrow> hexst \<Rightarrow> bool" where
  "kept s s' \<longleftrightarrow> buf s' = buf s \<and> hptr s' = hptr s \<and> hlen s' = hlen s \<and> hsum s' = hsum s \<and> ln s' = ln s \<and>
     subs_addr20 s' = subs_addr20 s \<and> subs_addr32 s' = subs_addr32 s \<and> displayed s' = displayed s \<and>
     others (calls s') = others (calls s)"

definition adds :: "hexcfg \<Rightarrow> bool" where "adds c \<longleftrightarrow> (mk_segs c \<longrightarrow> (\<forall>a t. add_ok c a t))"

lemma extend_segment_ok:
  assumes "adds c"
  shows "\<exists>s'. extend_segment c addr top_ea s = Inr ((), s') \<and> kept s s' \<and> mem_image (calls s') = mem_image (calls s)"
proof -
  define s1 where "s1 = (if SEGMENTGAP \<le> addr - hend_ea s then s\<lparr>segment_created := False\<rparr> else s)\<lparr>hend_ea := top_ea\<rparr>"
  have "kept s s1 \<and> calls s1 = calls s \<and> seg_start s1 = seg_start s" by (simp add: s1_def kept_def)
  moreover have "extend_segment c addr top_ea s =
    (if \<not> mk_segs c then Inr ((), s1)
     else if \<not> segment_created s1 then
       Inr ((), (emit (Add_segm (sel_of c (drop_bit 4 (start_addr c))) addr top_ea
           (if iscode c then ''CODE'' else ''DATA'')) s1)\<lparr>segment_created := True, seg_start := addr\<rparr>)
     else Inr ((), emit (Set_segm_end (seg_start s1) top_ea (SPARSE_GAP < addr - hend_ea s)) s1))"
    using assms by (simp add: extend_segment_def Let_def adds_def s1_def)
  ultimately show ?thesis by (auto simp: kept_def emit_def)
qed

lemma lower_segment_ok: "kept s (lower_segment c addr s) \<and> mem_image (calls (lower_segment c addr s)) = mem_image (calls s)"
  by (simp add: lower_segment_def Let_def emit_def kept_def)

lemma kept_trans: "kept s s' \<Longrightarrow> kept s' s'' \<Longrightarrow> kept s s''"
  by (simp add: kept_def)

lemma place_data_ok:
  assumes "adds c"
  obtains s' where "place_data c addr top_ea s = Inr ((), s')" "kept s s'"
    "mem_image (calls s') = put_call (Mem2base (buf s) (trunc_uval (addr + start_addr c)) (trunc_uval (top_ea + start_addr c))) (mem_image (calls s))"
proof -
  let ?a = "trunc_uval (addr + start_addr c)" and ?t = "trunc_uval (top_ea + start_addr c)"
  define s1 where "s1 = emit (Show_addr ?a) (if 0x10000 \<le> top_ea then s\<lparr>bigaddr := True\<rparr> else s)"
  have s1: "kept s s1 \<and> mem_image (calls s1) = mem_image (calls s)" by (simp add: s1_def emit_def kept_def)
  let ?m = "if hend_ea s1 < ?t \<or> \<not> segment_created s1 then extend_segment c ?a ?t else hret ()"
  have "\<exists>s2. ?m s1 = Inr ((), s2) \<and> kept s1 s2 \<and> mem_image (calls s2) = mem_image (calls s1)"
  proof (cases "hend_ea s1 < ?t \<or> \<not> segment_created s1")
    case True
    then show ?thesis using extend_segment_ok [OF assms] by (simp only: if_True)
  next
    case False
    then show ?thesis by (simp only: if_False hret_def) (simp add: kept_def)
  qed
  then obtain s2 where s2: "?m s1 = Inr ((), s2)" "kept s1 s2" "mem_image (calls s2) = mem_image (calls s1)" by blast
  have low: "kept s2 (lower_segment c ?a s2) \<and> mem_image (calls (lower_segment c ?a s2)) = mem_image (calls s2)"
    by (rule lower_segment_ok)
  define s3 where "s3 = lower_segment c ?a s2"
  have "place_data c addr top_ea s = Inr ((), emit (Mem2base (buf s3) ?a ?t) s3)"
    using s2(1) by (simp add: place_data_def Let_def s1_def [symmetric] hbind_def s3_def)
  moreover have k: "kept s s3" "mem_image (calls s3) = mem_image (calls s)"
    using s1 s2 low unfolding s3_def by (metis kept_trans)+
  moreover have "kept s (emit (Mem2base (buf s3) ?a ?t) s3)" using k(1) by (simp add: kept_def emit_def)
  moreover have "buf s3 = buf s" using k(1) by (simp add: kept_def)
  ultimately show thesis by (intro that [of "emit (Mem2base (buf s3) ?a ?t) s3"]) (simp_all add: emit_def)
qed

section \<open>A data record\<close>

text \<open>The checksum of a record is wrong, for the sum of its bytes before it.\<close>

definition wrong_sum :: "filetype \<Rightarrow> u16 \<Rightarrow> u8 list \<Rightarrow> bool" where
  "wrong_sum t acc chk \<longleftrightarrow>
    (case t of F_HEX \<Rightarrow> ucast (acc + usum chk) \<noteq> (0 :: u8)
     | F_SREC \<Rightarrow> NOT (ucast acc) \<noteq> (ucast (be chk) :: u8)
     | F_MEX \<Rightarrow> acc \<noteq> ucast (be chk))"

definition chk_bytes :: "filetype \<Rightarrow> nat" where "chk_bytes t = (if t = F_MEX then 2 else 1)"

lemma word_up_inj: "(ucast (a :: u8) :: u16) = ucast b \<longleftrightarrow> a = b"
proof
  assume "(ucast a :: u16) = ucast b"
  then have "(ucast (ucast a :: u16) :: u8) = ucast (ucast b :: u16)" by (rule arg_cong)
  moreover have "ucast (ucast x :: u16) = (x :: u8)" for x by (rule bit_word_eqI) (auto simp: bit_simps)
  ultimately show "a = b" by simp
qed simp

lemma xor_zero: "a XOR b = 0 \<longleftrightarrow> a = (b :: u16)"
proof
  assume "a XOR b = 0"
  then have "(a XOR b) XOR b = b" by simp
  then show "a = b" by (simp add: xor.assoc)
qed simp

lemma ucast_not: "ucast (NOT w :: u16) = NOT (ucast w :: u8)"
  by (rule bit_word_eqI) (auto simp: bit_simps)

lemma checksum_digits:
  assumes "rest s = cs @ r" "unhex cs = Some chk" "length chk = chk_bytes (ftype c)" "hlen s = 0"
  obtains chi s' where "checksum c s = Inr (chi, s')" "chi \<noteq> 0 \<longleftrightarrow> wrong_sum (ftype c) (hsum s) chk"
    "ln s' = ln s" "subs_addr20 s' = subs_addr20 s" "subs_addr32 s' = subs_addr32 s" "displayed s' = displayed s" "calls s' = calls s"
proof -
  define n where "n = length chk"
  have n: "0 < n" "n \<le> 2" "n = length chk" "n = chk_bytes (ftype c)" using assms(3) by (auto simp: n_def chk_bytes_def)
  define s1 where "s1 = s\<lparr>hlen := of_nat n\<rparr>"
  have "rest s1 = cs @ r" using assms(1) by (simp add: rest_def s1_def)
  moreover have "unat (hlen s1) = n" using n by (simp add: s1_def unsigned_of_nat take_bit_nat_eq_self)
  ultimately have h: "hexdata n s1 = Inr (be chk, s1\<lparr>hlen := 0, hptr := hptr s + length cs, hsum := hsum s + usum chk\<rparr>)"
    using hexdata_digits [OF _ assms(2), of s1 r] n by (simp add: s1_def)
  let ?s2 = "s\<lparr>hlen := 0, hptr := hptr s + length cs, hsum := hsum s + usum chk\<rparr>"
  show thesis
  proof (cases "ftype c")
    case F_HEX
    then have "n = 1" using n(4) by (simp add: chk_bytes_def)
    then show thesis using F_HEX h assms(4)
      by (intro that [of "ucast (ucast (hsum s + usum chk) :: u8)" ?s2]) (auto simp: checksum_def Let_def hbind_def wrong_sum_def s1_def word_up_inj [of _ 0, simplified])
  next
    case F_SREC
    then have "n = 1" using n(4) by (simp add: chk_bytes_def)
    then show thesis using F_SREC h assms(4)
      by (intro that [of "ucast (ucast (NOT (hsum s)) :: u8) XOR ucast (ucast (be chk) :: u8)" ?s2]) (auto simp: checksum_def Let_def hbind_def hret_def wrong_sum_def s1_def word_up_inj xor_zero ucast_not)
  next
    case F_MEX
    then have "n = 2" using n(4) by (simp add: chk_bytes_def)
    then show thesis using F_MEX h assms(4)
      by (intro that [of "hsum s - ucast (be chk)" ?s2]) (auto simp: checksum_def Let_def hbind_def hret_def wrong_sum_def s1_def)
  qed
qed

lemma in_range:
  assumes "unat (t :: u64) = unat a + n"
  shows "a \<le> x \<and> x < t \<longleftrightarrow> unat (x - a) < n"
proof (cases "a \<le> x")
  case True
  then show ?thesis using assms by (simp add: unat_sub word_less_nat_alt word_le_nat_alt) linarith
next
  case False
  then have "unat (x - a) + unat a = 2 ^ 64 + unat x"
    using unsigned_less [of a, where 'a = nat] by (simp add: unat_sub_if' word_le_nat_alt)
  then show ?thesis using False assms unsigned_less [of t, where 'a = nat] by simp
qed

lemma trunc_uval_id: "unat v < 2 ^ 32 \<Longrightarrow> trunc_uval v = v"
proof -
  assume "unat v < 2 ^ 32"
  then have "take_bit 32 v = v" by (simp add: word_unat_eq_iff unsigned_take_bit_eq take_bit_nat_eq_self_iff)
  then show ?thesis by (simp add: trunc_uval_def take_bit_eq_mask mask_numeral)
qed

text \<open>What \<open>mem2base\<close> gets is the data, at the address of the record.\<close>

lemma put_call_data:
  assumes "unat a + unat st + length bs < 2 ^ 32" "unat (n :: u32) = length bs"
  shows "put_call (Mem2base (overwrite 0 bs b) (trunc_uval (a + st)) (trunc_uval (trunc_uval (a + ucast n) + st))) m =
    (\<lambda>x. if unat (x - (a + st)) < length bs then Some (bs ! unat (x - (a + st))) else m x)"
proof -
  have n: "unat (ucast n :: u64) = length bs"
    using assms(2) unsigned_less [of n, where 'a = nat] by (simp add: unsigned_ucast_eq take_bit_nat_eq_self_iff)
  have u: "unat (a + st) = unat a + unat st" "unat (a + ucast n) = unat a + length bs"
    "unat (a + ucast n + st) = unat a + length bs + unat st"
    using assms(1) n by (simp_all add: unat_word_ariths)
  have t: "trunc_uval (a + st) = a + st" "trunc_uval (trunc_uval (a + ucast n) + st) = a + ucast n + st"
    using assms(1) u by (simp_all add: trunc_uval_id)
  show ?thesis
    unfolding t put_call.simps using in_range [of "a + ucast n + st" "a + st" "length bs"] u
    by (auto simp: overwrite_def nth_append fun_eq_iff)
qed

text \<open>What a data record does to the state, from the address on.\<close>

lemma data_record_digits:
  assumes "rest s = cs @ r" "unhex cs = Some (bs @ chk)" "unat (hlen s) = length bs"
    "length chk = chk_bytes (ftype c)" "bytesz c = 1" "adds c"
    and addr: "a = addr + subs_addr20 s + subs_addr32 s" "unat a + unat (start_addr c) + length bs < 2 ^ 32"
  obtains s' where "data_record c False addr s = Inr (Next_line, s')"
    "mem_image (calls s') = (\<lambda>x. if unat (x - (a + start_addr c)) < length bs then Some (bs ! unat (x - (a + start_addr c)))
       else mem_image (calls s) x)"
    "others (calls s') = others (calls s) @
       (if wrong_sum (ftype c) (hsum s + usum bs) chk \<and> \<not> displayed s then [Warn_checksum (ln s)] else [])"
    "displayed s' \<longleftrightarrow> displayed s \<or> wrong_sum (ftype c) (hsum s + usum bs) chk"
    "ln s' = ln s" "subs_addr20 s' = subs_addr20 s" "subs_addr32 s' = subs_addr32 s"
proof -
  define ds es where parts: "ds = take (2 * length bs) cs" "es = drop (2 * length bs) cs"
  have split: "unhex ds = Some bs" "unhex es = Some chk" "cs = ds @ es"
    using unhex_split [OF assms(2)] by (simp_all add: parts)
  let ?top = "trunc_uval (a + ucast (hlen s div bytesz c))"
  define s1 where "s1 = s\<lparr>buf := overwrite 0 bs (buf s), hlen := hlen s - of_nat (length bs), hptr := hptr s + length ds,
      hsum := hsum s + usum bs\<rparr>"
  have loop: "data_loop False (unat (hlen s)) 0 s = Inr ((), s1)"
    using data_loop_digits [of s ds "es @ r" bs 0] assms(1,3) split by (simp add: s1_def)
  have "\<exists>s2. (if hlen s \<noteq> 0 then load_data c False a else hret ()) s = Inr ((), s2) \<and> kept s1 s2 \<and>
    mem_image (calls s2) = (\<lambda>x. if unat (x - (a + start_addr c)) < length bs then Some (bs ! unat (x - (a + start_addr c)))
       else mem_image (calls s) x)"
  proof (cases "hlen s = 0")
    case True
    then have "bs = []" using assms(3) by simp
    then have "s1 = s" using True parts by (simp add: s1_def overwrite_def)
    then show ?thesis using True \<open>bs = []\<close> by (simp add: hret_def kept_def)
  next
    case False
    obtain s2 where s2: "place_data c a ?top s1 = Inr ((), s2)" "kept s1 s2"
      "mem_image (calls s2) = put_call (Mem2base (buf s1) (trunc_uval (a + start_addr c)) (trunc_uval (?top + start_addr c))) (mem_image (calls s1))"
      using place_data_ok [OF assms(6), of a ?top s1] by blast
    have "load_data c False a s = Inr ((), s2)"
      using loop s2(1) assms(5) by (simp add: load_data_def hbind_def)
    moreover have "mem_image (calls s2) = (\<lambda>x. if unat (x - (a + start_addr c)) < length bs
        then Some (bs ! unat (x - (a + start_addr c))) else mem_image (calls s) x)"
      using put_call_data [OF addr(2) assms(3), of "buf s"] s2(3) assms(5) by (simp add: s1_def)
    ultimately show ?thesis using False s2(2) by simp
  qed
  then obtain s2 where s2: "(if hlen s \<noteq> 0 then load_data c False a else hret ()) s = Inr ((), s2)" "kept s1 s2"
    "mem_image (calls s2) = (\<lambda>x. if unat (x - (a + start_addr c)) < length bs then Some (bs ! unat (x - (a + start_addr c)))
       else mem_image (calls s) x)" by blast
  have "rest s1 = es @ r"
  proof -
    have "length ds = 2 * length bs" using unhex_length [OF split(1)] .
    then have "drop (hptr s + length ds) (overwrite 0 bs (buf s)) = drop (hptr s + length ds) (buf s)"
      by (simp add: overwrite_def mult_2) (simp only: ac_simps)
    moreover have "drop (hptr s + length ds) (buf s) = es @ r"
    proof -
      have "drop (length ds) (rest s) = es @ r" using assms(1) split(3) by simp
      then show ?thesis by (simp add: rest_def add.commute)
    qed
    ultimately show ?thesis by (simp add: s1_def rest_def)
  qed
  moreover have "of_nat (length bs) = hlen s" unfolding assms(3) [symmetric] by simp
  ultimately have "rest s2 = es @ r" "hlen s2 = 0" "hsum s2 = hsum s + usum bs" "ln s2 = ln s"
      "subs_addr20 s2 = subs_addr20 s" "subs_addr32 s2 = subs_addr32 s" "displayed s2 = displayed s" "others (calls s2) = others (calls s)"
    using s2(2) by (simp_all add: rest_def kept_def s1_def)
  note s2' = this
  obtain chi s3 where s3: "checksum c s2 = Inr (chi, s3)" "chi \<noteq> 0 \<longleftrightarrow> wrong_sum (ftype c) (hsum s + usum bs) chk"
    "ln s3 = ln s" "subs_addr20 s3 = subs_addr20 s" "subs_addr32 s3 = subs_addr32 s" "displayed s3 = displayed s" "calls s3 = calls s2"
    using checksum_digits [OF s2'(1) split(2) assms(4) s2'(2)] s2'(3-7) by metis
  have "data_record c False addr s = Inr (Next_line, warn_checksum chi s3)"
    using s2(1) s3(1) unfolding addr(1) by (simp add: data_record_def hbind_def)
  then show thesis
    using s2(3) s2'(8) s3 by (intro that [of "warn_checksum chi s3"]) (auto simp: warn_checksum_def emit_def)
qed

section \<open>The text of a data record\<close>

definition rec_len :: "filetype \<Rightarrow> u8 list \<Rightarrow> u8 list \<Rightarrow> nat" where
  "rec_len t ab bs = (if t = F_SREC then length bs + length ab + 1 else length bs)"

definition data_text :: "filetype \<Rightarrow> u8 list \<Rightarrow> u8 list \<Rightarrow> u8 list \<Rightarrow> u8 list \<Rightarrow> bool" where
  "data_text t ab bs chk txt \<longleftrightarrow>
    (\<exists>ty cs. txt = rstart t # ty @ cs \<and>
       unhex cs = Some (of_nat (rec_len t ab bs) # ab @ (if t = F_HEX then [0] else []) @ bs @ chk) \<and>
       length chk = chk_bytes t \<and> rec_len t ab bs < 256 \<and>
       (if t = F_SREC then 2 \<le> length ab \<and> length ab \<le> 4 \<and> ty = [0x31 + of_nat (length ab - 2)]
        else ty = [] \<and> length ab = 2 \<and> bs \<noteq> []))"

definition rec_sum :: "filetype \<Rightarrow> u8 list \<Rightarrow> u8 list \<Rightarrow> u16" where
  "rec_sum t ab bs = of_nat (rec_len t ab bs) + usum ab + usum bs"

lemma unhex_digits:
  assumes "rest s = cs @ r" "unhex cs = Some (xs @ ys)"
  obtains ds es where "rest s = ds @ es @ r" "unhex ds = Some xs" "unhex es = Some ys" "length ds = 2 * length xs"
  using unhex_split [OF assms(2)] assms(1) unhex_length
  by (metis append.assoc append_take_drop_id)

text \<open>\<open>hexdata\<close> for one part of the record, leaving the rest to be read.\<close>

lemma hexdata_part:
  assumes "rest s = cs @ r" "unhex cs = Some (xs @ ys)" "0 < length xs" "length xs \<le> 4" "length xs \<le> unat (hlen s)"
  obtains s' es where "hexdata (length xs) s = Inr (be xs, s')" "rest s' = es @ r" "unhex es = Some ys"
    "unat (hlen s') = unat (hlen s) - length xs" "hsum s' = hsum s + usum xs"
    "ln s' = ln s" "subs_addr20 s' = subs_addr20 s" "subs_addr32 s' = subs_addr32 s" "displayed s' = displayed s" "calls s' = calls s"
proof -
  obtain ds es where d: "rest s = ds @ es @ r" "unhex ds = Some xs" "unhex es = Some ys" "length ds = 2 * length xs"
    by (rule unhex_digits [OF assms(1,2)])
  let ?s' = "s\<lparr>hlen := hlen s - of_nat (length xs), hptr := hptr s + length ds, hsum := hsum s + usum xs\<rparr>"
  have "hexdata (length xs) s = Inr (be xs, ?s')" using hexdata_digits [OF d(1,2) assms(3-5)] .
  moreover have "rest ?s' = es @ r"
    using rest_step [OF d(1)] assms(3) d(4) by (cases "ds = []") (simp_all add: rest_def)
  moreover have "unat (hlen s - of_nat (length xs)) = unat (hlen s) - length xs"
    using assms(4,5) by (simp add: unat_sub word_le_nat_alt unsigned_of_nat take_bit_nat_eq_self)
  ultimately show thesis using d(3) by (intro that [of ?s' es]) simp_all
qed

lemma be_one [simp]: "be [b] = ucast b"
  by (simp add: be_def)

text \<open>
  From the address on, a record is read as its bytes say: the data go to the address, which
  is relative to the start of the file and to the extended address, and the checksum is
  compared.
\<close>

lemma address_record_digits:
  assumes "rest s = cs @ r" "unhex cs = Some (ab @ (if ftype c = F_HEX then [0] else []) @ bs @ chk)"
    and lens: "2 \<le> length ab" "length ab \<le> 4" "length chk = chk_bytes (ftype c)"
      "unat (hlen s) = length ab + (if ftype c = F_HEX then 1 else 0) + length bs"
    and cfg: "bytesz c = 1" "adds c" "mode \<noteq> 0"
    and addr: "a = ucast (be ab) + subs_addr20 s + subs_addr32 s" "unat a + unat (start_addr c) + length bs < 2 ^ 32"
  obtains s' where "address_record c False (length ab) mode s = Inr (Next_line, s')"
    "mem_image (calls s') = (\<lambda>x. let i = unat (x - (a + start_addr c)) in
       if i < length bs then Some (bs ! i) else mem_image (calls s) x)"
    "others (calls s') = others (calls s) @
       (if wrong_sum (ftype c) (hsum s + usum ab + usum bs) chk \<and> \<not> displayed s then [Warn_checksum (ln s)] else [])"
    "displayed s' \<longleftrightarrow> displayed s \<or> wrong_sum (ftype c) (hsum s + usum ab + usum bs) chk"
    "ln s' = ln s" "subs_addr20 s' = subs_addr20 s" "subs_addr32 s' = subs_addr32 s"
proof -
  obtain s1 es where s1: "hexdata (length ab) s = Inr (be ab, s1)" "rest s1 = es @ r"
    "unhex es = Some ((if ftype c = F_HEX then [0] else []) @ bs @ chk)"
    "unat (hlen s1) = unat (hlen s) - length ab" "hsum s1 = hsum s + usum ab" "ln s1 = ln s"
    "subs_addr20 s1 = subs_addr20 s" "subs_addr32 s1 = subs_addr32 s" "displayed s1 = displayed s" "calls s1 = calls s"
    by (rule hexdata_part [OF assms(1,2)]) (use lens in auto)
  have one: "(if ftype c \<noteq> F_SREC \<and> bs_addr_scale c then ucast (be ab) div ucast (bytesz c) else ucast (be ab)) = (ucast (be ab) :: u64)"
    using cfg(1) by simp
  obtain s2 fs where s2: "(if ftype c = F_HEX then hbind (hexdata 1) (typed_record c False (ucast (be ab)))
      else data_record c False (ucast (be ab))) s1 = data_record c False (ucast (be ab)) s2"
    "rest s2 = fs @ r" "unhex fs = Some (bs @ chk)" "unat (hlen s2) = length bs" "hsum s2 = hsum s + usum ab" "ln s2 = ln s"
    "subs_addr20 s2 = subs_addr20 s" "subs_addr32 s2 = subs_addr32 s" "displayed s2 = displayed s" "calls s2 = calls s"
  proof (cases "ftype c = F_HEX")
    case True
    have u: "unhex es = Some ([0] @ bs @ chk)" "0 < unat (hlen s1)" using s1 True lens by simp_all
    obtain s2 fs where "hexdata (length [0 :: u8]) s1 = Inr (be [0], s2)" "rest s2 = fs @ r" "unhex fs = Some (bs @ chk)"
      "unat (hlen s2) = unat (hlen s1) - length [0 :: u8]" "hsum s2 = hsum s1 + usum [0]" "ln s2 = ln s1"
      "subs_addr20 s2 = subs_addr20 s1" "subs_addr32 s2 = subs_addr32 s1" "displayed s2 = displayed s1" "calls s2 = calls s1"
      by (rule hexdata_part [OF s1(2) u(1)]) (use u(2) in auto)
    then show thesis using True s1 cfg lens by (intro that [of s2 fs]) (simp_all add: hbind_def hret_def typed_record_def)
  next
    case False
    then show thesis using s1 cfg lens by (intro that [of s1 es]) simp_all
  qed
  have "address_record c False (length ab) mode s = data_record c False (ucast (be ab)) s2"
    using s1(1) s2(1) cfg(3) by (simp only: address_record_def hbind_def one sum.case prod.case Let_def if_False)
  moreover obtain s' where "data_record c False (ucast (be ab)) s2 = Inr (Next_line, s')"
    "mem_image (calls s') = (\<lambda>x. if unat (x - (a + start_addr c)) < length bs
       then Some (bs ! unat (x - (a + start_addr c))) else mem_image (calls s2) x)"
    "others (calls s') = others (calls s2) @
       (if wrong_sum (ftype c) (hsum s2 + usum bs) chk \<and> \<not> displayed s2 then [Warn_checksum (ln s2)] else [])"
    "displayed s' \<longleftrightarrow> displayed s2 \<or> wrong_sum (ftype c) (hsum s2 + usum bs) chk"
    "ln s' = ln s2" "subs_addr20 s' = subs_addr20 s2" "subs_addr32 s' = subs_addr32 s2"
  proof (rule data_record_digits [OF s2(2,3,4) lens(3) cfg(1,2), of a "ucast (be ab)"])
    show "a = ucast (be ab) + subs_addr20 s2 + subs_addr32 s2" by (simp add: s2 addr(1))
    show "unat a + unat (start_addr c) + length bs < 2 ^ 32" by (rule addr(2))
  qed
  ultimately show thesis by (intro that [of s']) (simp_all only: s2(5-10) Let_def)
qed

lemma hexdata_first:
  assumes "rest s = cs @ r" "unhex cs = Some (b # ys)"
  obtains s' es where "hexdata 0 s = Inr (ucast b, s')" "rest s' = es @ r" "unhex es = Some ys"
    "hlen s' = ucast b" "hsum s' = ucast b"
    "ln s' = ln s" "subs_addr20 s' = subs_addr20 s" "subs_addr32 s' = subs_addr32 s" "displayed s' = displayed s" "calls s' = calls s"
proof -
  have "unhex cs = Some ([b] @ ys)" using assms(2) by simp
  then obtain ds es where d: "rest s = ds @ es @ r" "unhex ds = Some [b]" "unhex es = Some ys" "length ds = 2 * length [b]"
    by (rule unhex_digits [OF assms(1)])
  let ?s' = "s\<lparr>hptr := hptr s + 2, hlen := ucast b, hsum := ucast b\<rparr>"
  have "rest ?s' = es @ r" using rest_step [OF d(1)] d(4) by (cases "ds = []") (simp_all add: rest_def)
  then show thesis using hexdata_length [OF d(1,2)] d(3) by (intro that [of ?s' es]) simp_all
qed

lemma load_line_start:
  assumes "buf s = replicate k 0x20 @ rstart (ftype c) # txt"
  shows "load_line c cvt s =
    hbind (read_mode c) (\<lambda>mode. hbind (hexdata 0) (\<lambda>_.
      if mode = 0x100 then plain_record c cvt else s_record c cvt mode)) (s\<lparr>hptr := k + 1\<rparr>)"
proof -
  have "takeWhile (\<lambda>x. x = 0x20) (buf s) = replicate k 0x20"
    unfolding assms by (cases "ftype c") (simp_all add: rstart_def takeWhile_append)
  then have "length (takeWhile (\<lambda>x. x = 0x20) (buf s)) = k" by simp
  moreover have "buf s ! k = rstart (ftype c)" "k < length (buf s)" unfolding assms by (simp_all add: nth_append)
  moreover have "rstart (ftype c) \<noteq> 0x0a" "rstart (ftype c) \<noteq> 0x0d" by (cases "ftype c"; simp add: rstart_def)+
  ultimately show ?thesis by (simp add: load_line_def)
qed

text \<open>What a line with a data record does to the state of the loader.\<close>

lemma load_line_data:
  assumes "buf s = replicate k 0x20 @ txt @ junk" "data_text (ftype c) ab bs chk txt"
    and cfg: "bytesz c = 1" "adds c"
    and addr: "a = ucast (be ab) + subs_addr20 s + subs_addr32 s" "unat a + unat (start_addr c) + length bs < 2 ^ 32"
  obtains s' where "load_line c False s = Inr (Next_line, s')"
    "mem_image (calls s') = (\<lambda>x. let i = unat (x - (a + start_addr c)) in
       if i < length bs then Some (bs ! i) else mem_image (calls s) x)"
    "others (calls s') = others (calls s) @
       (if wrong_sum (ftype c) (rec_sum (ftype c) ab bs) chk \<and> \<not> displayed s then [Warn_checksum (ln s)] else [])"
    "displayed s' \<longleftrightarrow> displayed s \<or> wrong_sum (ftype c) (rec_sum (ftype c) ab bs) chk"
    "ln s' = ln s" "subs_addr20 s' = subs_addr20 s" "subs_addr32 s' = subs_addr32 s"
proof -
  let ?t = "ftype c" and ?n = "rec_len (ftype c) ab bs"
  obtain ty cs where tx: "txt = rstart ?t # ty @ cs"
    "unhex cs = Some (of_nat ?n # ab @ (if ?t = F_HEX then [0] else []) @ bs @ chk)"
    "length chk = chk_bytes ?t" "?n < 256"
    "if ?t = F_SREC then 2 \<le> length ab \<and> length ab \<le> 4 \<and> ty = [0x31 + of_nat (length ab - 2)]
     else ty = [] \<and> length ab = 2 \<and> bs \<noteq> []"
    using assms(2) unfolding data_text_def by blast
  have buf: "buf s = replicate k 0x20 @ rstart ?t # ty @ cs @ junk" using assms(1) tx(1) by simp
  note start = load_line_start [OF buf, of False]
  have n: "unat (of_nat ?n :: u8) = ?n" "unat (ucast (of_nat ?n :: u8) :: u32) = ?n" "ucast (of_nat ?n :: u8) = (of_nat ?n :: u16)"
    using tx(4) by (simp_all add: unsigned_of_nat unsigned_ucast_eq take_bit_nat_eq_self word_unat_eq_iff)
  have ab: "2 \<le> length ab" "length ab \<le> 4" using tx(5) by (auto split: if_splits)
  define mode :: u32 where "mode = (if ?t = F_SREC then 0x31 + of_nat (length ab - 2) else 0x100)"
  define s0 where "s0 = s\<lparr>hptr := k + 1 + length ty\<rparr>"
  have sz: "length ab = 2 \<or> length ab = 3 \<or> length ab = 4" using ab by linarith
  have mode: "read_mode c (s\<lparr>hptr := k + 1\<rparr>) = Inr (mode, s0)"
  proof (cases "?t = F_SREC")
    case True
    then have ty: "ty = [0x31 + of_nat (length ab - 2)]" using tx(5) by simp
    have "buf s ! (k + 1) = 0x31 + of_nat (length ab - 2)" "k + 1 < length (buf s)"
      unfolding buf ty by (simp_all add: nth_append)
    moreover have "ucast (0x31 + of_nat (length ab - 2) :: u8) = (0x31 + of_nat (length ab - 2) :: u32)"
      using sz by auto
    ultimately show ?thesis using True by (simp add: read_mode_def mode_def s0_def ty)
  next
    case False
    then show ?thesis using tx(5) by (simp add: read_mode_def mode_def s0_def)
  qed
  have "rest s0 = cs @ junk" by (simp add: rest_def s0_def buf)
  then obtain s1 es where s1: "hexdata 0 s0 = Inr (ucast (of_nat ?n :: u8), s1)" "rest s1 = es @ junk"
    "unhex es = Some (ab @ (if ?t = F_HEX then [0] else []) @ bs @ chk)" "hlen s1 = ucast (of_nat ?n :: u8)" "hsum s1 = ucast (of_nat ?n :: u8)"
    "ln s1 = ln s0" "subs_addr20 s1 = subs_addr20 s0" "subs_addr32 s1 = subs_addr32 s0" "displayed s1 = displayed s0" "calls s1 = calls s0"
    using tx(2) by (rule hexdata_first)
  define s2 where "s2 = s1\<lparr>hlen := (if ?t = F_SREC then hlen s1 - 1 else hlen s1 + (if ?t = F_HEX then 3 else 2))\<rparr>"
  have to_address: "(if mode = 0x100 then plain_record c False else s_record c False mode) s1 = address_record c False (length ab) mode s2"
  proof (cases "?t = F_SREC")
    case True
    then show ?thesis using sz by (auto simp: s_record_def mode_def s2_def)
  next
    case False
    then have "hlen s1 \<noteq> 0" using tx(5) n(2) s1(4) by (auto simp: rec_len_def)
    then show ?thesis using False tx(5) by (simp add: plain_record_def mode_def s2_def)
  qed
  have hlen: "unat (hlen s2) = length ab + (if ?t = F_HEX then 1 else 0) + length bs"
  proof (cases "?t = F_SREC")
    case True
    then have "unat (hlen s1) = length ab + length bs + 1" using n(2) s1(4) by (simp add: rec_len_def)
    then show ?thesis using True by (simp add: s2_def unat_sub word_le_nat_alt)
  next
    case False
    then have "unat (hlen s1) = length bs" "length bs < 256" using n(2) s1(4) tx(4) by (simp_all add: rec_len_def)
    then show ?thesis using False tx(5) by (simp add: s2_def unat_word_ariths)
  qed
  have mode_0: "mode \<noteq> 0" using sz by (auto simp: mode_def)
  have rest_2: "rest s2 = es @ junk" using s1(2) by (simp add: s2_def rest_def)
  obtain s' where "address_record c False (length ab) mode s2 = Inr (Next_line, s')"
    "mem_image (calls s') = (\<lambda>x. let i = unat (x - (a + start_addr c)) in
       if i < length bs then Some (bs ! i) else mem_image (calls s2) x)"
    "others (calls s') = others (calls s2) @
       (if wrong_sum (ftype c) (hsum s2 + usum ab + usum bs) chk \<and> \<not> displayed s2 then [Warn_checksum (ln s2)] else [])"
    "displayed s' \<longleftrightarrow> displayed s2 \<or> wrong_sum (ftype c) (hsum s2 + usum ab + usum bs) chk"
    "ln s' = ln s2" "subs_addr20 s' = subs_addr20 s2" "subs_addr32 s' = subs_addr32 s2"
    by (rule address_record_digits [OF rest_2 s1(3) ab tx(3) hlen cfg(1,2) mode_0 _ addr(2)]) (simp add: s2_def s1 s0_def addr(1))
  moreover have "load_line c False s = address_record c False (length ab) mode s2"
    unfolding start using mode s1(1) to_address by (simp add: hbind_def)
  moreover have "calls s2 = calls s" "ln s2 = ln s" "displayed s2 = displayed s"
    "subs_addr20 s2 = subs_addr20 s" "subs_addr32 s2 = subs_addr32 s"
    "hsum s2 + usum ab + usum bs = rec_sum (ftype c) ab bs"
    by (simp_all add: s2_def s1 s0_def rec_sum_def n)
  ultimately show thesis by (intro that [of s']) (simp_all only:)
qed

text \<open>An extended address record of an Intel file sets the address that later records add.\<close>

lemma load_line_extended:
  assumes "buf s = replicate k 0x20 @ rstart F_HEX # cs @ junk" "unhex cs = Some (2 # ab @ [ty] @ [h, l] @ chk)"
    and "length ab = 2" "ty \<in> {2, 4, 0xFF}" "ftype c = F_HEX" "bytesz c = 1"
  obtains s' where "load_line c cvt s = Inr (Next_line, s')"
    "subs_addr20 s' = (if ty = 2 then ucast (push_bit 4 (be [h, l])) else subs_addr20 s)"
    "subs_addr32 s' = (if ty = 2 then subs_addr32 s else ucast (push_bit 16 (be [h, l])))" "calls s' = calls s"
proof -
  have buf: "buf s = replicate k 0x20 @ rstart (ftype c) # cs @ junk" using assms(1,5) by simp
  let ?s = "s\<lparr>hptr := k + 1\<rparr>"
  have "rest ?s = cs @ junk" by (simp add: rest_def buf)
  then obtain s1 es where s1: "hexdata 0 ?s = Inr (ucast (2 :: u8), s1)" "rest s1 = es @ junk" "unhex es = Some (ab @ [ty] @ [h, l] @ chk)"
    "hlen s1 = ucast (2 :: u8)" "hsum s1 = ucast (2 :: u8)"
    "ln s1 = ln ?s" "subs_addr20 s1 = subs_addr20 ?s" "subs_addr32 s1 = subs_addr32 ?s" "displayed s1 = displayed ?s" "calls s1 = calls ?s"
    using assms(2) by (rule hexdata_first)
  let ?s2 = "s1\<lparr>hlen := hlen s1 + 3\<rparr>"
  have r2: "rest ?s2 = es @ junk" "0 < length ab" "length ab \<le> 4" "length ab \<le> unat (hlen ?s2)"
    using s1(2,4) assms(3) by (simp_all add: rest_def)
  obtain s3 fs where s3: "hexdata (length ab) ?s2 = Inr (be ab, s3)" "rest s3 = fs @ junk" "unhex fs = Some ([ty] @ [h, l] @ chk)"
    "unat (hlen s3) = unat (hlen ?s2) - length ab" "hsum s3 = hsum ?s2 + usum ab" "ln s3 = ln ?s2"
    "subs_addr20 s3 = subs_addr20 ?s2" "subs_addr32 s3 = subs_addr32 ?s2" "displayed s3 = displayed ?s2" "calls s3 = calls ?s2"
    by (rule hexdata_part [OF r2(1) s1(3) r2(2-4)])
  have r3: "0 < length [ty]" "length [ty] \<le> 4" "length [ty] \<le> unat (hlen s3)" using s3(4) s1(4) assms(3) by simp_all
  obtain s4 gs where s4: "hexdata (length [ty]) s3 = Inr (be [ty], s4)" "rest s4 = gs @ junk" "unhex gs = Some ([h, l] @ chk)"
    "unat (hlen s4) = unat (hlen s3) - length [ty]" "hsum s4 = hsum s3 + usum [ty]" "ln s4 = ln s3"
    "subs_addr20 s4 = subs_addr20 s3" "subs_addr32 s4 = subs_addr32 s3" "displayed s4 = displayed s3" "calls s4 = calls s3"
    by (rule hexdata_part [OF s3(2,3) r3])
  have r4: "0 < length [h, l]" "length [h, l] \<le> 4" "length [h, l] \<le> unat (hlen s4)" using s4(4) s3(4) s1(4) assms(3) by simp_all
  obtain s5 ks where s5: "hexdata (length [h, l]) s4 = Inr (be [h, l], s5)" "rest s5 = ks @ junk" "unhex ks = Some chk"
    "unat (hlen s5) = unat (hlen s4) - length [h, l]" "hsum s5 = hsum s4 + usum [h, l]" "ln s5 = ln s4"
    "subs_addr20 s5 = subs_addr20 s4" "subs_addr32 s5 = subs_addr32 s4" "displayed s5 = displayed s4" "calls s5 = calls s4"
    by (rule hexdata_part [OF s4(2,3) r4])
  define t :: u32 where "t = ucast ty"
  have t: "t = 2 \<and> ty = 2 \<or> t = 4 \<and> ty = 4 \<or> t = 0xFF \<and> ty = 0xFF" using assms(4) by (auto simp: t_def)
  have seg: "seg_addr c sh s4 = Inr (push_bit sh (be [h, l]), s5)" for sh
    using s5(1) assms(6) by (simp add: seg_addr_def hbind_def hret_def numeral_2_eq_2 Let_def)
  have "load_line c cvt s = typed_record c cvt (ucast (be ab)) t s4"
    unfolding load_line_start [OF buf, of cvt]
    using s1(1,4) s3(1) s4(1) assms(3,5,6)
    by (simp add: hbind_def read_mode_def plain_record_def address_record_def t_def Let_def)
  also have "\<dots> = Inr (Next_line, if ty = 2 then s5\<lparr>subs_addr20 := ucast (push_bit 4 (be [h, l]))\<rparr>
      else s5\<lparr>subs_addr32 := ucast (push_bit 16 (be [h, l]))\<rparr>)"
    using t by (elim disjE) (simp_all add: typed_record_def hbind_def hret_def seg)
  finally show thesis
    by (rule that) (simp_all add: s5(7,8,10) s4(7,8,10) s3(7,8,10) s1(7,8,10))
qed

end
