(* ===== verification/HexWrite.thy ===== *)
theory HexWrite
  imports HexLoad
begin

text \<open>
  The other direction of \<open>src/src/ldr/hex/hex.cpp\<close>: \<open>write_file\<close> writes the loaded bytes of
  the database as records of hexadecimal digits.  The database is a record of functions;
  the file is the list of lines written to it.
\<close>

section \<open>The database\<close>

record hexdb =
  out_type :: filetype
  db_base :: u64
  min_ea :: u64
  max_ea :: u64
  start_ip :: u64
  loaded :: "u64 \<Rightarrow> bool"
  imem :: "u64 \<Rightarrow> bool"
  byte_at :: "u64 \<Rightarrow> u8"
  seg_info :: "u64 \<Rightarrow> (u64 \<times> u64 \<times> bool) option"

text \<open>
  \<open>imem\<close> says that \<open>segtype\<close> is \<open>SEG_IMEM\<close>; \<open>seg_info\<close> is \<open>get_segment_info\<close>: start and end
  of a segment, and whether it is of that type.
\<close>

definition MAX_BYTES :: nat where "MAX_BYTES = 24"

section \<open>Formats\<close>

definition hex_char :: "nat \<Rightarrow> u8" where
  "hex_char d = (if d < 10 then 0x30 + of_nat d else 0x41 + of_nat d - 10)"

fun hex_text :: "nat \<Rightarrow> u8 list" where
  "hex_text n = (if n < 16 then [hex_char n] else hex_text (n div 16) @ [hex_char (n mod 16)])"

declare hex_text.simps [simp del]

text \<open>The conversion \<open>%0*X\<close>, also with a fixed width.\<close>

definition hexw :: "nat \<Rightarrow> nat \<Rightarrow> u8 list" where
  "hexw w n = (let d = hex_text n in replicate (w - length d) 0x30 @ d)"

text \<open>\<open>set_s_type\<close>: the offset of the record type, \<open>sz\<close>, \<open>size\<close> and \<open>sum\<close>.\<close>

definition set_s_type :: "u64 \<Rightarrow> nat \<Rightarrow> u16 \<Rightarrow> nat \<times> nat \<times> nat \<times> u16" where
  "set_s_type a len acc =
    (if 0x10000 \<le> a then
       let acc = acc + ucast (ucast (drop_bit 16 a) :: u8) in
       if 0x1000000 \<le> a then (2, 8, len + 5, acc + ucast (ucast (drop_bit 24 a) :: u8))
       else (1, 6, len + 4, acc)
     else (0, 4, len + 3, acc))"

text \<open>\<open>fmt0\<close>; only the checksum of MOS files has four digits.\<close>

definition fmt0 :: "filetype \<Rightarrow> nat \<Rightarrow> nat \<Rightarrow> u64 \<Rightarrow> u8 list \<Rightarrow> u16 \<Rightarrow> u8 list" where
  "fmt0 t len sz a str acc =
    hexw 2 len @ hexw sz (unat a) @ str @ hexw (if t = F_MEX then 4 else 2) (unat acc) @ [0x0d, 0x0a]"

definition ident :: "filetype \<Rightarrow> u8" where
  "ident t = (case t of F_SREC \<Rightarrow> 0x53 | F_HEX \<Rightarrow> 0x3a | F_MEX \<Rightarrow> 0x3b)"

text \<open>\<open>fmt1\<close>, the last line: \<open>:00000001FF\<close>, and \<open>;00\<close> without an end of line.\<close>

definition fmt1 :: "filetype \<Rightarrow> u8 list" where
  "fmt1 t = (if t = F_HEX then [0x3a, 0x30, 0x30, 0x30, 0x30, 0x30, 0x30, 0x30, 0x31, 0x46, 0x46, 0x0d, 0x0a]
    else [0x3b, 0x30, 0x30])"

section \<open>Records\<close>

text \<open>The loop that collects the bytes of a record, with the number of iterations left.\<close>

primrec gather :: "hexdb \<Rightarrow> nat \<Rightarrow> u64 \<Rightarrow> u16 \<Rightarrow> u8 list \<times> u64 \<times> u16" where
  "gather db 0 ea acc = ([], ea, acc)"
| "gather db (Suc n) ea acc =
    (let b = byte_at db ea; acc = acc + ucast b; ea = ea + 1 in
     if 0 < n \<and> ea < max_ea db \<and> loaded db ea \<and> \<not> imem db ea then
       case gather db n ea acc of (bs, r) \<Rightarrow> (b # bs, r)
     else ([b], ea, acc))"

definition write_record :: "filetype \<Rightarrow> u64 \<Rightarrow> u8 list \<Rightarrow> u16 \<Rightarrow> u8 list" where
  "write_record t a bs acc =
    (let str = (if t = F_HEX then [0x30, 0x30] else []) @ concat (map (\<lambda>b. hexw 2 (unat b)) bs);
         len = length bs in
     case (if t = F_SREC then case set_s_type a len acc of (off, sz, len, acc) \<Rightarrow> ([0x31 + of_nat off], sz, len, acc + 1)
           else ([], 4, len, acc)) of (ty, sz, len, acc) \<Rightarrow>
       let acc = acc + of_nat len;
           acc = (if t = F_MEX then acc else ucast (ucast (0 - acc) :: u8)) in
       ident t # ty @ fmt0 t len sz a str acc)"

text \<open>The sum starts with the low bytes of the address.\<close>

definition addr_sum :: "u64 \<Rightarrow> u16" where
  "addr_sum a = ucast (ucast a :: u8) + ucast (ucast (drop_bit 8 a) :: u8)"

definition base_at :: "hexdb \<Rightarrow> u64 \<Rightarrow> u64" where
  "base_at db ea = (case seg_info db ea of None \<Rightarrow> ea | Some (s, _) \<Rightarrow> s)"

lemma unat_next: "(a :: u64) < m \<Longrightarrow> unat (a + 1) = unat a + 1"
  using unsigned_less [of m, where 'a = nat] by (simp add: word_less_nat_alt unat_word_ariths)

text \<open>The end of a record lies after its beginning, so the loop ends.\<close>

lemma gather_end: "gather db n ea acc = (bs, ea', acc') \<Longrightarrow> 0 < n \<Longrightarrow> ea < max_ea db \<Longrightarrow>
    bs \<noteq> [] \<and> length bs \<le> n \<and> unat ea' = unat ea + length bs \<and> ea' \<le> max_ea db"
proof (induction n arbitrary: ea acc bs ea' acc')
  case (Suc n)
  have step: "unat (ea + 1) = unat ea + 1" "ea + 1 \<le> max_ea db"
    using Suc.prems(3) by (simp_all add: unat_next word_le_nat_alt word_less_nat_alt)
  show ?case
  proof (cases "0 < n \<and> ea + 1 < max_ea db \<and> loaded db (ea + 1) \<and> \<not> imem db (ea + 1)")
    case True
    obtain bs2 ea2 acc2 where g: "gather db n (ea + 1) (acc + ucast (byte_at db ea)) = (bs2, ea2, acc2)"
      by (cases "gather db n (ea + 1) (acc + ucast (byte_at db ea))")
    then show ?thesis using Suc.IH [OF g] Suc.prems True step by (auto simp: Let_def)
  next
    case False
    then show ?thesis using Suc.prems step by (auto simp: Let_def split: if_splits)
  qed
qed simp

function write_loop :: "hexdb \<Rightarrow> u64 \<Rightarrow> u64 \<Rightarrow> u64 \<Rightarrow> u8 list list \<times> u64" where
  "write_loop db base strt ea =
    (if \<not> ea < max_ea db then ([], strt)
     else if \<not> loaded db ea \<or> imem db ea then write_loop db base strt (ea + 1)
     else
       let base' = (if base = BADADDR then base_at db ea else base);
           strt' = (if base = BADADDR \<and> strt \<noteq> BADADDR then strt + (min_ea db - base') else strt);
           a = ea - base' in
       case gather db MAX_BYTES ea (addr_sum a) of (bs, ea', acc) \<Rightarrow>
         case write_loop db base' strt' ea' of (ls, r) \<Rightarrow> (write_record (out_type db) a bs acc # ls, r))"
  by pat_completeness auto

termination
proof (relation "measure (\<lambda>(db, base, strt, ea). unat (max_ea db) - unat ea)", goal_cases)
  case (2 db base strt ea)
  then show ?case by (simp add: unat_next word_less_nat_alt)
next
  case (3 db base strt ea base' strt' a bs r ea' acc)
  then have "unat ea' = unat ea + length bs \<and> bs \<noteq> []"
    using gather_end [of db MAX_BYTES ea "addr_sum a" bs ea' acc] by (simp add: MAX_BYTES_def)
  then show ?case using 3(1) by (cases bs) (auto simp: word_less_nat_alt)
qed simp

declare write_loop.simps [simp del]

text \<open>The record with the start address that ends a Motorola file.\<close>

definition start_line :: "u64 \<Rightarrow> u8 list" where
  "start_line strt =
    (case set_s_type strt 0 0 of (off, sz, len, acc) \<Rightarrow>
       ident F_SREC # (0x39 - of_nat off) # fmt0 F_SREC len sz strt [] (NOT (of_nat len + acc) AND 0xFF))"

definition out_base :: "hexdb \<Rightarrow> u64" where
  "out_base db = (if min_ea db < push_bit 4 (db_base db) then BADADDR else push_bit 4 (db_base db))"

definition write_file :: "hexdb \<Rightarrow> u8 list list" where
  "write_file db =
    (case write_loop db (out_base db) (start_ip db) (min_ea db) of (ls, strt) \<Rightarrow>
       ls @ (if out_type db \<noteq> F_SREC then [fmt1 (out_type db)]
             else if strt \<noteq> BADADDR then [start_line strt] else []))"

text \<open>
  The format is a static array whose \<open>?\<close> the call replaces by a digit: the argument says
  whether it is still there.  Without it the assertion \<open>QASSERT(20067)\<close> fails.
\<close>

definition write_call :: "hexdb \<Rightarrow> bool \<Rightarrow> (u8 list list \<times> bool) option" where
  "write_call db marker = (if marker then Some (write_file db, False) else None)"

lemma second_write_fails: "write_call db True = Some (ls, marker) \<Longrightarrow> write_call db' marker = None"
  by (auto simp: write_call_def)

section \<open>Whether a file can be written\<close>

text \<open>
  The scans of \<open>write_file\<close> without a file: \<^const>\<open>Inl\<close> is an answer, \<^const>\<open>Inr\<close> the address
  where the scan stops and what is left of the size.
\<close>

definition imem_seg :: "hexdb \<Rightarrow> u64 \<Rightarrow> (u64 \<times> u64) option" where
  "imem_seg db a = (case seg_info db a of Some (s, e, True) \<Rightarrow> Some (s, e) | _ \<Rightarrow> None)"

partial_function (option) scan_up :: "hexdb \<Rightarrow> bool \<Rightarrow> u64 \<Rightarrow> u64 \<Rightarrow> u64 \<Rightarrow> (bool + u64 \<times> u64) option" where
  "scan_up db based a strt left =
    (if \<not> a < max_ea db then Some (Inr (a, left))
     else case imem_seg db a of
       None \<Rightarrow>
         if loaded db a then Some (Inr (a, left))
         else if based then (if left - 1 \<le> 0x10000 then Some (Inl True) else scan_up db based (a + 1) strt (left - 1))
         else scan_up db based (a + 1) (strt + 1) left
     | Some (s, e) \<Rightarrow>
         let left = left - strt in
         if strt \<noteq> 0 \<and> left \<noteq> 0x10000 then Some (Inl True)
         else if left - (e - a) < 0x10000 then Some (Inl True)
         else scan_up db based e 0 (left - (e - a) + 1))"

partial_function (option) scan_down :: "hexdb \<Rightarrow> u64 \<Rightarrow> u64 \<Rightarrow> u64 \<Rightarrow> bool option" where
  "scan_down db a base left =
    (if \<not> a < base then Some False
     else case imem_seg db base of
       None \<Rightarrow>
         if loaded db base then Some False
         else if left - 1 \<le> 0x10000 then Some True
         else scan_down db a (base - 1) (left - 1)
     | Some (s, e) \<Rightarrow>
         if left - (base - s) < 0x10000 then Some True
         else scan_down db a s (left - (base - s) + 1))"

definition can_write :: "hexdb \<Rightarrow> bool option" where
  "can_write db =
    (let left = max_ea db - min_ea db in
     if out_type db = F_SREC \<or> left \<le> 0x10000 then Some True
     else do {
       r \<leftarrow> scan_up db (out_base db \<noteq> BADADDR) (min_ea db) 0 left;
       case r of
         Inl b \<Rightarrow> Some b
       | Inr (a, left) \<Rightarrow>
           let left = (if out_base db = BADADDR then left - base_at db a else left) in
           if out_base db = BADADDR \<and> left \<le> 0x10000 then Some True
           else if a = max_ea db then Some False
           else scan_down db a (max_ea db - 1) left
     })"

end
