(* ===== verification/HexFormat.thy ===== *)
theory HexFormat
  imports HexRead HexWrite
begin

text \<open>
  What \<open>write_record\<close> of \<open>HexWrite\<close> prints is the text of a data record, with the checksum
  that the reader expects.
\<close>

section \<open>Printed numbers\<close>

lemma hex_char_digit:
  assumes "d < 16"
  shows "hex_digit (hex_char d) = Some (of_nat d)"
proof -
  consider "d = 0" | "d = 1" | "d = 2" | "d = 3" | "d = 4" | "d = 5" | "d = 6" | "d = 7"
    | "d = 8" | "d = 9" | "d = 10" | "d = 11" | "d = 12" | "d = 13" | "d = 14" | "d = 15"
    using assms by atomize_elim presburger
  then show ?thesis by cases (simp_all add: hex_char_def hex_digit_def)
qed

lemma hexw_Suc:
  assumes "0 < w"
  shows "hexw (Suc w) n = hexw w (n div 16) @ [hex_char (n mod 16)]"
proof (cases "n < 16")
  case True
  then have "hex_text n = [hex_char n]" "hex_text (n div 16) = [0x30]"
    using hex_text.simps [of n] hex_text.simps [of "n div 16"] by (simp_all add: hex_char_def)
  moreover have "replicate w (0x30 :: u8) = replicate (w - 1) 0x30 @ [0x30]"
    using assms by (cases w) (simp_all add: replicate_append_same)
  ultimately show ?thesis using True by (simp add: hexw_def)
next
  case False
  then have "hex_text n = hex_text (n div 16) @ [hex_char (n mod 16)]" using hex_text.simps [of n] by simp
  then show ?thesis by (simp add: hexw_def Let_def)
qed

fun be_bytes_of :: "nat \<Rightarrow> nat \<Rightarrow> u8 list" where
  "be_bytes_of 0 n = []"
| "be_bytes_of (Suc k) n = be_bytes_of k (n div 256) @ [of_nat n]"

lemma length_be_bytes_of [simp]: "length (be_bytes_of k n) = k"
  by (induction k arbitrary: n) auto

lemma unhex_two: "n < 256 \<Longrightarrow> unhex [hex_char (n div 16), hex_char (n mod 16)] = Some [of_nat n]"
proof -
  assume n: "n < 256"
  have h: "n div 16 < 16" "n mod 16 < 16" using n by auto
  have "pair_byte (of_nat (n div 16)) (of_nat (n mod 16)) = (of_nat n :: u8)"
  proof -
    have "push_bit 4 (of_nat (n div 16)) OR of_nat (n mod 16) = (of_nat (n div 16) * 16 + of_nat (n mod 16) :: u32)"
      by (rule digit_step [OF hex_digit_bits [OF hex_char_digit [OF h(2)]], symmetric])
    also have "\<dots> = of_nat (n div 16 * 16 + n mod 16)" by (simp only: of_nat_add of_nat_mult of_nat_numeral)
    also have "\<dots> = of_nat n" by (simp only: div_mult_mod_eq)
    finally have "pair_byte (of_nat (n div 16)) (of_nat (n mod 16)) = ucast (of_nat n :: u32)" by (simp only: pair_byte_def)
    then show ?thesis using n by (simp add: word_unat_eq_iff unsigned_ucast_eq unsigned_of_nat take_bit_nat_eq_self)
  qed
  then show ?thesis using h by (simp add: hex_char_digit)
qed

lemma unhex_hexw: "0 < k \<Longrightarrow> n < 256 ^ k \<Longrightarrow> unhex (hexw (2 * k) n) = Some (be_bytes_of k n)"
proof (induction k arbitrary: n)
  case (Suc k)
  have two: "hexw 2 m = [hex_char (m div 16), hex_char (m mod 16)]" if "m < 256" for m
  proof -
    have "m div 16 < 16" using that by auto
    then have "hexw 1 (m div 16) = [hex_char (m div 16)]" using hex_text.simps [of "m div 16"] by (simp add: hexw_def)
    then show ?thesis using hexw_Suc [of 1 m] by (simp add: numeral_2_eq_2)
  qed
  show ?case
  proof (cases "k = 0")
    case True
    then show ?thesis using Suc.prems unhex_two [of n] two [of n] by simp
  next
    case False
    have split: "hexw (2 * Suc k) n = hexw (2 * k) (n div 256) @ [hex_char (n mod 256 div 16), hex_char (n mod 256 mod 16)]"
    proof -
      have "hexw (2 * Suc k) n = hexw (Suc (2 * k)) (n div 16) @ [hex_char (n mod 16)]"
        using hexw_Suc [of "Suc (2 * k)" n] by simp
      also have "hexw (Suc (2 * k)) (n div 16) = hexw (2 * k) (n div 256) @ [hex_char (n div 16 mod 16)]"
        using hexw_Suc [of "2 * k" "n div 16"] False by (simp add: div_mult2_eq [symmetric])
      also have "n div 16 mod 16 = n mod 256 div 16" using mod_mult2_eq [of n 16 16] by simp
      also have "n mod 16 = n mod 256 mod 16" by (simp add: mod_mod_cancel)
      finally show ?thesis by simp
    qed
    have "n div 256 < 256 ^ k" using Suc.prems(2) by (simp add: less_mult_imp_div_less mult.commute)
    then have "unhex (hexw (2 * k) (n div 256)) = Some (be_bytes_of k (n div 256))" using Suc.IH False by simp
    moreover have "of_nat (n mod 256) = (of_nat n :: u8)" by (simp add: word_unat_eq_iff unsigned_of_nat take_bit_eq_mod)
    ultimately show ?thesis using unhex_two [of "n mod 256"] unfolding split by (simp only: unhex_append) simp
  qed
qed simp

lemma be_be_bytes_of: "n < 256 ^ k \<Longrightarrow> be (be_bytes_of k n) = of_nat n"
proof (induction k arbitrary: n)
  case (Suc k)
  have "n div 256 < 256 ^ k" using Suc.prems by (simp add: less_mult_imp_div_less mult.commute)
  then have "be (be_bytes_of (Suc k) n) = push_bit 8 (of_nat (n div 256)) OR ucast (of_nat n :: u8)"
    using Suc.IH by (simp add: be_snoc)
  also have "\<dots> = push_bit 8 (of_nat (n div 256)) + ucast (of_nat n :: u8)"
  proof -
    have "push_bit 8 (of_nat (n div 256)) AND ucast (of_nat n :: u8) = (0 :: u32)"
      by (rule bit_word_eqI) (auto simp: bit_simps dest: bit_imp_le_length)
    then show ?thesis using word_plus_and_or [of "push_bit 8 (of_nat (n div 256))" "ucast (of_nat n :: u8) :: u32"] by simp
  qed
  also have "ucast (of_nat n :: u8) = (of_nat (n mod 256) :: u32)"
    by (simp add: word_unat_eq_iff unsigned_ucast_eq unsigned_of_nat take_bit_eq_mod)
  also have "push_bit 8 (of_nat (n div 256)) + of_nat (n mod 256) = (of_nat (n div 256 * 256 + n mod 256) :: u32)"
    by (simp only: push_bit_eq_mult of_nat_add of_nat_mult of_nat_numeral) simp
  finally show ?case by (simp only: div_mult_mod_eq)
qed (simp add: be_def)

lemma byte_of: "of_nat (unat (a :: u64) div 2 ^ k) = (ucast (drop_bit k a) :: u8)"
proof -
  have "unat a div 2 ^ k = unat (drop_bit k a)" by (subst unat_drop_bit_eq) (rule drop_bit_eq_div [symmetric])
  then show ?thesis by (simp only:) simp
qed

section \<open>A printed record\<close>

definition addr_len :: "filetype \<Rightarrow> u64 \<Rightarrow> nat" where
  "addr_len t a = (if t = F_SREC then if 0x1000000 \<le> a then 4 else if 0x10000 \<le> a then 3 else 2 else 2)"

definition addr_bytes :: "filetype \<Rightarrow> u64 \<Rightarrow> u8 list" where "addr_bytes t a = be_bytes_of (addr_len t a) (unat a)"

definition fits_type :: "filetype \<Rightarrow> u64 \<Rightarrow> bool" where
  "fits_type t a \<longleftrightarrow> unat a < (if t = F_SREC then 2 ^ 32 else 2 ^ 16)"

text \<open>The part of the sum that \<open>set_s_type\<close> adds for the high bytes of the address.\<close>

definition high_sum :: "u64 \<Rightarrow> u16" where
  "high_sum a = (if 0x10000 \<le> a then ucast (ucast (drop_bit 16 a) :: u8) else 0) +
    (if 0x1000000 \<le> a then ucast (ucast (drop_bit 24 a) :: u8) else 0)"

lemma set_s_type_eq:
  "set_s_type a len acc =
    (addr_len F_SREC a - 2, 2 * addr_len F_SREC a, len + addr_len F_SREC a + 1, acc + high_sum a)"
proof -
  have "0x10000 \<le> a" if "0x1000000 \<le> a" using that by (simp add: word_le_nat_alt)
  then show ?thesis by (auto simp: set_s_type_def addr_len_def high_sum_def Let_def)
qed

text \<open>The sum that a record is printed with.\<close>

definition out_sum :: "filetype \<Rightarrow> u64 \<Rightarrow> u8 list \<Rightarrow> u16 \<Rightarrow> u16" where
  "out_sum t a bs acc =
    (let acc = (if t = F_SREC then acc + high_sum a + 1 else acc) + of_nat (rec_len t (addr_bytes t a) bs)
     in if t = F_MEX then acc else ucast (ucast (0 - acc) :: u8))"

lemma write_record_eq:
  "write_record t a bs acc =
    rstart t # (if t = F_SREC then [0x31 + of_nat (addr_len t a - 2)] else []) @
    hexw 2 (rec_len t (addr_bytes t a) bs) @ hexw (2 * addr_len t a) (unat a) @ (if t = F_HEX then [0x30, 0x30] else []) @
    concat (map (\<lambda>b. hexw 2 (unat b)) bs) @ hexw (if t = F_MEX then 4 else 2) (unat (out_sum t a bs acc)) @ [0x0d, 0x0a]"
proof (cases t)
  case F_SREC
  then show ?thesis
    by (simp only: write_record_def Let_def fmt0_def set_s_type_eq rec_len_def addr_bytes_def length_be_bytes_of out_sum_def
        ident_def rstart_def if_True if_False prod.case filetype.case simp_thms filetype.distinct append_Nil append_Cons)
qed (simp_all add: write_record_def Let_def fmt0_def rec_len_def addr_len_def out_sum_def ident_def rstart_def)

lemma unhex_bytes: "unhex (concat (map (\<lambda>b. hexw 2 (unat b)) bs)) = Some bs"
proof (induction bs)
  case (Cons b bs)
  have "unhex (hexw 2 (unat b)) = Some [b]"
    using unhex_hexw [of 1 "unat b"] unsigned_less [of b, where 'a = nat] by simp
  then show ?case using Cons by (simp add: unhex_append)
qed simp

definition out_chk :: "filetype \<Rightarrow> u64 \<Rightarrow> u8 list \<Rightarrow> u8 list" where
  "out_chk t a bs = be_bytes_of (chk_bytes t) (unat (out_sum t a bs (addr_sum a + usum bs)))"

lemma usum_addr: "usum (addr_bytes t a) = addr_sum a + (if t = F_SREC then high_sum a else 0)"
proof -
  have "be_bytes_of 2 n = [of_nat (n div 256), of_nat n]" for n by (simp add: numeral_2_eq_2)
  then have two: "usum (be_bytes_of 2 (unat a)) = addr_sum a" using byte_of [of a 8] by (simp add: addr_sum_def)
  have "be_bytes_of 3 n = [of_nat (n div 65536), of_nat (n div 256), of_nat n]" for n
    by (simp add: numeral_3_eq_3 div_mult2_eq [symmetric])
  note three = this
  have "be_bytes_of 4 n = [of_nat (n div 16777216), of_nat (n div 65536), of_nat (n div 256), of_nat n]" for n
    using be_bytes_of.simps(2) [of 3 n] by (simp add: three div_mult2_eq [symmetric])
  note four = this
  have "usum (be_bytes_of 3 (unat a)) = addr_sum a + ucast (ucast (drop_bit 16 a) :: u8)"
    using byte_of [of a 8] byte_of [of a 16] by (simp add: three addr_sum_def)
  moreover have "usum (be_bytes_of 4 (unat a)) =
      addr_sum a + ucast (ucast (drop_bit 16 a) :: u8) + ucast (ucast (drop_bit 24 a) :: u8)"
    using byte_of [of a 8] byte_of [of a 16] byte_of [of a 24] by (simp add: four addr_sum_def)
  moreover have "0x10000 \<le> a" if "0x1000000 \<le> a" using that by (simp add: word_le_nat_alt)
  ultimately show ?thesis using two by (auto simp: addr_bytes_def addr_len_def high_sum_def)
qed

lemma down_add: "(ucast (a + b :: u16) :: u8) = ucast a + ucast b"
proof -
  have u: "(ucast w :: u8) = of_nat (unat w)" for w :: u16 by simp
  have wrap: "(of_nat (m mod 2 ^ 16) :: u8) = of_nat m" for m
  proof -
    have "(of_nat m :: u8) = of_nat (m div 2 ^ 16 * 2 ^ 16 + m mod 2 ^ 16)" by (simp only: div_mult_mod_eq)
    also have "\<dots> = of_nat (m mod 2 ^ 16)"
    proof -
      have "(2 :: u8) ^ 16 = 0" by simp
      then show ?thesis by (simp only: of_nat_add of_nat_mult of_nat_power of_nat_numeral mult_zero_right add_0)
    qed
    finally show ?thesis by (rule sym)
  qed
  have "unat (a + b) = (unat a + unat b) mod 2 ^ 16" by (simp add: unat_word_ariths)
  then show ?thesis unfolding u by (simp only: wrap of_nat_add)
qed

lemma down_minus: "(ucast (- a :: u16) :: u8) = - ucast a"
  using down_add [of "- a" a] by (simp add: eq_neg_iff_add_eq_0)

lemma out_chk_right: "\<not> wrong_sum t (rec_sum t (addr_bytes t a) bs) (out_chk t a bs)"
proof -
  define acc where "acc = rec_sum t (addr_bytes t a) bs"
  have down: "ucast (ucast y :: u16) = (y :: u8)" for y by (rule bit_word_eqI) (auto simp: bit_simps)
  have down32: "ucast (ucast y :: u32) = (y :: u8)" for y by (rule bit_word_eqI) (auto simp: bit_simps)
  have one: "be_bytes_of 1 (unat (ucast y :: u16)) = [y]" for y :: u8 using down [of y] by simp
  have chk: "out_sum t a bs (addr_sum a + usum bs) =
    (case t of F_MEX \<Rightarrow> acc | F_HEX \<Rightarrow> ucast (ucast (- acc) :: u8) | F_SREC \<Rightarrow> ucast (ucast (- (acc + 1)) :: u8))"
    by (cases t) (simp_all only: out_sum_def acc_def rec_sum_def usum_addr Let_def if_True if_False filetype.case filetype.distinct simp_thms diff_0 add_0_right add_0_left ac_simps)
  have "be (be_bytes_of 2 (unat acc)) = of_nat (unat acc)"
    using be_be_bytes_of [of "unat acc" 2] unsigned_less [of acc, where 'a = nat] by simp
  moreover have "(ucast (of_nat (unat acc) :: u32) :: u16) = acc"
  proof -
    have "of_nat (unat acc) = (ucast acc :: u32)" by simp
    moreover have "ucast (ucast acc :: u32) = acc" by (rule bit_word_eqI) (auto simp: bit_simps)
    ultimately show ?thesis by (simp only:)
  qed
  moreover have "- (acc + 1) = NOT acc" by (simp add: not_eq_complement)
  ultimately show ?thesis
    unfolding acc_def [symmetric] out_chk_def chk
    by (cases t) (simp_all add: wrong_sum_def chk_bytes_def one [simplified] down32 down_add down_minus ucast_not)
qed

lemma byte_up: "unat (ucast (y :: u8) :: u16) < 256"
proof -
  have "unat (ucast y :: u16) = unat y"
    using unsigned_less [of y, where 'a = nat] by (simp add: unsigned_ucast_eq take_bit_nat_eq_self)
  then show ?thesis using unsigned_less [of y, where 'a = nat] by simp
qed

text \<open>A printed record is the text of a data record, with a right checksum.\<close>

lemma write_record_text:
  assumes "bs \<noteq> []" "length bs \<le> MAX_BYTES" "fits_type t a"
  obtains line where "write_record t a bs (addr_sum a + usum bs) = line @ [0x0d, 0x0a]"
    "data_text t (addr_bytes t a) bs (out_chk t a bs) line"
proof -
  let ?n = "rec_len t (addr_bytes t a) bs" and ?k = "addr_len t a" and ?m = "chk_bytes t"
  let ?s = "unat (out_sum t a bs (addr_sum a + usum bs))"
  have n: "?n < 256" using assms(2) by (auto simp: rec_len_def addr_bytes_def addr_len_def MAX_BYTES_def)
  have a: "unat a < 256 ^ ?k" using assms(3) by (auto simp: fits_type_def addr_len_def word_le_nat_alt split: if_splits)
  have s: "?s < 256 ^ ?m"
  proof (cases "t = F_MEX")
    case True
    then show ?thesis using unsigned_less [of "out_sum t a bs (addr_sum a + usum bs)", where 'a = nat] by (simp add: chk_bytes_def)
  next
    case False
    then have "?s = unat (ucast (ucast (0 - ((if t = F_SREC then addr_sum a + usum bs + high_sum a + 1 else addr_sum a + usum bs) + of_nat ?n)) :: u8) :: u16)"
      by (simp only: out_sum_def Let_def if_False)
    also have "\<dots> < 256" by (rule byte_up)
    finally show ?thesis using False by (simp add: chk_bytes_def)
  qed
  define cs where "cs = hexw 2 ?n @ hexw (2 * ?k) (unat a) @ (if t = F_HEX then [0x30, 0x30] else []) @
    concat (map (\<lambda>b. hexw 2 (unat b)) bs) @ hexw (2 * ?m) ?s"
  define line where "line = rstart t # (if t = F_SREC then [0x31 + of_nat (?k - 2)] else []) @ cs"
  have k: "0 < ?k" "2 \<le> ?k" "?k \<le> 4" "0 < ?m" by (auto simp: addr_len_def chk_bytes_def)
  have parts: "unhex (hexw 2 ?n) = Some [of_nat ?n]" "unhex (hexw (2 * ?k) (unat a)) = Some (addr_bytes t a)"
    "unhex (if t = F_HEX then [0x30, 0x30] else []) = Some (if t = F_HEX then [0] else [])"
    "unhex (hexw (2 * ?m) ?s) = Some (out_chk t a bs)"
    using unhex_hexw [of 1 ?n] unhex_hexw [OF k(1) a] unhex_hexw [OF k(4) s] n
    by (simp_all add: addr_bytes_def out_chk_def hex_digit_def pair_byte_def)
  have "unhex cs = Some (of_nat ?n # addr_bytes t a @ (if t = F_HEX then [0] else []) @ bs @ out_chk t a bs)"
    unfolding cs_def by (simp only: unhex_append [OF parts(1)] unhex_append [OF parts(2)] unhex_append [OF parts(3)]
        unhex_append [OF unhex_bytes] parts(4) option.case append_Cons append_Nil)
  moreover have "length (addr_bytes t a) = ?k" "length (out_chk t a bs) = ?m" by (simp_all add: addr_bytes_def out_chk_def)
  moreover have "?k = 2" if "t \<noteq> F_SREC" using that by (simp add: addr_len_def)
  ultimately have "data_text t (addr_bytes t a) bs (out_chk t a bs) line"
    unfolding data_text_def using n k assms(1) by (auto simp: line_def)
  moreover have "write_record t a bs (addr_sum a + usum bs) = line @ [0x0d, 0x0a]"
    unfolding write_record_eq line_def cs_def by (simp add: chk_bytes_def)
  ultimately show thesis using that by blast
qed

end
