(* ===== verification/HexTrip.thy ===== *)
theory HexTrip
  imports HexFormat
begin

text \<open>
  A file that \<open>write_file\<close> writes, read back by \<open>load_file\<close>.
\<close>

text \<open>The bytes that belong into the file.\<close>

definition writable :: "hexdb \<Rightarrow> u64 \<Rightarrow> bool" where
  "writable db a \<longleftrightarrow> loaded db a \<and> \<not> imem db a"

definition written :: "hexdb \<Rightarrow> u64 \<Rightarrow> bool" where
  "written db a \<longleftrightarrow> min_ea db \<le> a \<and> a < max_ea db \<and> writable db a"

lemma gather_bytes:
  assumes "gather db n ea acc = (bs, ea', acc')" "0 < n" "ea < max_ea db" "writable db ea"
  shows "acc' = acc + usum bs \<and> (\<forall>i < length bs. bs ! i = byte_at db (ea + of_nat i) \<and> writable db (ea + of_nat i))"
  using assms
proof (induction n arbitrary: ea acc bs ea' acc')
  case (Suc n)
  let ?ea = "ea + 1" and ?acc = "acc + ucast (byte_at db ea)"
  show ?case
  proof (cases "0 < n \<and> ?ea < max_ea db \<and> loaded db ?ea \<and> \<not> imem db ?ea")
    case True
    obtain bs2 ea2 acc2 where g: "gather db n ?ea ?acc = (bs2, ea2, acc2)" by (cases "gather db n ?ea ?acc")
    then have r: "bs = byte_at db ea # bs2" "acc' = acc2" using Suc.prems(1) True by (auto simp: Let_def)
    have "acc2 = ?acc + usum bs2 \<and>
      (\<forall>i < length bs2. bs2 ! i = byte_at db (?ea + of_nat i) \<and> writable db (?ea + of_nat i))"
      using Suc.IH [OF g] True by (simp add: writable_def)
    then show ?thesis using r Suc.prems(4) by (auto simp: less_Suc_eq_0_disj algebra_simps)
  next
    case False
    then show ?thesis using Suc.prems by (auto simp: Let_def split: if_splits)
  qed
qed simp

text \<open>
  One call of \<open>qlgets\<close>: the buffer holds the line that was written, with or without its end,
  a zero, and what was there before.
\<close>

definition delivered :: "u8 list \<Rightarrow> u8 list \<Rightarrow> bool" where
  "delivered l b \<longleftrightarrow> length b = BUFFSIZE \<and>
    (\<exists>t e junk. l = t @ e \<and> e \<in> {[], [0x0a], [0x0d, 0x0a]} \<and> b = t @ 0 # junk)"

lemma delivered_line:
  assumes "delivered (line @ [0x0d, 0x0a]) b"
  obtains junk where "b = line @ junk"
proof -
  obtain t e junk where d: "line @ [0x0d, 0x0a] = t @ e" "e \<in> {[], [0x0a], [0x0d, 0x0a]}" "b = t @ 0 # junk"
    using assms unfolding delivered_def by blast
  consider "t = line @ [0x0d, 0x0a]" | "t = line @ [0x0d]" | "t = line"
    using d(1,2) by (auto simp: append_eq_append_conv2 append_eq_Cons_conv Cons_eq_append_conv)
  then show thesis using d(3) that by cases auto
qed

section \<open>Records read back\<close>

lemma addr_bytes_value:
  assumes "fits_type t a"
  shows "unat (be (addr_bytes t a)) = unat a" "ucast (be (addr_bytes t a)) = a"
proof -
  have a: "unat a < 256 ^ addr_len t a" "unat a < 2 ^ 32"
    using assms by (auto simp: fits_type_def addr_len_def word_le_nat_alt split: if_splits)
  then have b: "be (addr_bytes t a) = of_nat (unat a)" by (simp add: addr_bytes_def be_be_bytes_of)
  show u: "unat (be (addr_bytes t a)) = unat a"
    unfolding b using a(2) by (simp add: unsigned_ucast_eq unsigned_take_bit_eq take_bit_nat_eq_self)
  show "ucast (be (addr_bytes t a)) = a"
    using u a(2) by (simp add: word_unat_eq_iff unsigned_ucast_eq take_bit_nat_eq_self)
qed

lemma unat_plus: "unat (w :: u64) = m \<Longrightarrow> unat a + m < 2 ^ 64 \<Longrightarrow> unat (a + w) = unat a + m"
  by (simp add: unat_word_ariths)

text \<open>One record: the line is read as the bytes of the database from its address on.\<close>

lemma load_record:
  assumes g: "gather db MAX_BYTES ea (addr_sum (ea - base)) = (bs, ea', acc)" and ea: "ea < max_ea db" "writable db ea"
    and b: "delivered (write_record (out_type db) (ea - base) bs acc) b"
    and cfg: "ftype c = out_type db" "bytesz c = 1" "adds c" "subs_addr20 s = 0" "subs_addr32 s = 0"
    and fits: "\<And>a. ea \<le> a \<Longrightarrow> a < max_ea db \<Longrightarrow> writable db a \<Longrightarrow>
      fits_type (out_type db) (a - base) \<and> unat (a - base) + unat (start_addr c) + 1 < 2 ^ 32"
  shows "\<exists>s'. load_line c False (s\<lparr>buf := b\<rparr>) = Inr (Next_line, s') \<and>
    (\<forall>x. mem_image (calls s') x = (let a = x - start_addr c + base in
      if ea \<le> a \<and> a < ea' then Some (byte_at db a) else mem_image (calls s) x)) \<and>
    others (calls s') = others (calls s) \<and> displayed s' = displayed s \<and> subs_addr20 s' = 0 \<and> subs_addr32 s' = 0 \<and> ln s' = ln s"
proof -
  let ?a = "ea - base" and ?t = "out_type db" and ?n = "length bs"
  have bs: "bs \<noteq> []" "?n \<le> MAX_BYTES" "unat ea' = unat ea + ?n" "ea' \<le> max_ea db"
    using gather_end [OF g _ ea(1)] by (simp_all add: MAX_BYTES_def)
  have bytes: "acc = addr_sum ?a + usum bs" "\<And>i. i < ?n \<Longrightarrow> bs ! i = byte_at db (ea + of_nat i) \<and> writable db (ea + of_nat i)"
    using gather_bytes [OF g _ ea] by (simp_all add: MAX_BYTES_def)
  have fit: "fits_type ?t ?a" "unat ?a + unat (start_addr c) < 2 ^ 32" using fits [of ea] ea by auto
  have room: "unat ?a + unat (start_addr c) + ?n < 2 ^ 32"
  proof -
    define m where "m = ?n - 1"
    have m: "m < ?n" "?n = m + 1" "m < 24" using bs(1,2) by (cases bs; simp add: m_def MAX_BYTES_def)+
    have u: "unat (of_nat m :: u64) = m" using m(3) by (simp add: unsigned_of_nat take_bit_nat_eq_self)
    have "unat (ea + of_nat m) = unat ea + m"
      using unsigned_less [of ea', where 'a = nat] bs(3) m(2) u by (simp add: unat_word_ariths)
    then have "ea \<le> ea + of_nat m" "ea + of_nat m < max_ea db"
      using bs(3,4) m(2) by (simp_all add: word_le_nat_alt word_less_nat_alt)
    then have "unat (ea + of_nat m - base) + unat (start_addr c) + 1 < 2 ^ 32" using fits bytes(2) [OF m(1)] by blast
    moreover have "unat (ea + of_nat m - base) = unat ?a + m"
    proof -
      have "ea + of_nat m - base = ?a + of_nat m" by simp
      moreover have "unat (?a + of_nat m) = unat ?a + m" by (rule unat_plus) (use fit(2) m(3) u in simp_all)
      ultimately show ?thesis by (simp only:)
    qed
    ultimately show ?thesis using m(2) by simp
  qed
  obtain line where line: "write_record ?t ?a bs acc = line @ [0x0d, 0x0a]"
    "data_text ?t (addr_bytes ?t ?a) bs (out_chk ?t ?a bs) line"
    using write_record_text [OF bs(1,2) fit(1)] bytes(1) by metis
  obtain junk where junk: "b = line @ junk" using delivered_line b unfolding line(1) by blast
  have buf: "buf (s\<lparr>buf := b\<rparr>) = replicate 0 0x20 @ line @ junk" by (simp add: junk)
  note value_ = addr_bytes_value [OF fit(1)]
  have pre: "data_text (ftype c) (addr_bytes ?t ?a) bs (out_chk ?t ?a bs) line"
    "?a = ucast (be (addr_bytes ?t ?a)) + subs_addr20 (s\<lparr>buf := b\<rparr>) + subs_addr32 (s\<lparr>buf := b\<rparr>)"
    using line(2) cfg(1,4,5) value_(2) by simp_all
  obtain s' where s': "load_line c False (s\<lparr>buf := b\<rparr>) = Inr (Next_line, s')"
    "mem_image (calls s') = (\<lambda>x. let i = unat (x - (?a + start_addr c)) in
       if i < length bs then Some (bs ! i) else mem_image (calls (s\<lparr>buf := b\<rparr>)) x)"
    "others (calls s') = others (calls (s\<lparr>buf := b\<rparr>)) @
       (if wrong_sum (ftype c) (rec_sum (ftype c) (addr_bytes ?t ?a) bs) (out_chk ?t ?a bs) \<and> \<not> displayed (s\<lparr>buf := b\<rparr>)
        then [Warn_checksum (ln (s\<lparr>buf := b\<rparr>))] else [])"
    "displayed s' \<longleftrightarrow> displayed (s\<lparr>buf := b\<rparr>) \<or>
       wrong_sum (ftype c) (rec_sum (ftype c) (addr_bytes ?t ?a) bs) (out_chk ?t ?a bs)"
    "ln s' = ln (s\<lparr>buf := b\<rparr>)" "subs_addr20 s' = subs_addr20 (s\<lparr>buf := b\<rparr>)" "subs_addr32 s' = subs_addr32 (s\<lparr>buf := b\<rparr>)"
    by (rule load_line_data [OF buf pre(1) cfg(2,3) pre(2) room])
  have "mem_image (calls s') x = (let a = x - start_addr c + base in
      if ea \<le> a \<and> a < ea' then Some (byte_at db a) else mem_image (calls s) x)" for x
  proof -
    define a where "a = x - start_addr c + base"
    have i: "x - (?a + start_addr c) = a - ea" by (simp add: a_def)
    have "bs ! unat (a - ea) = byte_at db a" if "unat (a - ea) < ?n" using bytes(2) [OF that] by simp
    then show ?thesis using in_range [OF bs(3), of a] unfolding s'(2) i by (auto simp: a_def [symmetric] Let_def)
  qed
  then show ?thesis using s' out_chk_right [of ?t ?a bs] cfg(1,4,5) by (intro exI [of _ s']) simp
qed

text \<open>
  The loop of \<open>write_file\<close> from an address on, and the loader on the lines that it delivers:
  afterwards the database has the bytes from there on, moved by the difference of the bases.
\<close>

lemma load_written:
  assumes "list_all2 delivered (fst (write_loop db base strt ea)) bufs" "base \<noteq> BADADDR"
    and cfg: "ftype c = out_type db" "bytesz c = 1" "adds c" "subs_addr20 s = 0" "subs_addr32 s = 0"
    and fits: "\<forall>a. ea \<le> a \<and> a < max_ea db \<and> writable db a \<longrightarrow>
      fits_type (out_type db) (a - base) \<and> unat (a - base) + unat (start_addr c) + 1 < 2 ^ 32"
  shows "\<exists>s'. (\<forall>more. load_lines c False (bufs @ more) s = load_lines c False more s') \<and>
    (\<forall>x. mem_image (calls s') x = (let a = x - start_addr c + base in
      if ea \<le> a \<and> a < max_ea db \<and> writable db a then Some (byte_at db a) else mem_image (calls s) x)) \<and>
    others (calls s') = others (calls s) \<and> displayed s' = displayed s \<and> subs_addr20 s' = 0 \<and> subs_addr32 s' = 0"
  using assms
proof (induction db base strt ea arbitrary: s bufs rule: write_loop.induct)
  case (1 db base strt ea)
  note cfg = "1.prems"(2-7) and fits = "1.prems"(8)
  show ?case
  proof (cases "ea < max_ea db")
    case False
    then have "bufs = []" using "1.prems"(1) by (simp add: write_loop.simps [of db base strt ea])
    then show ?thesis using False "1.prems" by (intro exI [of _ s]) (auto simp: Let_def)
  next
    case less: True
    have next_: "ea + 1 \<le> a \<longleftrightarrow> ea \<le> a \<and> a \<noteq> ea" for a
      using unat_next [OF less] by (auto simp: word_le_nat_alt word_unat_eq_iff)
    show ?thesis
    proof (cases "writable db ea")
      case False
      then have skip: "write_loop db base strt ea = write_loop db base strt (ea + 1)" "\<not> loaded db ea \<or> imem db ea"
        using less by (auto simp: writable_def write_loop.simps [of db base strt ea])
      have "list_all2 delivered (fst (write_loop db base strt (ea + 1))) bufs" using "1.prems"(1) skip(1) by simp
      moreover have "\<forall>a. ea + 1 \<le> a \<and> a < max_ea db \<and> writable db a \<longrightarrow>
        fits_type (out_type db) (a - base) \<and> unat (a - base) + unat (start_addr c) + 1 < 2 ^ 32"
        using fits next_ by blast
      ultimately obtain s' where s': "\<forall>more. load_lines c False (bufs @ more) s = load_lines c False more s'"
        "\<forall>x. mem_image (calls s') x = (let a = x - start_addr c + base in
          if ea + 1 \<le> a \<and> a < max_ea db \<and> writable db a then Some (byte_at db a) else mem_image (calls s) x)"
        "others (calls s') = others (calls s)" "displayed s' = displayed s" "subs_addr20 s' = 0" "subs_addr32 s' = 0"
        using "1.IH"(1) [of bufs s] less skip(2) cfg by blast
      have "ea + 1 \<le> a \<and> a < max_ea db \<and> writable db a \<longleftrightarrow> ea \<le> a \<and> a < max_ea db \<and> writable db a" for a
        using next_ False by blast
      then show ?thesis using s' by (intro exI [of _ s']) (simp only: simp_thms)
    next
      case True
      obtain bs ea' acc where g: "gather db MAX_BYTES ea (addr_sum (ea - base)) = (bs, ea', acc)"
        by (cases "gather db MAX_BYTES ea (addr_sum (ea - base))")
      have ea': "unat ea' = unat ea + length bs" "bs \<noteq> []" "ea' \<le> max_ea db"
        using gather_end [OF g _ less] by (simp_all add: MAX_BYTES_def)
      obtain ls r where ls: "write_loop db base strt ea' = (ls, r)" by (cases "write_loop db base strt ea'")
      have "fst (write_loop db base strt ea) = write_record (out_type db) (ea - base) bs acc # ls"
        using less True cfg(1) g ls by (simp add: writable_def write_loop.simps [of db base strt ea] Let_def)
      then obtain b bufs' where b: "bufs = b # bufs'" "delivered (write_record (out_type db) (ea - base) bs acc) b"
        "list_all2 delivered ls bufs'"
        using "1.prems"(1) by (auto simp: list_all2_Cons1)
      obtain s1 where s1: "load_line c False (s\<lparr>buf := b\<rparr>) = Inr (Next_line, s1)"
        "\<forall>x. mem_image (calls s1) x = (let a = x - start_addr c + base in
          if ea \<le> a \<and> a < ea' then Some (byte_at db a) else mem_image (calls s) x)"
        "others (calls s1) = others (calls s)" "displayed s1 = displayed s" "subs_addr20 s1 = 0" "subs_addr32 s1 = 0"
        using load_record [OF g less True b(2) cfg(2-6)] fits by blast
      define s2 where "s2 = s1\<lparr>ln := ln s1 + 1\<rparr>"
      have step: "load_lines c False (bufs @ more) s = load_lines c False (bufs' @ more) s2" for more
        using s1(1) by (simp add: b(1) s2_def)
      have "\<forall>a. ea' \<le> a \<and> a < max_ea db \<and> writable db a \<longrightarrow>
        fits_type (out_type db) (a - base) \<and> unat (a - base) + unat (start_addr c) + 1 < 2 ^ 32"
        using fits ea'(1) by (auto simp: word_le_nat_alt)
      then obtain s' where s': "\<forall>more. load_lines c False (bufs' @ more) s2 = load_lines c False more s'"
        "\<forall>x. mem_image (calls s') x = (let a = x - start_addr c + base in
          if ea' \<le> a \<and> a < max_ea db \<and> writable db a then Some (byte_at db a) else mem_image (calls s2) x)"
        "others (calls s') = others (calls s2)" "displayed s' = displayed s2" "subs_addr20 s' = 0" "subs_addr32 s' = 0"
        using "1.IH"(2) [of base strt "ea - base" bs "(ea', acc)" ea' acc bufs' s2] less True cfg g ls b(3) s1(5,6)
        by (auto simp: writable_def s2_def)
      have range_: "ea \<le> a \<and> a < max_ea db \<and> writable db a \<longleftrightarrow> ea \<le> a \<and> a < ea' \<or> ea' \<le> a \<and> a < max_ea db \<and> writable db a" for a
      proof -
        have "writable db a" if "ea \<le> a" "a < ea'"
        proof -
          have "a = ea + of_nat (unat (a - ea))" by simp
          moreover have "unat (a - ea) < length bs" using in_range [OF ea'(1), of a] that by simp
          ultimately show ?thesis using gather_bytes [OF g _ less True] by (metis MAX_BYTES_def zero_less_numeral)
        qed
        then show ?thesis using ea' by (auto simp: word_le_nat_alt word_less_nat_alt)
      qed
      show ?thesis
        using step s'(1,3-6) s1(3,4) s'(2) s1(2)
        by (intro exI [of _ s']) (auto simp: s2_def Let_def range_)
    qed
  qed
qed

section \<open>The end of the file\<close>

lemma write_loop_start: "base \<noteq> BADADDR \<Longrightarrow> snd (write_loop db base strt ea) = strt"
proof (induction db base strt ea rule: write_loop.induct)
  case (1 db base strt ea)
  then show ?case
    by (subst write_loop.simps) (auto simp: Let_def split: prod.splits)
qed

text \<open>The last line of Intel and MOS files stops the loader.\<close>

lemma load_end_line:
  assumes "delivered (fmt1 t) b" "ftype c = t" "t \<noteq> F_SREC"
  obtains s' where "load_lines c cvt (b # later) s = Inr ((), s')" "calls s' = calls s" "displayed s' = displayed s"
proof -
  obtain junk where b: "b = replicate 0 0x20 @ rstart t # [0x30, 0x30] @ junk"
  proof (cases t)
    case F_HEX
    then have "delivered ([0x3a, 0x30, 0x30, 0x30, 0x30, 0x30, 0x30, 0x30, 0x31, 0x46, 0x46] @ [0x0d, 0x0a]) b"
      using assms(1) by (simp add: fmt1_def)
    then obtain junk where "b = [0x3a, 0x30, 0x30, 0x30, 0x30, 0x30, 0x30, 0x30, 0x31, 0x46, 0x46] @ junk" by (rule delivered_line)
    then show thesis using that F_HEX by (simp add: rstart_def)
  next
    case F_MEX
    then have "delivered [0x3b, 0x30, 0x30] b" using assms(1) by (simp add: fmt1_def)
    then show thesis using that F_MEX by (auto simp: delivered_def rstart_def Cons_eq_append_conv)
  qed (use assms in simp)
  let ?s = "(s\<lparr>buf := b\<rparr>)\<lparr>hptr := 1\<rparr>"
  have "rest ?s = [0x30, 0x30] @ junk" by (simp add: rest_def b)
  moreover have "unhex [0x30, 0x30] = Some [0]" by (simp add: hex_digit_def pair_byte_def)
  ultimately have "hexdata 0 ?s = Inr (be [0], ?s\<lparr>hptr := hptr ?s + 2, hlen := ucast (0 :: u8), hsum := ucast (0 :: u8)\<rparr>)"
    by (rule hexdata_length)
  moreover have "load_line c cvt (s\<lparr>buf := b\<rparr>) = hbind (read_mode c) (\<lambda>mode. hbind (hexdata 0) (\<lambda>_.
      if mode = 0x100 then plain_record c cvt else s_record c cvt mode)) ?s"
    using load_line_start [of "s\<lparr>buf := b\<rparr>" 0 c "[0x30, 0x30] @ junk" cvt] assms(2) by (simp add: b)
  ultimately have "load_line c cvt (s\<lparr>buf := b\<rparr>) =
      Inr (Stop_file, ?s\<lparr>hptr := hptr ?s + 2, hlen := 0, hsum := 0\<rparr>)"
    using assms(2,3) by (simp add: hbind_def read_mode_def plain_record_def)
  then show thesis by (intro that [of "?s\<lparr>hptr := hptr ?s + 2, hlen := 0, hsum := 0\<rparr>"]) simp_all
qed

text \<open>The start record of Motorola files sets the start address; its checksum is not read.\<close>

lemma load_start_line:
  assumes "delivered (start_line a) b" "ftype c = F_SREC" "unat a < 2 ^ 32"
  obtains s' where "\<forall>later. load_lines c cvt (b # later) s = load_lines c cvt later s'"
    "calls s' = calls s @ [Set_start_ip a]" "displayed s' = displayed s"
proof -
  let ?k = "addr_len F_SREC a" and ?chk = "be_bytes_of 1 (unat (NOT (of_nat (addr_len F_SREC a + 1) + high_sum a) AND 0xFF))"
  have k: "?k = 2 \<or> ?k = 3 \<or> ?k = 4" "0 < ?k" by (simp_all add: addr_len_def)
  have ak: "unat a < 256 ^ ?k" using assms(3) by (auto simp: addr_len_def word_le_nat_alt)
  have value_: "ucast (be (addr_bytes F_SREC a)) = a" using addr_bytes_value [of F_SREC a] assms(3) by (simp add: fits_type_def)
  let ?rest = "hexw 2 (unat (NOT (of_nat (?k + 1) + high_sum a) AND (0xFF :: u16)))"
  have "start_line a = rstart F_SREC # (0x39 - of_nat (?k - 2)) # hexw 2 (?k + 1) @ hexw (2 * ?k) (unat a) @ ?rest @ [0x0d, 0x0a]"
    by (simp add: start_line_def set_s_type_eq fmt0_def ident_def rstart_def)
  then have "delivered ((rstart F_SREC # (0x39 - of_nat (?k - 2)) # hexw 2 (?k + 1) @ hexw (2 * ?k) (unat a) @ ?rest) @ [0x0d, 0x0a]) b"
    using assms(1) by simp
  then obtain junk where "b = (rstart F_SREC # (0x39 - of_nat (?k - 2)) # hexw 2 (?k + 1) @ hexw (2 * ?k) (unat a) @ ?rest) @ junk"
    by (rule delivered_line)
  then have b: "b = replicate 0 0x20 @ rstart F_SREC # (0x39 - of_nat (?k - 2)) # (hexw 2 (?k + 1) @ hexw (2 * ?k) (unat a)) @ ?rest @ junk"
    by simp
  let ?s = "(s\<lparr>buf := b\<rparr>)\<lparr>hptr := 2\<rparr>"
  have read: "read_mode c ((s\<lparr>buf := b\<rparr>)\<lparr>hptr := 0 + 1\<rparr>) = Inr (0x39 - of_nat (?k - 2), ?s)"
  proof -
    have "ucast (0x39 - of_nat (?k - 2) :: u8) = (0x39 - of_nat (?k - 2) :: u32)" using k(1) by auto
    then show ?thesis using assms(2) by (simp add: read_mode_def b)
  qed
  have mode: "(0x39 - of_nat (?k - 2) :: u32) \<noteq> 0x100" using k(1) by auto
  have "buf (s\<lparr>buf := b\<rparr>) = replicate 0 0x20 @ rstart (ftype c) # (0x39 - of_nat (?k - 2)) # (hexw 2 (?k + 1) @ hexw (2 * ?k) (unat a)) @ ?rest @ junk"
    using b assms(2) by simp
  note start = load_line_start [OF this, of cvt]
  have "rest ?s = (hexw 2 (?k + 1) @ hexw (2 * ?k) (unat a)) @ ?rest @ junk" by (simp add: rest_def b)
  moreover have "unhex (hexw 2 (?k + 1) @ hexw (2 * ?k) (unat a)) = Some (of_nat (?k + 1) # addr_bytes F_SREC a @ [])"
    using unhex_append [OF unhex_hexw [of 1 "?k + 1"]] unhex_hexw [OF k(2) ak] k(1) by (auto simp: addr_bytes_def)
  ultimately obtain s1 es where s1: "hexdata 0 ?s = Inr (ucast (of_nat (?k + 1) :: u8), s1)" "rest s1 = es @ ?rest @ junk"
    "unhex es = Some (addr_bytes F_SREC a @ [])" "hlen s1 = ucast (of_nat (?k + 1) :: u8)" "hsum s1 = ucast (of_nat (?k + 1) :: u8)"
    "ln s1 = ln ?s" "subs_addr20 s1 = subs_addr20 ?s" "subs_addr32 s1 = subs_addr32 ?s" "displayed s1 = displayed ?s" "calls s1 = calls ?s"
    by (rule hexdata_first)
  let ?s2 = "s1\<lparr>hlen := hlen s1 - 1\<rparr>"
  have len: "length (addr_bytes F_SREC a) = ?k" by (simp add: addr_bytes_def)
  have hlen: "unat (hlen ?s2) = ?k" using k(1) s1(4) by auto
  have pre: "rest ?s2 = es @ ?rest @ junk" "0 < length (addr_bytes F_SREC a)" "length (addr_bytes F_SREC a) \<le> 4"
    "length (addr_bytes F_SREC a) \<le> unat (hlen ?s2)"
    using s1(2) k hlen by (auto simp: rest_def len)
  obtain s3 fs where s3: "hexdata (length (addr_bytes F_SREC a)) ?s2 = Inr (be (addr_bytes F_SREC a), s3)"
    "rest s3 = fs @ ?rest @ junk" "unhex fs = Some []" "unat (hlen s3) = unat (hlen ?s2) - length (addr_bytes F_SREC a)"
    "hsum s3 = hsum ?s2 + usum (addr_bytes F_SREC a)" "ln s3 = ln ?s2"
    "subs_addr20 s3 = subs_addr20 ?s2" "subs_addr32 s3 = subs_addr32 ?s2" "displayed s3 = displayed ?s2" "calls s3 = calls ?s2"
    by (rule hexdata_part [OF pre(1) s1(3) pre(2-4)])
  have "s_record c cvt (0x39 - of_nat (?k - 2)) s1 = address_record c cvt ?k 0 ?s2"
    using k(1) by (auto simp: s_record_def)
  also have "\<dots> = Inr (Next_line, emit (Set_start_ip a) s3)"
    using s3(1) assms(2) value_ by (simp add: address_record_def hbind_def len)
  finally have "load_line c cvt (s\<lparr>buf := b\<rparr>) = Inr (Next_line, emit (Set_start_ip a) s3)"
    unfolding start hbind_def read using s1(1) mode by simp
  then show thesis using s1 s3
    by (intro that [of "(emit (Set_start_ip a) s3)\<lparr>ln := ln (emit (Set_start_ip a) s3) + 1\<rparr>"]) (simp_all add: emit_def)
qed

section \<open>Whole files\<close>

fun is_start :: "hexcall \<Rightarrow> bool" where
  "is_start (Set_start_ip _) = True"
| "is_start (Set_start_ea _) = True"
| "is_start _ = False"

text \<open>The calls that set a start address.\<close>

definition start_calls :: "hexcall list \<Rightarrow> hexcall list" where "start_calls cs = filter is_start cs"

lemma start_calls_others: "start_calls (others cs) = start_calls cs"
proof -
  have "is_start c \<Longrightarrow> \<not> placement c" for c by (cases c) auto
  then show ?thesis by (induction cs) (auto simp: start_calls_def others_def)
qed

lemma finish_load_calls:
  "mem_image (calls (finish_load c s)) = mem_image (calls s)" "start_calls (calls (finish_load c s)) = start_calls (calls s)"
  "displayed (finish_load c s) = displayed s"
  by (simp_all add: finish_load_def Let_def emit_def start_calls_def mem_image_def)

lemma aligned_base: "push_bit 4 (w :: u64) \<noteq> BADADDR"
proof
  assume "push_bit 4 w = BADADDR"
  then have "bit (push_bit 4 w) 0 = bit BADADDR 0" by (rule arg_cong)
  then show False by (simp add: bit_simps)
qed

lemma file_roundtrip:
  assumes cfg: "ftype c = out_type db" "bytesz c = 1" "adds c" "ask_flavor c = Inr False"
    and lines: "list_all2 delivered (write_file db) bufs"
    and base: "base = push_bit 4 (db_base db)" "base \<le> min_ea db"
    and fits: "\<forall>a. written db a \<longrightarrow>
      fits_type (out_type db) (a - base) \<and> unat (a - base) + unat (start_addr c) + 1 < 2 ^ 32"
    and start: "out_type db = F_SREC \<longrightarrow> start_ip db = BADADDR \<or> unat (start_ip db) < 2 ^ 32"
  shows "\<exists>s. hex_load_file c shown bufs = Inr s \<and>
    (\<forall>a. mem_image (calls s) (a - base + start_addr c) = (if written db a then Some (byte_at db a) else None)) \<and>
    displayed s = shown \<and>
    start_calls (calls s) = Set_start_ip BADADDR #
      (if out_type db = F_SREC \<and> start_ip db \<noteq> BADADDR then [Set_start_ip (start_ip db)] else [])"
proof -
  have out: "out_base db = base" "base \<noteq> BADADDR" using base aligned_base by (auto simp: out_base_def)
  obtain ls r where loop: "write_loop db base (start_ip db) (min_ea db) = (ls, r)"
    by (cases "write_loop db base (start_ip db) (min_ea db)")
  have r: "r = start_ip db" using write_loop_start [OF out(2), of db "start_ip db" "min_ea db"] loop by simp
  let ?tail = "if out_type db \<noteq> F_SREC then [fmt1 (out_type db)] else if r \<noteq> BADADDR then [start_line r] else []"
  obtain bufs1 bufs2 where bufs: "bufs = bufs1 @ bufs2" "list_all2 delivered ls bufs1" "list_all2 delivered ?tail bufs2"
    using lines unfolding write_file_def out(1) loop prod.case by (auto simp: list_all2_append1)
  let ?s0 = "init_hex shown"
  have "\<forall>a. min_ea db \<le> a \<and> a < max_ea db \<and> writable db a \<longrightarrow>
      fits_type (out_type db) (a - base) \<and> unat (a - base) + unat (start_addr c) + 1 < 2 ^ 32"
    using fits by (simp add: written_def)
  then obtain s1 where s1: "\<forall>more. load_lines c False (bufs1 @ more) ?s0 = load_lines c False more s1"
    "\<forall>x. mem_image (calls s1) x = (let a = x - start_addr c + base in
      if min_ea db \<le> a \<and> a < max_ea db \<and> writable db a then Some (byte_at db a) else mem_image (calls ?s0) x)"
    "others (calls s1) = others (calls ?s0)" "displayed s1 = displayed ?s0"
    using load_written [of db base "start_ip db" "min_ea db" bufs1 c ?s0] bufs(2) loop out(2) cfg
    by (auto simp: init_hex_def)
  have s1': "mem_image (calls s1) (a - base + start_addr c) = (if written db a then Some (byte_at db a) else None)" for a
    using s1(2) by (simp add: written_def init_hex_def mem_image_def)
  have s1_start: "start_calls (calls s1) = [Set_start_ip BADADDR]" "displayed s1 = shown"
    using s1(3,4) start_calls_others [of "calls s1"] by (simp_all add: init_hex_def others_def start_calls_def)
  obtain s2 where s2: "load_lines c False bufs ?s0 = Inr ((), s2)" "mem_image (calls s2) = mem_image (calls s1)" "displayed s2 = shown"
    "start_calls (calls s2) = Set_start_ip BADADDR #
      (if out_type db = F_SREC \<and> start_ip db \<noteq> BADADDR then [Set_start_ip (start_ip db)] else [])"
  proof -
    have one: "list_all2 delivered [l] bufs2 \<Longrightarrow> \<exists>b. bufs2 = [b] \<and> delivered l b" for l by (auto simp: list_all2_Cons1)
    consider "out_type db \<noteq> F_SREC" | "out_type db = F_SREC" "r \<noteq> BADADDR" | "out_type db = F_SREC" "r = BADADDR" by blast
    then show thesis
    proof cases
      case 1
      then obtain b where b: "bufs2 = [b]" "delivered (fmt1 (out_type db)) b" using one bufs(3) by auto
      obtain s2 where "load_lines c False [b] s1 = Inr ((), s2)" "calls s2 = calls s1" "displayed s2 = displayed s1"
        using load_end_line [OF b(2) cfg(1) 1, where cvt = False and later = "[]" and s = s1] by metis
      then show thesis using 1 s1(1) s1_start b(1) bufs(1) by (intro that [of s2]) simp_all
    next
      case 2
      then obtain b where b: "bufs2 = [b]" "delivered (start_line r) b" using one bufs(3) by auto
      have "unat r < 2 ^ 32" using start 2 r by simp
      then obtain s2 where "\<forall>later. load_lines c False (b # later) s1 = load_lines c False later s2"
        "calls s2 = calls s1 @ [Set_start_ip r]" "displayed s2 = displayed s1"
        using load_start_line [OF b(2), where cvt = False and s = s1] cfg(1) 2(1) by metis
      then show thesis using 2 r s1(1) s1_start b(1) bufs(1) by (intro that [of s2]) (simp_all add: start_calls_def)
    next
      case 3
      then have "bufs2 = []" using bufs(3) by simp
      then show thesis using 3 r s1(1) [rule_format, of "[]"] s1_start bufs(1) by (intro that [of s1]) simp_all
    qed
  qed
  have "hex_load_file c shown bufs = Inr (finish_load c s2)" using s2(1) cfg(4) by (simp add: hex_load_file_def)
  then show ?thesis using s1' s2 by (simp add: finish_load_calls)
qed

end
