(* ===== verification/HexSafe.thy ===== *)
theory HexSafe
  imports HexLoad
begin

text \<open>
  The loader stays inside the line buffer, for lines that leave eight bytes of it free.  A
  read may go past the zero that ends the line, but then the number has too few digits and
  the loader stops.
\<close>

section \<open>Digits do not contain the end of the line\<close>

lemma strtoul16_all:
  assumes "strtoul16 n = (v, length n)" "n \<noteq> []"
  shows "0 \<notin> set n"
proof -
  define ws where "ws = length (takeWhile is_space n)"
  define n1 where "n1 = drop ws n"
  define sg where "sg = (if n1 \<noteq> [] \<and> (hd n1 = 0x2d \<or> hd n1 = 0x2b) then 1 else 0 :: nat)"
  define n2 where "n2 = drop sg n1"
  define pre where "pre = (if 2 < length n2 \<and> n2 ! 0 = 0x30 \<and> (n2 ! 1 = 0x78 \<or> n2 ! 1 = 0x58) \<and> is_hex (n2 ! 2) then 2 else 0 :: nat)"
  define ds where "ds = takeWhile is_hex (drop pre n2)"
  have "snd (strtoul16 n) = (if ds = [] then 0 else ws + sg + pre + length ds)"
    by (simp add: strtoul16_def Let_def ws_def n1_def sg_def n2_def pre_def ds_def)
  then have used: "length n = ws + sg + pre + length ds" "ds \<noteq> []" using assms by (auto split: if_splits)
  have "length (drop pre n2) = length ds"
    using used(1) by (simp add: n1_def n2_def)
  then have all: "drop pre n2 = ds" unfolding ds_def by (metis takeWhile_eq_take take_all_iff order_refl)
  have "0 \<notin> set ds" unfolding ds_def by (auto dest!: set_takeWhileD simp: is_hex_def hex_digit_def)
  moreover have "0 \<notin> set (take pre n2)"
  proof (cases "pre = 0")
    case False
    then have p: "pre = 2" "2 < length n2" "n2 ! 0 = 0x30" "n2 ! 1 = 0x78 \<or> n2 ! 1 = 0x58" by (simp_all add: pre_def split: if_splits)
    then obtain x y r where "n2 = x # y # r" by (cases n2; cases "tl n2") auto
    then show ?thesis using p by auto
  qed simp
  moreover have "0 \<notin> set (take sg n1)" by (cases n1) (auto simp: sg_def)
  moreover have "0 \<notin> set (take ws n)"
    unfolding ws_def takeWhile_eq_take [symmetric] by (auto dest!: set_takeWhileD simp: is_space_def)
  moreover have "set n = set (take ws n) \<union> set (take sg n1) \<union> set (take pre n2) \<union> set (drop pre n2)"
    by (metis Un_assoc append_take_drop_id n1_def n2_def set_append)
  ultimately show ?thesis using all by simp
qed

section \<open>The invariant\<close>

definition inside :: "nat \<Rightarrow> hexst \<Rightarrow> bool" where
  "inside k s \<longleftrightarrow> length (buf s) = BUFFSIZE \<and> k + 8 \<le> BUFFSIZE \<and> buf s ! k = 0 \<and> hptr s \<le> k"

definition keeps :: "nat \<Rightarrow> 'a hex \<Rightarrow> bool" where
  "keeps k m \<longleftrightarrow> (\<forall>s. inside k s \<longrightarrow> (case m s of Inl e \<Rightarrow> e \<noteq> Out_of_buffer | Inr (_, s') \<Rightarrow> inside k s'))"

named_theorems keeps_rules "operations that stay inside the buffer"

lemma keepsD: "keeps k m \<Longrightarrow> inside k s \<Longrightarrow> m s \<noteq> Inl Out_of_buffer"
  "keeps k m \<Longrightarrow> inside k s \<Longrightarrow> m s = Inr (x, s') \<Longrightarrow> inside k s'"
  unfolding keeps_def by force+

lemma keepsI: "(\<And>s. inside k s \<Longrightarrow> m s \<noteq> Inl Out_of_buffer \<and> (\<forall>x s'. m s = Inr (x, s') \<longrightarrow> inside k s')) \<Longrightarrow> keeps k m"
  unfolding keeps_def by (auto split: sum.splits)

lemma keeps_bind [keeps_rules]:
  assumes "keeps k m" "\<And>x. keeps k (f x)"
  shows "keeps k (hbind m f)"
proof (rule keepsI)
  fix s
  assume s: "inside k s"
  show "hbind m f s \<noteq> Inl Out_of_buffer \<and> (\<forall>x s'. hbind m f s = Inr (x, s') \<longrightarrow> inside k s')"
  proof (cases "m s")
    case (Inl e)
    then show ?thesis using keepsD(1) [OF assms(1) s] by (simp add: hbind_def)
  next
    case (Inr r)
    obtain x s1 where r: "r = (x, s1)" by (cases r)
    then show ?thesis
      using Inr keepsD(2) [OF assms(1) s] keepsD [OF assms(2) [of x], of s1] by (auto simp: hbind_def)
  qed
qed

lemma keeps_ret [keeps_rules]: "keeps k (hret x)" by (simp add: keeps_def hret_def)

lemma keeps_if [keeps_rules]: "(b \<Longrightarrow> keeps k m) \<Longrightarrow> (\<not> b \<Longrightarrow> keeps k m') \<Longrightarrow> keeps k (if b then m else m')"
  by simp

lemma keeps_hexdata [keeps_rules]: "sz \<le> 4 \<Longrightarrow> keeps k (hexdata sz)"
  unfolding keeps_def
proof (intro allI impI)
  fix s
  assume sz: "sz \<le> 4" and s: "inside k s"
  define i where "i = (if sz = 0 then 2 else 2 * sz)"
  define n where "n = take i (drop (hptr s) (buf s))"
  have i: "0 < i" "i \<le> 8" using sz by (simp_all add: i_def)
  have room: "hptr s + i \<le> length (buf s)" using s i by (auto simp: inside_def)
  then have len: "length n = i" by (simp add: n_def)
  have "hptr s + i \<le> k" if "strtoul16 n = (v, i)" for v
  proof (rule ccontr)
    assume "\<not> hptr s + i \<le> k"
    then have "n ! (k - hptr s) = 0" "k - hptr s < length n" using s room by (auto simp: n_def inside_def)
    then have "0 \<in> set n" by (metis nth_mem)
    moreover have "n \<noteq> []" using len i by auto
    ultimately show False using strtoul16_all [of n v] that len by simp
  qed
  then show "case hexdata sz s of Inl e \<Rightarrow> e \<noteq> Out_of_buffer | Inr (_, s') \<Rightarrow> inside k s'"
    using s room unfolding hexdata_def Let_def n_def i_def
    by (auto simp: errfmt_def inside_def split: prod.splits)
qed

text \<open>Changes of the state that do not touch the buffer.\<close>

lemma keeps_upd [keeps_rules]: "(\<And>s. buf (f s) = buf s \<and> hptr (f s) = hptr s) \<Longrightarrow> keeps k (\<lambda>s. Inr (x, f s))"
  by (simp add: keeps_def inside_def)

lemma keeps_on_upd: "keeps k m \<Longrightarrow> (\<And>s. buf (f s) = buf s \<and> hptr (f s) = hptr s) \<Longrightarrow> keeps k (\<lambda>s. m (f s))"
  by (auto simp: keeps_def inside_def)

text \<open>A data byte is stored below the digits it was read from.\<close>

lemma keeps_data_loop: "w \<le> hptr s \<Longrightarrow> inside k s \<Longrightarrow> data_loop cvt n w s \<noteq> Inl Out_of_buffer \<and>
    (\<forall>x s'. data_loop cvt n w s = Inr (x, s') \<longrightarrow> inside k s')"
proof (induction n arbitrary: w s)
  case (Suc n)
  have h: "keeps k (hexdata 1)" by (rule keeps_hexdata) simp
  show ?case
  proof (cases "hexdata 1 s")
    case (Inl e)
    then show ?thesis using keepsD(1) [OF h Suc.prems(2)] by (simp add: hbind_def)
  next
    case (Inr r)
    obtain b s1 where r: "hexdata 1 s = Inr (b, s1)" using Inr by (cases r) simp
    have s1: "inside k s1" using keepsD(2) [OF h Suc.prems(2) r] .
    have p: "hptr s1 = hptr s + 2" using r by (auto simp: hexdata_def Let_def errfmt_def split: if_splits prod.splits)
    define s2 where "s2 = s1\<lparr>buf := (buf s1)[w := ucast b]\<rparr>"
    define s3 where "s3 = s2\<lparr>buf := (buf s2)[w + 1 := 0]\<rparr>"
    have up: "inside k s2" "inside k s3" "hptr s2 = hptr s + 2" "hptr s3 = hptr s + 2"
      using s1 p Suc.prems(1) by (auto simp: inside_def s2_def s3_def)
    have pokes: "poke w (ucast b) s1 = Inr ((), s2)" "poke (w + 1) 0 s2 = Inr ((), s3)"
      using s1 p Suc.prems(1) by (auto simp: inside_def poke_def s2_def s3_def)
    have step: "data_loop cvt (Suc n) w s = (if cvt then data_loop cvt n (w + 2) s3 else data_loop cvt n (w + 1) s2)"
      using pokes r by (simp add: hbind_def)
    show ?thesis
      unfolding step using Suc.IH [of "w + 1" s2] Suc.IH [of "w + 2" s3] up Suc.prems(1) by (cases cvt) simp_all
  qed
qed (simp add: hret_def)

lemma keeps_extend [keeps_rules]: "keeps k (extend_segment c addr top_ea)"
  unfolding extend_segment_def Let_def
  by (rule keepsI) (auto simp: inside_def emit_def split: if_splits)

lemma keeps_place [keeps_rules]: "keeps k (place_data c addr top_ea)"
proof -
  let ?a = "trunc_uval (addr + start_addr c)" and ?t = "trunc_uval (top_ea + start_addr c)"
  have low: "buf (lower_segment c x s) = buf s \<and> hptr (lower_segment c x s) = hptr s" for x s
    by (simp add: lower_segment_def Let_def emit_def)
  have last_: "keeps k (\<lambda>s. Inr ((), emit (Mem2base (buf (lower_segment c ?a s)) ?a ?t) (lower_segment c ?a s)))"
    by (rule keeps_upd) (simp add: low emit_def)
  have all: "keeps k (hbind (if b then extend_segment c ?a ?t else hret ())
      (\<lambda>_ s. Inr ((), emit (Mem2base (buf (lower_segment c ?a s)) ?a ?t) (lower_segment c ?a s))))" for b
    by (intro keeps_bind keeps_if keeps_extend keeps_ret last_)
  show ?thesis
  proof (rule keepsI)
    fix s
    assume s: "inside k s"
    define s1 where "s1 = emit (Show_addr ?a) (if 0x10000 \<le> top_ea then s\<lparr>bigaddr := True\<rparr> else s)"
    have "inside k s1" using s by (simp add: s1_def inside_def emit_def)
    then show "place_data c addr top_ea s \<noteq> Inl Out_of_buffer \<and> (\<forall>x s'. place_data c addr top_ea s = Inr (x, s') \<longrightarrow> inside k s')"
      using keepsD [OF all [of "hend_ea s1 < ?t \<or> \<not> segment_created s1"], of s1]
      by (simp add: place_data_def Let_def s1_def [symmetric])
  qed
qed

lemma keeps_load_data [keeps_rules]: "keeps k (load_data c cvt addr)"
proof (rule keepsI)
  fix s
  assume s: "inside k s"
  let ?m = "data_loop cvt (unat (hlen s)) 0" and ?t = "trunc_uval (addr + ucast (hlen s div bytesz c))"
  have loop: "?m s \<noteq> Inl Out_of_buffer \<and> (\<forall>x s'. ?m s = Inr (x, s') \<longrightarrow> inside k s')"
    by (rule keeps_data_loop [OF _ s]) simp
  show "load_data c cvt addr s \<noteq> Inl Out_of_buffer \<and> (\<forall>x s'. load_data c cvt addr s = Inr (x, s') \<longrightarrow> inside k s')"
  proof (cases "?m s")
    case (Inl e)
    then show ?thesis using loop by (simp add: load_data_def hbind_def)
  next
    case (Inr r)
    obtain s1 where s1: "?m s = Inr ((), s1)" using Inr by (cases r) simp
    then show ?thesis
      using loop keepsD [OF keeps_place [of k c addr ?t], of s1] by (auto simp: load_data_def hbind_def)
  qed
qed

lemma keeps_checksum [keeps_rules]: "keeps k (checksum c)"
proof -
  have one: "keeps k (hexdata 1)" "keeps k (hexdata 2)" by (simp_all add: keeps_hexdata)
  have hex: "keeps k (hbind (hexdata 1) (\<lambda>_ s. Inr (ucast (ucast (hsum s) :: u8) :: u16, s)))"
    by (intro keeps_bind one) (simp add: keeps_def)
  have srec: "keeps k (hbind (hexdata 1) (\<lambda>v. hret (ucast (ucast (NOT x) :: u8) XOR ucast (ucast v :: u8) :: u16)))" for x :: u16
    by (intro keeps_bind keeps_ret one)
  have mex: "keeps k (hbind (hexdata 2) (\<lambda>v. hret (x - ucast v)))" for x :: u16 by (intro keeps_bind keeps_ret one)
  show ?thesis
  proof (rule keepsI)
    fix s
    assume "inside k s"
    then have s: "inside k (s\<lparr>hlen := x\<rparr>)" for x by (simp add: inside_def)
    show "checksum c s \<noteq> Inl Out_of_buffer \<and> (\<forall>x s'. checksum c s = Inr (x, s') \<longrightarrow> inside k s')"
      using keepsD [OF hex s [of "hlen s + 1"]] keepsD [OF srec [of "hsum s"] s [of "hlen s + 1"]]
        keepsD [OF mex [of "hsum s"] s [of "2 + hlen s"]]
      by (cases "ftype c") (simp_all add: checksum_def Let_def)
  qed
qed

lemma keeps_data_record [keeps_rules]: "keeps k (data_record c cvt addr)"
proof -
  have last_: "keeps k (\<lambda>s. Inr (Next_line, warn_checksum chi s))" for chi
    by (rule keeps_upd) (simp add: warn_checksum_def emit_def)
  have all: "keeps k (hbind (if b then load_data c cvt a else hret ()) (\<lambda>_.
      hbind (checksum c) (\<lambda>chi s. Inr (Next_line, warn_checksum chi s))))" for a b
    by (intro keeps_bind keeps_if keeps_load_data keeps_checksum keeps_ret last_)
  then show ?thesis by (auto simp: data_record_def Let_def keeps_def)
qed

lemma keeps_seg_addr [keeps_rules]: "keeps k (seg_addr c sh)"
  unfolding seg_addr_def Let_def by (intro keeps_rules) simp

lemma keeps_start_record [keeps_rules]: "keeps k (start_record c)"
  unfolding start_record_def Let_def
  by (intro keeps_bind keeps_hexdata) (auto simp: keeps_def inside_def emit_def)

lemma keeps_typed_record [keeps_rules]: "keeps k (typed_record c cvt addr ty)"
  unfolding typed_record_def by (intro keeps_bind keeps_if keeps_seg_addr keeps_upd keeps_start_record keeps_ret keeps_data_record) simp_all

lemma keeps_address_record [keeps_rules]: "sz \<le> 4 \<Longrightarrow> keeps k (address_record c cvt sz mode)"
  unfolding address_record_def Let_def
  by (intro keeps_bind keeps_if keeps_upd keeps_typed_record keeps_hexdata keeps_data_record) (simp_all add: emit_def)

lemma keeps_records [keeps_rules]: "keeps k (plain_record c cvt)" "keeps k (s_record c cvt mode)"
proof -
  have n: "inside k (s\<lparr>hlen := x\<rparr>) = inside k s" for s x by (simp add: inside_def)
  show "keeps k (plain_record c cvt)"
    using keeps_address_record [of 2 k c cvt "0x100"] by (auto simp: plain_record_def keeps_def n)
  have "keeps k (address_record c cvt (if mode = 0x33 \<or> mode = 0x37 then 4 else if mode = 0x32 \<or> mode = 0x38 then 3 else 2)
      (if 0x33 < mode then 0 else mode))"
    by (rule keeps_address_record) simp
  then show "keeps k (s_record c cvt mode)" by (auto simp: s_record_def keeps_def n errfmt_def)
qed

section \<open>Lines and files\<close>

text \<open>A line of at most 590 characters.\<close>

definition short_line :: "u8 list \<Rightarrow> bool" where
  "short_line b \<longleftrightarrow> length b = BUFFSIZE \<and> (\<exists>k. k + 8 \<le> BUFFSIZE \<and> b ! k = 0)"

lemma load_line_inside:
  assumes "short_line (buf s)"
  shows "load_line c cvt s \<noteq> Inl Out_of_buffer"
proof -
  obtain k where k: "length (buf s) = BUFFSIZE" "k + 8 \<le> BUFFSIZE" "buf s ! k = 0"
    using assms unfolding short_line_def by blast
  define p where "p = length (takeWhile (\<lambda>x. x = 0x20) (buf s))"
  have p: "p \<le> k"
  proof (rule ccontr)
    assume "\<not> p \<le> k"
    then have "takeWhile (\<lambda>x. x = 0x20) (buf s) ! k \<in> set (takeWhile (\<lambda>x. x = 0x20) (buf s))" by (simp add: p_def)
    then have "takeWhile (\<lambda>x. x = 0x20) (buf s) ! k = 0x20" by (blast dest: set_takeWhileD)
    then show False using \<open>\<not> p \<le> k\<close> k(3) by (simp add: p_def takeWhile_nth)
  qed
  define m where "m = (\<lambda>mode. if mode = 0x100 then plain_record c cvt else s_record c cvt mode)"
  have rest: "keeps k (hbind (hexdata 0) (\<lambda>_. m mode))" for mode
    unfolding m_def by (intro keeps_bind keeps_if keeps_hexdata keeps_records) simp
  show ?thesis
  proof (cases "buf s ! p = 0x0a \<or> buf s ! p = 0x0d \<or> buf s ! p \<noteq> rstart (ftype c)")
    case True
    then show ?thesis using p k by (auto simp: load_line_def p_def [symmetric] errfmt_def)
  next
    case False
    then have "p < k" using p k(3) by (cases "p = k") (auto simp: rstart_def split: filetype.splits)
    let ?s = "s\<lparr>hptr := p + 1\<rparr>"
    have line: "load_line c cvt s = hbind (read_mode c) (\<lambda>mode. hbind (hexdata 0) (\<lambda>_. m mode)) ?s"
      using False p k by (auto simp: load_line_def p_def [symmetric] m_def)
    show ?thesis
    proof (cases "ftype c = F_SREC \<and> p + 1 = k")
      case True
      have "s_record c cvt 0 t = errfmt t" for t by (simp add: s_record_def)
      then have "m 0 t = errfmt t" for t by (simp add: m_def)
      moreover have "read_mode c ?s = Inr (0, s\<lparr>hptr := p + 2\<rparr>)" using True k by (auto simp: read_mode_def)
      moreover have "p + 2 + 2 \<le> length (buf s)" using True k by simp
      ultimately show ?thesis
        unfolding line by (auto simp: hbind_def hexdata_def Let_def errfmt_def split: prod.splits)
    next
      case False
      then have "read_mode c ?s = Inr (ucast (buf s ! (p + 1)), s\<lparr>hptr := p + 2\<rparr>) \<and> p + 2 \<le> k \<or> read_mode c ?s = Inr (0x100, ?s)"
        using \<open>p < k\<close> k by (auto simp: read_mode_def)
      moreover have "inside k ?s" "p + 2 \<le> k \<Longrightarrow> inside k (s\<lparr>hptr := p + 2\<rparr>)" using \<open>p < k\<close> k by (auto simp: inside_def)
      ultimately show ?thesis unfolding line using keepsD(1) [OF rest] by (auto simp: hbind_def)
    qed
  qed
qed

lemma load_lines_inside: "\<forall>b \<in> set bufs. short_line b \<Longrightarrow> load_lines c cvt bufs s \<noteq> Inl Out_of_buffer"
proof (induction c cvt bufs s rule: load_lines.induct)
  case (2 c cvt b bs s)
  have "load_line c cvt (s\<lparr>buf := b\<rparr>) \<noteq> Inl Out_of_buffer" using 2 by (intro load_line_inside) simp
  then show ?case using 2 by (auto split: sum.splits flow.splits)
qed simp

lemma load_file_inside: "\<forall>b \<in> set bufs. short_line b \<Longrightarrow> hex_load_file c shown bufs \<noteq> Inl Out_of_buffer"
  using load_lines_inside [of bufs c] by (auto simp: hex_load_file_def ask_flavor_def split: sum.splits if_splits)

end
