(* ===== verification/HexProps.thy ===== *)
theory HexProps
  imports HexTrip HexSafe
begin

text \<open>
  The properties of the hexadecimal object files: a record is read as its bytes say, a
  written file reads back, and the reader stays inside its buffer; and what is wrong with
  start records, overlapping records, long lines and the size test.
\<close>

section \<open>A small database\<close>

definition hex_cfg :: "filetype \<Rightarrow> hexcfg" where
  "hex_cfg t = \<lparr>ftype = t, mk_segs = True, iscode = True, cbsize = 1, dbsize = 1, procid = PLFM_other, procname = [],
     answer = 1, code16 = False, baseaddr = 0, sel_of = (\<lambda>_. 1), add_ok = (\<lambda>_ _. True)\<rparr>"


definition pad_line :: "u8 list \<Rightarrow> u8 list" where "pad_line l = l @ replicate (BUFFSIZE - length l) 0"


definition hex_lines :: "u8 list list" where
  "hex_lines =
    [[0x53, 0x31, 0x30, 0x35, 0x30, 0x31, 0x30, 0x30, 0x37, 0x46, 0x38, 0x30, 0x46, 0x41, 0x0d, 0x0a],
     [0x53, 0x31, 0x30, 0x34, 0x30, 0x31, 0x30, 0x33, 0x38, 0x32, 0x37, 0x35, 0x0d, 0x0a],
     [0x53, 0x39, 0x30, 0x33, 0x30, 0x31, 0x30, 0x32, 0x46, 0x43, 0x0d, 0x0a]]"



section \<open>Records\<close>







text \<open>
  C35: the reader stays inside its line buffer, in every file whose lines leave eight of the
  598 bytes free, for every format, processor and answer of the user, whether the text is
  well formed or not.
\<close>

theorem hex_reader_inside:
  assumes "\<forall>b \<in> set bufs. short_line b"
  shows "hex_load_file c shown bufs \<noteq> Inl Out_of_buffer"
  by (rule load_file_inside [OF assms])

theorem hex_reader_inside_witness: "hex_load_file (hex_cfg F_HEX) False (map pad_line hex_lines) \<noteq> Inl Out_of_buffer"
proof (rule hex_reader_inside, rule ballI)
  fix b
  assume "b \<in> set (map pad_line hex_lines)"
  then show "short_line b"
    unfolding short_line_def
    by (intro conjI exI [of _ 16]) (auto simp: hex_lines_def pad_line_def BUFFSIZE_def nth_append)
qed

section \<open>What is wrong\<close>

text \<open>
  The checksum of the start record leaves out the two low bytes of the address, so it is
  wrong unless they add up to 0.
\<close>

lemma start_record_checksum:
  assumes "unat a < 2 ^ 32"
  obtains cs chk where
    "start_line a = rstart F_SREC # (0x39 - of_nat (addr_len F_SREC a - 2)) # cs @ [0x0d, 0x0a]"
    "unhex cs = Some (of_nat (rec_len F_SREC (addr_bytes F_SREC a) []) # addr_bytes F_SREC a @ [chk])"
    "wrong_sum F_SREC (rec_sum F_SREC (addr_bytes F_SREC a) []) [chk] \<longleftrightarrow> ucast (addr_sum a) \<noteq> (0 :: u8)"
proof -
  let ?k = "addr_len F_SREC a" and ?ab = "addr_bytes F_SREC a"
  define acc :: u16 where "acc = of_nat (?k + 1) + high_sum a"
  let ?chk = "NOT (ucast acc) :: u8"
  define cs where "cs = hexw 2 (?k + 1) @ hexw (2 * ?k) (unat a) @ hexw 2 (unat (NOT acc AND 0xFF))"
  have k: "0 < ?k" "?k + 1 < 256" by (simp_all add: addr_len_def)
  have ak: "unat a < 256 ^ ?k" using assms by (auto simp: addr_len_def word_le_nat_alt)
  have len: "length ?ab = ?k" by (simp add: addr_bytes_def)
  have low: "NOT acc AND 0xFF = ucast ?chk"
  proof -
    have "NOT acc AND mask 8 = ucast ?chk" by (rule bit_word_eqI) (auto simp: bit_simps)
    moreover have "(0xFF :: u16) = mask 8" by (simp add: mask_numeral)
    ultimately show ?thesis by (simp only:)
  qed
  have chk: "unhex (hexw 2 (unat (NOT acc AND 0xFF))) = Some [?chk]"
  proof -
    have "of_nat (unat (ucast ?chk :: u16)) = ?chk"
    proof -
      have "ucast (ucast y :: u16) = (y :: u8)" for y by (rule bit_word_eqI) (auto simp: bit_simps)
      then show ?thesis by simp
    qed
    then show ?thesis using unhex_hexw [of 1 "unat (ucast ?chk :: u16)"] byte_up [of ?chk] unfolding low by simp
  qed
  have "unhex cs = Some (of_nat (?k + 1) # ?ab @ [?chk])"
    unfolding cs_def using unhex_append [OF unhex_hexw [of 1 "?k + 1"]] unhex_append [OF unhex_hexw [OF k(1) ak]] chk k(2)
    by (simp add: addr_bytes_def)
  moreover have "start_line a = rstart F_SREC # (0x39 - of_nat (?k - 2)) # cs @ [0x0d, 0x0a]"
    by (simp add: start_line_def set_s_type_eq fmt0_def ident_def rstart_def cs_def acc_def)
  moreover have "wrong_sum F_SREC (rec_sum F_SREC ?ab []) [?chk] \<longleftrightarrow> ucast (addr_sum a) \<noteq> (0 :: u8)"
  proof -
    have sum: "rec_sum F_SREC ?ab [] = acc + addr_sum a"
      by (simp add: rec_sum_def rec_len_def len usum_addr acc_def)
    have "ucast (ucast y :: u32) = (y :: u8)" for y by (rule bit_word_eqI) (auto simp: bit_simps)
    then have "wrong_sum F_SREC (rec_sum F_SREC ?ab []) [?chk] \<longleftrightarrow> NOT (ucast acc + ucast (addr_sum a)) \<noteq> ?chk"
      unfolding sum by (simp add: wrong_sum_def down_add)
    also have "\<dots> \<longleftrightarrow> ucast (addr_sum a) \<noteq> (0 :: u8)" by (metis add_cancel_right_right bit.double_compl)
    finally show ?thesis .
  qed
  ultimately show thesis by (intro that [of cs ?chk]) (simp_all add: rec_len_def len)
qed

text \<open>
  A record that begins before the end of the segment and ends after it makes a new segment
  over the old one: the unsigned distance to the end wraps around.
\<close>

lemma overlapping_record_new_segment:
  assumes "mk_segs c" "add_ok c addr t" "addr < hend_ea s" "unat (hend_ea s) < 2 ^ 32"
  obtains s' where "extend_segment c addr t s = Inr ((), s')" "seg_start s' = addr"
    "\<exists>cls. calls s' = calls s @ [Add_segm (sel_of c (drop_bit 4 (start_addr c))) addr t cls]"
proof -
  have "SEGMENTGAP \<le> addr - hend_ea s"
    using assms(3,4) unsigned_less [of "hend_ea s", where 'a = nat]
    by (auto simp: SEGMENTGAP_def word_le_nat_alt word_less_nat_alt unat_sub_if')
  then show thesis using assms(1,2) that by (auto simp: extend_segment_def Let_def emit_def)
qed

text \<open>A line of 597 characters that ends right after its colon is read outside the buffer.\<close>

lemma long_line_outside: "hex_load_file (hex_cfg F_HEX) False [pad_line (replicate 596 0x20 @ [0x3a])] = Inl Out_of_buffer"
proof -
  have b: "pad_line (replicate 596 0x20 @ [0x3a]) = replicate 596 0x20 @ rstart F_HEX # [0]"
    by (simp add: pad_line_def BUFFSIZE_def rstart_def)
  let ?s = "(init_hex False)\<lparr>buf := replicate 596 0x20 @ rstart F_HEX # [0]\<rparr>"
  have "load_line (hex_cfg F_HEX) False ?s = Inl Out_of_buffer"
    using load_line_start [of ?s 596 "hex_cfg F_HEX" "[0]" False]
    by (simp add: hex_cfg_def hbind_def read_mode_def hexdata_def)
  then show ?thesis by (simp add: hex_load_file_def ask_flavor_def b) (simp add: hex_cfg_def)
qed

text \<open>
  The test whether a file can be written lets a database of 2 MB pass for an Intel file when an
  address without a byte comes before a segment of internal memory; without that address it
  does not.
\<close>

definition gap_db :: "u64 \<Rightarrow> hexdb" where
  "gap_db m = \<lparr>out_type = F_HEX, db_base = 0x1000, min_ea = m, max_ea = 0x200110, start_ip = BADADDR,
     loaded = (\<lambda>a. 0x110 \<le> a), imem = (\<lambda>a. 0x101 \<le> a \<and> a < 0x110), byte_at = (\<lambda>_. 0),
     seg_info = (\<lambda>a. if 0x101 \<le> a \<and> a < 0x110 then Some (0x101, 0x110, True)
       else if 0x110 \<le> a then Some (0x110, 0x200110, False) else None)\<rparr>"

lemma can_write_gap: "can_write (gap_db 0x100) = Some True" "can_write (gap_db 0x101) = Some False"
proof -
  have db: "out_type (gap_db m) = F_HEX" "max_ea (gap_db m) = 0x200110" "min_ea (gap_db m) = m"
    "loaded (gap_db m) a \<longleftrightarrow> 0x110 \<le> a" "base_at (gap_db m) 0x110 = 0x110"
    "imem_seg (gap_db m) a = (if 0x101 \<le> a \<and> a < 0x110 then Some (0x101, 0x110) else None)"
    "out_base (gap_db m) = (if m < 0x10000 then BADADDR else 0x10000)" for m a
    by (simp_all add: gap_db_def imem_seg_def base_at_def out_base_def)
  have top: "scan_up (gap_db m) False 0x110 z l = Some (Inr (0x110, l))" for m z l
    by (subst scan_up.simps) (simp add: db)
  have seg: "scan_up (gap_db m) False 0x101 0 0x20000f = Some (Inr (0x110, 0x200001))" for m
    by (subst scan_up.simps) (simp add: db top)
  have "scan_up (gap_db 0x100) False 0x101 1 0x200010 = Some (Inl True)"
    by (subst scan_up.simps) (simp add: db)
  then have "scan_up (gap_db 0x100) False 0x100 0 0x200010 = Some (Inl True)"
    by (subst scan_up.simps) (simp add: db)
  then show "can_write (gap_db 0x100) = Some True" by (simp add: can_write_def db)
  have "scan_down (gap_db 0x101) 0x110 0x20010f l = Some False" for l
    by (subst scan_down.simps) (simp add: db)
  then show "can_write (gap_db 0x101) = Some False" using seg [of "0x101"] by (simp add: can_write_def db)
qed

end
