(* ===== verification/Spec2Isabelle.thy ===== *)
theory Spec2Isabelle
  imports QTreeProps SnesProps BinProps RegProps Wide HexProps
begin

text \<open>
  A verification library for parts of the IDA SDK: the ordered containers of
  \<open>src/src/include/qtree.hpp\<close>, the loader of SNES cartridges with its address
  translation, \<open>src/src/ldr/snes\<close>, the loader and writer of hexadecimal object
  files, \<open>src/src/ldr/hex\<close>, the memory search of the debugger modules,
  \<open>src/src/dbg/bin_search.cpp\<close>, the values of the register tracker,
  \<open>src/src/include/regfinder.hpp\<close>, and the 128-bit numbers of
  \<open>src/src/include/llong.hpp\<close>.

  \<^bold>\<open>The program.\<close>  The SDK is the interface of a closed kernel plus the source of the
  loaders, processor modules, debugger modules and plugins that call it.  Most of its headers
  only declare kernel functions.  The code with logic of its own modelled here is the
  red-black tree behind \<open>qmap\<close> and \<open>qset\<close>; a whole loader: detection of a
  file, the description handed to the processor module, the memory map of every board and
  the translation of bus addresses that loader and processor module share; a second
  loader, with its writer, for text files of hexadecimal records; the search for byte patterns in the memory of a debugged process; the sets of values that the
  processor modules compute for registers while they follow the code backwards; and wide
  integers.

  \<^bold>\<open>Prelude.\<close>  Word types, the monad syntax for \<open>option\<close>, and generic lemmas.
  \<^const>\<open>None\<close> stands throughout for undefined behaviour (a dangling or null pointer, a
  read of memory that was not written) or for a loop that does not return; exceptions and
  \<open>loader_failure\<close> are values of sum types.

  \<^bold>\<open>Ordered containers.\<close>
  \<^item> \<open>QNode\<close>, \<open>QNodeLayout\<close>: tree nodes in an explicit heap; the layout that packs
    the parent pointer, the colour and the nil flag in one word simulates the plain struct.
  \<^item> \<open>QTree\<close>, \<open>QTreeUpdate\<close>: the operations as the code has them, with pointer
    assignments in the order of the source: search, hints, iterators, rotations, insertion
    and removal with their fixups, ranges, cloning, assignment, comparison.  Loops are
    \<open>partial_function\<close>s, so that returning is part of every theorem.
  \<^item> \<open>QTreeShape\<close> to \<open>QTreeInv\<close>: an abstract tree and the relation of a heap to it;
    \<open>qtree_inv\<close> is the invariant: order, red-black balance, the header's cached extremes, the
    count.  \<open>QTreeLookup\<close> to \<open>QTreeWhole\<close> prove that each operation implements
    an operation on the sorted list of elements and restores the invariant.
  \<^item> \<open>QMap\<close>: the methods of \<open>qmap\<close> that are not plain forwards, against maps.
  \<^item> \<open>QTreeProps\<close>: the properties C1 to C18.

  \<^bold>\<open>SNES cartridges.\<close>
  \<^item> \<open>SnesCart\<close> (\<open>struct SuperFamicomCartridge\<close>): the description, its enumerations as
    strings, \<open>write_hash\<close> and \<open>read_hash\<close> over a netnode, whose documented behaviour is
    the locale \<open>netnode_hash\<close>.
  \<^item> \<open>SnesAddr\<close> (\<open>class snes_addr_t\<close>): the translation for every board and chip;
    \<open>SnesBus\<close>, \<open>SnesXlat\<close>: banks and offsets as numbers, and canonical addresses.
  \<^item> \<open>SnesHeader\<close> (constructor, \<open>read_header\<close>, \<open>find_header\<close>, \<open>score_header\<close>,
    \<open>accept_file\<close>): detection over an input source, the locale \<open>linput\<close>;
    \<open>SnesDetect\<close>: what detection establishes for every file.
  \<^item> \<open>SnesLoad\<close> (\<open>snes.cpp\<close>): segments, bytes, vectors and entry point.
    \<open>SnesImage\<close> states what the kernel calls do to a database as the locale \<open>database\<close> and
    proves every loop to be one update of it; \<open>SnesBoard\<close> does so for every board,
    \<open>SnesRun\<close> for \<open>load_file\<close>.
  \<^item> \<open>SnesRom\<close>, \<open>SnesRam\<close>: the wiring of each board, written independently of the loader
    (\<open>rom_offset\<close>, \<open>ram_area\<close>), against the loaded image seen through the translation.
  \<^item> \<open>SnesDemo\<close>: a kernel in memory on which the locales are interpreted, and a ROM for the
    witnesses; \<open>SnesWhole\<close>: detection and loading together; \<open>SnesProps\<close>: C19 to C27.

  \<^bold>\<open>Hexadecimal object files.\<close>
  \<^item> \<open>HexLoad\<close> (\<open>hexdata\<close>, \<open>load_file\<close>, \<open>accept_file\<close>): the reader of Intel, MOS and Motorola
    records, over a line buffer of 598 bytes that the data are written back into; the calls
    that change the database are collected in a list.  \<open>HexWrite\<close> (\<open>write_file\<close>): the writer.
  \<^item> \<open>HexRead\<close>: digits as bytes, \<open>unhex\<close>, and what each kind of record does;
    \<open>HexFormat\<close>: a printed record is the text of a data record with the right checksum;
    \<open>HexTrip\<close>: the lines of a file, written and read; \<open>HexSafe\<close>: accesses to the buffer.
    \<open>HexProps\<close>: C29, C34 and C35.

  \<^bold>\<open>Memory search.\<close>
  \<^item> \<open>BinSearch\<close> (\<open>matcher_t\<close>, \<open>forward_matcher_t\<close>) and \<open>BinWalk\<close>
    (\<open>backward_matcher_t\<close>, the walks over the memory ranges, \<open>dbg_bin_search\<close>): the code,
    with pages and patterns as lists whose bounds are checked.
  \<^item> \<open>BinMatch\<close>: what a match is, and the contract \<open>scanned\<close> of every scan of a page.
    \<open>BinProcess\<close>: the process as the locale \<open>debuggee\<close>, and what a result means.
  \<^item> \<open>BinForward\<close>, \<open>BinBackward\<close>: the scans meet the contract, the partial matches
    carried from page to page are those that can still be completed, so each search is right.
    \<open>BinProps\<close>: C31 to C33 and C36.

  \<^bold>\<open>Register tracker.\<close>
  \<^item> \<open>RegValue\<close> (\<open>reg_value_def_t\<close>, \<open>reg_value_base_t\<close>): the values of a register, at most a few
    64-bit words with the place of their definition, or the reason why they are not known;
    constructors, tests and setters.  \<open>RegArith\<close>: \<open>perform_binary_op\<close> and the operations
    of \<open>arith_op_t\<close>, the additions, shifts, extension and truncation in place.
  \<^item> \<open>RegSound\<close>, \<open>RegBinary\<close>: the words that a value describes, given the stack pointer at
    function entry, and each operation against the operation of words; the operations share
    the contract \<open>tracker\<close>, whose interpretation \<open>reg\<close> is the code.  \<open>RegStride\<close>,
    \<open>RegInplace\<close>: the values of a loop (a start and a stride) and the operations in place.
  \<^item> \<open>RegReach\<close>: the calls of the public methods as a step relation, and the values that
    can be built.  \<open>RegOp\<close> (\<open>reg_finder_op_t\<close>): packed operands.
    \<open>RegProps\<close>: C28 and C37 to C40.

  \<^bold>\<open>Wide integers.\<close>  \<open>Wide\<close> (\<open>uint128\<close>, \<open>int128\<close>): two halves of 64 bits against words of
  128 bits, C30.

  \<^bold>\<open>Interfaces.\<close>  \<open>netnode_hash\<close>, \<open>linput\<close>, \<open>linput_frame\<close> and
  \<open>database\<close> (which extends \<open>linput\<close>) and \<open>debuggee\<close> are the laws of functions
  that are not modelled; properties about whole runs carry them as hypotheses and the
  in-memory kernel satisfies them.  The order of the keys of a tree is the locale
  \<open>strict_weak\<close>; what an operation of the register tracker owes its caller is \<open>tracker\<close>.
  \<open>extend_sign\<close>, a function of the kernel, is a parameter of the operations that extend and
  truncate values.

  \<^bold>\<open>Bounds.\<close>  Pointers and sizes are 64-bit words, bus addresses 64-bit words of which
  24 bits are used, ROM sizes 32-bit words compared as signed numbers where the code does.
  The loops of the loader run a number of times computed before they start, so they are
  primitive recursions on that number; no fuel is used anywhere.  The memory search is
  proved for ranges that end at most one page before the end of the address space: beyond
  that the address of the next page wraps to 0 and the loop starts over.  The hexadecimal
  reader is inside its buffer for lines of at most 590 characters; the round trip is proved
  for bytes of eight bits and addresses that fit the digits of the format.

  \<^bold>\<open>What the model shows wrong.\<close>  C25: two banks of LoROM RAM are translated to addresses
  that hold nothing; \<open>SnesProps.lorom_middle_unmapped\<close>: a documented mirror of LoROM
  boards is not translated; \<open>SnesProps.exhirom_top_in_wram\<close>: the last 64 KB of an 8 MB ROM
  are taken for work RAM.  C26: one member of the description does not survive the way
  through the netnode.  Over several memory ranges the search leaves out the beginning of the
  last (\<open>BinProps.forward_walk_stops_early\<close>), searches outside the addresses asked for
  (\<open>BinProps.backward_walk_leaves_range\<close>), and joins matches across the gap between two
  ranges (C36).  \<open>HexProps\<close>: the checksum of a start record is wrong
  (\<open>start_record_checksum\<close>), an overlapping record makes a second segment
  (\<open>overlapping_record_new_segment\<close>), a long line is read outside the buffer
  (\<open>long_line_outside\<close>), the size test can be passed by a database that does not fit
  (\<open>can_write_gap\<close>), and a second file cannot be written (\<open>HexWrite.second_write_fails\<close>).
  \<open>RegProps.shifted_delta_unsound\<close>: a shifted stack pointer is still taken for a stack
  pointer; \<open>RegOp.set_width_of_empty\<close>: the empty operand, given a width, is a register.
  C30: \<open>++\<close> and \<open>--\<close> of \<open>int128\<close> overflow at the ends of the range.

  \<^bold>\<open>Not modelled.\<close>  Iterator invalidation beyond what the heap shows; the wrapper
  methods of \<open>qset\<close> and \<open>qmap\<close> that only forward; names, comments and data items that
  the loader requests are values passed to the kernel, without their effect; messages of
  \<open>print\<close>; heartbeats and the test program of the memory search.
  Of the register tracker, the walk over the code (\<open>reg_finder_t\<close>): it keeps caches and
  visits blocks, instructions and cross-references through functions of the kernel, and the
  processor modules supply the effect of an instruction; union and printing of values are
  kernel functions.  Division of wide integers is not in the repository.  The three-way merge
  \<open>diff3.hpp\<close> drives callbacks of the kernel and the user interface; the other loaders, the
  debugger modules and the RPC server move data between files, sockets or system calls and
  the kernel; each processor module is a decoder and an emulator for one instruction set,
  written against tables and functions of the kernel; plugins and bindings are samples and
  glue; and the kernel headers are declarations.
\<close>

end
